(* ===== verification/Prelude.thy ===== *)
theory Prelude
  imports Main "HOL-Library.Word" "HOL-Library.Char_ord"
begin

text \<open>
  Shared by every component: the outcome of a Go call (a value, an error value, a panic, or a
  model that ran out of fuel), the state-passing actions that carry it, Go's unsigned
  subtraction, the bytes the lexer and the printer name, and the generic lemmas the component proofs
  share.

  A Go \<open>byte\<close> is a \<open>char\<close> of HOL (256 values) and a Go \<open>string\<close> or \<open>[]byte\<close> is a \<open>string\<close>,
  so \<open>length\<close> counts bytes as Go's \<open>len\<close> does. A \<open>rune\<close> is an \<open>int\<close> where it is a decoded code
  point and a \<open>32 word\<close> where the source computes with its bits. A \<open>uint\<close> is a \<open>nat\<close>: every
  value the modelled code stores in one is bounded by the length of a byte slice, which Go keeps
  below \<open>2 ^ 63\<close>; subtraction, the one operation that can leave that range, wraps at \<open>2 ^ 64\<close>
  explicitly (\<open>usub\<close>).
\<close>

named_theorems act_simps \<open>unfolding rules of state-passing actions\<close>

section \<open>Outcomes and state-passing actions\<close>

datatype ('e, 'a) outcome = Ok 'a | Error 'e | Panic | OutOfFuel

type_synonym ('s, 'e, 'a) action = "'s \<Rightarrow> ('e, 'a) outcome \<times> 's"

text \<open>
  A Go function that mutates its receiver and returns \<open>(value, error)\<close> is an action: the state
  after the call is kept whatever the outcome is, because Go keeps it.
\<close>

definition ret :: "'a \<Rightarrow> ('s, 'e, 'a) action" where
  "ret a = (\<lambda>s. (Ok a, s))"

definition fail :: "'e \<Rightarrow> ('s, 'e, 'a) action" where
  "fail e = (\<lambda>s. (Error e, s))"

definition panic :: "('s, 'e, 'a) action" where
  "panic = (\<lambda>s. (Panic, s))"

definition out_of_fuel :: "('s, 'e, 'a) action" where
  "out_of_fuel = (\<lambda>s. (OutOfFuel, s))"

definition get :: "('s \<Rightarrow> 'a) \<Rightarrow> ('s, 'e, 'a) action" where
  "get f = (\<lambda>s. (Ok (f s), s))"

definition andThen :: "('s, 'e, 'a) action \<Rightarrow> ('a \<Rightarrow> ('s, 'e, 'b) action) \<Rightarrow> ('s, 'e, 'b) action" where
  "andThen m k = (\<lambda>s. case m s of
      (Ok a, s') \<Rightarrow> k a s'
    | (Error e, s') \<Rightarrow> (Error e, s')
    | (Panic, s') \<Rightarrow> (Panic, s')
    | (OutOfFuel, s') \<Rightarrow> (OutOfFuel, s'))"

definition lift_outcome :: "('e, 'a) outcome \<Rightarrow> ('s, 'e, 'a) action" where
  "lift_outcome r = (\<lambda>s. (r, s))"

lemma ret_run [simp, act_simps]: "ret a s = (Ok a, s)"
  by (simp add: ret_def)

lemma fail_run [simp, act_simps]: "fail e s = (Error e, s)"
  by (simp add: fail_def)

lemma panic_run [simp, act_simps]: "panic s = (Panic, s)"
  by (simp add: panic_def)

lemma out_of_fuel_run [simp, act_simps]: "out_of_fuel s = (OutOfFuel, s)"
  by (simp add: out_of_fuel_def)

lemma get_run [simp, act_simps]: "get f s = (Ok (f s), s)"
  by (simp add: get_def)

lemma lift_outcome_run [simp, act_simps]: "lift_outcome r s = (r, s)"
  by (simp add: lift_outcome_def)

lemma andThen_Ok: "m s = (Ok a, s') \<Longrightarrow> andThen m k s = k a s'"
  by (simp add: andThen_def)

lemma andThen_OkE:
  assumes "andThen m k s = (Ok b, s'')"
  obtains a s' where "m s = (Ok a, s')" and "k a s' = (Ok b, s'')"
  using assms by (auto simp: andThen_def split: prod.splits outcome.splits)

lemma andThen_assoc: "andThen (andThen m f) g = andThen m (\<lambda>a. andThen (f a) g)"
  by (auto simp: andThen_def fun_eq_iff split: prod.splits outcome.splits)

lemma andThen_ret [simp]: "andThen (ret a) k = k a"
  by (simp add: andThen_def fun_eq_iff)

lemma andThen_get [simp]: "andThen (get f) k s = k (f s) s"
  by (simp add: andThen_def)

definition bind_outcome :: "('e, 'a) outcome \<Rightarrow> ('a \<Rightarrow> ('e, 'b) outcome) \<Rightarrow> ('e, 'b) outcome" where
  "bind_outcome r k = (case r of Ok a \<Rightarrow> k a | Error e \<Rightarrow> Error e | Panic \<Rightarrow> Panic | OutOfFuel \<Rightarrow> OutOfFuel)"

lemma bind_outcome_simps [simp]:
  "bind_outcome (Ok a) k = k a" "bind_outcome (Error e) k = Error e" "bind_outcome Panic k = Panic"
  "bind_outcome OutOfFuel k = OutOfFuel"
  by (simp_all add: bind_outcome_def)

lemma bind_outcome_OkE:
  assumes "bind_outcome r k = Ok b"
  obtains a where "r = Ok a" and "k a = Ok b"
  using assms by (cases r) auto

section \<open>Go's unsigned integers\<close>

definition usub :: "nat \<Rightarrow> nat \<Rightarrow> nat" where
  "usub a b = (if b \<le> a then a - b else a + 2 ^ 64 - b)"

lemma usub_le [simp]: "b \<le> a \<Longrightarrow> usub a b = a - b"
  by (simp add: usub_def)

section \<open>Bytes the source names\<close>

abbreviation NUL :: char where "NUL \<equiv> CHR 0x00"
abbreviation TAB :: char where "TAB \<equiv> CHR 0x09"
abbreviation LF :: char where "LF \<equiv> CHR 0x0A"
abbreviation CR :: char where "CR \<equiv> CHR 0x0D"
abbreviation SPACE :: char where "SPACE \<equiv> CHR 0x20"
abbreviation QUOTE :: char where "QUOTE \<equiv> CHR 0x22"
abbreviation APOSTROPHE :: char where "APOSTROPHE \<equiv> CHR 0x27"
abbreviation BACKSLASH :: char where "BACKSLASH \<equiv> CHR 0x5C"

definition byte_of :: "char \<Rightarrow> nat" where
  "byte_of c = of_char c"

definition is_digit :: "char \<Rightarrow> bool" where
  "is_digit c \<longleftrightarrow> CHR ''0'' \<le> c \<and> c \<le> CHR ''9''"

definition is_name_start :: "char \<Rightarrow> bool" where
  "is_name_start c \<longleftrightarrow> c = CHR ''_'' \<or> (CHR ''a'' \<le> c \<and> c \<le> CHR ''z'') \<or> (CHR ''A'' \<le> c \<and> c \<le> CHR ''Z'')"

definition is_name_char :: "char \<Rightarrow> bool" where
  "is_name_char c \<longleftrightarrow> c = CHR ''_'' \<or> (CHR ''0'' \<le> c \<and> c \<le> CHR ''9'')
     \<or> (CHR ''a'' \<le> c \<and> c \<le> CHR ''z'') \<or> (CHR ''A'' \<le> c \<and> c \<le> CHR ''Z'')"

lemma byte_of_less [simp]: "byte_of c < 256"
  by (simp add: byte_of_def)

lemma byte_of_inject [simp]: "byte_of c = byte_of d \<longleftrightarrow> c = d"
  by (simp add: byte_of_def)

lemma less_char_byte_of: "c < d \<longleftrightarrow> byte_of c < byte_of d"
  by (simp add: less_char_def byte_of_def)

lemma less_eq_char_byte_of: "c \<le> d \<longleftrightarrow> byte_of c \<le> byte_of d"
  by (simp add: less_eq_char_def byte_of_def)

lemma is_name_start_char: "is_name_start c \<Longrightarrow> is_name_char c"
  by (auto simp: is_name_start_def is_name_char_def)

section \<open>List lemmas\<close>

lemma nth_drop_hd: "i < length xs \<Longrightarrow> drop i xs = xs ! i # drop (Suc i) xs"
  by (simp add: Cons_nth_drop_Suc)

lemma take_drop_snoc:
  "i \<le> j \<Longrightarrow> j < length xs \<Longrightarrow> take (Suc j - i) (drop i xs) = take (j - i) (drop i xs) @ [xs ! j]"
  by (simp add: Suc_diff_le take_Suc_conv_app_nth)

end
