(* ===== verification/GoLib.thy ===== *)
theory GoLib
  imports Prelude
begin

text \<open>
  The parts of Go's standard library that the front end calls, as the library documents them:
  \<open>unicode/utf8\<close> (\<open>DecodeRune\<close>, \<open>EncodeRune\<close>), the verbs of \<open>fmt.Sprintf\<close> used in messages
  (\<open>%c\<close>, \<open>%04X\<close>, \<open>%d\<close>) and \<open>strings.Join\<close> and \<open>strings.Repeat\<close>. The lemmas relate decoding
  and encoding: a valid code point survives the round trip.
\<close>

section \<open>UTF-8\<close>

abbreviation RuneSelf :: nat where "RuneSelf \<equiv> 0x80"
abbreviation RuneError :: nat where "RuneError \<equiv> 0xFFFD"
abbreviation MaxRune :: nat where "MaxRune \<equiv> 0x10FFFF"

abbreviation byte :: "nat \<Rightarrow> char" where "byte n \<equiv> char_of n"

text \<open>
  \<open>utf8_first\<close> is the table of leading bytes: the size of the sequence and the range the second
  byte must lie in; \<open>None\<close> for a byte that cannot start a multi-byte sequence.
\<close>

definition utf8_first :: "nat \<Rightarrow> (nat \<times> nat \<times> nat) option" where
  "utf8_first b0 =
     (if 0xC2 \<le> b0 \<and> b0 \<le> 0xDF then Some (2, 0x80, 0xBF)
      else if b0 = 0xE0 then Some (3, 0xA0, 0xBF)
      else if b0 = 0xED then Some (3, 0x80, 0x9F)
      else if 0xE1 \<le> b0 \<and> b0 \<le> 0xEF then Some (3, 0x80, 0xBF)
      else if b0 = 0xF0 then Some (4, 0x90, 0xBF)
      else if b0 = 0xF4 then Some (4, 0x80, 0x8F)
      else if 0xF1 \<le> b0 \<and> b0 \<le> 0xF3 then Some (4, 0x80, 0xBF)
      else None)"

definition utf8_cont :: "nat \<Rightarrow> bool" where
  "utf8_cont b \<longleftrightarrow> 0x80 \<le> b \<and> b \<le> 0xBF"

definition utf8_DecodeRune :: "string \<Rightarrow> nat \<times> nat" where
  "utf8_DecodeRune p =
     (case map byte_of p of
        [] \<Rightarrow> (RuneError, 0)
      | b0 # bs \<Rightarrow>
         if b0 < RuneSelf then (b0, 1)
         else (case utf8_first b0 of
            None \<Rightarrow> (RuneError, 1)
          | Some (sz, lo, hi) \<Rightarrow>
             (case bs of
                [] \<Rightarrow> (RuneError, 1)
              | b1 # cs \<Rightarrow>
                 if sz \<le> Suc (length bs) \<and> lo \<le> b1 \<and> b1 \<le> hi then
                   (if sz = 2 then ((b0 mod 32) * 64 + b1 mod 64, 2)
                    else (case cs of
                       [] \<Rightarrow> (RuneError, 1)
                     | b2 # ds \<Rightarrow>
                        if \<not> utf8_cont b2 then (RuneError, 1)
                        else if sz = 3 then
                          ((b0 mod 16) * 4096 + (b1 mod 64) * 64 + b2 mod 64, 3)
                        else (case ds of
                           [] \<Rightarrow> (RuneError, 1)
                         | b3 # _ \<Rightarrow>
                            if \<not> utf8_cont b3 then (RuneError, 1)
                            else ((b0 mod 8) * 262144 + (b1 mod 64) * 4096
                                  + (b2 mod 64) * 64 + b3 mod 64, 4))))
                 else (RuneError, 1))))"

definition utf8_valid_rune :: "nat \<Rightarrow> bool" where
  "utf8_valid_rune r \<longleftrightarrow> r \<le> MaxRune \<and> \<not> (0xD800 \<le> r \<and> r \<le> 0xDFFF)"

definition utf8_EncodeRune :: "nat \<Rightarrow> string" where
  "utf8_EncodeRune r0 =
     (let r = (if utf8_valid_rune r0 then r0 else RuneError) in
      if r \<le> 0x7F then [byte r]
      else if r \<le> 0x7FF then [byte (0xC0 + r div 64), byte (0x80 + r mod 64)]
      else if r \<le> 0xFFFF then
        [byte (0xE0 + r div 4096), byte (0x80 + (r div 64) mod 64), byte (0x80 + r mod 64)]
      else
        [byte (0xF0 + r div 262144), byte (0x80 + (r div 4096) mod 64),
         byte (0x80 + (r div 64) mod 64), byte (0x80 + r mod 64)])"

section \<open>fmt and strings\<close>

definition hex_digit_upper :: "nat \<Rightarrow> char" where
  "hex_digit_upper n = (if n < 10 then char_of (48 + n) else char_of (55 + n))"

fun hex_upper :: "nat \<Rightarrow> string" where
  "hex_upper n = (if n < 16 then [hex_digit_upper n] else hex_upper (n div 16) @ [hex_digit_upper (n mod 16)])"

declare hex_upper.simps [simp del]

text \<open>\<open>%04X\<close>\<close>

definition fmt_04X :: "nat \<Rightarrow> string" where
  "fmt_04X n = replicate (4 - length (hex_upper n)) (CHR ''0'') @ hex_upper n"

fun fmt_d :: "nat \<Rightarrow> string" where
  "fmt_d n = (if n < 10 then [char_of (48 + n)] else fmt_d (n div 10) @ [char_of (48 + n mod 10)])"

declare fmt_d.simps [simp del]

text \<open>\<open>strconv.FormatInt\<close> in base 10.\<close>

definition FormatInt :: "int \<Rightarrow> string" where
  "FormatInt n = (if n < 0 then CHR ''-'' # fmt_d (nat (- n)) else fmt_d (nat n))"

fun strings_Join :: "string list \<Rightarrow> string \<Rightarrow> string" where
  "strings_Join [] sep = []"
| "strings_Join [x] sep = x"
| "strings_Join (x # y # ys) sep = x @ sep @ strings_Join (y # ys) sep"

definition strings_Repeat :: "string \<Rightarrow> nat \<Rightarrow> string" where
  "strings_Repeat s n = concat (replicate n s)"

text \<open>
  \<open>strings.Replace(s, old, new, -1)\<close> for an \<open>old\<close> that is not empty, the only use the source makes of it.
\<close>

function strings_Replace :: "string \<Rightarrow> string \<Rightarrow> string \<Rightarrow> string" where
  "strings_Replace s old new =
     (if s = [] \<or> old = [] then s
      else if take (length old) s = old then new @ strings_Replace (drop (length old) s) old new
      else hd s # strings_Replace (tl s) old new)"
  by pat_completeness auto
termination
  by (relation "measure (\<lambda>(s, old, new). length s)") auto

declare strings_Replace.simps [simp del]

section \<open>Decoding and encoding\<close>

lemma byte_of_char_of [simp]: "n < 256 \<Longrightarrow> byte_of (char_of n) = n"
  by (simp add: byte_of_def)

lemma char_of_byte_of [simp]: "char_of (byte_of c) = c"
  by (simp add: byte_of_def)

lemma utf8_DecodeRune_size: "p \<noteq> [] \<Longrightarrow> 1 \<le> snd (utf8_DecodeRune p) \<and> snd (utf8_DecodeRune p) \<le> 4"
  by (cases p) (auto simp: utf8_DecodeRune_def utf8_first_def split: list.splits option.splits)

lemma utf8_DecodeRune_size_le: "snd (utf8_DecodeRune p) \<le> length p"
  by (cases p) (auto simp: utf8_DecodeRune_def utf8_first_def split: list.splits option.splits)

lemma utf8_EncodeRune_nonempty [simp]: "utf8_EncodeRune r \<noteq> []"
  by (simp add: utf8_EncodeRune_def Let_def)

lemma utf8_EncodeRune_ascii: "r < RuneSelf \<Longrightarrow> utf8_EncodeRune r = [byte r]"
  by (simp add: utf8_EncodeRune_def utf8_valid_rune_def)

lemma mod_offset: "x < m \<Longrightarrow> (k * m + x) mod m = (x :: nat)"
  by simp

lemma utf8_offsets:
  "x < 32 \<Longrightarrow> (0xC0 + x) mod 32 = (x :: nat)" "x < 16 \<Longrightarrow> (0xE0 + x) mod 16 = (x :: nat)"
  "x < 8 \<Longrightarrow> (0xF0 + x) mod 8 = (x :: nat)" "x < 64 \<Longrightarrow> (0x80 + x) mod 64 = (x :: nat)"
  using mod_offset [of x 32 6] mod_offset [of x 16 14] mod_offset [of x 8 30] mod_offset [of x 64 2]
  by simp_all

text \<open>The base-64 digits of a code point.\<close>

lemma base64_digits:
  fixes r :: nat
  obtains a b c d where "r = a * 262144 + b * 4096 + c * 64 + d" and "b < 64" "c < 64" "d < 64"
    and "r mod 64 = d" "r div 64 mod 64 = c" "r div 64 = (a * 64 + b) * 64 + c"
    and "r div 4096 mod 64 = b" "r div 4096 = a * 64 + b" "r div 262144 = a"
proof
  have m: "r div 4096 = r div 64 div 64" "r div 262144 = r div 64 div 64 div 64"
    by (simp_all flip: div_mult2_eq)
  have "r = ((r div 262144 * 64 + r div 4096 mod 64) * 64 + r div 64 mod 64) * 64 + r mod 64"
    unfolding m by (simp only: div_mult_mod_eq)
  then show "r = r div 262144 * 262144 + r div 4096 mod 64 * 4096 + r div 64 mod 64 * 64 + r mod 64"
    by (simp add: algebra_simps)
  show "r div 64 = (r div 262144 * 64 + r div 4096 mod 64) * 64 + r div 64 mod 64"
    unfolding m by (simp only: div_mult_mod_eq)
  show "r div 4096 = r div 262144 * 64 + r div 4096 mod 64"
    unfolding m by (simp only: div_mult_mod_eq)
qed simp_all

lemma utf8_decode_encode:
  assumes "utf8_valid_rune r"
  shows "utf8_DecodeRune (utf8_EncodeRune r @ rest) = (r, length (utf8_EncodeRune r))"
proof -
  obtain a b c d where r: "r = a * 262144 + b * 4096 + c * 64 + d" and bcd: "b < 64" "c < 64" "d < 64"
    and dig: "r mod 64 = d" "r div 64 mod 64 = c" "r div 64 = (a * 64 + b) * 64 + c"
      "r div 4096 mod 64 = b" "r div 4096 = a * 64 + b" "r div 262144 = a"
    by (rule base64_digits [of r])
  consider "r \<le> 0x7F" | "0x80 \<le> r" "r \<le> 0x7FF" | "0x800 \<le> r" "r \<le> 0xFFFF"
    | "0x10000 \<le> r" "r \<le> MaxRune"
    using assms unfolding utf8_valid_rune_def by linarith
  then show ?thesis
  proof cases
    case 1
    then show ?thesis using assms by (simp add: utf8_EncodeRune_def utf8_DecodeRune_def)
  next
    case 2
    have "a < 1" using 2 r bcd by linarith
    moreover have "b < 1" using 2 r bcd by linarith
    ultimately have "a = 0" "b = 0" by simp_all
    have c: "2 \<le> c \<and> c < 32" using 2 r bcd \<open>a = 0\<close> \<open>b = 0\<close> by auto
    have "utf8_first (0xC0 + c) = Some (2, 0x80, 0xBF)"
      using c by (simp add: utf8_first_def)
    then show ?thesis using assms 2 bcd dig r c \<open>a = 0\<close> \<open>b = 0\<close> utf8_offsets
      by (simp add: utf8_EncodeRune_def utf8_DecodeRune_def)
  next
    case 3
    have "a < 1" using 3 r bcd by linarith
    then have "a = 0" by simp
    have b: "b < 16" using 3 r bcd by linarith
    have "utf8_first (0xE0 + b) = Some (3, if b = 0 then 0xA0 else 0x80, if b = 13 then 0x9F else 0xBF)"
      using b by (auto simp: utf8_first_def)
    moreover have "(if b = 0 then 0xA0 else 0x80) \<le> 0x80 + c"
      using 3 r bcd \<open>a = 0\<close> by (auto split: if_split)
    moreover have "0x80 + c \<le> (if b = 13 then 0x9F else 0xBF)"
      using assms 3 r bcd \<open>a = 0\<close> unfolding utf8_valid_rune_def by (auto split: if_split)
    ultimately show ?thesis using assms 3 bcd dig r b \<open>a = 0\<close> utf8_offsets
      by (simp add: utf8_EncodeRune_def utf8_DecodeRune_def utf8_cont_def)
  next
    case 4
    with r have a: "a \<le> 4" by linarith
    have "utf8_first (0xF0 + a) = Some (4, if a = 0 then 0x90 else 0x80, if a = 4 then 0x8F else 0xBF)"
      using a by (auto simp: utf8_first_def)
    moreover have "(if a = 0 then 0x90 else 0x80) \<le> 0x80 + b"
      using 4 r bcd by (auto split: if_split)
    moreover have "0x80 + b \<le> (if a = 4 then 0x8F else 0xBF)"
      using 4 r bcd by (auto split: if_split)
    ultimately show ?thesis using assms 4 bcd dig r a utf8_offsets
      by (simp add: utf8_EncodeRune_def utf8_DecodeRune_def utf8_cont_def)
  qed
qed

text \<open>Encoding a decoded rune gives back its bytes; a rune of several bytes has no byte below \<open>RuneSelf\<close>.\<close>

lemma base64_step: "z < 64 \<Longrightarrow> c = k * 64 + z \<Longrightarrow> c div 64 = k \<and> c mod 64 = (z :: nat)"
  by simp

lemma utf8_encode_decode:
  assumes dec: "utf8_DecodeRune s = (c, n)" and s: "s \<noteq> []" and ok: "\<not> (c = RuneError \<and> n = 1)"
  shows "utf8_EncodeRune c = take n s \<and> (RuneSelf \<le> byte_of (hd s) \<longrightarrow> (\<forall>b \<in> set (take n s). RuneSelf \<le> byte_of b))"
proof -
  obtain b0 t where s0: "s = b0 # t" using s by (cases s) auto
  show ?thesis
  proof (cases "byte_of b0 < RuneSelf")
    case True
    then show ?thesis using dec s0 by (auto simp: utf8_DecodeRune_def utf8_EncodeRune_ascii)
  next
    case False
    then obtain sz lo hi where f: "utf8_first (byte_of b0) = Some (sz, lo, hi)"
      using dec s0 ok by (cases "utf8_first (byte_of b0)") (auto simp: utf8_DecodeRune_def)
    obtain b1 u where t: "t = b1 # u" "sz \<le> Suc (length t)" "lo \<le> byte_of b1" "byte_of b1 \<le> hi"
      using dec s0 ok False f by (cases t) (auto simp: utf8_DecodeRune_def split: if_splits)
    have lh: "0x80 \<le> lo" "hi \<le> 0xBF" "sz = 2 \<or> sz = 3 \<or> sz = 4" using f by (auto simp: utf8_first_def split: if_splits)
    obtain y where y: "byte_of b1 = 0x80 + y" "y < 64" using t lh by (intro that [of "byte_of b1 - 0x80"]) auto
    consider (two) "sz = 2" | (three) b2 v where "sz = 3" "u = b2 # v" "utf8_cont (byte_of b2)"
      | (four) b2 b3 v where "sz = 4" "u = b2 # b3 # v" "utf8_cont (byte_of b2)" "utf8_cont (byte_of b3)"
    proof -
      show thesis if a: "sz = 2 \<Longrightarrow> thesis" "\<And>b2 v. sz = 3 \<Longrightarrow> u = b2 # v \<Longrightarrow> utf8_cont (byte_of b2) \<Longrightarrow> thesis"
        "\<And>b2 b3 v. sz = 4 \<Longrightarrow> u = b2 # b3 # v \<Longrightarrow> utf8_cont (byte_of b2) \<Longrightarrow> utf8_cont (byte_of b3) \<Longrightarrow> thesis"
        using dec s0 ok False f t lh(3) a
        by (cases u; cases "tl u") (auto simp: utf8_DecodeRune_def split: if_splits)
    qed
    then show ?thesis
    proof cases
      case two
      obtain x where x: "byte_of b0 = 0xC0 + x" "2 \<le> x" "x < 32"
        using f two by (intro that [of "byte_of b0 - 0xC0"]) (auto simp: utf8_first_def split: if_splits)
      have c: "c = x * 64 + y" "n = 2" using dec s0 t f two False x y utf8_offsets by (auto simp: utf8_DecodeRune_def)
      have "0x80 \<le> c" "c \<le> 0x7FF" using c x y by linarith+
      moreover have "c div 64 = x" "c mod 64 = y" using c y by simp_all
      moreover have "b0 = byte (0xC0 + x)" "b1 = byte (0x80 + y)" using x y by (metis char_of_byte_of)+
      ultimately show ?thesis using c s0 t x y by (simp add: utf8_EncodeRune_def utf8_valid_rune_def)
    next
      case three
      obtain x where x: "byte_of b0 = 0xE0 + x" "x < 16" "lo = (if x = 0 then 0xA0 else 0x80)" "hi = (if x = 13 then 0x9F else 0xBF)"
        using f three(1) by (intro that [of "byte_of b0 - 0xE0"]) (auto simp: utf8_first_def split: if_splits)
      obtain z where z: "byte_of b2 = 0x80 + z" "z < 64"
        using three(3) by (intro that [of "byte_of b2 - 0x80"]) (auto simp: utf8_cont_def)
      have c: "c = x * 4096 + y * 64 + z" "n = 3"
        using dec s0 t f three False x(1,2) y z utf8_offsets by (auto simp: utf8_DecodeRune_def)
      have "0x800 \<le> c" using c x(1-3) y z t(3) by (cases "x = 0") auto
      moreover have "c \<le> 0xFFFF" using c x(2) y z by linarith
      moreover have "\<not> (0xD800 \<le> c \<and> c \<le> 0xDFFF)"
      proof (cases "x = 13")
        case True
        then have "y < 32" using x(4) t(4) y by simp
        then show ?thesis using c True z by simp
      next
        case False
        then have "x < 13 \<or> 13 < x" by auto
        then show ?thesis using c y z by auto
      qed
      moreover have "c div 4096 = x" "c div 64 mod 64 = y" "c mod 64 = z"
      proof -
        have "c = (x * 64 + y) * 64 + z" using c by simp
        then have d: "c div 64 = x * 64 + y" "c mod 64 = z" using base64_step [OF z(2)] by blast+
        have "c div 4096 = c div 64 div 64" by (simp flip: div_mult2_eq)
        then show "c div 4096 = x" "c div 64 mod 64 = y" "c mod 64 = z" using d y by simp_all
      qed
      moreover have "b0 = byte (0xE0 + x)" "b1 = byte (0x80 + y)" "b2 = byte (0x80 + z)" using x(1) y z by (metis char_of_byte_of)+
      ultimately show ?thesis using c s0 t three x(1) y z by (simp add: utf8_EncodeRune_def utf8_valid_rune_def)
    next
      case four
      obtain x where x: "byte_of b0 = 0xF0 + x" "x \<le> 4" "lo = (if x = 0 then 0x90 else 0x80)" "hi = (if x = 4 then 0x8F else 0xBF)"
        using f four(1) by (intro that [of "byte_of b0 - 0xF0"]) (auto simp: utf8_first_def split: if_splits)
      obtain z where z: "byte_of b2 = 0x80 + z" "z < 64"
        using four(3) by (intro that [of "byte_of b2 - 0x80"]) (auto simp: utf8_cont_def)
      obtain w where w: "byte_of b3 = 0x80 + w" "w < 64"
        using four(4) by (intro that [of "byte_of b3 - 0x80"]) (auto simp: utf8_cont_def)
      have c: "c = x * 262144 + y * 4096 + z * 64 + w" "n = 4"
        using dec s0 t f four False x(1,2) y z w utf8_offsets by (auto simp: utf8_DecodeRune_def)
      have "0x10000 \<le> c" using c x(1-3) y z t(3) by (cases "x = 0") auto
      moreover have "c \<le> 0x10FFFF"
      proof (cases "x = 4")
        case True
        then have "y < 16" using x(4) t(4) y by simp
        then show ?thesis using c True z w by simp
      next
        case False
        then show ?thesis using c x(2) y z w by simp
      qed
      moreover have "c div 262144 = x" "c div 4096 mod 64 = y" "c div 64 mod 64 = z" "c mod 64 = w"
      proof -
        have "c = ((x * 64 + y) * 64 + z) * 64 + w" using c by simp
        then have d: "c div 64 = (x * 64 + y) * 64 + z" "c mod 64 = w" using base64_step [OF w(2)] by blast+
        have e: "c div 4096 = c div 64 div 64" "c div 262144 = c div 64 div 64 div 64" by (simp_all flip: div_mult2_eq)
        have "c div 64 div 64 = x * 64 + y" "c div 64 mod 64 = z" using base64_step [OF z(2) d(1)] by blast+
        then show "c div 262144 = x" "c div 4096 mod 64 = y" "c div 64 mod 64 = z" "c mod 64 = w" using d e y z by simp_all
      qed
      moreover have "b0 = byte (0xF0 + x)" "b1 = byte (0x80 + y)" "b2 = byte (0x80 + z)" "b3 = byte (0x80 + w)"
        using x(1) y z w by (metis char_of_byte_of)+
      ultimately show ?thesis using c s0 t four x(1) y z w by (simp add: utf8_EncodeRune_def utf8_valid_rune_def)
    qed
  qed
qed

end
