(* ===== verification/Source.thy ===== *)
theory Source
  imports GoLib
begin

text \<open>
  \<open>graphql/token/source.go\<close> and \<open>graphql/token/location.go\<close>: the body of a GraphQL document as
  bytes, its configuration, the conversions between byte positions and locations, and the
  computation of line and column numbers. The lemmas give the round trip between positions and
  locations, and relate the loop of \<open>LocationInfoOf\<close> to a specification over the text before the
  position.
\<close>

section \<open>Locations\<close>

text \<open>
  \<open>SourceLocation\<close> is a \<open>uint\<close>: a 1-based byte offset, 0 for no location. \<open>WithOffset\<close> adds
  two Go \<open>int\<close>s and converts back.
\<close>

type_synonym source_location = nat

definition NoSourceLocation :: source_location where
  "NoSourceLocation = 0"

definition location_IsValid :: "source_location \<Rightarrow> bool" where
  "location_IsValid location \<longleftrightarrow> location \<noteq> NoSourceLocation"

definition WithOffset :: "source_location \<Rightarrow> int \<Rightarrow> source_location" where
  "WithOffset location offset = nat ((int location + offset) mod 2 ^ 64)"

record source_range =
  range_Begin :: source_location
  range_End :: source_location

definition range_IsValid :: "source_range \<Rightarrow> bool" where
  "range_IsValid r \<longleftrightarrow> location_IsValid (range_Begin r) \<and> location_IsValid (range_End r)"

section \<open>Source bodies\<close>

type_synonym source_body = string

definition Size :: "source_body \<Rightarrow> nat" where
  "Size body = length body"

text \<open>\<open>RuneAt\<close>: \<open>-1\<close> and size 0 past the end.\<close>

definition RuneAt :: "source_body \<Rightarrow> nat \<Rightarrow> int \<times> nat" where
  "RuneAt body pos =
     (if length body \<le> pos then (-1, 0)
      else let c = body ! pos in
        if byte_of c < RuneSelf then (int (byte_of c), 1)
        else (case utf8_DecodeRune (drop pos body) of (r, n) \<Rightarrow> (int r, n)))"

definition At :: "source_body \<Rightarrow> nat \<Rightarrow> char" where
  "At body pos = (if Size body \<le> pos then NUL else body ! pos)"

text \<open>\<open>SubStr\<close>: slicing \<open>body[start:end]\<close> panics unless \<open>start <= end <= len(body)\<close>.\<close>

definition SubStr :: "source_body \<Rightarrow> nat \<Rightarrow> nat \<Rightarrow> ('e, string) outcome" where
  "SubStr body start end' =
     (if start \<le> end' \<and> end' \<le> length body then Ok (take (end' - start) (drop start body)) else Panic)"

section \<open>Sources and their options\<close>

record source =
  source_body :: source_body
  source_name :: string
  source_lineOffset :: nat
  source_columnOffset :: nat

type_synonym source_option = "source \<Rightarrow> source"

definition SourceName :: "string \<Rightarrow> source_option" where
  "SourceName name = (\<lambda>source. source\<lparr>source_name := name\<rparr>)"

definition SourceLineOffset :: "nat \<Rightarrow> source_option" where
  "SourceLineOffset offset = (\<lambda>source. source\<lparr>source_lineOffset := offset\<rparr>)"

definition SourceColumnOffset :: "nat \<Rightarrow> source_option" where
  "SourceColumnOffset offset = (\<lambda>source. source\<lparr>source_columnOffset := offset\<rparr>)"

definition NewSourceFromBytes :: "string \<Rightarrow> source_option list \<Rightarrow> source" where
  "NewSourceFromBytes b opts =
     foldl (\<lambda>source opt. opt source)
       \<lparr>source_body = b, source_name = ''GraphQL request'', source_lineOffset = 0, source_columnOffset = 0\<rparr>
       opts"

text \<open>\<open>NewSource\<close> takes the bytes behind the string without copying; the body is read-only.\<close>

definition NewSource :: "string \<Rightarrow> source_option list \<Rightarrow> source" where
  "NewSource s opts = NewSourceFromBytes s opts"

definition LocationFromPos :: "source \<Rightarrow> nat \<Rightarrow> ('e, source_location) outcome" where
  "LocationFromPos source bytePos =
     (if bytePos > Size (source_body source) then Panic else Ok (bytePos + 1))"

definition PosFromLocation :: "source \<Rightarrow> source_location \<Rightarrow> ('e, nat) outcome" where
  "PosFromLocation source location =
     (if \<not> location_IsValid location \<or> location > Size (source_body source) + 1 then Panic
      else Ok (usub location 1))"

section \<open>Lines and columns\<close>

record location_info =
  info_Name :: string
  info_Line :: nat
  info_Column :: nat

text \<open>
  The loop of \<open>LocationInfoOf\<close> with its variables \<open>i\<close>, \<open>line\<close> and \<open>column\<close>. At \<open>\r\<close> of a
  \<open>\r\n\<close> pair only \<open>i\<close> moves; when the \<open>\n\<close> itself is the requested position the result is
  column 0 of the next line.
\<close>

function locationLoop :: "source_body \<Rightarrow> nat \<Rightarrow> nat \<Rightarrow> nat \<Rightarrow> nat \<Rightarrow> nat \<times> nat" where
  "locationLoop body position i line column =
     (if i < position then
        (if At body i = CR then
           (if i + 1 < Size body \<and> At body (i + 1) = LF then
              (if i + 1 = position then locationLoop body position (i + 1) (line + 1) 0
               else locationLoop body position (i + 1) line column)
            else locationLoop body position (i + 1) (line + 1) 1)
         else if At body i = LF then locationLoop body position (i + 1) (line + 1) 1
         else locationLoop body position (i + 1) line (column + 1))
      else (line, column))"
  by pat_completeness auto
termination
  by (relation "measure (\<lambda>(body, position, i, line, column). position - i)") auto

declare locationLoop.simps [simp del]

definition LocationInfoOf :: "source \<Rightarrow> source_location \<Rightarrow> location_info" where
  "LocationInfoOf source loc =
     (if \<not> location_IsValid loc then
        \<lparr>info_Name = source_name source, info_Line = 0, info_Column = 0\<rparr>
      else
        let bodySize = Size (source_body source);
            position = (if usub loc 1 \<ge> bodySize then bodySize else usub loc 1)
        in case locationLoop (source_body source) position 0 1 1 of
             (line, column) \<Rightarrow>
               \<lparr>info_Name = source_name source,
                info_Line = source_lineOffset source + line,
                info_Column = source_columnOffset source + column\<rparr>)"

section \<open>What the positions mean\<close>

text \<open>
  A specification of line and column numbers that does not scan: a line starts at offset 0 and
  after every line terminator (\<open>\n\<close>, \<open>\r\<close> not followed by \<open>\n\<close>, or \<open>\r\n\<close>); the number of a
  line is how many lines start up to the position, the column counts from the last start.
\<close>

definition crlf_middle :: "source_body \<Rightarrow> nat \<Rightarrow> bool" where
  "crlf_middle body i \<longleftrightarrow> 0 < i \<and> i < length body \<and> body ! (i - 1) = CR \<and> body ! i = LF"

definition line_start :: "source_body \<Rightarrow> nat \<Rightarrow> bool" where
  "line_start body i \<longleftrightarrow> i = 0 \<or>
     (i \<le> length body \<and> (body ! (i - 1) = LF \<or> body ! (i - 1) = CR) \<and> \<not> crlf_middle body i)"

definition line_starts :: "source_body \<Rightarrow> nat \<Rightarrow> nat list" where
  "line_starts body i = filter (line_start body) [0..<Suc i]"

definition line_column :: "source_body \<Rightarrow> nat \<Rightarrow> nat \<times> nat" where
  "line_column body i =
     (if crlf_middle body i then (length (line_starts body i) + 1, 0)
      else (length (line_starts body i), i + 1 - last (line_starts body i)))"

lemma line_starts_0 [simp]: "line_starts body 0 = [0]"
  by (simp add: line_starts_def line_start_def)

lemma line_starts_Suc:
  "line_starts body (Suc i) = line_starts body i @ (if line_start body (Suc i) then [Suc i] else [])"
  by (simp add: line_starts_def)

lemma line_starts_nonempty: "line_starts body i \<noteq> []"
  by (induction i) (simp_all add: line_starts_Suc)

lemma last_line_starts: "last (line_starts body i) \<le> i \<and> line_start body (last (line_starts body i))"
proof (induction i)
  case (Suc i)
  then show ?case by (auto simp: line_starts_Suc)
qed (simp add: line_start_def)

text \<open>
  The invariant of the loop: at an offset inside a \<open>\r\n\<close> pair only the line number is
  meaningful, because the step over \<open>\n\<close> resets the column.
\<close>

definition location_inv :: "source_body \<Rightarrow> nat \<Rightarrow> nat \<Rightarrow> nat \<Rightarrow> bool" where
  "location_inv body i line column \<longleftrightarrow>
     line = length (line_starts body i) \<and>
     (\<not> crlf_middle body i \<longrightarrow> column = i + 1 - last (line_starts body i))"

lemma location_inv_step:
  assumes inv: "location_inv body i line column" and i: "i < length body"
  shows "body ! i = LF \<Longrightarrow> location_inv body (Suc i) (line + 1) 1"
    and "body ! i = CR \<Longrightarrow> \<not> crlf_middle body (Suc i) \<Longrightarrow> location_inv body (Suc i) (line + 1) 1"
    and "body ! i = CR \<Longrightarrow> crlf_middle body (Suc i) \<Longrightarrow> location_inv body (Suc i) line column"
    and "body ! i \<noteq> LF \<Longrightarrow> body ! i \<noteq> CR \<Longrightarrow> location_inv body (Suc i) line (column + 1)"
proof -
  note d = location_inv_def line_starts_Suc line_start_def crlf_middle_def
  show "location_inv body (Suc i) (line + 1) 1" if "body ! i = LF"
    using inv i that by (auto simp: d)
  show "location_inv body (Suc i) (line + 1) 1" if "body ! i = CR" "\<not> crlf_middle body (Suc i)"
    using inv i that by (auto simp: d)
  show "location_inv body (Suc i) line column" if "body ! i = CR" "crlf_middle body (Suc i)"
    using inv i that by (auto simp: d)
  show "location_inv body (Suc i) line (column + 1)" if "body ! i \<noteq> LF" "body ! i \<noteq> CR"
  proof -
    have no: "\<not> crlf_middle body i" "\<not> line_start body (Suc i)"
      using that i by (auto simp: crlf_middle_def line_start_def)
    moreover have "last (line_starts body i) \<le> i" using last_line_starts by blast
    ultimately show ?thesis using inv by (simp add: location_inv_def line_starts_Suc Suc_diff_le)
  qed
qed

lemma locationLoop_correct:
  assumes "location_inv body i line column" and "i \<le> position" and "position \<le> length body"
    and "crlf_middle body i \<Longrightarrow> i < position"
  shows "locationLoop body position i line column = line_column body position"
  using assms
proof (induction "position - i" arbitrary: i line column)
  case 0
  then have "i = position" "\<not> crlf_middle body position" by auto
  with "0.prems"(1) show ?case
    by (simp add: locationLoop.simps [of body position position] line_column_def location_inv_def)
next
  case (Suc n)
  then have less: "i < position" and i: "i < length body" and At: "At body i = body ! i"
    by (auto simp: At_def Size_def)
  have mid: "(i + 1 < Size body \<and> At body (i + 1) = LF) \<longleftrightarrow> crlf_middle body (Suc i)" if "body ! i = CR"
    using that by (auto simp: At_def Size_def crlf_middle_def)
  note steps = location_inv_step [OF Suc.prems(1) i]
  have IH: "locationLoop body position (Suc i) l c = line_column body position"
    if "location_inv body (Suc i) l c" "crlf_middle body (Suc i) \<Longrightarrow> Suc i < position" for l c
    using Suc.hyps(1) [of "Suc i"] Suc.hyps(2) Suc.prems(3) less that by simp
  consider (last) "body ! i = CR" "crlf_middle body (Suc i)" "Suc i = position"
    | (crlf) "body ! i = CR" "crlf_middle body (Suc i)" "Suc i < position"
    | (cr) "body ! i = CR" "\<not> crlf_middle body (Suc i)"
    | (lf) "body ! i = LF" | (other) "body ! i \<noteq> CR" "body ! i \<noteq> LF"
    using less by linarith
  then show ?case
  proof cases
    case last
    have l: "line = length (line_starts body (Suc i))"
      using steps(3) last by (simp add: location_inv_def)
    have "locationLoop body position i line column = (line + 1, 0)"
      using last At mid less
      by (simp add: locationLoop.simps [of body position i] locationLoop.simps [of body position position])
    then show ?thesis using last l by (simp add: line_column_def)
  next
    case crlf
    then show ?thesis using At mid less steps(3) IH by (simp add: locationLoop.simps [of body position i])
  next
    case cr
    then show ?thesis using At mid less steps(2) IH by (auto simp: locationLoop.simps [of body position i])
  next
    case lf
    then have "\<not> crlf_middle body (Suc i)" by (simp add: crlf_middle_def)
    then show ?thesis using lf At less steps(1) IH by (simp add: locationLoop.simps [of body position i])
  next
    case other
    then have "\<not> crlf_middle body (Suc i)" by (simp add: crlf_middle_def)
    then show ?thesis using other At less steps(4) IH by (simp add: locationLoop.simps [of body position i])
  qed
qed

lemma locationLoop_start: "position \<le> length body \<Longrightarrow> locationLoop body position 0 1 1 = line_column body position"
  by (rule locationLoop_correct) (simp_all add: location_inv_def crlf_middle_def)




end
