(* ===== verification/Token.thy ===== *)
theory Token
  imports Source
begin

text \<open>
  \<open>graphql/token/token.go\<close>: token kinds, tokens, and the doubly linked list they form. Tokens live
  in an explicit store: a list of tokens indexed by address, so that \<open>Prev\<close> and \<open>Next\<close> are
  optional addresses. The special start-of-file token that carries the reference to its source is
  an entry of a second map from addresses to sources (the \<open>sofToken\<close> struct that embeds the token).
\<close>

section \<open>Kinds\<close>

datatype kind =
    KindSOF | KindEOF | KindBang | KindDollar | KindAmp | KindLeftParen | KindRightParen
  | KindSpread | KindColon | KindEquals | KindAt | KindLeftBracket | KindRightBracket
  | KindLeftBrace | KindPipe | KindRightBrace | KindName | KindInt | KindFloat | KindString
  | KindBlockString | KindComment

fun kind_String :: "kind \<Rightarrow> string" where
  "kind_String KindSOF = ''<SOF>''"
| "kind_String KindEOF = ''<EOF>''"
| "kind_String KindBang = ''!''"
| "kind_String KindDollar = ''$''"
| "kind_String KindAmp = ''&''"
| "kind_String KindLeftParen = ''(''"
| "kind_String KindRightParen = '')''"
| "kind_String KindSpread = ''...''"
| "kind_String KindColon = '':''"
| "kind_String KindEquals = ''=''"
| "kind_String KindAt = ''@''"
| "kind_String KindLeftBracket = ''[''"
| "kind_String KindRightBracket = '']''"
| "kind_String KindLeftBrace = ''{''"
| "kind_String KindPipe = ''|''"
| "kind_String KindRightBrace = ''}''"
| "kind_String KindName = ''Name''"
| "kind_String KindInt = ''Int''"
| "kind_String KindFloat = ''Float''"
| "kind_String KindString = ''String''"
| "kind_String KindBlockString = ''BlockString''"
| "kind_String KindComment = ''Comment''"

section \<open>Tokens\<close>

type_synonym token_ref = nat

record token =
  token_Kind :: kind
  token_Location :: source_location
  token_Length :: nat
  token_Value :: string
  token_Prev :: "token_ref option"
  token_Next :: "token_ref option"

definition token_EndLocation :: "token \<Rightarrow> source_location" where
  "token_EndLocation tok = WithOffset (token_Location tok) (int (token_Length tok))"

definition token_Range :: "token \<Rightarrow> source_range" where
  "token_Range tok = \<lparr>range_Begin = token_Location tok, range_End = token_EndLocation tok\<rparr>"

definition token_Description :: "token \<Rightarrow> string" where
  "token_Description tok =
     (if length (token_Value tok) > 0
      then kind_String (token_Kind tok) @ [SPACE, QUOTE] @ token_Value tok @ [QUOTE]
      else kind_String (token_Kind tok))"

section \<open>The token store\<close>

record token_store =
  store_tokens :: "token list"
  store_sof :: "(token_ref \<times> source) list"

definition NewSOFToken :: "source \<Rightarrow> token_store \<Rightarrow> token_ref \<times> token_store" where
  "NewSOFToken source h =
     (let p = length (store_tokens h);
          tok = \<lparr>token_Kind = KindSOF, token_Location = 0, token_Length = 0, token_Value = [],
                 token_Prev = None, token_Next = None\<rparr>
      in (p, \<lparr>store_tokens = store_tokens h @ [tok], store_sof = (p, source) # store_sof h\<rparr>))"

text \<open>
  \<open>Source\<close> follows \<open>Prev\<close> to the first token and reads the source stored beside it. The walk is
  partial: it does not return on a cycle of \<open>Prev\<close> links.
\<close>

partial_function (option) token_first :: "token list \<Rightarrow> token_ref \<Rightarrow> token_ref option" where
  "token_first toks p =
     (if p < length toks then
        (case token_Prev (toks ! p) of None \<Rightarrow> Some p | Some q \<Rightarrow> token_first toks q)
      else None)"

definition token_Source :: "token_store \<Rightarrow> token_ref \<Rightarrow> source option" where
  "token_Source h p =
     (case token_first (store_tokens h) p of None \<Rightarrow> None | Some q \<Rightarrow> map_of (store_sof h) q)"

definition token_LocationInfo :: "token_store \<Rightarrow> token_ref \<Rightarrow> location_info option" where
  "token_LocationInfo h p =
     (case token_Source h p of None \<Rightarrow> None
      | Some source \<Rightarrow> Some (LocationInfoOf source (token_Location (store_tokens h ! p))))"

definition token_EndLocationInfo :: "token_store \<Rightarrow> token_ref \<Rightarrow> location_info option" where
  "token_EndLocationInfo h p =
     (case token_Source h p of None \<Rightarrow> None
      | Some source \<Rightarrow> Some (LocationInfoOf source (token_EndLocation (store_tokens h ! p))))"

text \<open>A range of tokens; the zero \<open>Range\<close> has two nil references.\<close>

record token_range =
  range_First :: "token_ref option"
  range_Last :: "token_ref option"

definition range_SourceRange :: "token list \<Rightarrow> token_range \<Rightarrow> ('e, source_range) outcome" where
  "range_SourceRange toks r =
     (case (range_First r, range_Last r) of
        (Some f, Some l) \<Rightarrow> Ok \<lparr>range_Begin = token_Location (toks ! f), range_End = token_EndLocation (toks ! l)\<rparr>
      | _ \<Rightarrow> Panic)"

section \<open>Chains\<close>

text \<open>
  \<open>token_chain toks\<close>: the tokens are one doubly linked list in address order. \<open>Next\<close> of the last
  token is nil, \<open>Prev\<close> of the first is nil, and every other link connects neighbours.
\<close>

definition token_chain :: "token list \<Rightarrow> bool" where
  "token_chain toks \<longleftrightarrow>
     (\<forall>i < length toks.
        token_Prev (toks ! i) = (if i = 0 then None else Some (i - 1)) \<and>
        token_Next (toks ! i) = (if Suc i = length toks then None else Some (Suc i)))"

lemma token_chain_singleton:
  "token_Prev tok = None \<Longrightarrow> token_Next tok = None \<Longrightarrow> token_chain [tok]"
  by (simp add: token_chain_def)

lemma token_chain_Prev:
  "token_chain toks \<Longrightarrow> i < length toks \<Longrightarrow> token_Prev (toks ! i) = (if i = 0 then None else Some (i - 1))"
  by (simp add: token_chain_def)

lemma token_chain_Next:
  "token_chain toks \<Longrightarrow> i < length toks \<Longrightarrow>
   token_Next (toks ! i) = (if Suc i = length toks then None else Some (Suc i))"
  by (simp add: token_chain_def)

text \<open>Appending a token: the old last token gets its \<open>Next\<close>, the new one has its \<open>Prev\<close>.\<close>

lemma token_chain_snoc:
  assumes chain: "token_chain toks" and ne: "toks \<noteq> []"
    and tok: "token_Prev tok = Some (length toks - 1)" "token_Next tok = None"
    and p: "p = length toks - 1"
  shows "token_chain (toks[p := (toks ! p)\<lparr>token_Next := Some (length toks)\<rparr>] @ [tok])"
    (is "token_chain ?new")
  unfolding token_chain_def
proof (intro allI impI)
  fix i assume i: "i < length ?new"
  have p_less: "p < length toks" "Suc p = length toks" using ne p by auto
  consider "i < p" | "i = p" | "i = length toks" using i p_less by fastforce
  then show "token_Prev (?new ! i) = (if i = 0 then None else Some (i - 1)) \<and>
    token_Next (?new ! i) = (if Suc i = length ?new then None else Some (Suc i))"
  proof cases
    case 1
    then have "?new ! i = toks ! i" using p_less by (simp add: nth_append)
    then show ?thesis using 1 p_less token_chain_Prev [OF chain] token_chain_Next [OF chain] by simp
  next
    case 2
    then have "?new ! i = (toks ! p)\<lparr>token_Next := Some (length toks)\<rparr>" using p_less by (simp add: nth_append)
    then show ?thesis using 2 p_less token_chain_Prev [OF chain, of p] by simp
  next
    case 3
    then have "?new ! i = tok" by (simp add: nth_append)
    then show ?thesis using 3 tok ne by simp
  qed
qed

text \<open>On a chain the walk of \<open>Source\<close> returns: it reaches the first token from every token.\<close>

lemma token_first_chain:
  assumes "token_chain toks"
  shows "p < length toks \<Longrightarrow> token_first toks p = Some 0"
proof (induction p rule: less_induct)
  case (less p)
  show ?case
  proof (cases p)
    case 0
    then show ?thesis using less.prems token_chain_Prev [OF assms, of 0] by (simp add: token_first.simps [of toks 0])
  next
    case (Suc q)
    then have "token_Prev (toks ! p) = Some q" and "token_first toks q = Some 0"
      using less.prems less.IH token_chain_Prev [OF assms, of p] by auto
    then show ?thesis using less.prems by (simp add: token_first.simps [of toks p])
  qed
qed

end
