(* ===== verification/Ast.thy ===== *)
theory Ast
  imports Token
begin

text \<open>
  \<open>graphql/ast/ast.go\<close>: the nodes of a parsed document and the range of tokens of each of them.

  Go nodes point to the tokens of the lexer. Here a node is a value of a datatype over the type
  \<open>'t\<close> of its tokens: \<open>token_ref\<close> in what the parser returns. A struct with a single use is a
  constructor with named fields. An absent \<open>Name\<close> (one with a nil token) is \<open>None\<close>, and a nil slice
  is the empty list, which the code tells apart nowhere. \<open>ValuesOrStartToken\<close> and \<open>FieldsOrStartToken\<close>,
  which hold either a slice or a token, are two constructors each.
\<close>

section \<open>Nodes\<close>

datatype 't name = Name (name_Token: 't)

datatype 't ast_value =
    Variable "'t name"
  | IntValue 't
  | FloatValue 't
  | StringValue 't
  | BooleanValue 't
  | NullValue 't
  | EnumValue 't
  | ListValue "'t ast_value list"
  | EmptyListValue 't
  | ObjectValue "'t object_field list"
  | EmptyObjectValue 't
and 't object_field =
    ObjectField (objectField_Name: "'t name") (objectField_Value: "'t ast_value")

datatype 't ast_type =
    NamedType "'t name"
  | ListType "'t ast_type"
  | NonNullType "'t ast_type"

datatype 't argument =
  Argument (argument_Name: "'t name") (argument_Value: "'t ast_value")

datatype 't directive =
  Directive (directive_Name: "'t name") (directive_Arguments: "'t argument list")

datatype 't variable_definition =
  VariableDefinition (variableDefinition_Variable: "'t name") (variableDefinition_Type: "'t ast_type")
    (variableDefinition_DefaultValue: "'t ast_value option") (variableDefinition_Directives: "'t directive list")

datatype 't selection =
    FieldNode "'t name option" "'t name" "'t argument list" (selection_GetDirectives: "'t directive list") "'t selection list"
  | FragmentSpread "'t name" (selection_GetDirectives: "'t directive list")
  | InlineFragment "'t name option" (selection_GetDirectives: "'t directive list") "'t selection list"

datatype 't definition_node =
    OperationDefinition (operation_Type: "'t option") (operation_Name: "'t name option")
      (definition_VariableDefinitions: "'t variable_definition list") (definition_GetDirectives: "'t directive list")
      (definition_GetSelectionSet: "'t selection list")
  | FragmentDefinition (fragment_Name: "'t name") (definition_VariableDefinitions: "'t variable_definition list")
      (fragment_TypeCondition: "'t name") (definition_GetDirectives: "'t directive list")
      (definition_GetSelectionSet: "'t selection list")

datatype 't document = Document (document_Definitions: "'t definition_node list")

text \<open>For the termination of functions on values: the value of a field is smaller than the object.\<close>

lemma size_objectField_Value [termination_simp]:
  "f \<in> set fs \<Longrightarrow> size (objectField_Value f) < Suc (size_list size fs)"
proof (induction fs)
  case (Cons g fs)
  then show ?case by (cases g) auto
qed simp

section \<open>Accessors\<close>

text \<open>Reading a token through a node: \<open>toks\<close> is the store of the tokens.\<close>

definition name_Value :: "token list \<Rightarrow> token_ref name \<Rightarrow> string" where
  "name_Value toks node = token_Value (toks ! name_Token node)"

fun IsQueryShorthand :: "token_ref definition_node \<Rightarrow> bool" where
  "IsQueryShorthand (OperationDefinition typ _ _ _ _) \<longleftrightarrow> typ = None"
| "IsQueryShorthand (FragmentDefinition _ _ _ _ _) \<longleftrightarrow> False"

definition OperationType :: "token list \<Rightarrow> token_ref definition_node \<Rightarrow> string" where
  "OperationType toks node =
     (case operation_Type node of None \<Rightarrow> ''query'' | Some typ \<Rightarrow> token_Value (toks ! typ))"

fun ResponseKey :: "token list \<Rightarrow> token_ref selection \<Rightarrow> string option" where
  "ResponseKey toks (FieldNode (Some alias) _ _ _ _) = Some (name_Value toks alias)"
| "ResponseKey toks (FieldNode None name _ _ _) = Some (name_Value toks name)"
| "ResponseKey toks _ = None"

fun HasTypeCondition :: "token_ref selection \<Rightarrow> bool" where
  "HasTypeCondition (InlineFragment typeCondition _ _) \<longleftrightarrow> typeCondition \<noteq> None"
| "HasTypeCondition _ \<longleftrightarrow> False"

fun list_IsEmpty :: "'t ast_value \<Rightarrow> bool" where
  "list_IsEmpty (ListValue _) \<longleftrightarrow> False"
| "list_IsEmpty _ \<longleftrightarrow> True"

fun list_Values :: "'t ast_value \<Rightarrow> 't ast_value list" where
  "list_Values (ListValue vs) = vs"
| "list_Values _ = []"

fun object_HasFields :: "'t ast_value \<Rightarrow> bool" where
  "object_HasFields (ObjectValue _) \<longleftrightarrow> True"
| "object_HasFields _ \<longleftrightarrow> False"

fun object_Fields :: "'t ast_value \<Rightarrow> 't object_field list" where
  "object_Fields (ObjectValue fs) = fs"
| "object_Fields _ = []"

fun string_IsBlockString :: "token list \<Rightarrow> token_ref ast_value \<Rightarrow> bool" where
  "string_IsBlockString toks (StringValue t) \<longleftrightarrow> token_Kind (toks ! t) = KindBlockString"
| "string_IsBlockString toks _ \<longleftrightarrow> False"

text \<open>Reading \<open>Token.Value[0]\<close> of an empty string panics.\<close>

fun boolean_Value :: "token list \<Rightarrow> token_ref ast_value \<Rightarrow> ('e, bool) outcome" where
  "boolean_Value toks (BooleanValue t) =
     (case token_Value (toks ! t) of [] \<Rightarrow> Panic | c # _ \<Rightarrow> Ok (c = CHR ''t''))"
| "boolean_Value toks _ = Panic"

section \<open>Token ranges\<close>

text \<open>
  \<open>Prev\<close> and \<open>Next\<close> of a token pointer: following a nil pointer panics, and the result may be nil.
\<close>

definition Prev_of :: "token list \<Rightarrow> token_ref option \<Rightarrow> ('e, token_ref option) outcome" where
  "Prev_of toks r =
     (case r of None \<Rightarrow> Panic | Some p \<Rightarrow> if p < length toks then Ok (token_Prev (toks ! p)) else Panic)"

definition Next_of :: "token list \<Rightarrow> token_ref option \<Rightarrow> ('e, token_ref option) outcome" where
  "Next_of toks r =
     (case r of None \<Rightarrow> Panic | Some p \<Rightarrow> if p < length toks then Ok (token_Next (toks ! p)) else Panic)"

definition range_of :: "('e, token_ref option) outcome \<Rightarrow> ('e, token_ref option) outcome \<Rightarrow> ('e, token_range) outcome" where
  "range_of f l = bind_outcome f (\<lambda>f. bind_outcome l (\<lambda>l. Ok \<lparr>range_First = f, range_Last = l\<rparr>))"

definition First_of :: "('e, token_range) outcome \<Rightarrow> ('e, token_ref option) outcome" where
  "First_of r = bind_outcome r (\<lambda>r. Ok (range_First r))"

definition Last_of :: "('e, token_range) outcome \<Rightarrow> ('e, token_ref option) outcome" where
  "Last_of r = bind_outcome r (\<lambda>r. Ok (range_Last r))"

definition name_TokenRange :: "token_ref name \<Rightarrow> ('e, token_range) outcome" where
  "name_TokenRange node = Ok \<lparr>range_First = Some (name_Token node), range_Last = Some (name_Token node)\<rparr>"

text \<open>
  The delimiters around a sequence of nodes: the token before the first range and the token after
  the last one, both nil for an empty sequence.
\<close>

definition Prev_of_first :: "token list \<Rightarrow> ('e, token_range) outcome list \<Rightarrow> ('e, token_ref option) outcome" where
  "Prev_of_first toks rs = (case rs of [] \<Rightarrow> Ok None | r # _ \<Rightarrow> bind_outcome (First_of r) (Prev_of toks))"

definition Next_of_last :: "token list \<Rightarrow> ('e, token_range) outcome list \<Rightarrow> ('e, token_ref option) outcome" where
  "Next_of_last toks rs = (case rs of [] \<Rightarrow> Ok None | _ \<Rightarrow> bind_outcome (Last_of (last rs)) (Next_of toks))"

subsection \<open>Values\<close>

definition variable_FirstToken :: "token list \<Rightarrow> token_ref name \<Rightarrow> ('e, token_ref option) outcome" where
  "variable_FirstToken toks name = Prev_of toks (Some (name_Token name))"

text \<open>
  \<open>ListValue.LastToken\<close> of a list that has values is the last token of its last value.
\<close>

fun value_TokenRange :: "token list \<Rightarrow> token_ref ast_value \<Rightarrow> ('e, token_range) outcome" where
  "value_TokenRange toks (Variable n) = range_of (variable_FirstToken toks n) (Ok (Some (name_Token n)))"
| "value_TokenRange toks (IntValue t) = Ok \<lparr>range_First = Some t, range_Last = Some t\<rparr>"
| "value_TokenRange toks (FloatValue t) = Ok \<lparr>range_First = Some t, range_Last = Some t\<rparr>"
| "value_TokenRange toks (StringValue t) = Ok \<lparr>range_First = Some t, range_Last = Some t\<rparr>"
| "value_TokenRange toks (BooleanValue t) = Ok \<lparr>range_First = Some t, range_Last = Some t\<rparr>"
| "value_TokenRange toks (NullValue t) = Ok \<lparr>range_First = Some t, range_Last = Some t\<rparr>"
| "value_TokenRange toks (EnumValue t) = Ok \<lparr>range_First = Some t, range_Last = Some t\<rparr>"
| "value_TokenRange toks (ListValue vs) =
     (let rs = map (value_TokenRange toks) vs in
      if vs = [] then Panic
      else range_of (bind_outcome (First_of (hd rs)) (Prev_of toks)) (Last_of (last rs)))"
| "value_TokenRange toks (EmptyListValue t) = range_of (Ok (Some t)) (Next_of toks (Some t))"
| "value_TokenRange toks (ObjectValue fs) =
     (let rs = map (\<lambda>f. value_TokenRange toks (objectField_Value f)) fs in
      if fs = [] then Panic
      else range_of (Prev_of toks (Some (name_Token (objectField_Name (hd fs)))))
             (bind_outcome (Last_of (last rs)) (Next_of toks)))"
| "value_TokenRange toks (EmptyObjectValue t) = range_of (Ok (Some t)) (Next_of toks (Some t))"

definition object_field_TokenRange :: "token list \<Rightarrow> token_ref object_field \<Rightarrow> ('e, token_range) outcome" where
  "object_field_TokenRange toks node =
     range_of (Ok (Some (name_Token (objectField_Name node)))) (Last_of (value_TokenRange toks (objectField_Value node)))"

subsection \<open>Arguments and directives\<close>

definition argument_TokenRange :: "token list \<Rightarrow> token_ref argument \<Rightarrow> ('e, token_range) outcome" where
  "argument_TokenRange toks node =
     range_of (Ok (Some (name_Token (argument_Name node)))) (Last_of (value_TokenRange toks (argument_Value node)))"

definition arguments_FirstToken :: "token list \<Rightarrow> token_ref argument list \<Rightarrow> ('e, token_ref option) outcome" where
  "arguments_FirstToken toks nodes =
     (case nodes of [] \<Rightarrow> Ok None | node # _ \<Rightarrow> Prev_of toks (Some (name_Token (argument_Name node))))"

definition arguments_LastToken :: "token list \<Rightarrow> token_ref argument list \<Rightarrow> ('e, token_ref option) outcome" where
  "arguments_LastToken toks nodes =
     Next_of_last toks (map (\<lambda>node. value_TokenRange toks (argument_Value node)) nodes)"

definition arguments_TokenRange :: "token list \<Rightarrow> token_ref argument list \<Rightarrow> ('e, token_range) outcome" where
  "arguments_TokenRange toks nodes = range_of (arguments_FirstToken toks nodes) (arguments_LastToken toks nodes)"

definition directive_FirstToken :: "token list \<Rightarrow> token_ref directive \<Rightarrow> ('e, token_ref option) outcome" where
  "directive_FirstToken toks node = Prev_of toks (Some (name_Token (directive_Name node)))"

definition directive_LastToken :: "token list \<Rightarrow> token_ref directive \<Rightarrow> ('e, token_ref option) outcome" where
  "directive_LastToken toks node =
     (if directive_Arguments node = [] then Ok (Some (name_Token (directive_Name node)))
      else arguments_LastToken toks (directive_Arguments node))"

definition directive_TokenRange :: "token list \<Rightarrow> token_ref directive \<Rightarrow> ('e, token_range) outcome" where
  "directive_TokenRange toks node = range_of (directive_FirstToken toks node) (directive_LastToken toks node)"

definition directives_FirstToken :: "token list \<Rightarrow> token_ref directive list \<Rightarrow> ('e, token_ref option) outcome" where
  "directives_FirstToken toks nodes = (case nodes of [] \<Rightarrow> Ok None | node # _ \<Rightarrow> directive_FirstToken toks node)"

definition directives_LastToken :: "token list \<Rightarrow> token_ref directive list \<Rightarrow> ('e, token_ref option) outcome" where
  "directives_LastToken toks nodes =
     (case nodes of [] \<Rightarrow> Ok None | _ \<Rightarrow> directive_LastToken toks (last nodes))"

definition directives_TokenRange :: "token list \<Rightarrow> token_ref directive list \<Rightarrow> ('e, token_range) outcome" where
  "directives_TokenRange toks nodes = range_of (directives_FirstToken toks nodes) (directives_LastToken toks nodes)"

subsection \<open>Types\<close>

text \<open>
  \<open>ListType.TokenRange\<close> first walks down to the named type, pushing the types it passes, then unwinds
  the stack.
\<close>

fun listType_descend :: "token_ref ast_type list \<Rightarrow> token_ref ast_type \<Rightarrow> token_ref ast_type list \<times> token_ref name" where
  "listType_descend stack (NamedType n) = (stack, n)"
| "listType_descend stack (ListType t) = listType_descend (stack @ [ListType t]) t"
| "listType_descend stack (NonNullType t) = listType_descend (stack @ [NonNullType t]) t"

definition listType_pop :: "token list \<Rightarrow> token_ref ast_type \<Rightarrow> token_range \<Rightarrow> ('e, token_range) outcome" where
  "listType_pop toks ttype r =
     (case ttype of
        ListType _ \<Rightarrow> range_of (Prev_of toks (range_First r)) (Next_of toks (range_Last r))
      | NonNullType _ \<Rightarrow> range_of (Ok (range_First r)) (Next_of toks (range_Last r))
      | NamedType _ \<Rightarrow> Ok r)"

definition listType_unwind :: "token list \<Rightarrow> token_ref ast_type list \<Rightarrow> token_range \<Rightarrow> ('e, token_range) outcome" where
  "listType_unwind toks stack r = foldr (\<lambda>ttype acc. bind_outcome acc (listType_pop toks ttype)) stack (Ok r)"

definition listType_TokenRange :: "token list \<Rightarrow> token_ref ast_type \<Rightarrow> ('e, token_range) outcome" where
  "listType_TokenRange toks itemType =
     (case listType_descend [ListType itemType] itemType of (stack, n) \<Rightarrow>
        listType_unwind toks stack \<lparr>range_First = Some (name_Token n), range_Last = Some (name_Token n)\<rparr>)"

fun type_TokenRange :: "token list \<Rightarrow> token_ref ast_type \<Rightarrow> ('e, token_range) outcome" where
  "type_TokenRange toks (NamedType n) = name_TokenRange n"
| "type_TokenRange toks (ListType itemType) = listType_TokenRange toks itemType"
| "type_TokenRange toks (NonNullType t) =
     bind_outcome (type_TokenRange toks t) (\<lambda>r. range_of (Ok (range_First r)) (Next_of toks (range_Last r)))"

subsection \<open>Variable definitions\<close>

definition variable_definition_TokenRange :: "token list \<Rightarrow> token_ref variable_definition \<Rightarrow> ('e, token_range) outcome" where
  "variable_definition_TokenRange toks node =
     range_of (variable_FirstToken toks (variableDefinition_Variable node))
       (if variableDefinition_Directives node \<noteq> [] then directives_LastToken toks (variableDefinition_Directives node)
        else case variableDefinition_DefaultValue node of
          Some v \<Rightarrow> Last_of (value_TokenRange toks v)
        | None \<Rightarrow> Last_of (type_TokenRange toks (variableDefinition_Type node)))"

definition variable_definitions_FirstToken ::
  "token list \<Rightarrow> token_ref variable_definition list \<Rightarrow> ('e, token_ref option) outcome" where
  "variable_definitions_FirstToken toks nodes = Prev_of_first toks (map (variable_definition_TokenRange toks) nodes)"

definition variable_definitions_LastToken ::
  "token list \<Rightarrow> token_ref variable_definition list \<Rightarrow> ('e, token_ref option) outcome" where
  "variable_definitions_LastToken toks nodes = Next_of_last toks (map (variable_definition_TokenRange toks) nodes)"

definition variable_definitions_TokenRange ::
  "token list \<Rightarrow> token_ref variable_definition list \<Rightarrow> ('e, token_range) outcome" where
  "variable_definitions_TokenRange toks nodes =
     range_of (variable_definitions_FirstToken toks nodes) (variable_definitions_LastToken toks nodes)"

subsection \<open>Selections\<close>

fun selection_TokenRange :: "token list \<Rightarrow> token_ref selection \<Rightarrow> ('e, token_range) outcome" where
  "selection_TokenRange toks (FieldNode alias name arguments directives selections) =
     range_of (Ok (Some (case alias of Some a \<Rightarrow> name_Token a | None \<Rightarrow> name_Token name)))
       (if selections \<noteq> [] then Next_of_last toks (map (selection_TokenRange toks) selections)
        else if directives \<noteq> [] then directives_LastToken toks directives
        else if arguments \<noteq> [] then arguments_LastToken toks arguments
        else Ok (Some (name_Token name)))"
| "selection_TokenRange toks (FragmentSpread name directives) =
     bind_outcome (if directives \<noteq> [] then directives_LastToken toks directives else Ok (Some (name_Token name)))
       (\<lambda>lastToken. range_of (Prev_of toks (Some (name_Token name))) (Ok lastToken))"
| "selection_TokenRange toks (InlineFragment typeCondition directives selections) =
     bind_outcome
       (case typeCondition of
          Some n \<Rightarrow> Prev_of toks (Some (name_Token n))
        | None \<Rightarrow>
            if directives \<noteq> [] then directives_FirstToken toks directives
            else Prev_of_first toks (map (selection_TokenRange toks) selections))
       (\<lambda>firstToken. range_of (Prev_of toks firstToken)
          (Next_of_last toks (map (selection_TokenRange toks) selections)))"

definition selection_set_FirstToken :: "token list \<Rightarrow> token_ref selection list \<Rightarrow> ('e, token_ref option) outcome" where
  "selection_set_FirstToken toks nodes = Prev_of_first toks (map (selection_TokenRange toks) nodes)"

definition selection_set_LastToken :: "token list \<Rightarrow> token_ref selection list \<Rightarrow> ('e, token_ref option) outcome" where
  "selection_set_LastToken toks nodes = Next_of_last toks (map (selection_TokenRange toks) nodes)"

definition selection_set_TokenRange :: "token list \<Rightarrow> token_ref selection list \<Rightarrow> ('e, token_range) outcome" where
  "selection_set_TokenRange toks nodes = range_of (selection_set_FirstToken toks nodes) (selection_set_LastToken toks nodes)"

subsection \<open>Definitions and documents\<close>

fun definition_TokenRange :: "token list \<Rightarrow> token_ref definition_node \<Rightarrow> ('e, token_range) outcome" where
  "definition_TokenRange toks (OperationDefinition typ _ _ _ selectionSet) =
     (case typ of
        None \<Rightarrow> selection_set_TokenRange toks selectionSet
      | Some t \<Rightarrow> range_of (Ok (Some t)) (selection_set_LastToken toks selectionSet))"
| "definition_TokenRange toks (FragmentDefinition name _ _ _ selectionSet) =
     range_of (Prev_of toks (Some (name_Token name))) (selection_set_LastToken toks selectionSet)"

definition definitions_TokenRange :: "token list \<Rightarrow> token_ref definition_node list \<Rightarrow> ('e, token_range) outcome" where
  "definitions_TokenRange toks nodes =
     (let rs = map (definition_TokenRange toks) nodes in range_of (Prev_of_first toks rs) (Next_of_last toks rs))"

definition document_TokenRange :: "token list \<Rightarrow> token_ref document \<Rightarrow> ('e, token_range) outcome" where
  "document_TokenRange toks node = definitions_TokenRange toks (document_Definitions node)"

end
