(* ===== verification/JsonWriter.thy ===== *)
theory JsonWriter
  imports GoLib
begin

text \<open>
  \<open>jsonwriter/stream.go\<close>, \<open>stream_int.go\<close> and \<open>stream_string.go\<close>: buffered JSON output. The
  \<open>io.Writer\<close> behind a stream is a parameter \<open>Write\<close> that takes its state and the bytes and returns an
  error (or nil) and its next state. The locale \<open>appending_writer\<close> is what a client needs of a writer that never fails: under
  it the stream writes, in order, what its functions append.
\<close>

section \<open>Streams\<close>

record ('w, 'e) stream =
  stream_w :: 'w
  stream_buf :: string
  stream_err :: "'e option"

type_synonym ('w, 'e) writer = "'w \<Rightarrow> string \<Rightarrow> 'e option \<times> 'w"

definition initialStreamBufSize :: nat where
  "initialStreamBufSize = 512"

definition NewStream :: "'w \<Rightarrow> ('w, 'e) stream" where
  "NewStream w = \<lparr>stream_w = w, stream_buf = [], stream_err = None\<rparr>"

text \<open>\<open>stream.w.Write(b)\<close>, keeping an error.\<close>

definition sink :: "('w, 'e) writer \<Rightarrow> string \<Rightarrow> ('w, 'e) stream \<Rightarrow> ('w, 'e) stream" where
  "sink Write b stream =
     (case Write (stream_w stream) b of (err, w) \<Rightarrow> stream\<lparr>stream_w := w, stream_err := err\<rparr>)"

text \<open>The buffer is written out and reset, whether or not the write failed.\<close>

definition flushBuf :: "('w, 'e) writer \<Rightarrow> ('w, 'e) stream \<Rightarrow> ('w, 'e) stream" where
  "flushBuf Write stream =
     (if stream_buf stream = [] then stream else (sink Write (stream_buf stream) stream)\<lparr>stream_buf := []\<rparr>)"

definition stream_write :: "('w, 'e) writer \<Rightarrow> string \<Rightarrow> ('w, 'e) stream \<Rightarrow> ('w, 'e) stream" where
  "stream_write Write b stream =
     (if stream_err stream \<noteq> None then stream
      else if length (stream_buf stream) + length b < initialStreamBufSize
      then stream\<lparr>stream_buf := stream_buf stream @ b\<rparr>
      else let stream = flushBuf Write stream in
        if stream_err stream \<noteq> None then stream
        else if b \<noteq> [] then sink Write b stream else stream)"

definition Flush :: "('w, 'e) writer \<Rightarrow> ('w, 'e) stream \<Rightarrow> 'e option \<times> ('w, 'e) stream" where
  "Flush Write stream =
     (if stream_err stream \<noteq> None then (stream_err stream, stream)
      else let stream = flushBuf Write stream in (stream_err stream, stream))"

definition writeOneByte :: "char \<Rightarrow> ('w, 'e) stream \<Rightarrow> ('w, 'e) stream" where
  "writeOneByte b stream = stream\<lparr>stream_buf := stream_buf stream @ [b]\<rparr>"

definition writeTwoBytes :: "char \<Rightarrow> char \<Rightarrow> ('w, 'e) stream \<Rightarrow> ('w, 'e) stream" where
  "writeTwoBytes b1 b2 stream = stream\<lparr>stream_buf := stream_buf stream @ [b1, b2]\<rparr>"

definition writeFourBytes :: "char \<Rightarrow> char \<Rightarrow> char \<Rightarrow> char \<Rightarrow> ('w, 'e) stream \<Rightarrow> ('w, 'e) stream" where
  "writeFourBytes b1 b2 b3 b4 stream = stream\<lparr>stream_buf := stream_buf stream @ [b1, b2, b3, b4]\<rparr>"

definition writeFiveBytes :: "char \<Rightarrow> char \<Rightarrow> char \<Rightarrow> char \<Rightarrow> char \<Rightarrow> ('w, 'e) stream \<Rightarrow> ('w, 'e) stream" where
  "writeFiveBytes b1 b2 b3 b4 b5 stream = stream\<lparr>stream_buf := stream_buf stream @ [b1, b2, b3, b4, b5]\<rparr>"

definition writeSixBytes :: "char \<Rightarrow> char \<Rightarrow> char \<Rightarrow> char \<Rightarrow> char \<Rightarrow> char \<Rightarrow> ('w, 'e) stream \<Rightarrow> ('w, 'e) stream" where
  "writeSixBytes b1 b2 b3 b4 b5 b6 stream = stream\<lparr>stream_buf := stream_buf stream @ [b1, b2, b3, b4, b5, b6]\<rparr>"

definition WriteRawString :: "('w, 'e) writer \<Rightarrow> string \<Rightarrow> ('w, 'e) stream \<Rightarrow> ('w, 'e) stream" where
  "WriteRawString Write s = stream_write Write s"

definition WriteMore :: "('w, 'e) stream \<Rightarrow> ('w, 'e) stream" where
  "WriteMore = writeOneByte (CHR '','')"

definition WriteArrayStart :: "('w, 'e) stream \<Rightarrow> ('w, 'e) stream" where
  "WriteArrayStart = writeOneByte (CHR ''['')"

definition WriteArrayEnd :: "('w, 'e) stream \<Rightarrow> ('w, 'e) stream" where
  "WriteArrayEnd = writeOneByte (CHR '']'')"

definition WriteEmptyArray :: "('w, 'e) stream \<Rightarrow> ('w, 'e) stream" where
  "WriteEmptyArray = writeTwoBytes (CHR ''['') (CHR '']'')"

definition WriteObjectStart :: "('w, 'e) stream \<Rightarrow> ('w, 'e) stream" where
  "WriteObjectStart = writeOneByte (CHR ''{'')"

definition WriteObjectEnd :: "('w, 'e) stream \<Rightarrow> ('w, 'e) stream" where
  "WriteObjectEnd = writeOneByte (CHR ''}'')"

definition WriteEmptyObject :: "('w, 'e) stream \<Rightarrow> ('w, 'e) stream" where
  "WriteEmptyObject = writeTwoBytes (CHR ''{'') (CHR ''}'')"

definition WriteBool :: "bool \<Rightarrow> ('w, 'e) stream \<Rightarrow> ('w, 'e) stream" where
  "WriteBool b =
     (if b then writeFourBytes (CHR ''t'') (CHR ''r'') (CHR ''u'') (CHR ''e'')
      else writeFiveBytes (CHR ''f'') (CHR ''a'') (CHR ''l'') (CHR ''s'') (CHR ''e''))"

definition WriteNil :: "('w, 'e) stream \<Rightarrow> ('w, 'e) stream" where
  "WriteNil = writeFourBytes (CHR ''n'') (CHR ''u'') (CHR ''l'') (CHR ''l'')"

section \<open>Integers\<close>

text \<open>An \<open>int\<close> and a \<open>uint\<close> have 64 bits.\<close>

definition WriteInt64 :: "('w, 'e) writer \<Rightarrow> 64 word \<Rightarrow> ('w, 'e) stream \<Rightarrow> ('w, 'e) stream" where
  "WriteInt64 Write i = stream_write Write (FormatInt (sint i))"

definition WriteInt :: "('w, 'e) writer \<Rightarrow> 64 word \<Rightarrow> ('w, 'e) stream \<Rightarrow> ('w, 'e) stream" where
  "WriteInt Write i = WriteInt64 Write i"

definition WriteInt8 :: "('w, 'e) writer \<Rightarrow> 8 word \<Rightarrow> ('w, 'e) stream \<Rightarrow> ('w, 'e) stream" where
  "WriteInt8 Write i = WriteInt64 Write (scast i)"

definition WriteInt16 :: "('w, 'e) writer \<Rightarrow> 16 word \<Rightarrow> ('w, 'e) stream \<Rightarrow> ('w, 'e) stream" where
  "WriteInt16 Write i = WriteInt64 Write (scast i)"

definition WriteInt32 :: "('w, 'e) writer \<Rightarrow> 32 word \<Rightarrow> ('w, 'e) stream \<Rightarrow> ('w, 'e) stream" where
  "WriteInt32 Write i = WriteInt64 Write (scast i)"

definition WriteUint64 :: "('w, 'e) writer \<Rightarrow> 64 word \<Rightarrow> ('w, 'e) stream \<Rightarrow> ('w, 'e) stream" where
  "WriteUint64 Write i = stream_write Write (fmt_d (unat i))"

definition WriteUint :: "('w, 'e) writer \<Rightarrow> 64 word \<Rightarrow> ('w, 'e) stream \<Rightarrow> ('w, 'e) stream" where
  "WriteUint Write i = WriteUint64 Write i"

definition WriteUint8 :: "('w, 'e) writer \<Rightarrow> 8 word \<Rightarrow> ('w, 'e) stream \<Rightarrow> ('w, 'e) stream" where
  "WriteUint8 Write i = WriteUint64 Write (ucast i)"

definition WriteUint16 :: "('w, 'e) writer \<Rightarrow> 16 word \<Rightarrow> ('w, 'e) stream \<Rightarrow> ('w, 'e) stream" where
  "WriteUint16 Write i = WriteUint64 Write (ucast i)"

definition WriteUint32 :: "('w, 'e) writer \<Rightarrow> 32 word \<Rightarrow> ('w, 'e) stream \<Rightarrow> ('w, 'e) stream" where
  "WriteUint32 Write i = WriteUint64 Write (ucast i)"

section \<open>Strings\<close>

text \<open>\<open>htmlSafeSet\<close> is a table of 128 entries; the first 32 are false by default.\<close>

definition htmlSafe :: "char \<Rightarrow> bool" where
  "htmlSafe c \<longleftrightarrow> CHR 0x20 \<le> c \<and> c \<le> CHR 0x7F \<and>
     c \<noteq> QUOTE \<and> c \<noteq> CHR ''&'' \<and> c \<noteq> CHR ''<'' \<and> c \<noteq> CHR ''>'' \<and> c \<noteq> BACKSLASH"

definition hex_char :: "nat \<Rightarrow> char" where
  "hex_char n = ''0123456789abcdef'' ! n"

text \<open>The fast path: the bytes written before the first one that is not safe, and the others.\<close>

fun writeStringFastPath :: "string \<Rightarrow> ('w, 'e) stream \<Rightarrow> ('w, 'e) stream \<times> string" where
  "writeStringFastPath [] stream = (stream, [])"
| "writeStringFastPath (c # s) stream =
     (if byte_of c < RuneSelf \<and> htmlSafe c then writeStringFastPath s (writeOneByte c stream)
      else (stream, c # s))"

definition writeEscape :: "char \<Rightarrow> ('w, 'e) stream \<Rightarrow> ('w, 'e) stream" where
  "writeEscape b =
     (if b = BACKSLASH \<or> b = QUOTE then writeTwoBytes BACKSLASH b
      else if b = LF then writeTwoBytes BACKSLASH (CHR ''n'')
      else if b = CR then writeTwoBytes BACKSLASH (CHR ''r'')
      else if b = TAB then writeTwoBytes BACKSLASH (CHR ''t'')
      else writeSixBytes BACKSLASH (CHR ''u'') (CHR ''0'') (CHR ''0'') (hex_char (byte_of b div 16)) (hex_char (byte_of b mod 16)))"

text \<open>
  The slow path walks over \<open>s\<close> with two indices: \<open>pending\<close> is \<open>s[start:i]\<close> and the last string
  is \<open>s[i:]\<close>.
\<close>

definition writePending :: "('w, 'e) writer \<Rightarrow> string \<Rightarrow> ('w, 'e) stream \<Rightarrow> ('w, 'e) stream" where
  "writePending Write pending stream = (if pending \<noteq> [] then WriteRawString Write pending stream else stream)"

lemma decode_shorter: "length (drop (snd (utf8_DecodeRune (b # s))) (b # s)) < length (b # s)"
  using utf8_DecodeRune_size [of "b # s"] by simp

function writeStringSlowPath :: "('w, 'e) writer \<Rightarrow> string \<Rightarrow> string \<Rightarrow> ('w, 'e) stream \<Rightarrow> ('w, 'e) stream" where
  "writeStringSlowPath Write pending [] stream = writeOneByte QUOTE (writePending Write pending stream)"
| "writeStringSlowPath Write pending (b # s) stream =
     (if byte_of b < RuneSelf then
        (if htmlSafe b then writeStringSlowPath Write (pending @ [b]) s stream
         else writeStringSlowPath Write [] s (writeEscape b (writePending Write pending stream)))
      else let c = fst (utf8_DecodeRune (b # s)); size = snd (utf8_DecodeRune (b # s)) in
        if c = RuneError \<and> size = 1 then
          writeStringSlowPath Write [] s
            (writeSixBytes BACKSLASH (CHR ''u'') (CHR ''f'') (CHR ''f'') (CHR ''f'') (CHR ''d'') (writePending Write pending stream))
        else if c = 0x2028 \<or> c = 0x2029 then
          writeStringSlowPath Write [] (drop size (b # s))
            (writeSixBytes BACKSLASH (CHR ''u'') (CHR ''2'') (CHR ''0'') (CHR ''2'') (hex_char (c mod 16)) (writePending Write pending stream))
        else writeStringSlowPath Write (pending @ take size (b # s)) (drop size (b # s)) stream)"
  by pat_completeness auto
termination
  by (relation "measure (\<lambda>(Write, pending, s, stream). length s)") (use decode_shorter in auto)

definition WriteString :: "('w, 'e) writer \<Rightarrow> string \<Rightarrow> ('w, 'e) stream \<Rightarrow> ('w, 'e) stream" where
  "WriteString Write s stream =
     (case writeStringFastPath s (writeOneByte QUOTE stream) of (stream, rest) \<Rightarrow>
        if rest = [] then writeOneByte QUOTE stream
        else writeStringSlowPath Write [] rest stream)"

definition WriteObjectField :: "('w, 'e) writer \<Rightarrow> string \<Rightarrow> ('w, 'e) stream \<Rightarrow> ('w, 'e) stream" where
  "WriteObjectField Write field stream = writeOneByte (CHR '':'') (WriteString Write field stream)"

section \<open>What is written\<close>

text \<open>
  The escaped form of a string, without the buffers: safe characters stand for themselves, bytes that are
  not valid UTF-8 become the replacement character.
\<close>

definition escape_bytes :: "char \<Rightarrow> string" where
  "escape_bytes b =
     (if b = BACKSLASH \<or> b = QUOTE then [BACKSLASH, b]
      else if b = LF then [BACKSLASH, CHR ''n'']
      else if b = CR then [BACKSLASH, CHR ''r'']
      else if b = TAB then [BACKSLASH, CHR ''t'']
      else [BACKSLASH, CHR ''u'', CHR ''0'', CHR ''0'', hex_char (byte_of b div 16), hex_char (byte_of b mod 16)])"

function json_escape :: "string \<Rightarrow> string" where
  "json_escape [] = []"
| "json_escape (b # s) =
     (if byte_of b < RuneSelf then
        (if htmlSafe b then b # json_escape s else escape_bytes b @ json_escape s)
      else let c = fst (utf8_DecodeRune (b # s)); size = snd (utf8_DecodeRune (b # s)) in
        if c = RuneError \<and> size = 1 then [BACKSLASH] @ ''ufffd'' @ json_escape s
        else if c = 0x2028 \<or> c = 0x2029 then [BACKSLASH] @ ''u202'' @ [hex_char (c mod 16)] @ json_escape (drop size (b # s))
        else take size (b # s) @ json_escape (drop size (b # s)))"
  by pat_completeness auto
termination
  by (relation "measure length") (use decode_shorter in auto)

declare json_escape.simps(2) [simp del]

definition json_string :: "string \<Rightarrow> string" where
  "json_string s = [QUOTE] @ json_escape s @ [QUOTE]"

text \<open>
  A writer that never fails and appends: strings act on its states. Under it a stream is a state to which its functions append:
  \<open>emits f b\<close> says of a function on streams that it appends \<open>b\<close>.
\<close>

locale appending_writer =
  fixes Write :: "('w, 'e) writer" and put :: "'w \<Rightarrow> string \<Rightarrow> 'w"
  assumes Write_put: "Write w b = (None, put w b)"
    and put_Nil: "put w [] = w"
    and put_append: "put w (a @ b) = put (put w a) b"
begin

definition contents :: "('w, 'e) stream \<Rightarrow> 'w" where
  "contents stream = put (stream_w stream) (stream_buf stream)"

definition emits :: "(('w, 'e) stream \<Rightarrow> ('w, 'e) stream) \<Rightarrow> string \<Rightarrow> bool" where
  "emits f b \<longleftrightarrow> (\<forall>stream. stream_err stream = None \<longrightarrow>
     stream_err (f stream) = None \<and> contents (f stream) = put (contents stream) b)"

lemma emitsD: "emits f b \<Longrightarrow> stream_err stream = None \<Longrightarrow> stream_err (f stream) = None \<and> contents (f stream) = put (contents stream) b"
  by (simp add: emits_def)

lemma emits_comp: "emits f a \<Longrightarrow> emits g b \<Longrightarrow> emits (\<lambda>stream. g (f stream)) (a @ b)"
  by (simp add: emits_def put_append)

lemma emits_id: "emits (\<lambda>stream. stream) []"
  by (simp add: emits_def put_Nil)

lemma sink_eq:
  "stream_err (sink Write b stream) = None" "stream_w (sink Write b stream) = put (stream_w stream) b"
  "stream_buf (sink Write b stream) = stream_buf stream"
  by (simp_all add: sink_def Write_put)

lemma flushBuf_eq:
  assumes "stream_err stream = None"
  shows "stream_err (flushBuf Write stream) = None" "stream_buf (flushBuf Write stream) = []"
    "stream_w (flushBuf Write stream) = contents stream"
  using assms sink_eq by (auto simp: flushBuf_def contents_def put_Nil)

lemma emits_write: "emits (stream_write Write b) b"
  unfolding emits_def
proof (intro allI impI)
  fix stream :: "('w, 'e) stream" assume ok: "stream_err stream = None"
  note f = flushBuf_eq [OF ok]
  show "stream_err (stream_write Write b stream) = None \<and> contents (stream_write Write b stream) = put (contents stream) b"
    using ok f sink_eq [of b "flushBuf Write stream"]
    by (auto simp: stream_write_def Let_def contents_def put_Nil put_append)
qed

lemma emits_bytes:
  "emits (writeOneByte b1) [b1]" "emits (writeTwoBytes b1 b2) [b1, b2]" "emits (writeFourBytes b1 b2 b3 b4) [b1, b2, b3, b4]"
  "emits (writeFiveBytes b1 b2 b3 b4 b5) [b1, b2, b3, b4, b5]" "emits (writeSixBytes b1 b2 b3 b4 b5 b6) [b1, b2, b3, b4, b5, b6]"
  by (simp_all add: emits_def contents_def put_append writeOneByte_def writeTwoBytes_def writeFourBytes_def writeFiveBytes_def writeSixBytes_def)

lemma emits_punctuation:
  "emits WriteMore '',''" "emits WriteArrayStart ''[''" "emits WriteArrayEnd '']''" "emits WriteEmptyArray ''[]''"
  "emits WriteObjectStart ''{''" "emits WriteObjectEnd ''}''" "emits WriteEmptyObject ''{}''" "emits WriteNil ''null''"
  "emits (WriteBool b) (if b then ''true'' else ''false'')"
  using emits_bytes by (simp_all add: WriteMore_def WriteArrayStart_def WriteArrayEnd_def WriteEmptyArray_def
      WriteObjectStart_def WriteObjectEnd_def WriteEmptyObject_def WriteNil_def WriteBool_def)

lemma emits_escape: "emits (writeEscape b) (escape_bytes b)"
  using emits_bytes by (simp add: writeEscape_def escape_bytes_def)

lemma emits_pending: "emits (writePending Write pending) pending"
  using emits_write [of pending] emits_id by (simp add: writePending_def WriteRawString_def emits_def)

lemma emits_slow: "emits (writeStringSlowPath Write pending s) (pending @ json_escape s @ [QUOTE])"
proof (induction s arbitrary: pending rule: json_escape.induct)
  case 1
  then show ?case using emits_comp [OF emits_pending [of pending] emits_bytes(1) [of QUOTE]] by simp
next
  case (2 b s)
  let ?c = "fst (utf8_DecodeRune (b # s))" and ?size = "snd (utf8_DecodeRune (b # s))"
  note eq = writeStringSlowPath.simps(2) [abs_def, of Write pending b s] json_escape.simps(2) [of b s]
  show ?case
  proof (cases "byte_of b < RuneSelf")
    case ascii: True
    show ?thesis
    proof (cases "htmlSafe b")
      case True
      then show ?thesis using 2(1) [OF ascii True, of "pending @ [b]"] ascii by (simp add: eq)
    next
      case False
      then show ?thesis
        using emits_comp [OF emits_comp [OF emits_pending [of pending] emits_escape [of b]] 2(2) [OF ascii False, of "[]"]] ascii
        by (simp add: eq)
    qed
  next
    case wide: False
    consider (error) "?c = RuneError \<and> ?size = 1" | (separator) "\<not> (?c = RuneError \<and> ?size = 1)" "?c = 0x2028 \<or> ?c = 0x2029"
      | (other) "\<not> (?c = RuneError \<and> ?size = 1)" "\<not> (?c = 0x2028 \<or> ?c = 0x2029)" by blast
    then show ?thesis
    proof cases
      case error
      note ih = 2(3) [OF wide refl refl error, of "[]"]
      show ?thesis
        using emits_comp [OF emits_comp [OF emits_pending [of pending] emits_bytes(5)] ih] wide error
        by (simp add: eq Let_def)
    next
      case separator
      note ih = 2(4) [OF wide refl refl separator, of "[]"]
      show ?thesis
        using emits_comp [OF emits_comp [OF emits_pending [of pending] emits_bytes(5)] ih] wide separator
        by (auto simp: eq Let_def)
    next
      case other
      note ih = 2(5) [OF wide refl refl other, of "pending @ take ?size (b # s)"]
      show ?thesis using ih wide other by (cases "?c = RuneError") (simp_all add: eq Let_def)
    qed
  qed
qed

lemma json_escape_safe: "list_all (\<lambda>c. byte_of c < RuneSelf \<and> htmlSafe c) p \<Longrightarrow> json_escape (p @ r) = p @ json_escape r"
  by (induction p) (auto simp: json_escape.simps(2))

lemma fast_path:
  "stream_err stream = None \<Longrightarrow> writeStringFastPath s stream = (stream', r) \<Longrightarrow>
   \<exists>p. s = p @ r \<and> list_all (\<lambda>c. byte_of c < RuneSelf \<and> htmlSafe c) p \<and> stream_err stream' = None \<and>
     contents stream' = put (contents stream) p"
proof (induction s stream rule: writeStringFastPath.induct)
  case (2 c s stream)
  show ?case
  proof (cases "byte_of c < RuneSelf \<and> htmlSafe c")
    case True
    have "stream_err (writeOneByte c stream) = None" "contents (writeOneByte c stream) = put (contents stream) [c]"
      using emitsD [OF emits_bytes(1) 2(2)] by auto
    then obtain p where "s = p @ r" "list_all (\<lambda>c. byte_of c < RuneSelf \<and> htmlSafe c) p" "stream_err stream' = None"
        "contents stream' = put (put (contents stream) [c]) p"
      using 2(1) [OF True] 2(3) True by auto
    then show ?thesis using True put_append [of _ "[c]" p] by (intro exI [of _ "c # p"]) simp
  qed (use 2 in \<open>auto simp: put_Nil\<close>)
qed (simp add: put_Nil)

lemma emits_WriteString: "emits (WriteString Write s) (json_string s)"
  unfolding emits_def
proof (intro allI impI)
  fix stream :: "('w, 'e) stream" assume ok: "stream_err stream = None"
  note q = emitsD [OF emits_bytes(1) [of QUOTE] ok]
  obtain stream' r where f: "writeStringFastPath s (writeOneByte QUOTE stream) = (stream', r)" by fastforce
  then obtain p where p: "s = p @ r" "list_all (\<lambda>c. byte_of c < RuneSelf \<and> htmlSafe c) p" "stream_err stream' = None"
      "contents stream' = put (contents stream) ([QUOTE] @ p)"
    using fast_path [OF _ f] q by (auto simp: put_append [of _ "[QUOTE]", symmetric])
  show "stream_err (WriteString Write s stream) = None \<and> contents (WriteString Write s stream) = put (contents stream) (json_string s)"
    using f p emitsD [OF emits_bytes(1) [of QUOTE] p(3)] emitsD [OF emits_slow [of "[]" r] p(3)] json_escape_safe [OF p(2)]
    by (auto simp: WriteString_def json_string_def put_append [symmetric])
qed

lemma emits_WriteObjectField: "emits (WriteObjectField Write s) (json_string s @ '':'')"
  unfolding WriteObjectField_def using emits_comp [OF emits_WriteString emits_bytes(1)] by simp

lemma Flush_contents:
  assumes "stream_err stream = None"
  shows "fst (Flush Write stream) = None \<and> stream_buf (snd (Flush Write stream)) = [] \<and>
    stream_w (snd (Flush Write stream)) = contents stream"
  using assms flushBuf_eq [OF assms] by (simp add: Flush_def Let_def)

end

end
