(* ===== verification/Printer.thy ===== *)
theory Printer
  imports Ast JsonWriter
begin

text \<open>
  \<open>graphql/ast/printer.go\<close>: a node as source text. The printer writes to a \<open>StringBuilder\<close>, which never
  fails; \<open>toks\<close> is the token store behind the node. A printing function is an action because it can panic:
  \<open>BooleanValue.Value\<close> reads the first byte of a token and \<open>strings.Repeat\<close> takes no negative count.
\<close>

section \<open>The printer\<close>

record printer =
  printer_out :: string
  indentLevel :: int

type_synonym pr = "(printer, unit, unit) action"

definition p_WriteString :: "string \<Rightarrow> pr" where
  "p_WriteString s = (\<lambda>p. (Ok (), p\<lparr>printer_out := printer_out p @ s\<rparr>))"

definition p_indentation :: "(printer, unit, string) action" where
  "p_indentation = (\<lambda>p. if indentLevel p < 0 then panic p else ret (strings_Repeat '' '' (nat (2 * indentLevel p))) p)"

definition p_writeIndent :: pr where
  "p_writeIndent = andThen p_indentation p_WriteString"

definition p_writeNewLineWithIndent :: pr where
  "p_writeNewLineWithIndent = andThen (p_WriteString [LF]) (\<lambda>_. p_writeIndent)"

definition p_indent :: "int \<Rightarrow> pr" where
  "p_indent n = (\<lambda>p. (Ok (), p\<lparr>indentLevel := indentLevel p + n\<rparr>))"

definition p_beginBlock :: pr where
  "p_beginBlock = andThen (p_WriteString [CHR ''{'', LF]) (\<lambda>_. p_indent 1)"

definition p_endBlock :: pr where
  "p_endBlock = andThen (p_indent (- 1)) (\<lambda>_. andThen p_writeNewLineWithIndent (\<lambda>_. p_WriteString ''}''))"

text \<open>The printer as the writer of a JSON stream.\<close>

definition p_Write :: "(printer, unit) writer" where
  "p_Write p b = (None, snd (p_WriteString b p))"

definition p_put :: "printer \<Rightarrow> string \<Rightarrow> printer" where
  "p_put p b = p\<lparr>printer_out := printer_out p @ b\<rparr>"

interpretation pw: appending_writer p_Write p_put
  by unfold_locales (simp_all add: p_Write_def p_put_def p_WriteString_def)

text \<open>The elements of a list with a separator between them.\<close>

fun p_rest :: "pr \<Rightarrow> ('a \<Rightarrow> pr) \<Rightarrow> 'a list \<Rightarrow> pr" where
  "p_rest sep f [] = ret ()"
| "p_rest sep f (x # xs) = andThen sep (\<lambda>_. andThen (f x) (\<lambda>_. p_rest sep f xs))"

definition p_each :: "pr \<Rightarrow> ('a \<Rightarrow> pr) \<Rightarrow> 'a list \<Rightarrow> pr" where
  "p_each sep f xs = (case xs of [] \<Rightarrow> ret () | x # xs \<Rightarrow> andThen (f x) (\<lambda>_. p_rest sep f xs))"

lemma p_rest_cong: "(\<And>x. x \<in> set xs \<Longrightarrow> f x = g x) \<Longrightarrow> p_rest sep f xs = p_rest sep g xs"
  by (induction xs) auto

lemma p_each_cong [fundef_cong]:
  "sep = sep' \<Longrightarrow> xs = ys \<Longrightarrow> (\<And>x. x \<in> set ys \<Longrightarrow> f x = g x) \<Longrightarrow> p_each sep f xs = p_each sep' g ys"
  using p_rest_cong [of "tl ys" f g sep'] by (cases ys) (auto simp: p_each_def)

section \<open>Names, types and values\<close>

definition printName :: "token list \<Rightarrow> token_ref name \<Rightarrow> pr" where
  "printName toks name = p_WriteString (name_Value toks name)"

definition printNamedType :: "token list \<Rightarrow> token_ref name \<Rightarrow> pr" where
  "printNamedType toks named = printName toks named"

fun printType :: "token list \<Rightarrow> token_ref ast_type \<Rightarrow> pr" where
  "printType toks (ListType itemType) =
     andThen (p_WriteString ''['') (\<lambda>_. andThen (printType toks itemType) (\<lambda>_. p_WriteString '']''))"
| "printType toks (NamedType name) = printNamedType toks name"
| "printType toks (NonNullType t) = andThen (printType toks t) (\<lambda>_. p_WriteString ''!'')"

definition printVariable :: "token list \<Rightarrow> token_ref name \<Rightarrow> pr" where
  "printVariable toks name = andThen (p_WriteString ''$'') (\<lambda>_. printName toks name)"

definition printBooleanValue :: "token list \<Rightarrow> token_ref \<Rightarrow> pr" where
  "printBooleanValue toks t =
     andThen (lift_outcome (boolean_Value toks (BooleanValue t))) (\<lambda>b. p_WriteString (if b then ''true'' else ''false''))"

definition printBlockString :: "string \<Rightarrow> string \<Rightarrow> pr" where
  "printBlockString s indentation =
     (let isSingleLine = LF \<notin> set s;
          hasLeadingSpace = s \<noteq> [] \<and> (hd s = SPACE \<or> hd s = TAB);
          hasTrailingQuote = s \<noteq> [] \<and> last s = QUOTE;
          printAsMultipleLines = \<not> isSingleLine \<or> hasTrailingQuote
      in andThen (p_WriteString [QUOTE, QUOTE, QUOTE]) (\<lambda>_.
         andThen (if printAsMultipleLines \<and> \<not> (isSingleLine \<and> hasLeadingSpace)
                  then andThen p_writeNewLineWithIndent (\<lambda>_. p_WriteString indentation) else ret ()) (\<lambda>_.
         andThen (let s = strings_Replace s [QUOTE, QUOTE, QUOTE] [BACKSLASH, QUOTE, QUOTE, QUOTE] in
                  if indentation \<noteq> [] then andThen p_indentation (\<lambda>i. ret (strings_Replace s [LF] ([LF] @ i @ indentation)))
                  else ret s) (\<lambda>s.
         andThen (p_WriteString s) (\<lambda>_.
         andThen (if printAsMultipleLines then p_writeNewLineWithIndent else ret ()) (\<lambda>_.
         p_WriteString [QUOTE, QUOTE, QUOTE]))))))"

text \<open>A string value goes through a JSON stream whose writer is the printer.\<close>

definition printStringValue :: "token list \<Rightarrow> token_ref \<Rightarrow> string \<Rightarrow> pr" where
  "printStringValue toks t blockStringIndent =
     (if string_IsBlockString toks (StringValue t) then printBlockString (token_Value (toks ! t)) blockStringIndent
      else (\<lambda>p. (Ok (), stream_w (snd (Flush p_Write (WriteString p_Write (token_Value (toks ! t)) (NewStream p)))))))"

fun printValue :: "token list \<Rightarrow> token_ref ast_value \<Rightarrow> pr" where
  "printValue toks (BooleanValue t) = printBooleanValue toks t"
| "printValue toks (EnumValue t) = p_WriteString (token_Value (toks ! t))"
| "printValue toks (FloatValue t) = p_WriteString (token_Value (toks ! t))"
| "printValue toks (IntValue t) = p_WriteString (token_Value (toks ! t))"
| "printValue toks (ListValue vs) =
     andThen (p_WriteString ''['') (\<lambda>_. andThen (p_each (p_WriteString '', '') (printValue toks) vs) (\<lambda>_. p_WriteString '']''))"
| "printValue toks (EmptyListValue t) = andThen (p_WriteString ''['') (\<lambda>_. p_WriteString '']'')"
| "printValue toks (NullValue t) = p_WriteString ''null''"
| "printValue toks (ObjectValue fs) =
     andThen (p_WriteString ''{'') (\<lambda>_.
     andThen (p_each (p_WriteString '', '') (\<lambda>f.
        andThen (printName toks (objectField_Name f)) (\<lambda>_. andThen (p_WriteString '': '') (\<lambda>_. printValue toks (objectField_Value f)))) fs) (\<lambda>_.
     p_WriteString ''}''))"
| "printValue toks (EmptyObjectValue t) = andThen (p_WriteString ''{'') (\<lambda>_. p_WriteString ''}'')"
| "printValue toks (StringValue t) = printStringValue toks t ''  ''"
| "printValue toks (Variable name) = printVariable toks name"

definition printObjectField :: "token list \<Rightarrow> token_ref object_field \<Rightarrow> pr" where
  "printObjectField toks f =
     andThen (printName toks (objectField_Name f)) (\<lambda>_. andThen (p_WriteString '': '') (\<lambda>_. printValue toks (objectField_Value f)))"

section \<open>Arguments, directives, selections\<close>

definition printArgument :: "token list \<Rightarrow> token_ref argument \<Rightarrow> pr" where
  "printArgument toks arg =
     andThen (printName toks (argument_Name arg)) (\<lambda>_. andThen (p_WriteString '': '') (\<lambda>_. printValue toks (argument_Value arg)))"

definition printArguments :: "token list \<Rightarrow> string \<Rightarrow> token_ref argument list \<Rightarrow> string \<Rightarrow> string \<Rightarrow> pr" where
  "printArguments toks open args sep close =
     (if args \<noteq> [] then
        andThen (p_WriteString open) (\<lambda>_. andThen (p_each (p_WriteString sep) (printArgument toks) args) (\<lambda>_. p_WriteString close))
      else ret ())"

definition printDirective :: "token list \<Rightarrow> token_ref directive \<Rightarrow> pr" where
  "printDirective toks directive =
     andThen (p_WriteString ''@'') (\<lambda>_. andThen (printName toks (directive_Name directive)) (\<lambda>_.
       printArguments toks ''('' (directive_Arguments directive) '', '' '')''))"

definition printDirectives :: "token list \<Rightarrow> token_ref directive list \<Rightarrow> pr" where
  "printDirectives toks directives = p_each (p_WriteString '' '') (printDirective toks) directives"

text \<open>Directives or a selection set after a space, when there are any.\<close>

definition p_spaced :: "('a list \<Rightarrow> pr) \<Rightarrow> 'a list \<Rightarrow> pr" where
  "p_spaced f xs = (if xs \<noteq> [] then andThen (p_WriteString '' '') (\<lambda>_. f xs) else ret ())"

definition p_block :: "('a \<Rightarrow> pr) \<Rightarrow> 'a list \<Rightarrow> pr" where
  "p_block f xs =
     (if xs \<noteq> [] then
        andThen p_beginBlock (\<lambda>_. andThen p_writeIndent (\<lambda>_.
        andThen (p_each p_writeNewLineWithIndent f xs) (\<lambda>_. p_endBlock)))
      else ret ())"

lemma p_block_cong [fundef_cong]: "xs = ys \<Longrightarrow> (\<And>x. x \<in> set ys \<Longrightarrow> f x = g x) \<Longrightarrow> p_block f xs = p_block g ys"
  using p_each_cong [OF refl refl, of ys f g p_writeNewLineWithIndent] by (simp add: p_block_def)

lemma p_spaced_cong [fundef_cong]: "xs = ys \<Longrightarrow> f ys = g ys \<Longrightarrow> p_spaced f xs = p_spaced g ys"
  by (simp add: p_spaced_def)

fun printSelection :: "token list \<Rightarrow> token_ref selection \<Rightarrow> pr" where
  "printSelection toks (FieldNode alias name arguments directives selectionSet) =
     andThen (case alias of None \<Rightarrow> ret () | Some a \<Rightarrow> andThen (printName toks a) (\<lambda>_. p_WriteString '': '')) (\<lambda>_.
     andThen (printName toks name) (\<lambda>_.
     andThen (printArguments toks ''('' arguments '', '' '')'') (\<lambda>_.
     andThen (p_spaced (printDirectives toks) directives) (\<lambda>_.
     p_spaced (p_block (printSelection toks)) selectionSet))))"
| "printSelection toks (FragmentSpread name directives) =
     andThen (p_WriteString ''...'') (\<lambda>_. andThen (printName toks name) (\<lambda>_. p_spaced (printDirectives toks) directives))"
| "printSelection toks (InlineFragment typeCondition directives selectionSet) =
     andThen (p_WriteString ''...'') (\<lambda>_.
     andThen (case typeCondition of None \<Rightarrow> ret () | Some t \<Rightarrow> andThen (p_WriteString '' on '') (\<lambda>_. printNamedType toks t)) (\<lambda>_.
     andThen (p_spaced (printDirectives toks) directives) (\<lambda>_.
     p_spaced (p_block (printSelection toks)) selectionSet)))"

definition printSelectionSet :: "token list \<Rightarrow> token_ref selection list \<Rightarrow> pr" where
  "printSelectionSet toks = p_block (printSelection toks)"

section \<open>Definitions and documents\<close>

definition printVariableDefinition :: "token list \<Rightarrow> token_ref variable_definition \<Rightarrow> pr" where
  "printVariableDefinition toks varDef =
     andThen (printVariable toks (variableDefinition_Variable varDef)) (\<lambda>_.
     andThen (p_WriteString '': '') (\<lambda>_.
     andThen (printType toks (variableDefinition_Type varDef)) (\<lambda>_.
     andThen (case variableDefinition_DefaultValue varDef of None \<Rightarrow> ret ()
              | Some v \<Rightarrow> andThen (p_WriteString '' = '') (\<lambda>_. printValue toks v)) (\<lambda>_.
     p_spaced (printDirectives toks) (variableDefinition_Directives varDef)))))"

definition printVariableDefinitions :: "token list \<Rightarrow> token_ref variable_definition list \<Rightarrow> pr" where
  "printVariableDefinitions toks varDefs =
     (if varDefs \<noteq> [] then
        andThen (p_WriteString ''('') (\<lambda>_. andThen (p_each (p_WriteString '', '') (printVariableDefinition toks) varDefs) (\<lambda>_. p_WriteString '')''))
      else ret ())"

fun printDefinition :: "token list \<Rightarrow> token_ref definition_node \<Rightarrow> pr" where
  "printDefinition toks (FragmentDefinition name varDefs typeCondition directives selectionSet) =
     andThen (p_WriteString ''fragment '') (\<lambda>_.
     andThen (printName toks name) (\<lambda>_.
     andThen (printVariableDefinitions toks varDefs) (\<lambda>_.
     andThen (p_WriteString '' on '') (\<lambda>_.
     andThen (printNamedType toks typeCondition) (\<lambda>_.
     andThen (p_WriteString '' '') (\<lambda>_.
     andThen (if directives \<noteq> [] then andThen (printDirectives toks directives) (\<lambda>_. p_WriteString '' '') else ret ()) (\<lambda>_.
     printSelectionSet toks selectionSet)))))))"
| "printDefinition toks (OperationDefinition typ name varDefs directives selectionSet) =
     (let op = OperationType toks (OperationDefinition typ name varDefs directives selectionSet) in
      if name = None \<and> directives = [] \<and> varDefs = [] \<and> op = ''query'' then printSelectionSet toks selectionSet
      else
        andThen (p_WriteString op) (\<lambda>_.
        andThen (if name \<noteq> None \<or> varDefs \<noteq> [] then
                   andThen (p_WriteString '' '') (\<lambda>_.
                   andThen (case name of None \<Rightarrow> ret () | Some n \<Rightarrow> printName toks n) (\<lambda>_.
                   printVariableDefinitions toks varDefs))
                 else ret ()) (\<lambda>_.
        andThen (p_spaced (printDirectives toks) directives) (\<lambda>_.
        p_spaced (printSelectionSet toks) selectionSet))))"

definition printDefinitions :: "token list \<Rightarrow> token_ref definition_node list \<Rightarrow> pr" where
  "printDefinitions toks definitions = p_each (p_WriteString [LF, LF]) (printDefinition toks) definitions"

definition printDocument :: "token list \<Rightarrow> token_ref document \<Rightarrow> pr" where
  "printDocument toks doc = andThen (printDefinitions toks (document_Definitions doc)) (\<lambda>_. p_WriteString [LF])"

text \<open>The nodes that can be printed.\<close>

datatype node =
    ArgumentNode "token_ref argument" | ArgumentsNode "token_ref argument list" | DefinitionsNode "token_ref definition_node list"
  | DirectiveNode "token_ref directive" | DirectivesNode "token_ref directive list" | DocumentNode "token_ref document"
  | NameNode "token_ref name" | ObjectFieldNode "token_ref object_field" | SelectionSetNode "token_ref selection list"
  | VariableDefinitionNode "token_ref variable_definition" | VariableDefinitionsNode "token_ref variable_definition list"
  | TypeNode "token_ref ast_type" | ValueNode "token_ref ast_value" | DefinitionNode "token_ref definition_node"
  | SelectionNode "token_ref selection"

fun printNode :: "token list \<Rightarrow> node \<Rightarrow> pr" where
  "printNode toks (ArgumentNode node) = printArgument toks node"
| "printNode toks (ArgumentsNode node) = printArguments toks ''('' node '', '' '')''"
| "printNode toks (DefinitionsNode node) = printDefinitions toks node"
| "printNode toks (DirectiveNode node) = printDirective toks node"
| "printNode toks (DirectivesNode node) = printDirectives toks node"
| "printNode toks (DocumentNode node) = printDocument toks node"
| "printNode toks (NameNode node) = printName toks node"
| "printNode toks (ObjectFieldNode node) = printObjectField toks node"
| "printNode toks (SelectionSetNode node) = printSelectionSet toks node"
| "printNode toks (VariableDefinitionNode node) = printVariableDefinition toks node"
| "printNode toks (VariableDefinitionsNode node) = printVariableDefinitions toks node"
| "printNode toks (TypeNode node) = printType toks node"
| "printNode toks (ValueNode node) = printValue toks node"
| "printNode toks (DefinitionNode node) = printDefinition toks node"
| "printNode toks (SelectionNode node) = printSelection toks node"

definition FPrint :: "token list \<Rightarrow> string \<Rightarrow> node \<Rightarrow> (unit, string) outcome" where
  "FPrint toks out node =
     (case printNode toks node \<lparr>printer_out = out, indentLevel = 0\<rparr> of
        (Ok _, p) \<Rightarrow> Ok (printer_out p) | (Error e, _) \<Rightarrow> Error e | (Panic, _) \<Rightarrow> Panic | (OutOfFuel, _) \<Rightarrow> OutOfFuel)"

definition Print :: "token list \<Rightarrow> node \<Rightarrow> (unit, string) outcome" where
  "Print toks node = FPrint toks [] node"

end
