(* ===== verification/Errors.thy ===== *)
theory Errors
  imports Token
begin

text \<open>
  \<open>graphql/error.go\<close> and \<open>graphql/errors.go\<close>: the error values of the library, response paths,
  \<open>NewError\<close> with the propagation of locations, path, extensions and kind from the underlying
  error, its text, and lists of errors. The type variable \<open>'x\<close> is the type of the values in an
  \<open>extensions\<close> map (\<open>interface{}\<close> in Go).
\<close>

section \<open>Data\<close>

datatype err_kind =
  ErrKindOther | ErrKindCoercion | ErrKindSyntax | ErrKindValidation | ErrKindExecution | ErrKindInternal

fun err_kind_String :: "err_kind \<Rightarrow> string" where
  "err_kind_String ErrKindOther = ''other error''"
| "err_kind_String ErrKindCoercion = ''coercion error''"
| "err_kind_String ErrKindSyntax = ''syntax error''"
| "err_kind_String ErrKindValidation = ''validation error''"
| "err_kind_String ErrKindExecution = ''execution error''"
| "err_kind_String ErrKindInternal = ''internal error''"

record error_location =
  loc_Line :: nat
  loc_Column :: nat

datatype path_key = FieldName string | Index int

type_synonym response_path = "path_key list"

text \<open>
  Slices and maps that the code distinguishes from nil are options. \<open>GraphQLError\<close> is the struct
  \<open>Error\<close>. \<open>ForeignError\<close> is any other value of Go's \<open>error\<close> interface: its text, and what it
  returns for the optional interfaces \<open>ErrorWithLocations\<close>, \<open>ErrorWithPath\<close> and
  \<open>ErrorWithExtensions\<close> where it implements them.
\<close>

type_synonym locations = "error_location list option"
type_synonym 'x extensions = "(string \<times> 'x) list option"

datatype 'x go_error =
    GraphQLError (err_Message: string) (err_Locations: locations) (err_Path: response_path)
      (err_Extensions: "'x extensions") (err_Err: "'x go_error option") (err_Op: string) (err_Kind: err_kind)
  | ForeignError (foreign_text: string) (foreign_Locations: "locations option")
      (foreign_Path: "response_path option") (foreign_Extensions: "'x extensions option")

datatype 'x error_arg =
    ArgLocation error_location
  | ArgLocations locations
  | ArgPath response_path
  | ArgExtensions "'x extensions"
  | ArgError "'x go_error"
  | ArgOp string
  | ArgKind err_kind
  | ArgOther string string \<comment> \<open>an argument of another type: its type name and its text\<close>

section \<open>Response paths\<close>

definition path_Empty :: "response_path \<Rightarrow> bool" where
  "path_Empty path \<longleftrightarrow> length path = 0"

definition AppendFieldName :: "response_path \<Rightarrow> string \<Rightarrow> response_path" where
  "AppendFieldName path name = path @ [FieldName name]"

definition AppendIndex :: "response_path \<Rightarrow> int \<Rightarrow> response_path" where
  "AppendIndex path index = path @ [Index index]"

definition path_Clone :: "response_path \<Rightarrow> response_path" where
  "path_Clone path = (if length path = 0 then [] else path)"

fun path_String_loop :: "response_path \<Rightarrow> string \<Rightarrow> string" where
  "path_String_loop [] b = b"
| "path_String_loop (FieldName key # keys) b =
     path_String_loop keys (b @ (if length b > 0 then ''.'' else []) @ key)"
| "path_String_loop (Index key # keys) b =
     path_String_loop keys (b @ ''['' @ FormatInt key @ '']'')"

definition path_String :: "response_path \<Rightarrow> string" where
  "path_String path = path_String_loop path []"

section \<open>NewError\<close>

definition len_locations :: "locations \<Rightarrow> nat" where
  "len_locations ls = (case ls of None \<Rightarrow> 0 | Some xs \<Rightarrow> length xs)"

text \<open>The loop over the arguments: \<open>Inl\<close> when an argument has an unknown type.\<close>

fun error_args :: "'x go_error \<Rightarrow> 'x error_arg list \<Rightarrow> 'x go_error + 'x go_error" where
  "error_args e [] = Inr e"
| "error_args (GraphQLError m ls p x er op k) (arg # args) =
     (case arg of
        ArgLocation l \<Rightarrow> error_args (GraphQLError m (Some [l]) p x er op k) args
      | ArgLocations l \<Rightarrow> error_args (GraphQLError m l p x er op k) args
      | ArgPath l \<Rightarrow> error_args (GraphQLError m ls l x er op k) args
      | ArgExtensions l \<Rightarrow> error_args (GraphQLError m ls p l er op k) args
      | ArgError l \<Rightarrow> error_args (GraphQLError m ls p x (Some l) op k) args
      | ArgOp l \<Rightarrow> error_args (GraphQLError m ls p x er l k) args
      | ArgKind l \<Rightarrow> error_args (GraphQLError m ls p x er op l) args
      | ArgOther ty v \<Rightarrow>
          Inl (ForeignError (''unknown type '' @ ty @ '', value '' @ v @ '' in error call'') None None None))"
| "error_args (ForeignError t l p x) (arg # args) = Inl (ForeignError t l p x)"

text \<open>What \<open>NewError\<close> takes from the underlying error for each field left unset.\<close>

fun inherit_Locations :: "locations \<Rightarrow> 'x go_error \<Rightarrow> locations" where
  "inherit_Locations ls (ForeignError t (Some l) p x) = (if len_locations ls = 0 then l else ls)"
| "inherit_Locations ls (ForeignError t None p x) = ls"
| "inherit_Locations ls (GraphQLError m l p x er op k) =
     (if len_locations ls = 0 \<and> len_locations l > 0 then l else ls)"

fun inherit_Path :: "response_path \<Rightarrow> 'x go_error \<Rightarrow> response_path" where
  "inherit_Path path (ForeignError t l (Some p) x) = (if path_Empty path then p else path)"
| "inherit_Path path (ForeignError t l None x) = path"
| "inherit_Path path (GraphQLError m l p x er op k) =
     (if path_Empty path \<and> \<not> path_Empty p then path_Clone p else path)"

fun inherit_Extensions :: "'x extensions \<Rightarrow> 'x go_error \<Rightarrow> 'x extensions" where
  "inherit_Extensions ext (ForeignError t l p (Some x)) = (if ext = None then x else ext)"
| "inherit_Extensions ext (ForeignError t l p None) = ext"
| "inherit_Extensions ext (GraphQLError m l p x er op k) = (if ext = None then x else ext)"

fun inherit_Kind :: "err_kind \<Rightarrow> 'x go_error \<Rightarrow> err_kind" where
  "inherit_Kind kind (ForeignError t l p x) = kind"
| "inherit_Kind kind (GraphQLError m l p x er op k) = (if kind = ErrKindOther then k else kind)"

definition NewError :: "string \<Rightarrow> 'x error_arg list \<Rightarrow> 'x go_error" where
  "NewError message args =
     (case error_args (GraphQLError message None [] None None [] ErrKindOther) args of
        Inl e \<Rightarrow> e
      | Inr (ForeignError t l p x) \<Rightarrow> ForeignError t l p x
      | Inr (GraphQLError m ls p x er op k) \<Rightarrow>
          (case er of
             None \<Rightarrow> GraphQLError m ls p x er op k
           | Some prev \<Rightarrow>
               GraphQLError m (inherit_Locations ls prev) (inherit_Path p prev)
                 (inherit_Extensions x prev) er op (inherit_Kind k prev)))"

definition WrapError :: "'x go_error \<Rightarrow> string \<Rightarrow> 'x go_error" where
  "WrapError err message = NewError message [ArgError err]"

section \<open>Syntax errors\<close>

text \<open>\<open>syntaxError\<close>: an error value that reports the location it was raised at.\<close>

definition syntaxError :: "source \<Rightarrow> source_location \<Rightarrow> string \<Rightarrow> 'x go_error" where
  "syntaxError source location description =
     (let info = LocationInfoOf source location in
      ForeignError (''Syntax Error: '' @ description)
        (Some (Some [\<lparr>loc_Line = info_Line info, loc_Column = info_Column info\<rparr>])) None None)"

definition NewSyntaxError :: "source \<Rightarrow> source_location \<Rightarrow> string \<Rightarrow> 'x go_error" where
  "NewSyntaxError source location description =
     (let e = syntaxError source location description in
      NewError (foreign_text e) [ArgError e, ArgKind ErrKindSyntax])"

definition NewCoercionError :: "string \<Rightarrow> 'x go_error" where
  "NewCoercionError message = NewError message [ArgKind ErrKindCoercion]"

definition NewDefaultResultCoercionError :: "string \<Rightarrow> string \<Rightarrow> 'x go_error \<Rightarrow> 'x go_error" where
  "NewDefaultResultCoercionError typeName value err =
     NewError (''Expected a value of type '' @ [QUOTE] @ typeName @ [QUOTE] @ '' but received: '' @ value)
       [ArgError err, ArgKind ErrKindCoercion]"

section \<open>The text of an error\<close>

definition fmt_location :: "error_location \<Rightarrow> string" where
  "fmt_location l = ''{Line:'' @ fmt_d (loc_Line l) @ '' Column:'' @ fmt_d (loc_Column l) @ ''}''"

definition fmt_locations :: "locations \<Rightarrow> string" where
  "fmt_locations ls = ''['' @ strings_Join (map fmt_location (case ls of None \<Rightarrow> [] | Some xs \<Rightarrow> xs)) '' '' @ '']''"

text \<open>
  \<open>printError\<close>, with the text of an extensions map (\<open>%v\<close>) as the parameter \<open>fmt_ext\<close>. \<open>pad\<close>
  writes a separator only when this error has already written something; the recursion appends to
  one builder, so the nested call starts again with nothing written. \<open>nextErr\<close> is the error that
  wraps this one.
\<close>

definition pad :: "string \<Rightarrow> string \<Rightarrow> string" where
  "pad b str = (if b = [] then b else b @ str)"

definition printSelf :: "('x extensions \<Rightarrow> string) \<Rightarrow> 'x go_error \<Rightarrow> 'x go_error option \<Rightarrow> string" where
  "printSelf fmt_ext e nextErr =
     (let differs = (\<lambda>f. case nextErr of None \<Rightarrow> True | Some n \<Rightarrow> \<not> f n);
          b = err_Op e;
          b = (if length (err_Message e) > 0 then pad b '': '' @ err_Message e else b);
          b = (if err_Locations e \<noteq> None \<and> differs (\<lambda>n. err_Locations n = err_Locations e)
               then b @ (if b = [] then ''At '' else '' at '') @ fmt_locations (err_Locations e) else b);
          b = (if \<not> path_Empty (err_Path e) \<and> differs (\<lambda>n. err_Path n = err_Path e)
               then b @ (if b = [] then ''For '' else '' for '') @ ''response field in the path ''
                      @ path_String (err_Path e) else b);
          b = (if err_Kind e \<noteq> ErrKindOther \<and> differs (\<lambda>n. err_Kind n = err_Kind e)
               then pad b '': '' @ err_kind_String (err_Kind e) else b)
      in if (case err_Extensions e of None \<Rightarrow> False | Some xs \<Rightarrow> length xs > 0)
            \<and> differs (\<lambda>n. err_Extensions n = err_Extensions e)
         then pad b '' (additional info: '' @ fmt_ext (err_Extensions e) @ '')'' else b)"

fun printError :: "('x extensions \<Rightarrow> string) \<Rightarrow> 'x go_error \<Rightarrow> 'x go_error option \<Rightarrow> string" where
  "printError fmt_ext (ForeignError t l p x) nextErr = t"
| "printError fmt_ext (GraphQLError m l p x er op k) nextErr =
     (let e = GraphQLError m l p x er op k; b = printSelf fmt_ext e nextErr in
      case er of
        None \<Rightarrow> b
      | Some (ForeignError t' l' p' x') \<Rightarrow> pad b '': '' @ t'
      | Some (GraphQLError m' l' p' x' er' op' k') \<Rightarrow>
          pad b ('':'' @ [LF] @ ''  '') @ printError fmt_ext (GraphQLError m' l' p' x' er' op' k') (Some e))"

definition error_Error :: "('x extensions \<Rightarrow> string) \<Rightarrow> 'x go_error \<Rightarrow> string" where
  "error_Error fmt_ext e = printError fmt_ext e None"

section \<open>Lists of errors\<close>

text \<open>\<open>Append\<close> asserts that every error is an \<open>*Error\<close> and panics otherwise.\<close>

fun errors_Append :: "'x go_error list \<Rightarrow> 'x go_error list \<Rightarrow> ('e, 'x go_error list) outcome" where
  "errors_Append errs [] = Ok errs"
| "errors_Append errs (GraphQLError m l p x er op k # es) =
     errors_Append (errs @ [GraphQLError m l p x er op k]) es"
| "errors_Append errs (ForeignError t l p x # es) = Panic"

definition errors_Emplace ::
  "'x go_error list \<Rightarrow> string \<Rightarrow> 'x error_arg list \<Rightarrow> ('e, 'x go_error list) outcome" where
  "errors_Emplace errs message args = errors_Append errs [NewError message args]"

definition errors_AppendErrors :: "'x go_error list \<Rightarrow> 'x go_error list list \<Rightarrow> 'x go_error list" where
  "errors_AppendErrors errs es = errs @ concat es"

definition HaveOccurred :: "'x go_error list \<Rightarrow> bool" where
  "HaveOccurred errs \<longleftrightarrow> length errs > 0"

section \<open>Properties\<close>

text \<open>The message and location of a syntax error, as its callers and readers use them.\<close>

lemma NewSyntaxError_eq:
  "NewSyntaxError source location description =
     GraphQLError (''Syntax Error: '' @ description)
       (Some [\<lparr>loc_Line = info_Line (LocationInfoOf source location),
               loc_Column = info_Column (LocationInfoOf source location)\<rparr>])
       [] None (Some (syntaxError source location description)) [] ErrKindSyntax"
  by (simp add: NewSyntaxError_def NewError_def syntaxError_def len_locations_def path_Empty_def Let_def)

definition known_arg :: "'x error_arg \<Rightarrow> bool" where
  "known_arg a \<longleftrightarrow> (\<nexists>ty v. a = ArgOther ty v)"

definition is_graphql_error :: "'x go_error \<Rightarrow> bool" where
  "is_graphql_error e \<longleftrightarrow> (case e of GraphQLError _ _ _ _ _ _ _ \<Rightarrow> True | _ \<Rightarrow> False)"

lemma error_args_known:
  assumes "list_all known_arg args"
  shows "\<exists>m' l' p' x' er' op' k'. error_args (GraphQLError m l p x er op k) args
           = Inr (GraphQLError m' l' p' x' er' op' k')"
  using assms
proof (induction args arbitrary: m l p x er op k)
  case (Cons a args)
  then show ?case by (cases a) (auto simp: known_arg_def)
qed simp

lemma NewError_known: "list_all known_arg args \<Longrightarrow> is_graphql_error (NewError message args)"
  using error_args_known [of args message None "[]" None None "[]" ErrKindOther]
  by (auto simp: NewError_def is_graphql_error_def split: option.splits)

text \<open>
  Wrapping an error keeps what it knew: the kind, the path, the extensions and the locations of
  the wrapped \<open>*Error\<close> are those of the wrapper, whose own message is the given one.
\<close>

theorem WrapError_propagates:
  "WrapError (GraphQLError m ls p x er op k) message =
     GraphQLError message (if len_locations ls > 0 then ls else None) p x
       (Some (GraphQLError m ls p x er op k)) [] k"
  by (simp add: WrapError_def NewError_def path_Empty_def path_Clone_def len_locations_def)

end
