(* ===== verification/Lexer.thy ===== *)
theory Lexer
  imports Errors BlockString
begin

text \<open>
  \<open>graphql/lexer/lexer.go\<close>: the lexer as a state (source, token store, last and current token,
  byte position) and one definition per method. The field \<open>bodySize\<close>, a cache of the size of the
  body that only \<open>New\<close> writes, is the definition \<open>bodySize\<close>. Loops that consume bytes are
  functions that terminate because the position moves towards the end of the body.
\<close>

section \<open>State\<close>

record lexer =
  lex_source :: source
  lex_store :: token_store
  lex_lastToken :: token_ref
  lex_token :: token_ref
  lex_bytePos :: nat

type_synonym syntax_error = "unit go_error"
type_synonym 'a lex = "(lexer, syntax_error, 'a) action"

abbreviation lex_body :: "lexer \<Rightarrow> source_body" where
  "lex_body l \<equiv> source_body (lex_source l)"

abbreviation lex_tokens :: "lexer \<Rightarrow> token list" where
  "lex_tokens l \<equiv> store_tokens (lex_store l)"

definition bodySize :: "lexer \<Rightarrow> nat" where
  "bodySize l = Size (lex_body l)"

definition New :: "source \<Rightarrow> lexer" where
  "New source =
     (case NewSOFToken source \<lparr>store_tokens = [], store_sof = []\<rparr> of (startOfFileToken, h) \<Rightarrow>
        \<lparr>lex_source = source, lex_store = h, lex_lastToken = startOfFileToken,
         lex_token = startOfFileToken, lex_bytePos = 0\<rparr>)"

text \<open>\<open>Token\<close>: the current token, as a value of the store.\<close>

definition lexer_Token :: "lexer \<Rightarrow> token" where
  "lexer_Token l = lex_tokens l ! lex_token l"

section \<open>Bytes\<close>

definition LocationWithPos :: "nat \<Rightarrow> source_location lex" where
  "LocationWithPos bytePos = (\<lambda>l. (LocationFromPos (lex_source l) bytePos, l))"

definition Location :: "source_location lex" where
  "Location = (\<lambda>l. LocationWithPos (lex_bytePos l) l)"

definition peek :: "lexer \<Rightarrow> char" where
  "peek l = At (lex_body l) (lex_bytePos l)"

definition advancePos :: "lexer \<Rightarrow> lexer" where
  "advancePos l = (if lex_bytePos l < bodySize l then l\<lparr>lex_bytePos := lex_bytePos l + 1\<rparr> else l)"

definition consume :: "lexer \<Rightarrow> char \<times> lexer" where
  "consume l = (At (lex_body l) (lex_bytePos l), advancePos l)"

function skipWhitespace :: "source_body \<Rightarrow> nat \<Rightarrow> nat" where
  "skipWhitespace body bytePos =
     (if bytePos < Size body then
        (if body ! bytePos \<in> {TAB, SPACE, CHR '','', LF} then skipWhitespace body (bytePos + 1)
         else if body ! bytePos = CR then
           (if usub (Size body) bytePos \<ge> 2 \<and> body ! (bytePos + 1) = LF
            then skipWhitespace body (bytePos + 2) else skipWhitespace body (bytePos + 1))
         else bytePos)
      else bytePos)"
  by pat_completeness auto
termination
  by (relation "measure (\<lambda>(body, bytePos). Size body - bytePos)") auto

declare skipWhitespace.simps [simp del]

definition skipBOM :: "source_body \<Rightarrow> nat \<Rightarrow> nat" where
  "skipBOM body bytePos =
     (if bytePos = 0 \<and> usub (Size body) bytePos \<ge> 3
         \<and> body ! bytePos = CHR 0xEF \<and> body ! (bytePos + 1) = CHR 0xBB \<and> body ! (bytePos + 2) = CHR 0xBF
      then bytePos + 3 else bytePos)"

definition consumeWhitespace :: "lexer \<Rightarrow> lexer" where
  "consumeWhitespace l =
     l\<lparr>lex_bytePos := skipWhitespace (lex_body l) (skipBOM (lex_body l) (lex_bytePos l))\<rparr>"

lemma advancePos_simps [simp]:
  "lex_source (advancePos l) = lex_source l" "lex_store (advancePos l) = lex_store l"
  "lex_token (advancePos l) = lex_token l" "lex_lastToken (advancePos l) = lex_lastToken l"
  "bodySize (advancePos l) = bodySize l"
  by (simp_all add: advancePos_def bodySize_def)

lemma consume_simps [simp]:
  "fst (consume l) = peek l" "snd (consume l) = advancePos l"
  by (simp_all add: consume_def peek_def)

lemma consume_eq: "consume l = (peek l, advancePos l)"
  by (simp add: consume_def peek_def)

lemma peek_in_body: "peek l \<noteq> NUL \<Longrightarrow> lex_bytePos l < bodySize l"
  by (auto simp: peek_def At_def bodySize_def split: if_splits)

lemma advancePos_decreases:
  "lex_bytePos l < bodySize l \<Longrightarrow> bodySize l - lex_bytePos (advancePos l) < bodySize l - lex_bytePos l"
  by (simp add: advancePos_def)

lemma is_digit_not_NUL: "is_digit c \<Longrightarrow> c \<noteq> NUL"
  by (auto simp: is_digit_def)

lemma is_name_char_not_NUL: "is_name_char c \<Longrightarrow> c \<noteq> NUL"
  by (auto simp: is_name_char_def)

text \<open>
  The loops over digits, names and comments consume bytes while the one under the cursor satisfies
  a test that the end of the body (read as NUL) fails, so the position moves in every iteration.
\<close>

function consumeDigits :: "lexer \<Rightarrow> char \<times> lexer" where
  "consumeDigits l = (let char = peek l in
     if char \<ge> CHR ''0'' \<and> char \<le> CHR ''9'' then consumeDigits (snd (consume l)) else (char, l))"
  by pat_completeness auto
termination
proof (relation "measure (\<lambda>l. bodySize l - lex_bytePos l)")
  show "wf (measure (\<lambda>l. bodySize l - lex_bytePos l))" by simp
  fix l char assume "char = peek l" and "char \<ge> CHR ''0'' \<and> char \<le> CHR ''9''"
  then have "peek l \<noteq> NUL" by (auto simp: less_eq_char_byte_of byte_of_def)
  then show "(snd (consume l), l) \<in> measure (\<lambda>l. bodySize l - lex_bytePos l)"
    using advancePos_decreases [OF peek_in_body, of l] by simp
qed

function consumeName :: "lexer \<Rightarrow> lexer" where
  "consumeName l = (if is_name_char (peek l) then consumeName (snd (consume l)) else l)"
  by pat_completeness auto
termination
proof (relation "measure (\<lambda>l. bodySize l - lex_bytePos l)")
  show "wf (measure (\<lambda>l. bodySize l - lex_bytePos l))" by simp
  fix l assume "is_name_char (peek l)"
  then show "(snd (consume l), l) \<in> measure (\<lambda>l. bodySize l - lex_bytePos l)"
    using advancePos_decreases [OF peek_in_body [OF is_name_char_not_NUL]] by simp
qed

function consumeComment :: "lexer \<Rightarrow> lexer" where
  "consumeComment l = (if peek l > CHR 0x1F \<or> peek l = TAB then consumeComment (snd (consume l)) else l)"
  by pat_completeness auto
termination
proof (relation "measure (\<lambda>l. bodySize l - lex_bytePos l)")
  show "wf (measure (\<lambda>l. bodySize l - lex_bytePos l))" by simp
  fix l assume "peek l > CHR 0x1F \<or> peek l = TAB"
  then have "peek l \<noteq> NUL" by (auto simp: less_char_byte_of byte_of_def)
  then show "(snd (consume l), l) \<in> measure (\<lambda>l. bodySize l - lex_bytePos l)"
    using advancePos_decreases [OF peek_in_body, of l] by simp
qed

declare consumeDigits.simps [simp del] consumeName.simps [simp del] consumeComment.simps [simp del]

section \<open>Errors and tokens\<close>

definition charAtPosToStr :: "lexer \<Rightarrow> nat \<Rightarrow> string" where
  "charAtPosToStr l bytePos =
     (if bytePos \<ge> bodySize l then ''<EOF>''
      else let r = fst (RuneAt (lex_body l) bytePos) in
        if r \<ge> 0x20 \<and> r < 0x7F then [QUOTE] @ utf8_EncodeRune (nat r) @ [QUOTE]
        else [QUOTE, BACKSLASH, CHR ''u''] @ fmt_04X (nat r) @ [QUOTE])"

text \<open>Return \<open>NewSyntaxError\<close> at a byte position.\<close>

definition raiseAt :: "nat \<Rightarrow> string \<Rightarrow> 'a lex" where
  "raiseAt bytePos message =
     andThen (LocationWithPos bytePos) (\<lambda>location l. (Error (NewSyntaxError (lex_source l) location message), l))"

lemma LocationWithPos_state [simp]: "snd (LocationWithPos p l) = l"
  by (simp add: LocationWithPos_def)

lemma raiseAt_state [simp]: "snd (raiseAt p m l) = l"
  by (simp add: raiseAt_def andThen_def LocationWithPos_def split: outcome.splits)

definition newUnexpectedCharacterError :: "nat \<Rightarrow> 'a lex" where
  "newUnexpectedCharacterError bytePos = (\<lambda>l.
     let char = At (lex_body l) bytePos;
         message =
           (if char < CHR 0x20 \<and> char \<noteq> TAB \<and> char \<noteq> LF \<and> char \<noteq> CR
            then ''Cannot contain the invalid character '' @ charAtPosToStr l bytePos @ ''.''
            else if char = APOSTROPHE
            then ''Unexpected single quote character ('' @ [APOSTROPHE]
                 @ ''), did you mean to use a double quote ('' @ [QUOTE] @ '')?''
            else ''Cannot parse the unexpected character '' @ charAtPosToStr l bytePos @ ''.'')
     in raiseAt bytePos message l)"

definition makeTokenWithValue :: "kind \<Rightarrow> nat \<Rightarrow> string \<Rightarrow> token lex" where
  "makeTokenWithValue kind len value = (\<lambda>l.
     andThen (LocationWithPos (usub (lex_bytePos l) len))
       (\<lambda>location. ret \<lparr>token_Kind = kind, token_Location = location, token_Length = len,
                        token_Value = value, token_Prev = Some (lex_token l), token_Next = None\<rparr>) l)"

definition makeToken :: "kind \<Rightarrow> nat \<Rightarrow> token lex" where
  "makeToken kind len = makeTokenWithValue kind len []"

section \<open>Comments, names and numbers\<close>

definition lexComment :: "token lex" where
  "lexComment = (\<lambda>l.
     let startPos = lex_bytePos l;
         l1 = consumeComment (snd (consume l))
     in makeToken KindComment (usub (lex_bytePos l1) startPos) l1)"

definition lexName :: "token lex" where
  "lexName = (\<lambda>l.
     let startPos = lex_bytePos l;
         l1 = consumeName (snd (consume l))
     in andThen (lift_outcome (SubStr (lex_body l1) startPos (lex_bytePos l1)))
          (makeTokenWithValue KindName (usub (lex_bytePos l1) startPos)) l1)"

text \<open>
  \<open>lexNumber\<close> in the four parts of its body: sign, integer part, fraction, exponent. Each part
  passes on the byte \<open>char\<close> that the source keeps in a variable, and the kind of the token.
\<close>

definition lexNumber_sign :: "char \<Rightarrow> char lex" where
  "lexNumber_sign char = (\<lambda>l.
     if char = CHR ''-'' then
       (let char = peek l in
        if char < CHR ''0'' \<or> char > CHR ''9'' then
          raiseAt (lex_bytePos l)
            (''Invalid number, expected digit after '' @ [APOSTROPHE] @ ''-'' @ [APOSTROPHE] @ '' but got: ''
             @ charAtPosToStr l (lex_bytePos l) @ ''.'') l
        else (Ok char, snd (consume l)))
     else (Ok char, l))"

definition lexNumber_integer :: "char \<Rightarrow> char lex" where
  "lexNumber_integer char = (\<lambda>l.
     if char = CHR ''0'' then
       (let char = peek l in
        if char \<ge> CHR ''0'' \<and> char \<le> CHR ''9'' then
          raiseAt (lex_bytePos l)
            (''Invalid number, unexpected digit after 0: '' @ charAtPosToStr l (lex_bytePos l) @ ''.'') l
        else (Ok char, l))
     else (case consumeDigits l of (char, l1) \<Rightarrow> (Ok char, l1)))"

definition lexNumber_fraction :: "char \<Rightarrow> (char \<times> kind) lex" where
  "lexNumber_fraction char = (\<lambda>l.
     if char = CHR ''.'' then
       (let l1 = snd (consume l); char = peek l1 in
        if char \<ge> CHR ''0'' \<and> char \<le> CHR ''9'' then
          (case consumeDigits (snd (consume l1)) of (char, l2) \<Rightarrow> (Ok (char, KindFloat), l2))
        else raiseAt (lex_bytePos l1)
               (''Invalid number, expected digit after decimal point ('' @ [APOSTROPHE] @ ''.'' @ [APOSTROPHE]
                @ '') but got: '' @ charAtPosToStr l1 (lex_bytePos l1) @ ''.'') l1)
     else (Ok (char, KindInt), l))"

definition lexNumber_expSign :: "lexer \<Rightarrow> lexer" where
  "lexNumber_expSign l =
     (let char = peek l in if char = CHR ''+'' \<or> char = CHR ''-'' then snd (consume l) else l)"

definition lexNumber_exponent :: "char \<times> kind \<Rightarrow> kind lex" where
  "lexNumber_exponent ck = (\<lambda>l. case ck of (char, tokenKind) \<Rightarrow>
     if char = CHR ''E'' \<or> char = CHR ''e'' then
       (let l2 = lexNumber_expSign (snd (consume l));
            char = peek l2
        in if char \<ge> CHR ''0'' \<and> char \<le> CHR ''9'' then
             (Ok KindFloat, snd (consumeDigits (snd (consume l2))))
           else raiseAt (lex_bytePos l2)
                  (''Invalid number, expected digit but got: '' @ charAtPosToStr l2 (lex_bytePos l2) @ ''.'') l2)
     else (Ok tokenKind, l))"

definition lexNumber :: "token lex" where
  "lexNumber = (\<lambda>l.
     let startPos = lex_bytePos l; (char, l1) = consume l in
     andThen (lexNumber_sign char) (\<lambda>char.
     andThen (lexNumber_integer char) (\<lambda>char.
     andThen (lexNumber_fraction char) (\<lambda>ck.
     andThen (lexNumber_exponent ck) (\<lambda>tokenKind l.
       andThen (lift_outcome (SubStr (lex_body l) startPos (lex_bytePos l)))
         (makeTokenWithValue tokenKind (usub (lex_bytePos l) startPos)) l)))) l1)"

section \<open>Strings\<close>

text \<open>
  \<open>rune\<close> is a 32-bit signed integer: \<open>char2hex\<close> returns \<open>-1\<close> for a byte that is no hexadecimal
  digit, and \<open>uniCharCode\<close> shifts and ors four of them.
\<close>

unbundle bit_operations_syntax

definition char2hex :: "char \<Rightarrow> 32 word" where
  "char2hex a =
     (if a \<ge> CHR ''0'' \<and> a \<le> CHR ''9'' then of_nat (byte_of a - 48)
      else if a \<ge> CHR ''A'' \<and> a \<le> CHR ''F'' then of_nat (byte_of a - 55)
      else if a \<ge> CHR ''a'' \<and> a \<le> CHR ''f'' then of_nat (byte_of a - 87)
      else -1)"

definition uniCharCode :: "char \<Rightarrow> char \<Rightarrow> char \<Rightarrow> char \<Rightarrow> 32 word" where
  "uniCharCode a b c d =
     (push_bit 12 (char2hex a) OR push_bit 8 (char2hex b) OR push_bit 4 (char2hex c) OR char2hex d)"

text \<open>The simple escapes of \<open>lexString\<close>: the byte written for the byte after the backslash.\<close>

definition escapedCharacter :: "char \<Rightarrow> char option" where
  "escapedCharacter char =
     (if char = QUOTE then Some QUOTE
      else if char = BACKSLASH then Some BACKSLASH
      else if char = CHR ''/'' then Some (CHR ''/'')
      else if char = CHR ''b'' then Some (CHR 0x08)
      else if char = CHR ''f'' then Some (CHR 0x0C)
      else if char = CHR ''n'' then Some LF
      else if char = CHR ''r'' then Some CR
      else if char = CHR ''t'' then Some TAB
      else None)"

definition consume4 :: "lexer \<Rightarrow> (char \<times> char \<times> char \<times> char) \<times> lexer" where
  "consume4 l =
     (let (a, l1) = consume l; (b, l2) = consume l1; (c, l3) = consume l2; (d, l4) = consume l3
      in ((a, b, c, d), l4))"

definition raiseEscape :: "nat \<Rightarrow> nat \<Rightarrow> 'a lex" where
  "raiseEscape escapeSeqPos escapeSeqEnd = (\<lambda>l.
     andThen (lift_outcome (SubStr (lex_body l) escapeSeqPos escapeSeqEnd)) (\<lambda>seq.
       raiseAt (usub escapeSeqPos 1)
         (''Invalid character escape sequence: '' @ [BACKSLASH, CHR ''u''] @ seq @ ''.'')) l)"

text \<open>
  \<open>lexUnicodeEscape\<close> is the \<open>case 'u'\<close> of the switch: the bytes written to the buffer (the UTF-8
  encoding of the code point), or the error.
\<close>

definition lexUnicodeEscape :: "string lex" where
  "lexUnicodeEscape = (\<lambda>l.
     let escapeSeqPos = lex_bytePos l in
     if usub (bodySize l) (lex_bytePos l) < 4 then raiseEscape escapeSeqPos (bodySize l) l
     else let escapeSeqEnd = lex_bytePos l + 4;
              ((a, b, c, d), l4) = consume4 l;
              charCode = uniCharCode a b c d
          in if sint charCode \<ge> 0 then (Ok (utf8_EncodeRune (unat charCode)), l4)
             else raiseEscape escapeSeqPos escapeSeqEnd l4)"

definition lexEscape :: "string lex" where
  "lexEscape = (\<lambda>l.
     let (char, l1) = consume l in
     case escapedCharacter char of
       Some c \<Rightarrow> (Ok [c], l1)
     | None \<Rightarrow>
        if char = CHR ''u'' then lexUnicodeEscape l1
        else raiseAt (usub (lex_bytePos l1) 1)
               (''Invalid character escape sequence: '' @ [BACKSLASH] @ utf8_EncodeRune (byte_of char) @ ''.'') l1)"

lemma raiseEscape_state [simp]: "snd (raiseEscape p q l) = l"
  by (simp add: raiseEscape_def andThen_def split: outcome.splits)

lemma advancePos_mono: "lex_bytePos l \<le> lex_bytePos (advancePos l)"
  by (simp add: advancePos_def)

lemma consume4_state: "consume4 l = (cs, l4) \<Longrightarrow> lex_bytePos l \<le> lex_bytePos l4 \<and> lex_source l4 = lex_source l"
  by (auto simp: consume4_def consume_def Let_def
      intro: order_trans [OF advancePos_mono] advancePos_mono)

lemma lexUnicodeEscape_pos:
  "lex_bytePos l \<le> lex_bytePos (snd (lexUnicodeEscape l)) \<and> lex_source (snd (lexUnicodeEscape l)) = lex_source l"
  by (cases "consume4 l") (auto simp: lexUnicodeEscape_def Let_def dest: consume4_state split: prod.split)

lemma lexEscape_pos:
  "lex_bytePos l \<le> lex_bytePos (snd (lexEscape l)) \<and> lex_source (snd (lexEscape l)) = lex_source l"
proof -
  have "lexEscape l = (case escapedCharacter (peek l) of Some c \<Rightarrow> (Ok [c], advancePos l)
      | None \<Rightarrow> if peek l = CHR ''u'' then lexUnicodeEscape (advancePos l)
        else raiseAt (usub (lex_bytePos (advancePos l)) 1)
               (''Invalid character escape sequence: '' @ [BACKSLASH] @ utf8_EncodeRune (byte_of (peek l)) @ ''.'')
               (advancePos l))"
    unfolding lexEscape_def consume_eq by simp
  then show ?thesis
    using advancePos_mono [of l] lexUnicodeEscape_pos [of "advancePos l"] by (auto split: option.split)
qed

function lexString_loop :: "nat \<Rightarrow> string \<Rightarrow> token lex" where
  "lexString_loop startPos value l =
     (if lex_bytePos l < bodySize l then
        (let char = peek l in
         if char = LF \<or> char = CR then raiseAt (lex_bytePos l) ''Unterminated string.'' l
         else if char = QUOTE then
           (let l1 = snd (consume l) in
            makeTokenWithValue KindString (usub (lex_bytePos l1) startPos) value l1)
         else if char < CHR 0x20 \<and> char \<noteq> TAB then
           raiseAt (lex_bytePos l)
             (''Invalid character within String: '' @ charAtPosToStr l (lex_bytePos l) @ ''.'') l
         else
           (let l1 = snd (consume l) in
            if char \<noteq> BACKSLASH then lexString_loop startPos (value @ [char]) l1
            else (case lexEscape l1 of
                    (Ok bs, l2) \<Rightarrow> lexString_loop startPos (value @ bs) l2
                  | (Error e, l2) \<Rightarrow> (Error e, l2)
                  | (Panic, l2) \<Rightarrow> (Panic, l2)
                  | (OutOfFuel, l2) \<Rightarrow> (OutOfFuel, l2))))
      else raiseAt (lex_bytePos l) ''Unterminated string.'' l)"
  by pat_completeness auto
termination
proof (relation "measure (\<lambda>(startPos, value, l). bodySize l - lex_bytePos l)")
  show "wf (measure (\<lambda>(startPos, value, l). bodySize l - lex_bytePos l))" by simp
next
  fix startPos :: nat and v :: string and l char l1
  assume "lex_bytePos l < bodySize l" "l1 = snd (consume l)"
  then show "((startPos, v @ [char], l1), startPos, v, l)
      \<in> measure (\<lambda>(startPos, value, l). bodySize l - lex_bytePos l)"
    using advancePos_decreases [of l] by simp
next
  fix startPos :: nat and v bs :: string and l l1 l2 :: lexer and r
  assume *: "lex_bytePos l < bodySize l" "l1 = snd (consume l)" "(r, l2) = lexEscape l1"
  have "snd (lexEscape l1) = l2" using *(3) by (metis snd_conv)
  then have "bodySize l2 = bodySize l" "lex_bytePos l1 \<le> lex_bytePos l2"
    using lexEscape_pos [of l1] *(2) by (auto simp: bodySize_def)
  then show "((startPos, v @ bs, l2), startPos, v, l)
      \<in> measure (\<lambda>(startPos, value, l). bodySize l - lex_bytePos l)"
    using advancePos_decreases [of l] * by simp
qed

declare lexString_loop.simps [simp del]

definition lexString :: "token lex" where
  "lexString = (\<lambda>l. lexString_loop (usub (lex_bytePos l) 1) [] l)"

text \<open>
  One iteration of \<open>lexBlockString\<close> at a quote: the bytes appended to the buffer, or \<open>None\<close> when
  the three quotes end the string.
\<close>

definition blockQuotes :: "lexer \<Rightarrow> string option \<times> lexer" where
  "blockQuotes l =
     (let l1 = snd (consume l) in
      if peek l1 = QUOTE then
        (let l2 = snd (consume l1) in
         if peek l2 = QUOTE then (None, snd (consume l2)) else (Some [QUOTE, QUOTE], l2))
      else (Some [QUOTE], l1))"

text \<open>One iteration at a backslash.\<close>

definition blockBackslash :: "lexer \<Rightarrow> string \<times> lexer" where
  "blockBackslash l =
     (let l1 = snd (consume l) in
      if peek l1 \<noteq> QUOTE then ([BACKSLASH], l1)
      else let l2 = snd (consume l1) in
        if peek l2 \<noteq> QUOTE then ([BACKSLASH, QUOTE], l2)
        else let l3 = snd (consume l2) in
          if peek l3 \<noteq> QUOTE then ([BACKSLASH, QUOTE, QUOTE], l3)
          else ([QUOTE, QUOTE, QUOTE], snd (consume l3)))"

lemma blockQuotes_pos:
  "lex_bytePos (advancePos l) \<le> lex_bytePos (snd (blockQuotes l)) \<and> lex_source (snd (blockQuotes l)) = lex_source l"
  by (auto simp: blockQuotes_def Let_def intro: order_trans [OF advancePos_mono] advancePos_mono)

lemma blockBackslash_pos:
  "lex_bytePos (advancePos l) \<le> lex_bytePos (snd (blockBackslash l)) \<and> lex_source (snd (blockBackslash l)) = lex_source l"
  by (auto simp: blockBackslash_def Let_def intro: order_trans [OF advancePos_mono] advancePos_mono)

function lexBlockString_loop :: "nat \<Rightarrow> string \<Rightarrow> token lex" where
  "lexBlockString_loop startPos value l =
     (if lex_bytePos l < bodySize l then
        (let char = peek l in
         if char = QUOTE then
           (case blockQuotes l of
              (None, l1) \<Rightarrow>
                makeTokenWithValue KindBlockString (usub (lex_bytePos l1) startPos) (BlockStringValue value) l1
            | (Some bs, l1) \<Rightarrow> lexBlockString_loop startPos (value @ bs) l1)
         else if char = BACKSLASH then
           (case blockBackslash l of (bs, l1) \<Rightarrow> lexBlockString_loop startPos (value @ bs) l1)
         else if char < CHR 0x20 \<and> char \<noteq> TAB \<and> char \<noteq> CR \<and> char \<noteq> LF then
           raiseAt (lex_bytePos l)
             (''Invalid character within String: '' @ charAtPosToStr l (lex_bytePos l) @ ''.'') l
         else lexBlockString_loop startPos (value @ [char]) (snd (consume l)))
      else raiseAt (lex_bytePos l) ''Unterminated string.'' l)"
  by pat_completeness auto
termination
proof (relation "measure (\<lambda>(startPos, value, l). bodySize l - lex_bytePos l)")
  show "wf (measure (\<lambda>(startPos, value, l). bodySize l - lex_bytePos l))" by simp
next
  fix startPos :: nat and v bs :: string and l l1 :: lexer and r
  assume *: "lex_bytePos l < bodySize l" "(r, l1) = blockQuotes l"
  then show "((startPos, v @ bs, l1), startPos, v, l)
      \<in> measure (\<lambda>(startPos, value, l). bodySize l - lex_bytePos l)"
    using advancePos_decreases [of l] blockQuotes_pos [of l] by (auto simp: bodySize_def simp flip: *(2))
next
  fix startPos :: nat and v bs :: string and l l1 :: lexer
  assume *: "lex_bytePos l < bodySize l" "(bs, l1) = blockBackslash l"
  then show "((startPos, v @ bs, l1), startPos, v, l)
      \<in> measure (\<lambda>(startPos, value, l). bodySize l - lex_bytePos l)"
    using advancePos_decreases [of l] blockBackslash_pos [of l] by (auto simp: bodySize_def simp flip: *(2))
next
  fix startPos :: nat and v :: string and l char
  assume "lex_bytePos l < bodySize l"
  then show "((startPos, v @ [char], snd (consume l)), startPos, v, l)
      \<in> measure (\<lambda>(startPos, value, l). bodySize l - lex_bytePos l)"
    using advancePos_decreases [of l] by simp
qed

declare lexBlockString_loop.simps [simp del]

definition lexBlockString :: "token lex" where
  "lexBlockString = (\<lambda>l. lexBlockString_loop (usub (lex_bytePos l) 3) [] l)"

section \<open>Tokens\<close>

definition lexSimpleToken :: "kind \<Rightarrow> token lex" where
  "lexSimpleToken kind = (\<lambda>l. makeToken kind 1 (snd (consume l)))"

definition lexSpread :: "token lex" where
  "lexSpread = (\<lambda>l.
     let l1 = snd (consume l) in
     if peek l1 \<noteq> CHR ''.'' then newUnexpectedCharacterError (usub (lex_bytePos l1) 1) l1
     else let l2 = snd (consume l1) in
       if peek l2 \<noteq> CHR ''.'' then newUnexpectedCharacterError (usub (lex_bytePos l2) 2) l2
       else makeToken KindSpread 3 (snd (consume l2)))"

definition lexQuote :: "token lex" where
  "lexQuote = (\<lambda>l.
     let l1 = snd (consume l) in
     if peek l1 = QUOTE then
       (let l2 = snd (consume l1) in
        if peek l2 = QUOTE then lexBlockString (snd (consume l2))
        else makeTokenWithValue KindString 2 [] l2)
     else lexString l1)"

definition lexToken :: "token lex" where
  "lexToken = (\<lambda>l0.
     let prev = lex_token l0;
         l = consumeWhitespace l0;
         char = peek l
     in if char = NUL \<and> lex_bytePos l \<ge> bodySize l then
          andThen Location (\<lambda>location.
            ret \<lparr>token_Kind = KindEOF, token_Location = location, token_Length = 0, token_Value = [],
                 token_Prev = Some prev, token_Next = None\<rparr>) l
        else if char = CHR ''!'' then lexSimpleToken KindBang l
        else if char = CHR ''#'' then lexComment l
        else if char = CHR ''$'' then lexSimpleToken KindDollar l
        else if char = CHR ''&'' then lexSimpleToken KindAmp l
        else if char = CHR ''('' then lexSimpleToken KindLeftParen l
        else if char = CHR '')'' then lexSimpleToken KindRightParen l
        else if char = CHR ''.'' then lexSpread l
        else if char = CHR '':'' then lexSimpleToken KindColon l
        else if char = CHR ''='' then lexSimpleToken KindEquals l
        else if char = CHR ''@'' then lexSimpleToken KindAt l
        else if char = CHR ''['' then lexSimpleToken KindLeftBracket l
        else if char = CHR '']'' then lexSimpleToken KindRightBracket l
        else if char = CHR ''{'' then lexSimpleToken KindLeftBrace l
        else if char = CHR ''|'' then lexSimpleToken KindPipe l
        else if char = CHR ''}'' then lexSimpleToken KindRightBrace l
        else if is_name_start char then lexName l
        else if char = CHR ''-'' \<or> is_digit char then lexNumber l
        else if char = QUOTE then lexQuote l
        else newUnexpectedCharacterError (lex_bytePos l) l)"

section \<open>The token stream\<close>

text \<open>
  \<open>appendToken\<close> stores the token that \<open>lexToken\<close> allocated and writes \<open>tok.Next\<close>. \<open>Lookahead\<close>
  walks over comments, moving the current token as it goes. The walk follows \<open>Next\<close> links already
  present, so it gets fuel: one unit for every token in the store and every byte left is enough
  when the tokens form a chain.
\<close>

definition appendToken :: "token_ref \<Rightarrow> token \<Rightarrow> lexer \<Rightarrow> token_ref \<times> lexer" where
  "appendToken tok nextToken l =
     (let q = length (lex_tokens l) in
      (q, l\<lparr>lex_store := (lex_store l)\<lparr>store_tokens :=
             (lex_tokens l)[tok := (lex_tokens l ! tok)\<lparr>token_Next := Some q\<rparr>] @ [nextToken]\<rparr>\<rparr>))"

definition nextLink :: "token_ref \<Rightarrow> token_ref lex" where
  "nextLink tok = (\<lambda>l.
     case token_Next (lex_tokens l ! tok) of
       Some q \<Rightarrow> (Ok q, l)
     | None \<Rightarrow> andThen lexToken (\<lambda>nextToken l. case appendToken tok nextToken l of (q, l') \<Rightarrow> (Ok q, l')) l)"

fun Lookahead_loop :: "nat \<Rightarrow> token_ref \<Rightarrow> token_ref lex" where
  "Lookahead_loop 0 tok = out_of_fuel"
| "Lookahead_loop (Suc fuel) tok =
     andThen (nextLink tok) (\<lambda>q l.
       if token_Kind (lex_tokens l ! q) \<noteq> KindComment then (Ok q, l)
       else Lookahead_loop fuel q (l\<lparr>lex_token := q\<rparr>))"

definition Lookahead :: "token_ref lex" where
  "Lookahead = (\<lambda>l.
     let tok = lex_token l in
     if token_Kind (lex_tokens l ! tok) \<noteq> KindEOF
     then Lookahead_loop (length (lex_tokens l) + (bodySize l - lex_bytePos l) + 1) tok l
     else (Ok tok, l))"

definition Advance :: "token_ref lex" where
  "Advance =
     andThen Lookahead (\<lambda>nextToken l. (Ok nextToken, l\<lparr>lex_lastToken := lex_token l, lex_token := nextToken\<rparr>))"

end
