(* ===== verification/Reader.thy ===== *)
theory Reader
  imports Prelude
begin

text \<open>
  Reading from a stream: the loops of a client that collect items, and the contracts (locales) under which
  a client that reads ahead, recurses and loops always returns. \<open>cursor\<close> is the part about progress;
  \<open>reader\<close> adds what has been read, so that a client's result can be related to it.
\<close>

section \<open>Loops\<close>

text \<open>
  Two loops of the source that append to a slice. \<open>repeat_until\<close>: run \<open>item\<close>, append its result, stop
  when \<open>stop\<close> says so. \<open>repeat_unless\<close>: test \<open>stop\<close> first. Both get fuel.
\<close>

fun repeat_until :: "nat \<Rightarrow> ('s, 'e, 'a) action \<Rightarrow> ('s, 'e, bool) action \<Rightarrow> 'a list \<Rightarrow> ('s, 'e, 'a list) action" where
  "repeat_until 0 item stop xs = out_of_fuel"
| "repeat_until (Suc fuel) item stop xs =
     andThen item (\<lambda>x. andThen stop (\<lambda>b.
       if b then ret (xs @ [x]) else repeat_until fuel item stop (xs @ [x])))"

fun repeat_unless :: "nat \<Rightarrow> ('s, 'e, 'a) action \<Rightarrow> ('s, 'e, bool) action \<Rightarrow> 'a list \<Rightarrow> ('s, 'e, 'a list) action" where
  "repeat_unless 0 item stop xs = out_of_fuel"
| "repeat_unless (Suc fuel) item stop xs =
     andThen stop (\<lambda>b.
       if b then ret xs else andThen item (\<lambda>x. repeat_unless fuel item stop (xs @ [x])))"

section \<open>Cursors\<close>

text \<open>
  What a client of a stream relies on: a state invariant, a preorder of states (what later states keep
  of earlier ones) and a measure that no step increases. \<open>reaches s r Q\<close> says of the result \<open>r\<close> of an
  action started in \<open>s\<close> that it is no panic and has not run out of fuel, and that a value comes with a
  state that satisfies the invariant, is above \<open>s\<close>, and satisfies \<open>Q\<close>. A client that gets an error stops.
\<close>

locale cursor =
  fixes inv :: "'s \<Rightarrow> bool" and above :: "'s \<Rightarrow> 's \<Rightarrow> bool" and left :: "'s \<Rightarrow> nat"
  assumes above_refl: "above s s"
    and above_trans: "above s t \<Longrightarrow> above t u \<Longrightarrow> above s u"
    and above_left: "above s t \<Longrightarrow> left t \<le> left s"
begin

definition reaches :: "'s \<Rightarrow> ('e, 'a) outcome \<times> 's \<Rightarrow> ('a \<Rightarrow> 's \<Rightarrow> bool) \<Rightarrow> bool" where
  "reaches s r Q \<longleftrightarrow>
     (case r of
        (Ok a, t) \<Rightarrow> inv t \<and> above s t \<and> Q a t
      | (Error e, t) \<Rightarrow> True
      | _ \<Rightarrow> False)"

lemma reaches_Ok: "inv t \<Longrightarrow> above s t \<Longrightarrow> Q a t \<Longrightarrow> reaches s (Ok a, t) Q"
  by (simp add: reaches_def)

lemma reaches_Error [simp]: "reaches s (Error e, t) Q"
  by (simp add: reaches_def)

lemma reaches_ret: "inv s \<Longrightarrow> Q a s \<Longrightarrow> reaches s (Ok a, s) Q"
  by (simp add: reaches_def above_refl)

lemma reaches_mono: "reaches s r R \<Longrightarrow> (\<And>a t. inv t \<Longrightarrow> above s t \<Longrightarrow> R a t \<Longrightarrow> Q a t) \<Longrightarrow> reaches s r Q"
  by (auto simp: reaches_def split: prod.splits outcome.splits)

lemma reaches_trans: "above s t \<Longrightarrow> reaches t r Q \<Longrightarrow> reaches s r Q"
  by (auto simp: reaches_def split: prod.splits outcome.splits intro: above_trans)

lemma reaches_andThen:
  assumes m: "reaches s (m s) R"
    and k: "\<And>a t. inv t \<Longrightarrow> above s t \<Longrightarrow> R a t \<Longrightarrow> reaches t (k a t) Q"
  shows "reaches s (andThen m k s) Q"
proof (cases "m s")
  case (Pair r t)
  show ?thesis
  proof (cases r)
    case (Ok a)
    then have "inv t" "above s t" "R a t" using m Pair by (simp_all add: reaches_def)
    then have "reaches s (k a t) Q" by (blast intro: reaches_trans k)
    then show ?thesis using Pair Ok by (simp add: andThen_def)
  qed (use m Pair in \<open>simp_all add: andThen_def reaches_def\<close>)
qed

lemma reaches_value: "reaches s r Q \<Longrightarrow> r = (Ok a, t) \<Longrightarrow> inv t \<and> above s t \<and> Q a t"
  by (simp add: reaches_def)

lemma reaches_returns: "reaches s r Q \<Longrightarrow> fst r \<noteq> Panic \<and> fst r \<noteq> OutOfFuel"
  by (auto simp: reaches_def split: prod.splits outcome.splits)

lemma reaches_repeat_until:
  assumes item: "\<And>s xs. inv s \<Longrightarrow> J xs s \<Longrightarrow> reaches s (item s) (\<lambda>x t. left t < left s \<and> K (xs @ [x]) t)"
    and stop: "\<And>s xs. inv s \<Longrightarrow> K xs s \<Longrightarrow> reaches s (stop s) (\<lambda>b t. if b then Q xs t else J xs t)"
  shows "inv s \<Longrightarrow> J xs s \<Longrightarrow> left s < fuel \<Longrightarrow> reaches s (repeat_until fuel item stop xs s) Q"
proof (induction fuel arbitrary: s xs)
  case 0
  then show ?case by simp
next
  case (Suc fuel)
  show ?case unfolding repeat_until.simps
  proof (rule reaches_andThen, rule item [OF Suc.prems(1,2)])
    fix x t assume t: "inv t" "above s t" "left t < left s \<and> K (xs @ [x]) t"
    show "reaches t (andThen stop (\<lambda>b. if b then ret (xs @ [x]) else repeat_until fuel item stop (xs @ [x])) t) Q"
    proof (rule reaches_andThen, rule stop)
      fix b u assume u: "inv u" "above t u" "if b then Q (xs @ [x]) u else J (xs @ [x]) u"
      then have "left u < fuel" using t Suc.prems(3) above_left [of t u] by simp
      then show "reaches u ((if b then ret (xs @ [x]) else repeat_until fuel item stop (xs @ [x])) u) Q"
        using u Suc.IH [of u "xs @ [x]"] by (auto intro: reaches_ret)
    qed (use t in auto)
  qed
qed

lemma reaches_repeat_unless:
  assumes stop: "\<And>s xs. inv s \<Longrightarrow> J xs s \<Longrightarrow> reaches s (stop s) (\<lambda>b t. if b then Q xs t else K xs t)"
    and item: "\<And>s xs. inv s \<Longrightarrow> K xs s \<Longrightarrow> reaches s (item s) (\<lambda>x t. left t < left s \<and> J (xs @ [x]) t)"
  shows "inv s \<Longrightarrow> J xs s \<Longrightarrow> left s < fuel \<Longrightarrow> reaches s (repeat_unless fuel item stop xs s) Q"
proof (induction fuel arbitrary: s xs)
  case 0
  then show ?case by simp
next
  case (Suc fuel)
  show ?case unfolding repeat_unless.simps
  proof (rule reaches_andThen, rule stop [OF Suc.prems(1,2)])
    fix b t assume t: "inv t" "above s t" "if b then Q xs t else K xs t"
    show "reaches t ((if b then ret xs else andThen item (\<lambda>x. repeat_unless fuel item stop (xs @ [x]))) t) Q"
    proof (cases b)
      case True
      then show ?thesis using t by (auto intro: reaches_ret)
    next
      case False
      have "reaches t (andThen item (\<lambda>x. repeat_unless fuel item stop (xs @ [x])) t) Q"
      proof (rule reaches_andThen, rule item)
        fix x u assume u: "inv u" "above t u" "left u < left t \<and> J (xs @ [x]) u"
        then have "left u < fuel" using t Suc.prems(3) above_left [of s t] by simp
        then show "reaches u (repeat_unless fuel item stop (xs @ [x]) u) Q" using u Suc.IH by blast
      qed (use t False in auto)
      then show ?thesis using False by simp
    qed
  qed
qed

end

section \<open>Readers\<close>

text \<open>
  \<open>reads s xs t\<close>: from \<open>s\<close> to \<open>t\<close> the symbols \<open>xs\<close> have been read. \<open>parses b n m R\<close> is the specification of a parsing
  action: started with less than \<open>n\<close> left to read it returns, and a result is related by \<open>R\<close> to the symbols read; if
  \<open>b\<close>, something has been read.
\<close>

locale reader = cursor inv above left
  for inv :: "'s \<Rightarrow> bool" and above :: "'s \<Rightarrow> 's \<Rightarrow> bool" and left :: "'s \<Rightarrow> nat" +
  fixes reads :: "'s \<Rightarrow> 'sym list \<Rightarrow> 's \<Rightarrow> bool"
  assumes reads_refl: "reads s [] s"
    and reads_trans: "inv t \<Longrightarrow> above s t \<Longrightarrow> above t u \<Longrightarrow> reads s xs t \<Longrightarrow> reads t ys u \<Longrightarrow> reads s (xs @ ys) u"
begin

definition parses :: "bool \<Rightarrow> nat \<Rightarrow> ('s, 'e, 'a) action \<Rightarrow> ('a \<Rightarrow> 'sym list \<Rightarrow> bool) \<Rightarrow> bool" where
  "parses b n m R \<longleftrightarrow>
     (\<forall>s. inv s \<longrightarrow> left s < n \<longrightarrow>
        reaches s (m s) (\<lambda>a t. (b \<longrightarrow> left t < left s) \<and> (\<exists>xs. reads s xs t \<and> R a xs)))"

lemma parsesI:
  "(\<And>s. inv s \<Longrightarrow> left s < n \<Longrightarrow>
      reaches s (m s) (\<lambda>a t. (b \<longrightarrow> left t < left s) \<and> (\<exists>xs. reads s xs t \<and> R a xs))) \<Longrightarrow> parses b n m R"
  by (simp add: parses_def)

lemma parsesD:
  "parses b n m R \<Longrightarrow> inv s \<Longrightarrow> left s < n \<Longrightarrow>
   reaches s (m s) (\<lambda>a t. (b \<longrightarrow> left t < left s) \<and> (\<exists>xs. reads s xs t \<and> R a xs))"
  by (simp add: parses_def)

lemma parses_mono: "parses b n m R \<Longrightarrow> k \<le> n \<Longrightarrow> (\<And>a xs. R a xs \<Longrightarrow> Q a xs) \<Longrightarrow> (c \<longrightarrow> b) \<Longrightarrow> parses c k m Q"
  by (rule parsesI, rule reaches_mono, erule parsesD) auto

lemma parses_ret: "R a [] \<Longrightarrow> parses False n (ret a) R"
  by (auto simp: parses_def intro!: reaches_ret reads_refl exI [of _ "[]"])

lemma parses_fail: "(\<And>s. \<exists>e t. m s = (Error e, t)) \<Longrightarrow> parses b n m R"
proof (rule parsesI)
  fix s assume "\<And>s. \<exists>e t. m s = (Error e, t)"
  then obtain e t where "m s = (Error e, t)" by blast
  then show "reaches s (m s) Q" for Q by simp
qed

text \<open>
  Sequencing. After an action that reads something, the rest needs a smaller bound.
\<close>

lemma reaches_continue:
  assumes t: "inv t" "above s t" "left t < n" and xs: "reads s xs t" "d \<longrightarrow> left t < left s"
    and k: "parses c n k (\<lambda>b ys. Q b (xs @ ys))"
  shows "reaches t (k t) (\<lambda>b u. (c \<or> d \<longrightarrow> left u < left s) \<and> (\<exists>zs. reads s zs u \<and> Q b zs))"
proof (rule reaches_mono [OF parsesD [OF k t(1,3)]])
  fix b u assume u: "inv u" "above t u" "(c \<longrightarrow> left u < left t) \<and> (\<exists>ys. reads t ys u \<and> Q b (xs @ ys))"
  then obtain ys where "reads t ys u" "Q b (xs @ ys)" by blast
  moreover have "reads s (xs @ ys) u" using reads_trans [OF t(1,2) u(2) xs(1)] calculation by blast
  moreover have "c \<or> d \<longrightarrow> left u < left s" using u xs(2) above_left [OF t(2)] above_left [OF u(2)] by auto
  ultimately show "(c \<or> d \<longrightarrow> left u < left s) \<and> (\<exists>zs. reads s zs u \<and> Q b zs)" by blast
qed

lemma reaches_next:
  assumes t: "inv t" "above s t" and x: "left t < left s" "reads s [x] t" and n: "left s < Suc n"
    and k: "parses False n k (\<lambda>b ys. Q b (x # ys))"
  shows "reaches t (k t) (\<lambda>b u. (c \<longrightarrow> left u < left s) \<and> (\<exists>zs. reads s zs u \<and> Q b zs))"
proof -
  have "parses False n k (\<lambda>b ys. Q b ([x] @ ys))" using k by simp
  from reaches_continue [where d = True, OF t _ x(2) _ this]
  have "reaches t (k t) (\<lambda>b u. left u < left s \<and> (\<exists>zs. reads s zs u \<and> Q b zs))" using x n by simp
  then show ?thesis by (rule reaches_mono) auto
qed

lemma parses_andThen:
  assumes m: "parses True (Suc n) m R"
    and k: "\<And>a xs. R a xs \<Longrightarrow> parses False n (k a) (\<lambda>b ys. Q b (xs @ ys))"
  shows "parses True (Suc n) (andThen m k) Q"
proof (rule parsesI, rule reaches_andThen, erule (1) parsesD [OF m])
  fix s a t assume s: "left s < Suc n" and t: "inv t" "above s t" "(True \<longrightarrow> left t < left s) \<and> (\<exists>xs. reads s xs t \<and> R a xs)"
  then obtain xs where xs: "reads s xs t" "R a xs" "left t < left s" by blast
  then show "reaches t (k a t) (\<lambda>b u. (True \<longrightarrow> left u < left s) \<and> (\<exists>zs. reads s zs u \<and> Q b zs))"
    using reaches_continue [where d = True, OF t(1,2) _ xs(1) _ k [OF xs(2)]] xs(3) s by simp
qed

lemma parses_then:
  assumes m: "parses True n m R"
    and k: "\<And>a xs. R a xs \<Longrightarrow> parses False n (k a) (\<lambda>b ys. Q b (xs @ ys))"
  shows "parses True n (andThen m k) Q"
proof (cases n)
  case 0
  then show ?thesis by (simp add: parses_def)
next
  case (Suc i)
  show ?thesis unfolding Suc
    by (rule parses_andThen [OF m [unfolded Suc]]) (rule parses_mono [OF k], auto simp: Suc)
qed

lemma parses_weak: "parses True n m R \<Longrightarrow> parses False n m R"
  by (erule parses_mono) auto

lemma parses_andThen_weak:
  assumes m: "parses False n m R"
    and k: "\<And>a xs. R a xs \<Longrightarrow> parses b n (k a) (\<lambda>b ys. Q b (xs @ ys))"
  shows "parses b n (andThen m k) Q"
proof (rule parsesI, rule reaches_andThen, erule (1) parsesD [OF m])
  fix s a t assume s: "left s < n" and t: "inv t" "above s t" "(False \<longrightarrow> left t < left s) \<and> (\<exists>xs. reads s xs t \<and> R a xs)"
  then obtain xs where xs: "reads s xs t" "R a xs" by blast
  have "left t < n" using s above_left [OF t(2)] by simp
  then show "reaches t (k a t) (\<lambda>c u. (b \<longrightarrow> left u < left s) \<and> (\<exists>zs. reads s zs u \<and> Q c zs))"
    using reaches_continue [where d = False, OF t(1,2) _ xs(1) _ k [OF xs(2)]] by simp
qed

text \<open>The loops: a list of results is related to the concatenation of what each item read.\<close>

definition reads_all :: "('a \<Rightarrow> 'sym list \<Rightarrow> bool) \<Rightarrow> 'a list \<Rightarrow> 'sym list \<Rightarrow> bool" where
  "reads_all R as xs \<longleftrightarrow> (\<exists>xss. list_all2 R as xss \<and> xs = concat xss)"

lemma reads_all_Nil [simp]: "reads_all R [] xs \<longleftrightarrow> xs = []"
  by (auto simp: reads_all_def)

lemma reads_all_snoc: "reads_all R as xs \<Longrightarrow> R a ys \<Longrightarrow> reads_all R (as @ [a]) (xs @ ys)"
  unfolding reads_all_def by (metis append.right_neutral concat.simps concat_append list_all2_Cons list_all2_Nil list_all2_appendI)

lemma parses_repeat_until:
  assumes item: "parses True n item R" and stop: "parses False n stop S"
    and cont: "\<And>xs. S False xs \<Longrightarrow> xs = []" and fuel: "n \<le> fuel"
  shows "parses True n (repeat_until fuel item stop [])
    (\<lambda>as xs. as \<noteq> [] \<and> (\<exists>ys zs. reads_all R as ys \<and> S True zs \<and> xs = ys @ zs))"
proof (rule parsesI)
  fix s assume s: "inv s" "left s < n"
  let ?J = "\<lambda>as t. above s t \<and> left t < n \<and> (as \<noteq> [] \<longrightarrow> left t < left s) \<and> (\<exists>ys. reads s ys t \<and> reads_all R as ys)"
  let ?Q = "\<lambda>as t. (True \<longrightarrow> left t < left s) \<and>
    (\<exists>xs. reads s xs t \<and> as \<noteq> [] \<and> (\<exists>ys zs. reads_all R as ys \<and> S True zs \<and> xs = ys @ zs))"
  show "reaches s (repeat_until fuel item stop [] s) ?Q"
  proof (rule reaches_repeat_until [where J = ?J and K = "\<lambda>as t. as \<noteq> [] \<and> ?J as t"])
    fix t as assume t: "inv t" "?J as t"
    then obtain ys where ys: "reads s ys t" "reads_all R as ys" by blast
    show "reaches t (item t) (\<lambda>x u. left u < left t \<and> as @ [x] \<noteq> [] \<and> ?J (as @ [x]) u)"
    proof (rule reaches_mono [OF parsesD [OF item t(1)]])
      fix x u assume u: "inv u" "above t u" "(True \<longrightarrow> left u < left t) \<and> (\<exists>xs. reads t xs u \<and> R x xs)"
      then obtain xs where xs: "reads t xs u" "R x xs" by blast
      have "reads s (ys @ xs) u" using reads_trans [OF t(1) _ u(2) ys(1) xs(1)] t(2) by blast
      moreover have "above s u" using t(2) u(2) above_trans by blast
      moreover have "left u < left s" using t(2) u(3) above_left [of s t] by auto
      ultimately show "left u < left t \<and> as @ [x] \<noteq> [] \<and> ?J (as @ [x]) u"
        using u(3) t(2) reads_all_snoc [OF ys(2) xs(2)] by auto
    qed (use t in auto)
  next
    fix t as assume t: "inv t" "as \<noteq> [] \<and> ?J as t"
    then obtain ys where ys: "reads s ys t" "reads_all R as ys" by blast
    show "reaches t (stop t) (\<lambda>b u. if b then ?Q as u else ?J as u)"
    proof (rule reaches_mono [OF parsesD [OF stop t(1)]])
      fix b u assume u: "inv u" "above t u" "(False \<longrightarrow> left u < left t) \<and> (\<exists>xs. reads t xs u \<and> S b xs)"
      then obtain xs where xs: "reads t xs u" "S b xs" by blast
      have "reads s (ys @ xs) u" using reads_trans [OF t(1) _ u(2) ys(1) xs(1)] t(2) by blast
      moreover have "above s u" "left u < left s" "left u < n"
        using t(2) u(2) above_trans above_left [OF u(2)] by (auto intro: above_trans)
      ultimately show "if b then ?Q as u else ?J as u"
        using t(2) xs(2) ys(2) cont [of xs] by (cases b) auto
    qed (use t in auto)
  qed (use s fuel above_refl reads_refl in auto)
qed

lemma parses_repeat_unless:
  assumes item: "parses True n item R" and stop: "parses False n stop S"
    and cont: "\<And>xs. S False xs \<Longrightarrow> xs = []" and fuel: "n \<le> fuel"
  shows "parses False n (repeat_unless fuel item stop [])
    (\<lambda>as xs. \<exists>ys zs. reads_all R as ys \<and> S True zs \<and> xs = ys @ zs)"
proof (rule parsesI)
  fix s assume s: "inv s" "left s < n"
  let ?J = "\<lambda>as t. above s t \<and> left t < n \<and> (\<exists>ys. reads s ys t \<and> reads_all R as ys)"
  let ?Q = "\<lambda>as t. (False \<longrightarrow> left t < left s) \<and>
    (\<exists>xs. reads s xs t \<and> (\<exists>ys zs. reads_all R as ys \<and> S True zs \<and> xs = ys @ zs))"
  show "reaches s (repeat_unless fuel item stop [] s) ?Q"
  proof (rule reaches_repeat_unless [where J = ?J and K = ?J])
    fix t as assume t: "inv t" "?J as t"
    then obtain ys where ys: "reads s ys t" "reads_all R as ys" by blast
    show "reaches t (stop t) (\<lambda>b u. if b then ?Q as u else ?J as u)"
    proof (rule reaches_mono [OF parsesD [OF stop t(1)]])
      fix b u assume u: "inv u" "above t u" "(False \<longrightarrow> left u < left t) \<and> (\<exists>xs. reads t xs u \<and> S b xs)"
      then obtain xs where xs: "reads t xs u" "S b xs" by blast
      have "reads s (ys @ xs) u" using reads_trans [OF t(1) _ u(2) ys(1) xs(1)] t(2) by blast
      moreover have "above s u" "left u < n" using t(2) u(2) above_left [OF u(2)] by (auto intro: above_trans)
      ultimately show "if b then ?Q as u else ?J as u" using xs(2) ys(2) cont [of xs] by (cases b) auto
    qed (use t in auto)
  next
    fix t as assume t: "inv t" "?J as t"
    then obtain ys where ys: "reads s ys t" "reads_all R as ys" by blast
    show "reaches t (item t) (\<lambda>x u. left u < left t \<and> ?J (as @ [x]) u)"
    proof (rule reaches_mono [OF parsesD [OF item t(1)]])
      fix x u assume u: "inv u" "above t u" "(True \<longrightarrow> left u < left t) \<and> (\<exists>xs. reads t xs u \<and> R x xs)"
      then obtain xs where xs: "reads t xs u" "R x xs" by blast
      have "reads s (ys @ xs) u" using reads_trans [OF t(1) _ u(2) ys(1) xs(1)] t(2) by blast
      moreover have "above s u" using t(2) u(2) above_trans by blast
      ultimately show "left u < left t \<and> ?J (as @ [x]) u" using u(3) t(2) reads_all_snoc [OF ys(2) xs(2)] by auto
    qed (use t in auto)
  qed (use s fuel above_refl reads_refl in auto)
qed

end

end
