(* ===== verification/Parser.thy ===== *)
theory Parser
  imports Ast Lexer Reader
begin

text \<open>
  \<open>graphql/parser/parser.go\<close> and \<open>interface.go\<close>: the recursive-descent parser. The state of the
  parser is its lexer, the options are an argument. A node refers to its tokens by their addresses in
  the token store of the lexer.

  Recursion over nested values and selection sets and the loops over sequences get fuel. Every loop
  iteration and every nested call follows a call of \<open>Advance\<close> away from the end of the file, so fuel above the number
  of bytes of the source and one more is enough (\<open>ParserSpec\<close>).
\<close>

section \<open>State and options\<close>

record parse_options =
  ExperimentalFragmentVariables :: bool

type_synonym parse_option = "parse_options \<Rightarrow> parse_options"
type_synonym 'a parser = "(lexer, syntax_error, 'a) action"

definition EnableFragmentVariables :: parse_option where
  "EnableFragmentVariables = (\<lambda>options. options\<lparr>ExperimentalFragmentVariables := True\<rparr>)"

text \<open>\<open>None\<close> is a nil source.\<close>

definition newParser :: "source option \<Rightarrow> (syntax_error, lexer) outcome" where
  "newParser source =
     (case source of
        None \<Rightarrow> Error (NewError ''Must provide Source. Received: nil'' [])
      | Some s \<Rightarrow> Ok (New s))"

section \<open>Tokens\<close>

definition raise :: "source_location \<Rightarrow> string \<Rightarrow> 'a parser" where
  "raise location message = (\<lambda>l. (Error (NewSyntaxError (lex_source l) location message), l))"

definition peekToken :: "lexer \<Rightarrow> token" where
  "peekToken l = lexer_Token l"

definition peekIs :: "kind \<Rightarrow> lexer \<Rightarrow> bool" where
  "peekIs kind l \<longleftrightarrow> token_Kind (peekToken l) = kind"

definition skip :: "kind \<Rightarrow> bool parser" where
  "skip tokenKind = (\<lambda>l.
     if token_Kind (lexer_Token l) = tokenKind then andThen Advance (\<lambda>_. ret True) l
     else ret False l)"

definition expect :: "kind \<Rightarrow> token_ref parser" where
  "expect tokenKind = (\<lambda>l.
     let tok = lexer_Token l in
     if token_Kind tok = tokenKind then andThen Advance (\<lambda>_. ret (lex_token l)) l
     else raise (token_Location tok)
            (''Expected '' @ kind_String tokenKind @ '', found '' @ token_Description tok) l)"

definition skipKeyword :: "string \<Rightarrow> bool parser" where
  "skipKeyword keyword = (\<lambda>l.
     let tok = peekToken l in
     if token_Kind tok = KindName \<and> token_Value tok = keyword then andThen Advance (\<lambda>_. ret True) l
     else ret False l)"

definition expectKeyword :: "string \<Rightarrow> unit parser" where
  "expectKeyword keyword =
     andThen (skipKeyword keyword) (\<lambda>hasKeyword l.
       if hasKeyword then ret () l
       else let tok = peekToken l in
         raise (token_Location tok)
           (''Expected '' @ [QUOTE] @ keyword @ [QUOTE] @ '', found '' @ token_Description tok) l)"

definition unexpected :: "'a parser" where
  "unexpected = (\<lambda>l.
     let tok = lexer_Token l in raise (token_Location tok) (''Unexpected '' @ token_Description tok) l)"

text \<open>\<open>if p.peek().Kind == kind { x, err = parse() }\<close>, with the zero value otherwise.\<close>

definition whenPeek :: "kind \<Rightarrow> 'a parser \<Rightarrow> 'a \<Rightarrow> 'a parser" where
  "whenPeek kind parse zero = (\<lambda>l. if peekIs kind l then parse l else ret zero l)"

definition parseName :: "token_ref name parser" where
  "parseName = andThen (expect KindName) (\<lambda>token. ret (Name token))"

section \<open>Values\<close>

definition parseVariable :: "token_ref name parser" where
  "parseVariable = andThen (expect KindDollar) (\<lambda>_. parseName)"

text \<open>The \<open>BooleanValue\<close>, \<open>NullValue\<close> or \<open>EnumValue\<close> of a name.\<close>

definition nameValue :: "string \<Rightarrow> token_ref \<Rightarrow> token_ref ast_value" where
  "nameValue v tok =
     (if v = ''true'' \<or> v = ''false'' then BooleanValue tok
      else if v = ''null'' then NullValue tok
      else EnumValue tok)"

fun parseValue :: "nat \<Rightarrow> bool \<Rightarrow> token_ref ast_value parser"
  and parseListValue :: "nat \<Rightarrow> bool \<Rightarrow> token_ref ast_value parser"
  and parseObjectValue :: "nat \<Rightarrow> bool \<Rightarrow> token_ref ast_value parser"
  and parseObjectField :: "nat \<Rightarrow> bool \<Rightarrow> token_ref object_field parser"
where
  "parseValue 0 isConst = out_of_fuel"
| "parseValue (Suc fuel) isConst = (\<lambda>l.
     let tok = lex_token l; kind = token_Kind (peekToken l); v = token_Value (peekToken l) in
     if kind = KindDollar \<and> \<not> isConst then andThen parseVariable (\<lambda>name. ret (Variable name)) l
     else if kind = KindInt then andThen Advance (\<lambda>_. ret (IntValue tok)) l
     else if kind = KindFloat then andThen Advance (\<lambda>_. ret (FloatValue tok)) l
     else if kind = KindString \<or> kind = KindBlockString then andThen Advance (\<lambda>_. ret (StringValue tok)) l
     else if kind = KindName then andThen Advance (\<lambda>_. ret (nameValue v tok)) l
     else if kind = KindLeftBracket then parseListValue fuel isConst l
     else if kind = KindLeftBrace then parseObjectValue fuel isConst l
     else unexpected l)"
| "parseListValue fuel isConst =
     andThen (expect KindLeftBracket) (\<lambda>startToken.
     andThen (repeat_unless fuel (parseValue fuel isConst) (skip KindRightBracket) []) (\<lambda>values.
       ret (if values = [] then EmptyListValue startToken else ListValue values)))"
| "parseObjectValue fuel isConst =
     andThen (expect KindLeftBrace) (\<lambda>startToken.
     andThen (repeat_unless fuel (parseObjectField fuel isConst) (skip KindRightBrace) []) (\<lambda>fields.
       ret (if fields = [] then EmptyObjectValue startToken else ObjectValue fields)))"
| "parseObjectField fuel isConst =
     andThen parseName (\<lambda>name.
     andThen (expect KindColon) (\<lambda>_.
     andThen (parseValue fuel isConst) (\<lambda>v.
       ret (ObjectField name v))))"

section \<open>Arguments and directives\<close>

definition parseArgument :: "nat \<Rightarrow> bool \<Rightarrow> token_ref argument parser" where
  "parseArgument fuel isConst =
     andThen parseName (\<lambda>name.
     andThen (expect KindColon) (\<lambda>_.
     andThen (parseValue fuel isConst) (\<lambda>v.
       ret (Argument name v))))"

definition parseArguments :: "nat \<Rightarrow> bool \<Rightarrow> token_ref argument list parser" where
  "parseArguments fuel isConst =
     andThen (expect KindLeftParen) (\<lambda>_.
       repeat_until fuel (parseArgument fuel isConst) (skip KindRightParen) [])"

definition parseDirective :: "nat \<Rightarrow> bool \<Rightarrow> token_ref directive parser" where
  "parseDirective fuel isConst =
     andThen (expect KindAt) (\<lambda>_.
     andThen parseName (\<lambda>name.
     andThen (whenPeek KindLeftParen (parseArguments fuel isConst) []) (\<lambda>arguments.
       ret (Directive name arguments))))"

definition parseDirectives :: "nat \<Rightarrow> bool \<Rightarrow> token_ref directive list parser" where
  "parseDirectives fuel isConst =
     repeat_until fuel (parseDirective fuel isConst) (get (\<lambda>l. \<not> peekIs KindAt l)) []"

section \<open>Types and variable definitions\<close>

definition parseNamedType :: "token_ref name parser" where
  "parseNamedType = parseName"

text \<open>
  The type assertion \<open>t.(ast.NullableType)\<close> panics on a type that is already non-null.
\<close>

definition nonNull :: "token_ref ast_type \<Rightarrow> token_ref ast_type parser" where
  "nonNull t = (case t of NonNullType _ \<Rightarrow> panic | _ \<Rightarrow> ret (NonNullType t))"

fun parseType_open :: "nat \<Rightarrow> nat \<Rightarrow> (nat \<times> token_ref name) parser" where
  "parseType_open 0 listLevel = out_of_fuel"
| "parseType_open (Suc fuel) listLevel =
     andThen (skip KindLeftBracket) (\<lambda>isOpeningList.
       if isOpeningList then parseType_open fuel (listLevel + 1)
       else andThen parseName (\<lambda>name. ret (listLevel, name)))"

fun parseType_close :: "nat \<Rightarrow> token_ref ast_type \<Rightarrow> token_ref ast_type parser" where
  "parseType_close 0 t = ret t"
| "parseType_close (Suc listLevel) t =
     andThen (skip KindBang) (\<lambda>isNonNull.
     andThen (if isNonNull then nonNull t else ret t) (\<lambda>t.
     andThen (expect KindRightBracket) (\<lambda>_.
       parseType_close listLevel (ListType t))))"

definition parseType :: "nat \<Rightarrow> token_ref ast_type parser" where
  "parseType fuel =
     andThen (parseType_open fuel 0) (\<lambda>(listLevel, name).
     andThen (parseType_close listLevel (NamedType name)) (\<lambda>t.
     andThen (skip KindBang) (\<lambda>isNonNull.
       if isNonNull then nonNull t else ret t)))"

definition parseDefaultValue :: "nat \<Rightarrow> token_ref ast_value parser" where
  "parseDefaultValue fuel = andThen (expect KindEquals) (\<lambda>_. parseValue fuel True)"

definition parseVariableDefinition :: "nat \<Rightarrow> token_ref variable_definition parser" where
  "parseVariableDefinition fuel =
     andThen parseVariable (\<lambda>variable.
     andThen (expect KindColon) (\<lambda>_.
     andThen (parseType fuel) (\<lambda>variableType.
     andThen (whenPeek KindEquals (andThen (parseDefaultValue fuel) (\<lambda>v. ret (Some v))) None) (\<lambda>defaultValue.
     andThen (whenPeek KindAt (parseDirectives fuel True) []) (\<lambda>directives.
       ret (VariableDefinition variable variableType defaultValue directives))))))"

definition parseVariableDefinitions :: "nat \<Rightarrow> token_ref variable_definition list parser" where
  "parseVariableDefinitions fuel =
     andThen (expect KindLeftParen) (\<lambda>_.
       repeat_until fuel (parseVariableDefinition fuel) (skip KindRightParen) [])"

section \<open>Selections\<close>

definition parseTypeCondition :: "token_ref name parser" where
  "parseTypeCondition = andThen (expectKeyword ''on'') (\<lambda>_. parseNamedType)"

definition parseFragmentSpread :: "nat \<Rightarrow> token_ref selection parser" where
  "parseFragmentSpread fuel =
     andThen parseName (\<lambda>name.
     andThen (whenPeek KindAt (parseDirectives fuel False) []) (\<lambda>directives.
       ret (FragmentSpread name directives)))"

fun parseSelection :: "nat \<Rightarrow> token_ref selection parser"
  and parseSelectionSet :: "nat \<Rightarrow> token_ref selection list parser"
  and parseField :: "nat \<Rightarrow> token_ref selection parser"
  and parseInlineFragment :: "nat \<Rightarrow> token_ref selection parser"
where
  "parseSelection 0 = out_of_fuel"
| "parseSelection (Suc fuel) =
     andThen (skip KindSpread) (\<lambda>isFragment l.
       if isFragment then
         (let tok = peekToken l in
          if token_Kind tok \<noteq> KindName \<or> token_Value tok = ''on'' then parseInlineFragment fuel l
          else parseFragmentSpread fuel l)
       else parseField fuel l)"
| "parseSelectionSet fuel =
     andThen (expect KindLeftBrace) (\<lambda>_.
       repeat_until fuel (parseSelection fuel) (skip KindRightBrace) [])"
| "parseField fuel =
     andThen parseName (\<lambda>nameOrAlias.
     andThen (skip KindColon) (\<lambda>hasColon.
     andThen (if hasColon then andThen parseName (\<lambda>name. ret (Some nameOrAlias, name))
              else ret (None, nameOrAlias)) (\<lambda>(alias, name).
     andThen (whenPeek KindLeftParen (parseArguments fuel False) []) (\<lambda>arguments.
     andThen (whenPeek KindAt (parseDirectives fuel False) []) (\<lambda>directives.
     andThen (whenPeek KindLeftBrace (parseSelectionSet fuel) []) (\<lambda>selectionSet.
       ret (FieldNode alias name arguments directives selectionSet)))))))"
| "parseInlineFragment fuel =
     andThen (whenPeek KindName (andThen parseTypeCondition (\<lambda>t. ret (Some t))) None) (\<lambda>typeCondition.
     andThen (whenPeek KindAt (parseDirectives fuel False) []) (\<lambda>directives.
     andThen (parseSelectionSet fuel) (\<lambda>selectionSet.
       ret (InlineFragment typeCondition directives selectionSet))))"

section \<open>Definitions\<close>

definition parseOperationDefinition :: "nat \<Rightarrow> token_ref definition_node parser" where
  "parseOperationDefinition fuel =
     andThen (expect KindName) (\<lambda>operationType.
     andThen (whenPeek KindName (andThen parseName (\<lambda>n. ret (Some n))) None) (\<lambda>name.
     andThen (whenPeek KindLeftParen (parseVariableDefinitions fuel) []) (\<lambda>variableDefinitions.
     andThen (whenPeek KindAt (parseDirectives fuel False) []) (\<lambda>directives.
     andThen (parseSelectionSet fuel) (\<lambda>selectionSet.
       ret (OperationDefinition (Some operationType) name variableDefinitions directives selectionSet))))))"

definition parseQueryShorthand :: "nat \<Rightarrow> token_ref definition_node parser" where
  "parseQueryShorthand fuel =
     andThen (parseSelectionSet fuel) (\<lambda>selectionSet.
       ret (OperationDefinition None None [] [] selectionSet))"

definition parseFragmentName :: "token_ref name parser" where
  "parseFragmentName = (\<lambda>l.
     let tok = peekToken l in
     if token_Kind tok = KindName \<and> token_Value tok = ''on''
     then raise (token_Location tok) (''Expected a fragment name before '' @ [QUOTE] @ ''on'' @ [QUOTE]) l
     else parseName l)"

definition parseFragmentDefinition :: "nat \<Rightarrow> parse_options \<Rightarrow> token_ref definition_node parser" where
  "parseFragmentDefinition fuel options =
     andThen (expect KindName) (\<lambda>_.
     andThen parseFragmentName (\<lambda>name.
     andThen (if ExperimentalFragmentVariables options
              then whenPeek KindLeftParen (parseVariableDefinitions fuel) [] else ret []) (\<lambda>variableDefinitions.
     andThen parseTypeCondition (\<lambda>typeCondition.
     andThen (whenPeek KindAt (parseDirectives fuel False) []) (\<lambda>directives.
     andThen (parseSelectionSet fuel) (\<lambda>selectionSet.
       ret (FragmentDefinition name variableDefinitions typeCondition directives selectionSet)))))))"

definition parseDefinition :: "nat \<Rightarrow> parse_options \<Rightarrow> token_ref definition_node parser" where
  "parseDefinition fuel options = (\<lambda>l.
     let tok = peekToken l in
     if token_Kind tok = KindName \<and> token_Value tok \<in> {''query'', ''mutation'', ''subscription''}
     then parseOperationDefinition fuel l
     else if token_Kind tok = KindName \<and> token_Value tok = ''fragment'' then parseFragmentDefinition fuel options l
     else if token_Kind tok = KindLeftBrace then parseQueryShorthand fuel l
     else unexpected l)"

definition parseDocument :: "nat \<Rightarrow> parse_options \<Rightarrow> token_ref document parser" where
  "parseDocument fuel options =
     andThen (expect KindSOF) (\<lambda>_.
     andThen (repeat_until fuel (parseDefinition fuel options) (skip KindEOF) []) (\<lambda>definitions.
       ret (Document definitions)))"

section \<open>Entry points\<close>

text \<open>
  The entry points return the node together with the final state of the lexer, whose store holds the
  tokens the node refers to.
\<close>

definition parse_fuel :: "lexer \<Rightarrow> nat" where
  "parse_fuel l = bodySize l + 2"

definition Parse :: "source option \<Rightarrow> parse_option list \<Rightarrow> (syntax_error, token_ref document \<times> lexer) outcome" where
  "Parse source options =
     (let opts = fold (\<lambda>applyOption. applyOption) options \<lparr>ExperimentalFragmentVariables = False\<rparr> in
      bind_outcome (newParser source) (\<lambda>l.
        case parseDocument (parse_fuel l) opts l of (r, l') \<Rightarrow> bind_outcome r (\<lambda>doc. Ok (doc, l'))))"

definition panic_on_error :: "('e, 'a) outcome \<Rightarrow> ('e, 'a) outcome" where
  "panic_on_error r = (case r of Error _ \<Rightarrow> Panic | _ \<Rightarrow> r)"

definition MustParse :: "source option \<Rightarrow> parse_option list \<Rightarrow> (syntax_error, token_ref document \<times> lexer) outcome" where
  "MustParse source options = panic_on_error (Parse source options)"

definition ParseValue :: "source option \<Rightarrow> (syntax_error, token_ref ast_value \<times> lexer) outcome" where
  "ParseValue source =
     bind_outcome (newParser source) (\<lambda>l.
       case andThen (expect KindSOF) (\<lambda>_.
            andThen (parseValue (parse_fuel l) False) (\<lambda>v.
            andThen (expect KindEOF) (\<lambda>_. ret v))) l
       of (r, l') \<Rightarrow> bind_outcome r (\<lambda>v. Ok (v, l')))"

definition MustParseValue :: "source option \<Rightarrow> (syntax_error, token_ref ast_value \<times> lexer) outcome" where
  "MustParseValue source = panic_on_error (ParseValue source)"

definition ParseType :: "source option \<Rightarrow> (syntax_error, token_ref ast_type \<times> lexer) outcome" where
  "ParseType source =
     bind_outcome (newParser source) (\<lambda>l.
       case andThen (expect KindSOF) (\<lambda>_.
            andThen (parseType (parse_fuel l)) (\<lambda>t.
            andThen (expect KindEOF) (\<lambda>_. ret t))) l
       of (r, l') \<Rightarrow> bind_outcome r (\<lambda>t. Ok (t, l')))"

definition MustParseType :: "source option \<Rightarrow> (syntax_error, token_ref ast_type \<times> lexer) outcome" where
  "MustParseType source = panic_on_error (ParseType source)"

end
