(* ===== verification/LexerSpec.thy ===== *)
theory LexerSpec
  imports Lexer
begin

text \<open>
  What each lexing function of \<open>Lexer\<close> does to the input: it reads a prefix of the unread bytes and
  changes nothing else (\<open>lex_post\<close>), the prefix is a lexeme of the grammar, and the value of a
  string is the one a scanner over plain strings computes (\<open>scanString\<close>, \<open>scanBlock\<close>).
\<close>

section \<open>The unread input\<close>

definition rest :: "lexer \<Rightarrow> string" where
  "rest l = drop (lex_bytePos l) (lex_body l)"

definition first_byte :: "string \<Rightarrow> char" where
  "first_byte s = (case s of [] \<Rightarrow> NUL | c # _ \<Rightarrow> c)"

lemma first_byte_simps [simp]: "first_byte [] = NUL" "first_byte (c # cs) = c"
  by (simp_all add: first_byte_def)

lemma peek_rest: "peek l = first_byte (rest l)"
  by (cases "lex_bytePos l < length (lex_body l)")
     (simp_all add: peek_def At_def Size_def rest_def nth_drop_hd)

lemma rest_advancePos: "rest (advancePos l) = tl (rest l)"
  by (simp add: rest_def advancePos_def bodySize_def Size_def tl_drop drop_Suc)

lemma rest_nonempty: "rest l \<noteq> [] \<longleftrightarrow> lex_bytePos l < bodySize l"
  by (auto simp: rest_def bodySize_def Size_def)

lemma length_rest: "length (rest l) = bodySize l - lex_bytePos l"
  by (simp add: rest_def bodySize_def Size_def)

section \<open>Frames\<close>

text \<open>
  \<open>moved l text l'\<close>: the lexer \<open>l'\<close> is \<open>l\<close> after it read \<open>text\<close>; nothing but the position
  changed.
\<close>

definition moved :: "lexer \<Rightarrow> string \<Rightarrow> lexer \<Rightarrow> bool" where
  "moved l text l' \<longleftrightarrow> l' = l\<lparr>lex_bytePos := lex_bytePos l + length text\<rparr> \<and>
     lex_bytePos l' \<le> bodySize l \<and> rest l = text @ rest l'"

lemma moved_frame:
  assumes "moved l text l'"
  shows "lex_source l' = lex_source l" "lex_store l' = lex_store l" "lex_token l' = lex_token l"
    "lex_lastToken l' = lex_lastToken l" "bodySize l' = bodySize l"
    "lex_bytePos l' = lex_bytePos l + length text" "lex_bytePos l' \<le> bodySize l"
    "rest l = text @ rest l'"
proof -
  have *: "l' = l\<lparr>lex_bytePos := lex_bytePos l + length text\<rparr>" using assms by (simp add: moved_def)
  show "lex_source l' = lex_source l" "lex_store l' = lex_store l" "lex_token l' = lex_token l"
    "lex_lastToken l' = lex_lastToken l" "bodySize l' = bodySize l"
    "lex_bytePos l' = lex_bytePos l + length text"
    unfolding * by (simp_all add: bodySize_def)
  show "lex_bytePos l' \<le> bodySize l" "rest l = text @ rest l'" using assms unfolding moved_def by blast+
qed

lemma moved_refl: "lex_bytePos l \<le> bodySize l \<Longrightarrow> moved l [] l"
  by (simp add: moved_def)

lemma moved_trans: "moved l s l1 \<Longrightarrow> moved l1 t l2 \<Longrightarrow> moved l (s @ t) l2"
  unfolding moved_def by (auto simp: bodySize_def add.assoc)

lemma moved_advancePos:
  assumes "rest l = c # cs"
  shows "moved l [c] (advancePos l)" and "rest (advancePos l) = cs"
proof -
  have "lex_bytePos l < bodySize l" using assms rest_nonempty [of l] by simp
  then show "moved l [c] (advancePos l)"
    using assms by (simp add: moved_def rest_advancePos) (simp add: advancePos_def)
  show "rest (advancePos l) = cs" using assms by (simp add: rest_advancePos)
qed

text \<open>
  \<open>lex_post l Q r\<close>: \<open>r\<close> is the outcome of a lexing function started at \<open>l\<close>. It is no panic, only
  the position has moved (also on an error), and a result satisfies \<open>Q\<close> with the text it read.
\<close>

definition lex_post :: "lexer \<Rightarrow> (string \<Rightarrow> 'a \<Rightarrow> lexer \<Rightarrow> bool) \<Rightarrow> (syntax_error, 'a) outcome \<times> lexer \<Rightarrow> bool" where
  "lex_post l Q r \<longleftrightarrow>
     (case r of
        (Ok a, l') \<Rightarrow> (\<exists>text. moved l text l' \<and> Q text a l')
      | (Error e, l') \<Rightarrow> (\<exists>text. moved l text l')
      | _ \<Rightarrow> False)"

lemma lex_post_Ok: "moved l text l' \<Longrightarrow> Q text a l' \<Longrightarrow> lex_post l Q (Ok a, l')"
  by (auto simp: lex_post_def)

lemma lex_post_trans:
  assumes "moved l s l1" and "lex_post l1 (\<lambda>t. Q (s @ t)) r"
  shows "lex_post l Q r"
  using assms by (auto simp: lex_post_def split: prod.splits outcome.splits intro: moved_trans)

lemma lex_post_andThen:
  assumes "lex_post l R (m l)"
    and "\<And>s a l1. moved l s l1 \<Longrightarrow> R s a l1 \<Longrightarrow> lex_post l1 (\<lambda>t. Q (s @ t)) (k a l1)"
  shows "lex_post l Q (andThen m k l)"
proof (cases "m l")
  case (Pair r l1)
  show ?thesis
  proof (cases r)
    case (Ok a)
    with assms(1) Pair obtain s where "moved l s l1" "R s a l1" by (auto simp: lex_post_def)
    then show ?thesis using assms(2) Pair Ok by (simp add: andThen_def lex_post_trans)
  qed (use assms(1) Pair in \<open>auto simp: lex_post_def andThen_def\<close>)
qed

lemma lex_post_mono: "lex_post l R r \<Longrightarrow> (\<And>t a l'. moved l t l' \<Longrightarrow> R t a l' \<Longrightarrow> Q t a l') \<Longrightarrow> lex_post l Q r"
  by (auto simp: lex_post_def split: prod.splits outcome.splits)

lemma lex_post_raiseAt:
  "lex_bytePos l \<le> bodySize l \<Longrightarrow> p \<le> bodySize l \<Longrightarrow> lex_post l Q (raiseAt p m l)"
  using moved_refl [of l]
  by (auto simp: raiseAt_def LocationWithPos_def LocationFromPos_def andThen_def lex_post_def bodySize_def)

lemma lex_post_unexpected:
  "lex_bytePos l \<le> bodySize l \<Longrightarrow> p \<le> bodySize l \<Longrightarrow> lex_post l Q (newUnexpectedCharacterError p l)"
  by (auto simp: newUnexpectedCharacterError_def Let_def intro: lex_post_raiseAt)

lemma makeTokenWithValue_run:
  "len \<le> lex_bytePos l \<Longrightarrow> lex_bytePos l \<le> bodySize l \<Longrightarrow>
   makeTokenWithValue kind len v l =
     (Ok \<lparr>token_Kind = kind, token_Location = lex_bytePos l - len + 1, token_Length = len,
          token_Value = v, token_Prev = Some (lex_token l), token_Next = None\<rparr>, l)"
  by (simp add: makeTokenWithValue_def LocationWithPos_def LocationFromPos_def andThen_def bodySize_def)

text \<open>\<open>token_of l kind text value\<close>: the token for \<open>text\<close> read from the position of \<open>l\<close>.\<close>

definition token_of :: "lexer \<Rightarrow> kind \<Rightarrow> string \<Rightarrow> string \<Rightarrow> token" where
  "token_of l kind text v =
     \<lparr>token_Kind = kind, token_Location = lex_bytePos l + 1, token_Length = length text,
      token_Value = v, token_Prev = Some (lex_token l), token_Next = None\<rparr>"

lemma token_of_simps [simp]:
  "token_Kind (token_of l k text v) = k" "token_Location (token_of l k text v) = lex_bytePos l + 1"
  "token_Length (token_of l k text v) = length text" "token_Value (token_of l k text v) = v"
  "token_Prev (token_of l k text v) = Some (lex_token l)" "token_Next (token_of l k text v) = None"
  by (simp_all add: token_of_def)

lemma makeTokenWithValue_moved:
  assumes "moved l text l'" and "len = length text"
  shows "makeTokenWithValue kind len v l' = (Ok (token_of l kind text v), l')"
  using assms moved_frame [OF assms(1)] by (simp add: makeTokenWithValue_run token_of_def)

lemma usub_moved: "moved l text l' \<Longrightarrow> usub (lex_bytePos l') (lex_bytePos l) = length text"
  by (simp add: moved_frame)

lemma SubStr_moved:
  assumes "moved l text l'"
  shows "SubStr (lex_body l') (lex_bytePos l) (lex_bytePos l') = Ok text"
proof -
  have "drop (lex_bytePos l) (lex_body l) = text @ rest l'"
    using moved_frame(8) [OF assms] by (simp add: rest_def)
  then show ?thesis using moved_frame [OF assms] by (simp add: SubStr_def bodySize_def Size_def)
qed

section \<open>Scanning with a test\<close>

lemma scan_while_step:
  assumes "rest l = c # cs"
  shows "rest (advancePos l) = cs" "moved l [c] (advancePos l)" "peek l = c"
  using moved_advancePos [OF assms] assms by (simp_all add: peek_rest)

lemma consumeName_moved:
  assumes "lex_bytePos l \<le> bodySize l"
  shows "moved l (takeWhile is_name_char (rest l)) (consumeName l)"
  using assms
proof (induction l rule: consumeName.induct)
  case (1 l)
  show ?case
  proof (cases "is_name_char (peek l)")
    case False
    then have "takeWhile is_name_char (rest l) = []" by (cases "rest l") (simp_all add: peek_rest)
    with False "1.prems" show ?thesis by (simp add: consumeName.simps [of l] moved_refl)
  next
    case True
    then obtain c cs where r: "rest l = c # cs"
      using peek_in_body [OF is_name_char_not_NUL [OF True]] rest_nonempty [of l] by (cases "rest l") auto
    note s = scan_while_step [OF r]
    have "moved (advancePos l) (takeWhile is_name_char cs) (consumeName (advancePos l))"
      using "1.IH" True "1.prems" s moved_frame [OF s(2)] by simp
    from moved_trans [OF s(2) this] show ?thesis using True r s by (simp add: consumeName.simps [of l])
  qed
qed

lemma consumeDigits_step:
  "consumeDigits l = (if is_digit (peek l) then consumeDigits (advancePos l) else (peek l, l))"
  by (subst consumeDigits.simps) (simp add: is_digit_def Let_def)

lemma consumeDigits_moved:
  assumes "lex_bytePos l \<le> bodySize l"
  shows "moved l (takeWhile is_digit (rest l)) (snd (consumeDigits l)) \<and>
    fst (consumeDigits l) = peek (snd (consumeDigits l)) \<and> \<not> is_digit (fst (consumeDigits l))"
  using assms
proof (induction l rule: consumeDigits.induct)
  case (1 l)
  show ?case
  proof (cases "is_digit (peek l)")
    case False
    then have "takeWhile is_digit (rest l) = []" by (cases "rest l") (simp_all add: peek_rest)
    with False "1.prems" show ?thesis by (simp add: consumeDigits_step [of l] moved_refl)
  next
    case True
    then obtain c cs where r: "rest l = c # cs"
      using peek_in_body [OF is_digit_not_NUL [OF True]] rest_nonempty [of l] by (cases "rest l") auto
    note s = scan_while_step [OF r]
    have *: "moved (advancePos l) (takeWhile is_digit cs) (snd (consumeDigits (advancePos l))) \<and>
      fst (consumeDigits (advancePos l)) = peek (snd (consumeDigits (advancePos l))) \<and>
      \<not> is_digit (fst (consumeDigits (advancePos l)))"
      using "1.IH" [OF refl True [unfolded is_digit_def]] s moved_frame [OF s(2)] by auto
    then show ?thesis
      using moved_trans [OF s(2)] True r s by (auto simp: consumeDigits_step [of l])
  qed
qed

definition comment_char :: "char \<Rightarrow> bool" where
  "comment_char c \<longleftrightarrow> c > CHR 0x1F \<or> c = TAB"

lemma consumeComment_step:
  "consumeComment l = (if comment_char (peek l) then consumeComment (advancePos l) else l)"
  by (subst consumeComment.simps) (simp add: comment_char_def)

lemma consumeComment_moved:
  assumes "lex_bytePos l \<le> bodySize l"
  shows "moved l (takeWhile comment_char (rest l)) (consumeComment l)"
  using assms
proof (induction l rule: consumeComment.induct)
  case (1 l)
  show ?case
  proof (cases "comment_char (peek l)")
    case False
    then have "takeWhile comment_char (rest l) = []" by (cases "rest l") (simp_all add: peek_rest)
    with False "1.prems" show ?thesis by (simp add: consumeComment_step [of l] moved_refl)
  next
    case True
    then have "peek l \<noteq> NUL" by (auto simp: comment_char_def less_char_byte_of byte_of_def)
    then obtain c cs where r: "rest l = c # cs"
      using peek_in_body rest_nonempty [of l] by (cases "rest l") auto
    note s = scan_while_step [OF r]
    have "moved (advancePos l) (takeWhile comment_char cs) (consumeComment (advancePos l))"
      using "1.IH" [OF True [unfolded comment_char_def]] s moved_frame [OF s(2)] by simp
    from moved_trans [OF s(2) this] show ?thesis
      using True r s by (simp add: consumeComment_step [of l])
  qed
qed

section \<open>Names, comments and numbers\<close>

definition is_name_text :: "string \<Rightarrow> bool" where
  "is_name_text s \<longleftrightarrow> s \<noteq> [] \<and> is_name_start (hd s) \<and> list_all is_name_char s"

definition is_integer_text :: "string \<Rightarrow> bool" where
  "is_integer_text t \<longleftrightarrow> (\<exists>sign ds. t = sign @ ds \<and> sign \<in> {[], ''-''} \<and> ds \<noteq> [] \<and> list_all is_digit ds
     \<and> (hd ds = CHR ''0'' \<longrightarrow> ds = ''0''))"

definition is_fraction_text :: "string \<Rightarrow> bool" where
  "is_fraction_text t \<longleftrightarrow> (\<exists>ds. t = CHR ''.'' # ds \<and> ds \<noteq> [] \<and> list_all is_digit ds)"

definition is_exponent_text :: "string \<Rightarrow> bool" where
  "is_exponent_text t \<longleftrightarrow> (\<exists>e sign ds. t = e # sign @ ds \<and> e \<in> {CHR ''e'', CHR ''E''}
     \<and> sign \<in> {[], ''+'', ''-''} \<and> ds \<noteq> [] \<and> list_all is_digit ds)"

definition is_number_text :: "kind \<Rightarrow> string \<Rightarrow> bool" where
  "is_number_text k t \<longleftrightarrow> (\<exists>i f e. t = i @ f @ e \<and> is_integer_text i
     \<and> (f = [] \<or> is_fraction_text f) \<and> (e = [] \<or> is_exponent_text e)
     \<and> k = (if f = [] \<and> e = [] then KindInt else KindFloat))"

lemma number_part_nonempty [simp]: "\<not> is_fraction_text []" "\<not> is_exponent_text []"
  by (simp_all add: is_fraction_text_def is_exponent_text_def)

lemma lexName_post:
  assumes "rest l = c # cs" "is_name_start c"
  shows "lex_post l (\<lambda>text t l'. is_name_text text \<and> t = token_of l KindName text text
           \<and> \<not> is_name_char (first_byte (rest l'))) (lexName l)"
proof -
  note s = scan_while_step [OF assms(1)]
  let ?text = "c # takeWhile is_name_char cs" and ?l' = "consumeName (advancePos l)"
  have "moved (advancePos l) (takeWhile is_name_char cs) ?l'"
    using consumeName_moved [of "advancePos l"] s moved_frame [OF s(2)] by simp
  from moved_trans [OF s(2) this] have m: "moved l ?text ?l'" by simp
  have "rest ?l' = dropWhile is_name_char cs"
    using moved_frame(8) [OF m] assms(1) by (metis append_Cons list.inject same_append_eq takeWhile_dropWhile_id)
  then have "\<not> is_name_char (first_byte (rest ?l'))"
    using hd_dropWhile [of is_name_char cs] is_name_char_not_NUL
    by (cases "dropWhile is_name_char cs") auto
  moreover have "is_name_text ?text"
    using assms(2) by (simp add: is_name_text_def is_name_start_char list_all_iff) (meson set_takeWhileD)
  moreover have "lexName l = (Ok (token_of l KindName ?text ?text), ?l')"
    by (simp add: lexName_def Let_def SubStr_moved [OF m] usub_moved [OF m] andThen_def
        makeTokenWithValue_moved [OF m])
  ultimately show ?thesis using m by (simp add: lex_post_Ok)
qed

lemma lexComment_post:
  assumes "rest l = CHR ''#'' # cs"
  shows "lex_post l (\<lambda>text t l'. t = token_of l KindComment text [] \<and> list_all comment_char text
           \<and> hd text = CHR ''#'' \<and> text \<noteq> []) (lexComment l)"
proof -
  note s = scan_while_step [OF assms(1)]
  let ?text = "CHR ''#'' # takeWhile comment_char cs" and ?l' = "consumeComment (advancePos l)"
  have "moved (advancePos l) (takeWhile comment_char cs) ?l'"
    using consumeComment_moved [of "advancePos l"] s moved_frame [OF s(2)] by simp
  from moved_trans [OF s(2) this] have m: "moved l ?text ?l'" by simp
  have "lexComment l = (Ok (token_of l KindComment ?text []), ?l')"
    by (simp add: lexComment_def makeToken_def Let_def usub_moved [OF m] makeTokenWithValue_moved [OF m])
  moreover have "list_all comment_char ?text"
    by (auto simp: comment_char_def list_all_iff dest: set_takeWhileD)
  ultimately show ?thesis using m by (simp add: lex_post_Ok)
qed

text \<open>Digits from the cursor on, at least one: the loop shape of every part of a number.\<close>

lemma digits_run:
  assumes "is_digit (peek l)"
  obtains c ds l' where "consumeDigits (advancePos l) = (c, l')" "moved l (peek l # ds) l'"
    "list_all is_digit (peek l # ds)" "c = peek l'" "\<not> is_digit c"
proof -
  obtain cs where r: "rest l = peek l # cs"
    using peek_in_body [OF is_digit_not_NUL [OF assms]] rest_nonempty [of l]
    by (cases "rest l") (auto simp: peek_rest)
  note s = scan_while_step [OF r]
  have "lex_bytePos (advancePos l) \<le> bodySize (advancePos l)" using moved_frame [OF s(2)] by simp
  note d = consumeDigits_moved [OF this]
  have "moved l (peek l # takeWhile is_digit cs) (snd (consumeDigits (advancePos l)))"
    using moved_trans [OF s(2), of "takeWhile is_digit cs"] d s(1) by simp
  moreover have "list_all is_digit (peek l # takeWhile is_digit cs)"
    using assms by (auto simp: list_all_iff dest: set_takeWhileD)
  ultimately show ?thesis using d that by (metis prod.collapse)
qed

lemma lexNumber_sign_post:
  assumes "lex_bytePos l \<le> bodySize l" and "c = CHR ''-'' \<or> is_digit c"
  shows "lex_post l (\<lambda>text d l'. is_digit d \<and> c # text \<in> {[d], ''-'' @ [d]}) (lexNumber_sign c l)"
proof (cases "c = CHR ''-'' \<and> is_digit (peek l)")
  case True
  then obtain ds where "rest l = peek l # ds"
    using peek_in_body [OF is_digit_not_NUL] rest_nonempty [of l]
    by (cases "rest l") (auto simp: peek_rest)
  from scan_while_step [OF this] True show ?thesis
    by (auto simp: lexNumber_sign_def is_digit_def Let_def intro!: lex_post_Ok)
next
  case False
  with assms show ?thesis
    by (auto simp: lexNumber_sign_def is_digit_def not_le Let_def intro!: lex_post_raiseAt lex_post_Ok moved_refl)
qed

lemma lexNumber_integer_post:
  assumes pos: "lex_bytePos l \<le> bodySize l" and d: "is_digit d"
  shows "lex_post l (\<lambda>text c l'. list_all is_digit (d # text) \<and> (d = CHR ''0'' \<longrightarrow> text = [])
           \<and> c = peek l' \<and> \<not> is_digit c) (lexNumber_integer d l)"
proof (cases "d = CHR ''0''")
  case True
  with pos d show ?thesis
    by (auto simp: lexNumber_integer_def Let_def is_digit_def intro!: lex_post_raiseAt lex_post_Ok moved_refl)
next
  case False
  have "list_all is_digit (takeWhile is_digit (rest l))" by (auto simp: list_all_iff dest: set_takeWhileD)
  with False d consumeDigits_moved [OF pos] show ?thesis
    by (auto simp: lexNumber_integer_def split: prod.split intro!: lex_post_Ok)
qed

lemma lexNumber_fraction_post:
  assumes pos: "lex_bytePos l \<le> bodySize l" and c: "c = peek l" "\<not> is_digit c"
  shows "lex_post l (\<lambda>text ck l'. fst ck = peek l' \<and> \<not> is_digit (fst ck) \<and>
           (text = [] \<and> snd ck = KindInt \<and> fst ck \<noteq> CHR ''.'' \<or> is_fraction_text text \<and> snd ck = KindFloat))
           (lexNumber_fraction c l)"
proof (cases "c = CHR ''.''")
  case False
  then show ?thesis using pos c by (auto simp: lexNumber_fraction_def intro!: lex_post_Ok moved_refl)
next
  case True
  then obtain cs where r: "rest l = c # cs" using c(1) by (cases "rest l") (auto simp: peek_rest)
  note s = scan_while_step [OF r]
  show ?thesis
  proof (cases "is_digit (peek (advancePos l))")
    case d: True
    obtain c' ds l' where run: "consumeDigits (advancePos (advancePos l)) = (c', l')"
      "moved (advancePos l) (peek (advancePos l) # ds) l'" "list_all is_digit (peek (advancePos l) # ds)"
      "c' = peek l'" "\<not> is_digit c'"
      by (rule digits_run [OF d])
    have "lexNumber_fraction c l = (Ok (c', KindFloat), l')"
      using True d run(1) by (simp add: lexNumber_fraction_def Let_def is_digit_def)
    moreover have "is_fraction_text ([c] @ (peek (advancePos l) # ds))"
      using True run(3) by (simp add: is_fraction_text_def)
    ultimately show ?thesis using moved_trans [OF s(2) run(2)] run(4,5) by (auto intro!: lex_post_Ok)
  next
    case False
    have "lex_post (advancePos l) Q (raiseAt (lex_bytePos (advancePos l)) msg (advancePos l))"
      for Q :: "string \<Rightarrow> char \<times> kind \<Rightarrow> lexer \<Rightarrow> bool" and msg
      using moved_frame [OF s(2)] by (intro lex_post_raiseAt) simp_all
    with False True show ?thesis
      by (auto simp: lexNumber_fraction_def Let_def is_digit_def intro!: lex_post_trans [OF s(2)])
  qed
qed

lemma optional_sign:
  assumes "lex_bytePos l \<le> bodySize l"
  obtains sg where "sg \<in> {[], ''+'', ''-''}"
    "moved l sg (lexNumber_expSign l)"
proof (cases "peek l = CHR ''+'' \<or> peek l = CHR ''-''")
  case True
  then obtain cs where r: "rest l = peek l # cs" by (cases "rest l") (auto simp: peek_rest)
  from scan_while_step(2) [OF r] True that [of "[peek l]"] show ?thesis
    by (auto simp: lexNumber_expSign_def Let_def)
next
  case False
  with that [of "[]"] moved_refl [OF assms] show ?thesis by (simp add: lexNumber_expSign_def Let_def)
qed

lemma lexNumber_exponent_post:
  assumes pos: "lex_bytePos l \<le> bodySize l" and c: "c = peek l" "\<not> is_digit c"
  shows "lex_post l (\<lambda>text k' l'. \<not> is_digit (peek l') \<and>
           (text = [] \<and> k' = k \<or> is_exponent_text text \<and> k' = KindFloat)) (lexNumber_exponent (c, k) l)"
proof (cases "c = CHR ''E'' \<or> c = CHR ''e''")
  case False
  then show ?thesis using pos c by (auto simp: lexNumber_exponent_def intro!: lex_post_Ok moved_refl)
next
  case True
  then obtain cs where r: "rest l = c # cs" using c(1) by (cases "rest l") (auto simp: peek_rest)
  note s = scan_while_step [OF r]
  let ?l1 = "advancePos l"
  let ?l2 = "lexNumber_expSign ?l1"
  have "lex_bytePos ?l1 \<le> bodySize ?l1" using moved_frame [OF s(2)] by simp
  then obtain sg where sg: "sg \<in> {[], ''+'', ''-''}" "moved ?l1 sg ?l2" by (rule optional_sign)
  note m2 = moved_trans [OF s(2) sg(2)]
  show ?thesis
  proof (cases "is_digit (peek ?l2)")
    case d: True
    obtain c' ds l' where run: "consumeDigits (advancePos ?l2) = (c', l')"
      "moved ?l2 (peek ?l2 # ds) l'" "list_all is_digit (peek ?l2 # ds)" "c' = peek l'" "\<not> is_digit c'"
      by (rule digits_run [OF d])
    have "lexNumber_exponent (c, k) l = (Ok KindFloat, l')"
      using True d run(1) by (simp add: lexNumber_exponent_def Let_def is_digit_def)
    moreover have "is_exponent_text ([c] @ sg @ (peek ?l2 # ds))"
      unfolding is_exponent_text_def using True run(3) sg(1)
      by (intro exI [of _ c] exI [of _ sg] exI [of _ "peek ?l2 # ds"]) auto
    ultimately show ?thesis using moved_trans [OF m2 run(2)] run(4,5) by (auto intro!: lex_post_Ok)
  next
    case False
    have err: "lex_post ?l2 Q (raiseAt (lex_bytePos ?l2) msg ?l2)"
      for Q :: "string \<Rightarrow> kind \<Rightarrow> lexer \<Rightarrow> bool" and msg
      using moved_frame [OF m2] by (intro lex_post_raiseAt) simp_all
    have "lexNumber_exponent (c, k) l = raiseAt (lex_bytePos ?l2)
      (''Invalid number, expected digit but got: '' @ charAtPosToStr ?l2 (lex_bytePos ?l2) @ ''.'') ?l2"
      using False True by (auto simp: lexNumber_exponent_def Let_def is_digit_def)
    then show ?thesis using lex_post_trans [OF m2 err] by simp
  qed
qed

text \<open>\<open>number_post l s\<close>: the token for \<open>s\<close> and the text read since, a number read from \<open>l\<close>.\<close>

definition number_post :: "lexer \<Rightarrow> string \<Rightarrow> string \<Rightarrow> token \<Rightarrow> lexer \<Rightarrow> bool" where
  "number_post l s t tok l' \<longleftrightarrow>
     (\<exists>k. is_number_text k (s @ t) \<and> tok = token_of l k (s @ t) (s @ t)) \<and> \<not> is_digit (first_byte (rest l'))"

lemma number_token_post:
  assumes m: "moved l s l1" and "is_number_text k s" "\<not> is_digit (peek l1)"
  shows "lex_post l1 (number_post l s)
      (andThen (lift_outcome (SubStr (lex_body l1) (lex_bytePos l) (lex_bytePos l1)))
         (makeTokenWithValue k (usub (lex_bytePos l1) (lex_bytePos l))) l1)"
proof -
  have "lex_bytePos l1 \<le> bodySize l1" using moved_frame [OF m] by simp
  then show ?thesis using assms(2,3)
    by (auto simp: SubStr_moved [OF m] usub_moved [OF m] andThen_def makeTokenWithValue_moved [OF m] peek_rest
        number_post_def intro!: lex_post_Ok moved_refl)
qed

lemma number_post_append: "(\<lambda>t. number_post l s (u @ t)) = number_post l (s @ u)"
  by (simp add: number_post_def fun_eq_iff)

lemma number_tail_post:
  assumes m: "moved l s l1" and "is_integer_text s" "c = peek l1" "\<not> is_digit c"
  shows "lex_post l1 (number_post l s)
    (andThen (lexNumber_fraction c) (\<lambda>ck. andThen (lexNumber_exponent ck) (\<lambda>tokenKind l'.
          andThen (lift_outcome (SubStr (lex_body l') (lex_bytePos l) (lex_bytePos l')))
            (makeTokenWithValue tokenKind (usub (lex_bytePos l') (lex_bytePos l))) l')) l1)"
proof (rule lex_post_andThen [OF lexNumber_fraction_post], unfold number_post_append)
  show "lex_bytePos l1 \<le> bodySize l1" "c = peek l1" "\<not> is_digit c" using assms moved_frame [OF m] by simp_all
next
  fix f ck l2
  assume m2: "moved l1 f l2" and f: "fst ck = peek l2 \<and> \<not> is_digit (fst ck) \<and>
    (f = [] \<and> snd ck = KindInt \<and> fst ck \<noteq> CHR ''.'' \<or> is_fraction_text f \<and> snd ck = KindFloat)"
  note m2' = moved_trans [OF m m2]
  obtain c2 k2 where ck: "ck = (c2, k2)" by (cases ck)
  show "lex_post l2 (number_post l (s @ f))
      (andThen (lexNumber_exponent ck) (\<lambda>tokenKind l'.
          andThen (lift_outcome (SubStr (lex_body l') (lex_bytePos l) (lex_bytePos l')))
            (makeTokenWithValue tokenKind (usub (lex_bytePos l') (lex_bytePos l))) l') l2)"
    unfolding ck
  proof (rule lex_post_andThen [OF lexNumber_exponent_post], unfold number_post_append)
    show "lex_bytePos l2 \<le> bodySize l2" "c2 = peek l2" "\<not> is_digit c2" using moved_frame [OF m2] f ck by auto
  next
    fix e k l3
    assume m3: "moved l2 e l3" and e: "\<not> is_digit (peek l3) \<and> (e = [] \<and> k = k2 \<or> is_exponent_text e \<and> k = KindFloat)"
    have "is_number_text k (s @ f @ e)"
      unfolding is_number_text_def using assms(2) f e ck
      by (intro exI [of _ s] exI [of _ f] exI [of _ e]) auto
    then show "lex_post l3 (number_post l ((s @ f) @ e))
      (andThen (lift_outcome (SubStr (lex_body l3) (lex_bytePos l) (lex_bytePos l3)))
            (makeTokenWithValue k (usub (lex_bytePos l3) (lex_bytePos l))) l3)"
      using number_token_post [OF moved_trans [OF m2' m3]] e by simp
  qed
qed

lemma lexNumber_post:
  assumes r: "rest l = c # cs" and c: "c = CHR ''-'' \<or> is_digit c"
  shows "lex_post l (number_post l []) (lexNumber l)"
proof -
  note s = scan_while_step [OF r]
  show ?thesis
    unfolding lexNumber_def consume_eq Let_def prod.case s(3)
  proof (rule lex_post_trans [OF s(2)], unfold number_post_append,
      rule lex_post_andThen [OF lexNumber_sign_post], unfold number_post_append)
    show "lex_bytePos (advancePos l) \<le> bodySize (advancePos l)" "c = CHR ''-'' \<or> is_digit c"
      using moved_frame [OF s(2)] c by simp_all
  next
    fix t1 d l2
    assume m1: "moved (advancePos l) t1 l2" and p1: "is_digit d \<and> c # t1 \<in> {[d], ''-'' @ [d]}"
    note m1' = moved_trans [OF s(2) m1]
    show "lex_post l2 (number_post l (([] @ [c]) @ t1))
      (andThen (lexNumber_integer d) (\<lambda>char. andThen (lexNumber_fraction char) (\<lambda>ck.
        andThen (lexNumber_exponent ck) (\<lambda>tokenKind l'.
          andThen (lift_outcome (SubStr (lex_body l') (lex_bytePos l) (lex_bytePos l')))
            (makeTokenWithValue tokenKind (usub (lex_bytePos l') (lex_bytePos l))) l'))) l2)"
    proof (rule lex_post_andThen [OF lexNumber_integer_post], unfold number_post_append)
      show "lex_bytePos l2 \<le> bodySize l2" "is_digit d" using moved_frame [OF m1] p1 by simp_all
    next
      fix t2 c2 l3
      assume m2: "moved l2 t2 l3"
        and p2: "list_all is_digit (d # t2) \<and> (d = CHR ''0'' \<longrightarrow> t2 = []) \<and> c2 = peek l3 \<and> \<not> is_digit c2"
      have int: "is_integer_text (([c] @ t1) @ t2)"
        unfolding is_integer_text_def using p1 p2
        by (intro exI [of _ "if c # t1 = [d] then [] else ''-''"] exI [of _ "d # t2"]) auto
      show "lex_post l3 (number_post l ((([] @ [c]) @ t1) @ t2))
        (andThen (lexNumber_fraction c2) (\<lambda>ck. andThen (lexNumber_exponent ck) (\<lambda>tokenKind l'.
          andThen (lift_outcome (SubStr (lex_body l') (lex_bytePos l) (lex_bytePos l')))
            (makeTokenWithValue tokenKind (usub (lex_bytePos l') (lex_bytePos l))) l')) l3)"
        using number_tail_post [OF moved_trans [OF m1' m2] int] p2 by auto
    qed
  qed
qed

section \<open>Strings\<close>

unbundle bit_operations_syntax

text \<open>The value of a hexadecimal digit and of four of them, without bit operations.\<close>

definition hex_value :: "char \<Rightarrow> nat option" where
  "hex_value c =
     (if is_digit c then Some (byte_of c - 48)
      else if CHR ''A'' \<le> c \<and> c \<le> CHR ''F'' then Some (byte_of c - 55)
      else if CHR ''a'' \<le> c \<and> c \<le> CHR ''f'' then Some (byte_of c - 87)
      else None)"
lemma char2hex_eq: "char2hex c = (case hex_value c of None \<Rightarrow> -1 | Some n \<Rightarrow> of_nat n)"
  by (simp add: char2hex_def hex_value_def is_digit_def)
lemma hex_value_less: "hex_value c = Some n \<Longrightarrow> n < 16"
  by (auto simp: hex_value_def is_digit_def less_eq_char_byte_of byte_of_def split: if_splits)

lemma push_bit_or_eq: "b < 2 ^ n \<Longrightarrow> push_bit n a OR b = a * 2 ^ n + (b :: nat)"
proof -
  assume b: "b < 2 ^ n"
  then have "take_bit n b = b" by (simp add: take_bit_nat_eq_self_iff)
  then have "bit b m \<Longrightarrow> m < n" for m using bit_take_bit_iff [of n b m] by simp
  then have "push_bit n a AND b = 0"
    by (intro bit_eqI) (auto simp: bit_and_iff bit_push_bit_iff_nat not_less [symmetric])
  then have "push_bit n a + b = push_bit n a OR b" by (rule disjunctive_add_eq_or)
  then show ?thesis by (simp add: push_bit_eq_mult)
qed

definition hex4 :: "char \<Rightarrow> char \<Rightarrow> char \<Rightarrow> char \<Rightarrow> nat option" where
  "hex4 a b c d =
     (case (hex_value a, hex_value b, hex_value c, hex_value d) of
        (Some w, Some x, Some y, Some z) \<Rightarrow> Some (4096 * w + 256 * x + 16 * y + z)
      | _ \<Rightarrow> None)"

lemma hex4_less: "hex4 a b c d = Some n \<Longrightarrow> n < 65536"
  using hex_value_less [of a] hex_value_less [of b] hex_value_less [of c] hex_value_less [of d]
  by (auto simp: hex4_def split: option.splits)

lemma uniCharCode_hex:
  assumes "hex4 a b c d = Some n"
  shows "uniCharCode a b c d = of_nat n"
proof -
  obtain w x y z where h: "hex_value a = Some w" "hex_value b = Some x" "hex_value c = Some y" "hex_value d = Some z"
    and n: "n = 4096 * w + 256 * x + 16 * y + z"
    using assms by (auto simp: hex4_def split: option.splits)
  have less: "w < 16" "x < 16" "y < 16" "z < 16" using h by (auto dest: hex_value_less)
  have "push_bit 4 y OR z = 16 * y + z" using push_bit_or_eq [of z 4 y] less by simp
  moreover have "push_bit 8 x OR (16 * y + z) = 256 * x + (16 * y + z)"
    using push_bit_or_eq [of "16 * y + z" 8 x] less by simp
  moreover have "push_bit 12 w OR (256 * x + (16 * y + z)) = n"
    using push_bit_or_eq [of "256 * x + (16 * y + z)" 12 w] less n by simp
  ultimately have "push_bit 12 w OR push_bit 8 x OR push_bit 4 y OR z = n" by simp
  then have "of_nat (push_bit 12 w OR push_bit 8 x OR push_bit 4 y OR z) = (of_nat n :: 32 word)" by simp
  then show ?thesis
    by (simp add: uniCharCode_def char2hex_eq h of_nat_or_eq of_nat_push_bit)
qed

lemma uniCharCode_invalid:
  assumes "hex4 a b c d = None"
  shows "sint (uniCharCode a b c d) < 0"
proof -
  have "char2hex a = -1 \<or> char2hex b = -1 \<or> char2hex c = -1 \<or> char2hex d = -1"
    using assms by (auto simp: hex4_def char2hex_eq split: option.splits)
  then have "bit (uniCharCode a b c d) 31"
    by (auto simp: uniCharCode_def bit_or_iff bit_push_bit_iff)
  then show ?thesis using bit_last_iff [of "uniCharCode a b c d"] by simp
qed

lemma uniCharCode_valid:
  assumes "hex4 a b c d = Some n"
  shows "sint (uniCharCode a b c d) = int n" "unat (uniCharCode a b c d) = n"
proof -
  have n: "n < 65536" using hex4_less [OF assms] .
  have u: "uniCharCode a b c d = of_nat n" using uniCharCode_hex [OF assms] .
  show "unat (uniCharCode a b c d) = n"
    using n by (simp add: u unat_of_nat)
  then show "sint (uniCharCode a b c d) = int n"
    using n by (simp add: sint_uint uint_nat signed_take_bit_int_eq_self)
qed
text \<open>
  Reading a string as a function of the unread input: the bytes an escape sequence stands for, and
  the value of a string up to its closing quote, each with the input left.
\<close>

fun scanUnicode :: "string \<Rightarrow> (string \<times> string) option" where
  "scanUnicode (a # b # c # d # r) =
     (case hex4 a b c d of Some n \<Rightarrow> Some (utf8_EncodeRune n, r) | None \<Rightarrow> None)"
| "scanUnicode _ = None"

fun scanEscape :: "string \<Rightarrow> (string \<times> string) option" where
  "scanEscape [] = None"
| "scanEscape (c # cs) =
     (case escapedCharacter c of
        Some e \<Rightarrow> Some ([e], cs)
      | None \<Rightarrow> if c = CHR ''u'' then scanUnicode cs else None)"

lemma scanUnicode_shorter: "scanUnicode cs = Some (bs, r) \<Longrightarrow> length r < length cs"
  by (induction cs rule: scanUnicode.induct) (auto split: option.splits)

lemma scanEscape_shorter: "scanEscape cs = Some (bs, r) \<Longrightarrow> length r < length cs"
  by (cases cs) (auto split: option.splits if_splits dest: scanUnicode_shorter)

function scanString :: "string \<Rightarrow> (string \<times> string) option" where
  "scanString [] = None"
| "scanString (c # cs) =
     (if c = LF \<or> c = CR then None
      else if c = QUOTE then Some ([], cs)
      else if c < CHR 0x20 \<and> c \<noteq> TAB then None
      else if c \<noteq> BACKSLASH then map_option (\<lambda>(v, r). (c # v, r)) (scanString cs)
      else (case scanEscape cs of
              None \<Rightarrow> None
            | Some (bs, r) \<Rightarrow> map_option (\<lambda>(v, r'). (bs @ v, r')) (scanString r)))"
  by pat_completeness auto
termination
  by (relation "measure length") (auto dest: scanEscape_shorter)

text \<open>\<open>scans l s\<close>: reading \<open>rest l\<close> by \<open>s\<close> is what the lexing function returns from \<open>l\<close>.\<close>

definition scans :: "lexer \<Rightarrow> ('a \<times> string) option \<Rightarrow> (string \<Rightarrow> lexer \<Rightarrow> 'a \<Rightarrow> 'b) \<Rightarrow> (syntax_error, 'b) outcome \<times> lexer \<Rightarrow> bool" where
  "scans l s f r \<longleftrightarrow> (\<exists>t l'. moved l t l' \<and>
     (case s of None \<Rightarrow> (\<exists>e. r = (Error e, l')) | Some (a, cs) \<Rightarrow> rest l' = cs \<and> r = (Ok (f t l' a), l')))"

lemma scans_error: "lex_post l (\<lambda>_ _ _. False) r \<Longrightarrow> scans l None f r"
  by (auto simp: lex_post_def scans_def split: prod.splits outcome.splits)

lemma consume4_rest:
  assumes "rest l = a # b # c # d # r"
  shows "\<exists>l'. consume4 l = ((a, b, c, d), l') \<and> moved l [a, b, c, d] l' \<and> rest l' = r"
proof -
  note s1 = scan_while_step [OF assms]
  note s2 = scan_while_step [OF s1(1)]
  note s3 = scan_while_step [OF s2(1)]
  note s4 = scan_while_step [OF s3(1)]
  have "consume4 l = ((a, b, c, d), advancePos (advancePos (advancePos (advancePos l))))"
    by (simp add: consume4_def consume_eq s1 s2 s3 s4)
  moreover have "moved l [a, b, c, d] (advancePos (advancePos (advancePos (advancePos l))))"
    using moved_trans [OF moved_trans [OF moved_trans [OF s1(2) s2(2)] s3(2)] s4(2)] by simp
  ultimately show ?thesis using s4(1) by blast
qed

lemma SubStr_Ok: "p \<le> q \<Longrightarrow> q \<le> length body \<Longrightarrow> SubStr body p q = Ok (take (q - p) (drop p body))"
  by (simp add: SubStr_def)

lemma raiseEscape_post:
  assumes "p \<le> q" "q \<le> bodySize l" "lex_bytePos l \<le> bodySize l" "0 < p"
  shows "lex_post l Q (raiseEscape p q l)"
proof -
  have "lex_post l Q (raiseAt (p - 1) msg l)" for msg using assms by (intro lex_post_raiseAt) auto
  then show ?thesis
    using assms by (simp add: raiseEscape_def andThen_def SubStr_Ok bodySize_def Size_def)
qed

lemma lexUnicodeEscape_scans:
  assumes "lex_bytePos l \<le> bodySize l" "0 < lex_bytePos l"
  shows "scans l (scanUnicode (rest l)) (\<lambda>_ _ bs. bs) (lexUnicodeEscape l)"
proof (cases "length (rest l) < 4")
  case True
  then have "scanUnicode (rest l) = None" by (cases "rest l" rule: scanUnicode.cases) auto
  moreover have "lexUnicodeEscape l = raiseEscape (lex_bytePos l) (bodySize l) l"
    using True assms by (simp add: lexUnicodeEscape_def length_rest)
  ultimately show ?thesis using assms by (simp add: scans_error raiseEscape_post)
next
  case False
  then obtain a b c d r where r: "rest l = a # b # c # d # r"
    by (cases "rest l" rule: scanUnicode.cases) auto
  obtain l' where l': "consume4 l = ((a, b, c, d), l')" "moved l [a, b, c, d] l'" "rest l' = r"
    using consume4_rest [OF r] by blast
  note m = moved_frame [OF l'(2)]
  have nl: "\<not> usub (bodySize l) (lex_bytePos l) < 4" using False assms by (simp add: length_rest)
  show ?thesis
  proof (cases "hex4 a b c d")
    case None
    then have "lexUnicodeEscape l = raiseEscape (lex_bytePos l) (lex_bytePos l + 4) l'"
      using nl l'(1) uniCharCode_invalid [OF None] by (simp add: lexUnicodeEscape_def Let_def not_le)
    moreover have "scans l None (\<lambda>_ _ bs. bs) (raiseEscape (lex_bytePos l) (lex_bytePos l + 4) l')"
      using m assms(2) by (intro scans_error lex_post_trans [OF l'(2)] raiseEscape_post) auto
    ultimately show ?thesis using None r by simp
  next
    case (Some n)
    then show ?thesis using nl l' r uniCharCode_valid [OF Some]
      by (auto simp: lexUnicodeEscape_def Let_def scans_def)
  qed
qed

lemma scans_trans:
  assumes "moved l t l1" and "scans l1 s (\<lambda>t' l' a. f (t @ t') l' a) r"
  shows "scans l s f r"
  using assms by (force simp: scans_def split: option.splits prod.splits intro: moved_trans)

lemma lexEscape_scans:
  assumes "lex_bytePos l \<le> bodySize l" "0 < lex_bytePos l"
  shows "scans l (scanEscape (rest l)) (\<lambda>_ _ bs. bs) (lexEscape l)"
proof (cases "rest l")
  case Nil
  then have "advancePos l = l" "peek l = NUL" using rest_nonempty [of l] by (auto simp: advancePos_def peek_rest)
  moreover have "escapedCharacter NUL = None" by (simp add: escapedCharacter_def)
  ultimately show ?thesis using Nil assms
    by (auto simp: lexEscape_def consume_eq intro!: scans_error lex_post_raiseAt)
next
  case (Cons c cs)
  note s = scan_while_step [OF Cons]
  have pos: "lex_bytePos (advancePos l) \<le> bodySize (advancePos l)" "0 < lex_bytePos (advancePos l)"
    using moved_frame [OF s(2)] by simp_all
  have err: "scans l None (\<lambda>_ _ bs. bs) (raiseAt (usub (lex_bytePos (advancePos l)) 1) msg (advancePos l))" for msg
    using pos by (intro scans_error lex_post_trans [OF s(2)] lex_post_raiseAt) auto
  show ?thesis
  proof (cases "escapedCharacter c")
    case None
    then show ?thesis
      using Cons s(1,3) lexUnicodeEscape_scans [OF pos] err
      by (auto simp: lexEscape_def consume_eq intro: scans_trans [OF s(2)])
  next
    case (Some e)
    then show ?thesis using Cons s by (auto simp: lexEscape_def consume_eq scans_def)
  qed
qed

lemma scans_map:
  assumes "moved l t l1" and "scans l1 s g r" and "\<And>t' l' a. g t' l' a = f (t @ t') l' (h a)"
  shows "scans l (map_option (\<lambda>(a, cs). (h a, cs)) s) f r"
  using assms by (force simp: scans_def split: option.splits prod.splits intro: moved_trans)

definition string_token :: "lexer \<Rightarrow> kind \<Rightarrow> nat \<Rightarrow> string \<Rightarrow> string \<Rightarrow> lexer \<Rightarrow> string \<Rightarrow> token" where
  "string_token l kind startPos v t l' w =
     \<lparr>token_Kind = kind, token_Location = startPos + 1, token_Length = lex_bytePos l' - startPos,
      token_Value = v @ w, token_Prev = Some (lex_token l), token_Next = None\<rparr>"

lemma lexString_escape_scans:
  assumes r: "rest l = BACKSLASH # cs" and start: "startPos \<le> lex_bytePos l"
    and IH: "\<And>l' v'. length (rest l') < length (rest l) \<Longrightarrow> lex_bytePos l' \<le> bodySize l' \<Longrightarrow>
      startPos \<le> lex_bytePos l' \<Longrightarrow>
      scans l' (scanString (rest l')) (string_token l' KindString startPos v') (lexString_loop startPos v' l')"
  shows "scans l (scanString (rest l)) (string_token l KindString startPos v) (lexString_loop startPos v l)"
proof -
  note s = scan_while_step [OF r]
  note m = moved_frame [OF s(2)]
  have pos: "lex_bytePos (advancePos l) \<le> bodySize (advancePos l)" "0 < lex_bytePos (advancePos l)"
    using m by simp_all
  have eq: "lexString_loop startPos v l = (case lexEscape (advancePos l) of
      (Ok bs, l2) \<Rightarrow> lexString_loop startPos (v @ bs) l2 | (Error e, l2) \<Rightarrow> (Error e, l2)
    | (Panic, l2) \<Rightarrow> (Panic, l2) | (OutOfFuel, l2) \<Rightarrow> (OutOfFuel, l2))"
    using r rest_nonempty [of l] s(3)
    by (simp add: lexString_loop.simps [of startPos v l] less_char_byte_of byte_of_def)
  note es = lexEscape_scans [OF pos, unfolded s(1)]
  show ?thesis
  proof (cases "scanEscape cs")
    case None
    with es obtain t l2 e where "moved (advancePos l) t l2" "lexEscape (advancePos l) = (Error e, l2)"
      by (auto simp: scans_def)
    then show ?thesis using None r eq moved_trans [OF s(2)]
      by (auto simp: scans_def less_char_byte_of byte_of_def)
  next
    case (Some br)
    then obtain bs r' where br: "br = (bs, r')" by (cases br)
    with Some es obtain t l2 where l2: "moved (advancePos l) t l2" "rest l2 = r'"
      "lexEscape (advancePos l) = (Ok bs, l2)"
      by (auto simp: scans_def)
    note m2 = moved_trans [OF s(2) l2(1)]
    have "length r' < length (rest l)" using scanEscape_shorter [of cs bs r'] Some br r by simp
    then have "scans l2 (scanString r') (string_token l2 KindString startPos (v @ bs)) (lexString_loop startPos (v @ bs) l2)"
      using IH [of l2 "v @ bs"] l2 start moved_frame [OF m2] by simp
    moreover have "scanString (rest l) = map_option (\<lambda>(v, r'). (bs @ v, r')) (scanString r')"
      using r Some br by (simp add: less_char_byte_of byte_of_def)
    ultimately show ?thesis
      using scans_map [OF m2, where h = "\<lambda>w. bs @ w" and f = "string_token l KindString startPos v"] eq l2(3)
        moved_frame [OF m2]
      by (simp add: string_token_def)
  qed
qed

lemma lexString_loop_scans:
  assumes "lex_bytePos l \<le> bodySize l" "startPos \<le> lex_bytePos l"
  shows "scans l (scanString (rest l)) (string_token l KindString startPos v) (lexString_loop startPos v l)"
  using assms
proof (induction "length (rest l)" arbitrary: v l rule: less_induct)
  case less
  note eq = lexString_loop.simps [of startPos v l]
  show ?case
  proof (cases "rest l")
    case Nil
    then have "\<not> lex_bytePos l < bodySize l" using rest_nonempty [of l] by simp
    then show ?thesis using Nil less.prems by (simp add: eq scans_error lex_post_raiseAt)
  next
    case (Cons c cs)
    note s = scan_while_step [OF Cons]
    note m = moved_frame [OF s(2)]
    have in_body: "lex_bytePos l < bodySize l" using Cons rest_nonempty [of l] by simp
    consider (line) "c = LF \<or> c = CR" | (quote) "c = QUOTE" | (bad) "c < CHR 0x20" "c \<noteq> TAB" "c \<noteq> LF" "c \<noteq> CR"
      | (plain) "c \<noteq> LF" "c \<noteq> CR" "c \<noteq> QUOTE" "\<not> (c < CHR 0x20 \<and> c \<noteq> TAB)" "c \<noteq> BACKSLASH"
      | (esc) "c = BACKSLASH" by blast
    then show ?thesis
    proof cases
      case line
      then show ?thesis using Cons s less.prems in_body by (auto simp: eq scans_error lex_post_raiseAt)
    next
      case quote
      then show ?thesis using Cons s less.prems in_body m
        by (auto simp: eq scans_def makeTokenWithValue_run string_token_def
            intro!: exI [of _ "[c]"] exI [of _ "advancePos l"])
    next
      case bad
      then have "c \<noteq> QUOTE" by (auto simp: less_char_byte_of byte_of_def)
      then show ?thesis using bad Cons s less.prems in_body by (simp add: eq scans_error lex_post_raiseAt)
    next
      case plain
      have "scans (advancePos l) (scanString cs) (string_token (advancePos l) KindString startPos (v @ [c]))
          (lexString_loop startPos (v @ [c]) (advancePos l))"
        using less.hyps [of "advancePos l" "v @ [c]"] Cons s m less.prems by simp
      moreover have "lexString_loop startPos v l = lexString_loop startPos (v @ [c]) (advancePos l)"
        using plain in_body s(3) by (auto simp: eq)
      ultimately show ?thesis
        using scans_map [OF s(2), where h = "\<lambda>w. c # w" and f = "string_token l KindString startPos v"] plain Cons
        by (auto simp: string_token_def)
    next
      case esc
      then show ?thesis using lexString_escape_scans Cons less.prems(2) less.hyps by blast
    qed
  qed
qed

section \<open>Block strings\<close>

text \<open>
  The grammar of a block string reads one character at a time and gives meaning to \<open>"""\<close> (the end)
  and to \<open>\"""\<close> only. The source looks ahead quote by quote instead; both read the same.
\<close>

function scanBlock :: "string \<Rightarrow> (string \<times> string) option" where
  "scanBlock s =
     (if s = [] then None
      else if take 3 s = [QUOTE, QUOTE, QUOTE] then Some ([], drop 3 s)
      else if take 4 s = [BACKSLASH, QUOTE, QUOTE, QUOTE]
        then map_option (\<lambda>(v, r). ([QUOTE, QUOTE, QUOTE] @ v, r)) (scanBlock (drop 4 s))
      else if hd s < CHR 0x20 \<and> hd s \<noteq> TAB \<and> hd s \<noteq> CR \<and> hd s \<noteq> LF then None
      else map_option (\<lambda>(v, r). (hd s # v, r)) (scanBlock (tl s)))"
  by pat_completeness auto
termination
  by (relation "measure length") (auto simp: length_greater_0_conv [symmetric] simp del: length_greater_0_conv)

declare scanBlock.simps [simp del]

lemma scanBlock_Nil [simp]: "scanBlock [] = None"
  by (simp add: scanBlock.simps)

lemma scanBlock_end: "scanBlock (QUOTE # QUOTE # QUOTE # r) = Some ([], r)"
  by (simp add: scanBlock.simps)

lemma scanBlock_escape:
  "scanBlock (BACKSLASH # QUOTE # QUOTE # QUOTE # r) = map_option (\<lambda>(v, r). ([QUOTE, QUOTE, QUOTE] @ v, r)) (scanBlock r)"
  by (simp add: scanBlock.simps [of "BACKSLASH # QUOTE # QUOTE # QUOTE # r"])

lemma scanBlock_copy:
  assumes "take 3 (c # cs) \<noteq> [QUOTE, QUOTE, QUOTE]" "take 4 (c # cs) \<noteq> [BACKSLASH, QUOTE, QUOTE, QUOTE]"
    "\<not> (c < CHR 0x20 \<and> c \<noteq> TAB \<and> c \<noteq> CR \<and> c \<noteq> LF)"
  shows "scanBlock (c # cs) = map_option (\<lambda>(v, r). (c # v, r)) (scanBlock cs)"
  using assms by (auto simp: scanBlock.simps [of "c # cs"])

lemma map_option_append:
  "map_option (\<lambda>(v, r). (xs @ v, r)) (map_option (\<lambda>(v, r). (ys @ v, r)) s) = map_option (\<lambda>(v, r). ((xs @ ys) @ v, r)) s"
  by (cases s) auto

lemma QUOTE_BACKSLASH_printable [simp]: "\<not> QUOTE < CHR 0x20" "\<not> BACKSLASH < CHR 0x20"
  by (simp_all add: less_char_byte_of byte_of_def)

text \<open>The quotes that do not end a block string, and those after a backslash.\<close>

lemma scanBlock_quote1:
  assumes "first_byte r \<noteq> QUOTE"
  shows "scanBlock (QUOTE # r) = map_option (\<lambda>(v, r). (QUOTE # v, r)) (scanBlock r)"
  using assms by (intro scanBlock_copy) (cases r; simp)+

lemma scanBlock_quote2:
  assumes "first_byte r \<noteq> QUOTE"
  shows "scanBlock (QUOTE # QUOTE # r) = map_option (\<lambda>(v, r). (QUOTE # QUOTE # v, r)) (scanBlock r)"
proof -
  have "scanBlock (QUOTE # QUOTE # r) = map_option (\<lambda>(v, r). (QUOTE # v, r)) (scanBlock (QUOTE # r))"
    using assms by (intro scanBlock_copy) (cases r; simp)+
  then show ?thesis by (cases "scanBlock r") (auto simp: scanBlock_quote1 [OF assms])
qed

lemma scanBlock_backslash:
  assumes "take 3 r \<noteq> [QUOTE, QUOTE, QUOTE]"
  shows "scanBlock (BACKSLASH # r) = map_option (\<lambda>(v, r). (BACKSLASH # v, r)) (scanBlock r)"
  using assms by (intro scanBlock_copy) simp_all

text \<open>One iteration at a quote or at a backslash reads what the grammar reads.\<close>

lemma blockQuotes_scan:
  assumes r: "rest l = QUOTE # cs"
  shows "(case blockQuotes l of
      (None, l') \<Rightarrow> moved l [QUOTE, QUOTE, QUOTE] l' \<and> scanBlock (rest l) = Some ([], rest l')
    | (Some bs, l') \<Rightarrow> (\<exists>t. t \<noteq> [] \<and> moved l t l') \<and> scanBlock (rest l) = map_option (\<lambda>(v, r). (bs @ v, r)) (scanBlock (rest l')))"
proof -
  note s = scan_while_step [OF r]
  show ?thesis
  proof (cases "first_byte cs = QUOTE")
    case False
    then show ?thesis using s r by (auto simp: blockQuotes_def peek_rest scanBlock_quote1)
  next
    case True
    then obtain ds where cs: "cs = QUOTE # ds" by (cases cs) auto
    note s2 = scan_while_step [OF s(1) [unfolded cs]]
    note m2 = moved_trans [OF s(2) s2(2)]
    show ?thesis
    proof (cases "first_byte ds = QUOTE")
      case False
      then show ?thesis using s s2 m2 r cs by (auto simp: blockQuotes_def peek_rest scanBlock_quote2)
    next
      case True
      then obtain es where ds: "ds = QUOTE # es" by (cases ds) auto
      note s3 = scan_while_step [OF s2(1) [unfolded ds]]
      show ?thesis using s s2 s3 moved_trans [OF m2 s3(2)] r cs ds
        by (simp add: blockQuotes_def scanBlock_end)
    qed
  qed
qed

lemma blockBackslash_scan:
  assumes r: "rest l = BACKSLASH # cs"
  shows "(case blockBackslash l of (bs, l') \<Rightarrow> (\<exists>t. t \<noteq> [] \<and> moved l t l') \<and>
      scanBlock (rest l) = map_option (\<lambda>(v, r). (bs @ v, r)) (scanBlock (rest l')))"
proof -
  note s = scan_while_step [OF r]
  have copy: "scanBlock (rest l) = map_option (\<lambda>(v, r). (BACKSLASH # v, r)) (scanBlock cs)"
    if "take 3 cs \<noteq> [QUOTE, QUOTE, QUOTE]"
    using scanBlock_backslash [OF that] r by simp
  consider (q0) "first_byte cs \<noteq> QUOTE"
    | (q1) ds where "cs = QUOTE # ds" "first_byte ds \<noteq> QUOTE"
    | (q2) ds where "cs = QUOTE # QUOTE # ds" "first_byte ds \<noteq> QUOTE"
    | (q3) ds where "cs = QUOTE # QUOTE # QUOTE # ds"
    by (cases cs; cases "tl cs"; cases "tl (tl cs)") (auto simp: first_byte_def split: list.splits)
  then show ?thesis
  proof cases
    case q0
    then have "take 3 cs \<noteq> [QUOTE, QUOTE, QUOTE]" by (cases cs) auto
    then show ?thesis using q0 s copy by (auto simp: blockBackslash_def peek_rest)
  next
    case (q1 ds)
    note s2 = scan_while_step [OF s(1) [unfolded q1(1)]]
    have "take 3 cs \<noteq> [QUOTE, QUOTE, QUOTE]" using q1 by (cases ds) auto
    then show ?thesis using q1 s s2 moved_trans [OF s(2) s2(2)] copy
      by (cases "scanBlock ds") (auto simp: blockBackslash_def peek_rest scanBlock_quote1)
  next
    case (q2 ds)
    note s2 = scan_while_step [OF s(1) [unfolded q2(1)]]
    note s3 = scan_while_step [OF s2(1)]
    have "take 3 cs \<noteq> [QUOTE, QUOTE, QUOTE]" using q2 by (cases ds) auto
    then show ?thesis using q2 s s2 s3 moved_trans [OF moved_trans [OF s(2) s2(2)] s3(2)] copy
      by (cases "scanBlock ds") (auto simp: blockBackslash_def peek_rest scanBlock_quote2)
  next
    case (q3 ds)
    note s2 = scan_while_step [OF s(1) [unfolded q3(1)]]
    note s3 = scan_while_step [OF s2(1)]
    note s4 = scan_while_step [OF s3(1)]
    show ?thesis
      using q3 s s2 s3 s4 r moved_trans [OF moved_trans [OF moved_trans [OF s(2) s2(2)] s3(2)] s4(2)]
      by (auto simp: blockBackslash_def scanBlock_escape)
  qed
qed

definition block_token :: "lexer \<Rightarrow> nat \<Rightarrow> string \<Rightarrow> string \<Rightarrow> lexer \<Rightarrow> string \<Rightarrow> token" where
  "block_token l startPos v t l' w = string_token l KindBlockString startPos [] t l' (BlockStringValue (v @ w))"

lemma lexBlockString_loop_scans:
  assumes "lex_bytePos l \<le> bodySize l" "startPos \<le> lex_bytePos l"
  shows "scans l (scanBlock (rest l)) (block_token l startPos v) (lexBlockString_loop startPos v l)"
  using assms
proof (induction "length (rest l)" arbitrary: v l rule: less_induct)
  case less
  note eq = lexBlockString_loop.simps [of startPos v l]
  have IH: "scans l (map_option (\<lambda>(v, r). (bs @ v, r)) (scanBlock (rest l'))) (block_token l startPos v)
      (lexBlockString_loop startPos (v @ bs) l')" if m: "moved l t l'" "t \<noteq> []" for t l' bs
  proof -
    have "scans l' (scanBlock (rest l')) (block_token l' startPos (v @ bs)) (lexBlockString_loop startPos (v @ bs) l')"
      using less.hyps [of l' "v @ bs"] that moved_frame [OF m(1)] less.prems by simp
    then show ?thesis
      by (rule scans_map [OF m(1)]) (simp add: block_token_def string_token_def moved_frame [OF m(1)])
  qed
  show ?case
  proof (cases "rest l")
    case Nil
    then have "\<not> lex_bytePos l < bodySize l" using rest_nonempty [of l] by simp
    then show ?thesis using Nil less.prems by (simp add: eq scans_error lex_post_raiseAt)
  next
    case (Cons c cs)
    note s = scan_while_step [OF Cons]
    have in_body: "lex_bytePos l < bodySize l" using Cons rest_nonempty [of l] by simp
    consider (quote) "c = QUOTE" | (esc) "c = BACKSLASH"
      | (bad) "c < CHR 0x20 \<and> c \<noteq> TAB \<and> c \<noteq> CR \<and> c \<noteq> LF"
      | (plain) "c \<noteq> QUOTE" "c \<noteq> BACKSLASH" "\<not> (c < CHR 0x20 \<and> c \<noteq> TAB \<and> c \<noteq> CR \<and> c \<noteq> LF)" by blast
    then show ?thesis
    proof cases
      case quote
      obtain r l' where b: "blockQuotes l = (r, l')" by (cases "blockQuotes l")
      show ?thesis
      proof (cases r)
        case None
        then show ?thesis using blockQuotes_scan [of l cs] b quote Cons s(3) in_body less.prems
            moved_frame [of l "[QUOTE, QUOTE, QUOTE]" l']
          by (auto simp: eq scans_def makeTokenWithValue_run block_token_def string_token_def)
      next
        case (Some bs)
        then show ?thesis using blockQuotes_scan [of l cs] b quote Cons s(3) in_body IH by (auto simp: eq)
      qed
    next
      case esc
      then show ?thesis using blockBackslash_scan [of l cs] Cons s(3) in_body IH
        by (cases "blockBackslash l") (auto simp: eq)
    next
      case bad
      then have "c \<noteq> QUOTE" "c \<noteq> BACKSLASH" by auto
      then show ?thesis using bad Cons s(3) in_body less.prems
        by (simp add: eq scans_error lex_post_raiseAt scanBlock.simps [of "c # cs"])
    next
      case plain
      then show ?thesis using Cons s in_body IH [OF s(2), of "[c]"] by (auto simp: eq scanBlock_copy)
    qed
  qed
qed

section \<open>Ignored bytes\<close>

definition is_ignored :: "char \<Rightarrow> bool" where
  "is_ignored c \<longleftrightarrow> c \<in> {TAB, SPACE, CHR '','', LF, CR}"

definition BOM :: string where
  "BOM = [CHR 0xEF, CHR 0xBB, CHR 0xBF]"

lemma length_BOM: "length BOM = 3"
  by (simp add: BOM_def)

definition ignored_text :: "nat \<Rightarrow> string \<Rightarrow> bool" where
  "ignored_text pos s \<longleftrightarrow>
     list_all is_ignored s \<or> (pos = 0 \<and> take 3 s = BOM \<and> list_all is_ignored (drop 3 s))"

lemma skipWhitespace_takeWhile:
  "pos \<le> length body \<Longrightarrow> skipWhitespace body pos = pos + length (takeWhile is_ignored (drop pos body))"
proof (induction body pos rule: skipWhitespace.induct)
  case (1 body pos)
  note eq = skipWhitespace.simps [of body pos]
  show ?case
  proof (cases "pos < length body")
    case False
    then show ?thesis by (simp add: eq Size_def)
  next
    case True
    then have d: "drop pos body = body ! pos # drop (Suc pos) body" by (simp add: nth_drop_hd)
    have d2: "pos + 1 < length body \<Longrightarrow> drop (Suc pos) body = body ! (pos + 1) # drop (pos + 2) body"
      by (simp add: nth_drop_hd)
    consider (ws) "body ! pos \<in> {TAB, SPACE, CHR '','', LF}"
      | (crlf) "body ! pos = CR" "usub (Size body) pos \<ge> 2 \<and> body ! (pos + 1) = LF"
      | (cr) "body ! pos = CR" "\<not> (usub (Size body) pos \<ge> 2 \<and> body ! (pos + 1) = LF)"
      | (other) "body ! pos \<notin> {TAB, SPACE, CHR '','', LF}" "body ! pos \<noteq> CR" by blast
    then show ?thesis
    proof cases
      case ws
      have "skipWhitespace body pos = skipWhitespace body (pos + 1)" using ws True by (simp add: eq Size_def)
      with ws "1.IH"(1) True d show ?thesis by (auto simp: Size_def is_ignored_def)
    next
      case crlf
      then have "pos + 1 < length body" using True by (auto simp: Size_def)
      moreover have "skipWhitespace body pos = skipWhitespace body (pos + 2)" using crlf True by (simp add: eq Size_def)
      ultimately show ?thesis using crlf "1.IH"(2) True d d2 by (auto simp: Size_def is_ignored_def)
    next
      case cr
      have "skipWhitespace body pos = skipWhitespace body (pos + 1)" using cr True by (auto simp: eq Size_def)
      with cr "1.IH"(3) True d show ?thesis by (auto simp: Size_def is_ignored_def)
    next
      case other
      then show ?thesis using True d by (auto simp: eq Size_def is_ignored_def)
    qed
  qed
qed

lemma skipBOM_eq:
  "pos \<le> length body \<Longrightarrow>
   skipBOM body pos = (if pos = 0 \<and> take 3 (drop pos body) = BOM then pos + 3 else pos) \<and>
   (pos = 0 \<and> take 3 (drop pos body) = BOM \<longrightarrow> pos + 3 \<le> length body)"
proof -
  have "take 3 body = BOM \<longleftrightarrow> 3 \<le> length body \<and> body ! 0 = CHR 0xEF \<and> body ! 1 = CHR 0xBB \<and> body ! 2 = CHR 0xBF"
    by (cases body; cases "tl body"; cases "tl (tl body)") (auto simp: BOM_def)
  then show ?thesis by (auto simp: skipBOM_def Size_def numeral_2_eq_2)
qed

lemma moved_to:
  assumes "rest l = t @ r" and "lex_bytePos l \<le> bodySize l"
  shows "moved l t (l\<lparr>lex_bytePos := lex_bytePos l + length t\<rparr>)" "rest (l\<lparr>lex_bytePos := lex_bytePos l + length t\<rparr>) = r"
proof -
  have "length (rest l) = length t + length r" using assms(1) by simp
  then have "lex_bytePos l + length t \<le> bodySize l" using assms(2) by (simp add: length_rest)
  moreover show r: "rest (l\<lparr>lex_bytePos := lex_bytePos l + length t\<rparr>) = r"
    using assms(1) by (simp add: rest_def flip: drop_drop [of "length t", simplified add.commute])
  ultimately show "moved l t (l\<lparr>lex_bytePos := lex_bytePos l + length t\<rparr>)"
    using assms(1) by (simp add: moved_def)
qed

lemma consumeWhitespace_moved:
  assumes pos: "lex_bytePos l \<le> bodySize l"
  obtains ws where "moved l ws (consumeWhitespace l)" "ignored_text (lex_bytePos l) ws"
    "\<not> is_ignored (peek (consumeWhitespace l))"
proof -
  define bom where "bom = (if lex_bytePos l = 0 \<and> take 3 (rest l) = BOM then BOM else [])"
  define l1 where "l1 = l\<lparr>lex_bytePos := lex_bytePos l + length bom\<rparr>"
  have "rest l = bom @ drop (length bom) (rest l)"
    by (simp add: bom_def length_BOM) (metis append_take_drop_id)
  note m1 = moved_to [OF this pos, folded l1_def]
  note f1 = moved_frame [OF m1(1)]
  let ?w = "takeWhile is_ignored (rest l1)"
  have "rest l1 = ?w @ dropWhile is_ignored (rest l1)" by simp
  note m2 = moved_to [OF this]
  have eq: "consumeWhitespace l = l1\<lparr>lex_bytePos := lex_bytePos l1 + length ?w\<rparr>"
  proof -
    have le: "lex_bytePos l \<le> length (lex_body l)" "lex_bytePos l1 \<le> length (lex_body l)"
      using pos f1(7) by (simp_all add: bodySize_def Size_def)
    have "skipBOM (lex_body l) (lex_bytePos l) = lex_bytePos l1"
      using skipBOM_eq [OF le(1)] by (auto simp: l1_def bom_def length_BOM rest_def)
    moreover have "skipWhitespace (lex_body l) (lex_bytePos l1) = lex_bytePos l1 + length ?w"
      using skipWhitespace_takeWhile [OF le(2)] by (simp add: rest_def f1(1))
    ultimately show ?thesis by (simp add: consumeWhitespace_def l1_def)
  qed
  have "moved l (bom @ ?w) (consumeWhitespace l)"
    unfolding eq using moved_trans [OF m1(1) m2(1)] f1 by simp
  moreover have "ignored_text (lex_bytePos l) (bom @ ?w)"
    by (auto simp: ignored_text_def bom_def BOM_def list_all_iff dest: set_takeWhileD)
  moreover have "\<not> is_ignored (peek (consumeWhitespace l))"
    unfolding eq peek_rest using m2(2) f1 hd_dropWhile [of is_ignored "rest l1"]
    by (cases "dropWhile is_ignored (rest l1)") (auto simp: is_ignored_def)
  ultimately show ?thesis using that by blast
qed

section \<open>Lexing one token\<close>

text \<open>
  \<open>lexeme_ok kind text value r\<close>: \<open>text\<close>, followed by the input \<open>r\<close>, is a lexeme of the kind and
  \<open>value\<close> is its interpreted value.
\<close>

definition lexeme_ok :: "kind \<Rightarrow> string \<Rightarrow> string \<Rightarrow> string \<Rightarrow> bool" where
  "lexeme_ok kind text v r =
     (case kind of
        KindSOF \<Rightarrow> False
      | KindEOF \<Rightarrow> text = [] \<and> v = [] \<and> r = []
      | KindName \<Rightarrow> is_name_text text \<and> v = text \<and> \<not> is_name_char (first_byte r)
      | KindInt \<Rightarrow> is_number_text KindInt text \<and> v = text \<and> \<not> is_digit (first_byte r)
      | KindFloat \<Rightarrow> is_number_text KindFloat text \<and> v = text \<and> \<not> is_digit (first_byte r)
      | KindString \<Rightarrow> (\<exists>raw. text = QUOTE # raw \<and> scanString (raw @ r) = Some (v, r))
      | KindBlockString \<Rightarrow> (\<exists>raw w. text = [QUOTE, QUOTE, QUOTE] @ raw \<and> scanBlock (raw @ r) = Some (w, r)
          \<and> v = BlockStringValue w)
      | KindComment \<Rightarrow> text \<noteq> [] \<and> hd text = CHR ''#'' \<and> list_all comment_char text \<and> v = []
      | _ \<Rightarrow> text = kind_String kind \<and> v = [])"

lemma lexeme_nonempty: "lexeme_ok k text v r \<Longrightarrow> k \<noteq> KindEOF \<Longrightarrow> text \<noteq> []"
  by (cases k) (auto simp: lexeme_ok_def is_name_text_def is_number_text_def is_integer_text_def)

definition token_post :: "lexer \<Rightarrow> string \<Rightarrow> token \<Rightarrow> lexer \<Rightarrow> bool" where
  "token_post l text t l' \<longleftrightarrow>
     t = token_of l (token_Kind t) text (token_Value t) \<and> lexeme_ok (token_Kind t) text (token_Value t) (rest l')"

lemma lexSimpleToken_post:
  assumes "rest l = c # cs" and "lexeme_ok k [c] [] cs"
  shows "lex_post l (token_post l) (lexSimpleToken k l)"
proof -
  note s = scan_while_step [OF assms(1)]
  have "lexSimpleToken k l = (Ok (token_of l k [c] []), advancePos l)"
    using makeTokenWithValue_moved [OF s(2), of 1 k "[]"] by (simp add: lexSimpleToken_def makeToken_def)
  then show ?thesis using s assms(2) by (auto simp: token_post_def intro!: lex_post_Ok)
qed

lemma lexSpread_post:
  assumes r: "rest l = CHR ''.'' # cs"
  shows "lex_post l (token_post l) (lexSpread l)"
proof -
  note s = scan_while_step [OF r]
  note f = moved_frame [OF s(2)]
  show ?thesis
  proof (cases "first_byte cs = CHR ''.''")
    case False
    then show ?thesis using s f
      by (auto simp: lexSpread_def peek_rest intro!: lex_post_trans [OF s(2)] lex_post_unexpected)
  next
    case True
    then obtain ds where cs: "cs = CHR ''.'' # ds" by (cases cs) auto
    note s2 = scan_while_step [OF s(1) [unfolded cs]]
    note m2 = moved_trans [OF s(2) s2(2)]
    note f2 = moved_frame [OF m2]
    show ?thesis
    proof (cases "first_byte ds = CHR ''.''")
      case False
      then show ?thesis using s s2 f2 cs
        by (auto simp: lexSpread_def peek_rest intro!: lex_post_trans [OF m2] lex_post_unexpected)
    next
      case True
      then obtain es where ds: "ds = CHR ''.'' # es" by (cases ds) auto
      note s3 = scan_while_step [OF s2(1) [unfolded ds]]
      note m3 = moved_trans [OF m2 s3(2)]
      have "lexSpread l = (Ok (token_of l KindSpread ''...'' []), advancePos (advancePos (advancePos l)))"
        using s s2 s3 cs ds makeTokenWithValue_moved [OF m3, of 3 KindSpread "[]"]
        by (simp add: lexSpread_def makeToken_def)
      then show ?thesis using m3 by (auto simp: token_post_def lexeme_ok_def intro!: lex_post_Ok)
    qed
  qed
qed

text \<open>A scan started after the opening quotes of \<open>l\<close> gives the token of the whole string.\<close>

lemma lex_post_scans:
  assumes m: "moved l q l1" and sc: "scans l1 s f r"
    and tok: "\<And>t l' a. s = Some (a, rest l') \<Longrightarrow> moved l1 t l' \<Longrightarrow> token_post l (q @ t) (f t l' a) l'"
  shows "lex_post l (token_post l) r"
proof (cases s)
  case None
  with sc obtain t l' e where "moved l1 t l'" "r = (Error e, l')" by (auto simp: scans_def)
  with moved_trans [OF m] show ?thesis unfolding lex_post_def by fastforce
next
  case (Some p)
  then obtain a cs where p: "s = Some (a, cs)" by (cases p) auto
  with sc obtain t l' where "moved l1 t l'" "rest l' = cs" "r = (Ok (f t l' a), l')"
    by (auto simp: scans_def)
  with p tok [of a l' t] m show ?thesis by (auto intro!: lex_post_Ok moved_trans)
qed

lemma lexQuote_post:
  assumes r: "rest l = QUOTE # cs"
  shows "lex_post l (token_post l) (lexQuote l)"
proof -
  note s = scan_while_step [OF r]
  note f = moved_frame [OF s(2)]
  show ?thesis
  proof (cases "first_byte cs = QUOTE")
    case False
    have "lexQuote l = lexString_loop (lex_bytePos l) [] (advancePos l)"
      using False s f by (simp add: lexQuote_def lexString_def peek_rest)
    moreover have "scans (advancePos l) (scanString cs) (string_token (advancePos l) KindString (lex_bytePos l) [])
        (lexString_loop (lex_bytePos l) [] (advancePos l))"
      using lexString_loop_scans [of "advancePos l" "lex_bytePos l" "[]"] s f by simp
    ultimately show ?thesis
      using r s(1) by (auto simp: token_post_def token_of_def string_token_def lexeme_ok_def f moved_frame
          intro!: lex_post_scans [OF s(2)])
  next
    case True
    then obtain ds where cs: "cs = QUOTE # ds" by (cases cs) auto
    note s2 = scan_while_step [OF s(1) [unfolded cs]]
    note m2 = moved_trans [OF s(2) s2(2)]
    note f2 = moved_frame [OF m2]
    show ?thesis
    proof (cases "first_byte ds = QUOTE")
      case False
      have "lexQuote l = (Ok (token_of l KindString [QUOTE, QUOTE] []), advancePos (advancePos l))"
        using s s2 cs False makeTokenWithValue_moved [OF m2, of 2 KindString "[]"]
        by (simp add: lexQuote_def peek_rest)
      then show ?thesis using m2 by (auto simp: token_post_def lexeme_ok_def intro!: lex_post_Ok)
    next
      case True
      then obtain es where ds: "ds = QUOTE # es" by (cases ds) auto
      note s3 = scan_while_step [OF s2(1) [unfolded ds]]
      note m3 = moved_trans [OF m2 s3(2)]
      note f3 = moved_frame [OF m3]
      let ?l3 = "advancePos (advancePos (advancePos l))"
      have "lexQuote l = lexBlockString_loop (lex_bytePos l) [] ?l3"
        using s s2 s3 cs ds f3 by (simp add: lexQuote_def lexBlockString_def)
      moreover have "scans ?l3 (scanBlock es) (block_token ?l3 (lex_bytePos l) []) (lexBlockString_loop (lex_bytePos l) [] ?l3)"
        using lexBlockString_loop_scans [of ?l3 "lex_bytePos l" "[]"] s3 f3 by simp
      ultimately show ?thesis
        using s3(1) by (auto simp: token_post_def token_of_def block_token_def string_token_def lexeme_ok_def f3 moved_frame
          intro!: lex_post_scans [OF m3])
    qed
  qed
qed

lemma lexName_token_post:
  "rest l = c # cs \<Longrightarrow> is_name_start c \<Longrightarrow> lex_post l (token_post l) (lexName l)"
  by (rule lex_post_mono [OF lexName_post]) (auto simp: token_post_def lexeme_ok_def)

lemma lexComment_token_post:
  "rest l = CHR ''#'' # cs \<Longrightarrow> lex_post l (token_post l) (lexComment l)"
  by (rule lex_post_mono [OF lexComment_post]) (auto simp: token_post_def lexeme_ok_def)

lemma lexNumber_token_post:
  assumes "rest l = c # cs" "c = CHR ''-'' \<or> is_digit c"
  shows "lex_post l (token_post l) (lexNumber l)"
proof (rule lex_post_mono [OF lexNumber_post [OF assms]])
  fix t a l' assume n: "number_post l [] t a l'"
  then obtain k where k: "is_number_text k t" "a = token_of l k t t" by (auto simp: number_post_def)
  then have "k = KindInt \<or> k = KindFloat" by (auto simp: is_number_text_def split: if_splits)
  with n k show "token_post l t a l'" by (auto simp: number_post_def token_post_def lexeme_ok_def)
qed

text \<open>The switch of \<open>lexToken\<close>, at the first byte that is not ignored.\<close>

definition lexDispatch :: "token lex" where
  "lexDispatch = (\<lambda>l. let char = peek l in
     if char = CHR ''!'' then lexSimpleToken KindBang l
     else if char = CHR ''#'' then lexComment l
     else if char = CHR ''$'' then lexSimpleToken KindDollar l
     else if char = CHR ''&'' then lexSimpleToken KindAmp l
     else if char = CHR ''('' then lexSimpleToken KindLeftParen l
     else if char = CHR '')'' then lexSimpleToken KindRightParen l
     else if char = CHR ''.'' then lexSpread l
     else if char = CHR '':'' then lexSimpleToken KindColon l
     else if char = CHR ''='' then lexSimpleToken KindEquals l
     else if char = CHR ''@'' then lexSimpleToken KindAt l
     else if char = CHR ''['' then lexSimpleToken KindLeftBracket l
     else if char = CHR '']'' then lexSimpleToken KindRightBracket l
     else if char = CHR ''{'' then lexSimpleToken KindLeftBrace l
     else if char = CHR ''|'' then lexSimpleToken KindPipe l
     else if char = CHR ''}'' then lexSimpleToken KindRightBrace l
     else if is_name_start char then lexName l
     else if char = CHR ''-'' \<or> is_digit char then lexNumber l
     else if char = QUOTE then lexQuote l
     else newUnexpectedCharacterError (lex_bytePos l) l)"

lemma lexDispatch_post:
  assumes r: "rest l = c # cs"
  shows "lex_post l (token_post l) (lexDispatch l)"
proof -
  note s = scan_while_step [OF r]
  have pos: "lex_bytePos l \<le> bodySize l" using moved_frame [OF s(2)] by simp
  note simple = lexSimpleToken_post [OF r]
  show ?thesis
    unfolding lexDispatch_def Let_def s(3)
    using r pos
    by (simp add: lexeme_ok_def simple lexComment_token_post lexSpread_post lexName_token_post lexNumber_token_post
        lexQuote_post lex_post_unexpected)
qed

definition next_token_post :: "lexer \<Rightarrow> string \<Rightarrow> token \<Rightarrow> lexer \<Rightarrow> bool" where
  "next_token_post l s t l' \<longleftrightarrow>
     (\<exists>ws text. s = ws @ text \<and> ignored_text (lex_bytePos l) ws \<and>
        token_Location t = lex_bytePos l + length ws + 1 \<and> token_Length t = length text \<and>
        token_Prev t = Some (lex_token l) \<and> token_Next t = None \<and>
        lexeme_ok (token_Kind t) text (token_Value t) (rest l'))"

lemma lexToken_post:
  assumes pos: "lex_bytePos l \<le> bodySize l"
  shows "lex_post l (next_token_post l) (lexToken l)"
proof -
  obtain ws where ws: "moved l ws (consumeWhitespace l)" "ignored_text (lex_bytePos l) ws"
    by (rule consumeWhitespace_moved [OF pos])
  let ?l1 = "consumeWhitespace l"
  note f = moved_frame [OF ws(1)]
  have "lex_post ?l1 (token_post ?l1) (lexToken l)"
  proof (cases "rest ?l1")
    case Nil
    then have "peek ?l1 = NUL" "\<not> lex_bytePos ?l1 < bodySize ?l1"
      using rest_nonempty [of ?l1] by (auto simp: peek_rest)
    then have "lexToken l = (Ok (token_of ?l1 KindEOF [] []), ?l1)"
      using f by (simp add: lexToken_def Location_def LocationWithPos_def LocationFromPos_def andThen_def token_of_def
          bodySize_def Let_def)
    then show ?thesis using Nil f by (auto simp: token_post_def lexeme_ok_def intro!: lex_post_Ok moved_refl)
  next
    case (Cons c cs)
    then have "lex_bytePos ?l1 < bodySize ?l1" using rest_nonempty [of ?l1] by simp
    then have "lexToken l = lexDispatch ?l1" by (simp add: lexToken_def lexDispatch_def Let_def)
    then show ?thesis using lexDispatch_post [OF Cons] by simp
  qed
  then show ?thesis
  proof (intro lex_post_trans [OF ws(1)], elim lex_post_mono)
    fix s t l' assume "token_post ?l1 s t l'"
    then have t: "t = token_of ?l1 (token_Kind t) s (token_Value t)" "lexeme_ok (token_Kind t) s (token_Value t) (rest l')"
      by (auto simp: token_post_def)
    have "token_Location t = lex_bytePos l + length ws + 1 \<and> token_Length t = length s \<and>
      token_Prev t = Some (lex_token l) \<and> token_Next t = None"
      using f by (subst (1 2 3 4) t(1)) (simp add: token_of_def)
    with t(2) ws(2) show "next_token_post l (ws @ s) t l'" unfolding next_token_post_def by blast
  qed
qed

end
