(* ===== verification/LexerStream.thy ===== *)
theory LexerStream
  imports LexerSpec
begin

text \<open>
  The token stream of the lexer: the invariant of the linked token store, which \<open>Lookahead\<close> and
  \<open>Advance\<close> keep; that they return (their fuel is enough and they do not panic); the measure that
  every \<open>Advance\<close> decreases until the end-of-file token; and that the tokens together with the
  ignored text between them are the source, byte for byte.
\<close>

section \<open>The invariant\<close>

definition wf_lexer :: "lexer \<Rightarrow> bool" where
  "wf_lexer l \<longleftrightarrow>
     lex_bytePos l \<le> bodySize l \<and> store_sof (lex_store l) = [(0, lex_source l)] \<and>
     token_chain (lex_tokens l) \<and> lex_token l < length (lex_tokens l) \<and>
     lex_lastToken l < length (lex_tokens l) \<and>
     (\<forall>i < length (lex_tokens l). token_Kind (lex_tokens l ! i) = KindSOF \<longleftrightarrow> i = 0) \<and>
     (\<forall>i < length (lex_tokens l). token_Kind (lex_tokens l ! i) = KindEOF \<longrightarrow> Suc i = length (lex_tokens l))"

definition lexer_at :: "lexer \<Rightarrow> kind" where
  "lexer_at l = token_Kind (lexer_Token l)"

definition saw_EOF :: "lexer \<Rightarrow> bool" where
  "saw_EOF l \<longleftrightarrow> token_Kind (last (lex_tokens l)) = KindEOF"

text \<open>
  What is left to read: the tokens in the store after the current one, the bytes not yet lexed and
  the end-of-file token.
\<close>

definition lex_measure :: "lexer \<Rightarrow> nat" where
  "lex_measure l = (length (lex_tokens l) - 1 - lex_token l) + (bodySize l - lex_bytePos l) +
     (if saw_EOF l then 0 else 1)"

text \<open>The store only grows: a token keeps everything but its \<open>Next\<close> link.\<close>

definition same_token :: "token \<Rightarrow> token \<Rightarrow> bool" where
  "same_token t u \<longleftrightarrow> u = t\<lparr>token_Next := token_Next u\<rparr>"

definition grown :: "lexer \<Rightarrow> lexer \<Rightarrow> bool" where
  "grown l l' \<longleftrightarrow> lex_source l' = lex_source l \<and> length (lex_tokens l) \<le> length (lex_tokens l') \<and>
     lex_bytePos l \<le> lex_bytePos l' \<and> lex_token l \<le> lex_token l' \<and>
     (\<forall>i < length (lex_tokens l). same_token (lex_tokens l ! i) (lex_tokens l' ! i))"

lemma same_token_refl [simp]: "same_token t t"
  by (simp add: same_token_def)

lemma same_token_trans: "same_token t u \<Longrightarrow> same_token u v \<Longrightarrow> same_token t v"
  unfolding same_token_def by (metis token.surjective token.update_convs(6))

lemma same_token_fields:
  assumes "same_token t u"
  shows "token_Kind u = token_Kind t" "token_Location u = token_Location t" "token_Length u = token_Length t"
    "token_Value u = token_Value t" "token_Prev u = token_Prev t"
proof -
  have u: "u = t\<lparr>token_Next := token_Next u\<rparr>" using assms by (simp add: same_token_def)
  show "token_Kind u = token_Kind t" "token_Location u = token_Location t" "token_Length u = token_Length t"
    "token_Value u = token_Value t" "token_Prev u = token_Prev t"
    by (subst u, simp)+
qed

lemma grown_refl [simp]: "grown l l"
  by (simp add: grown_def)

lemma grown_trans:
  assumes "grown l l1" "grown l1 l2"
  shows "grown l l2"
  using assms unfolding grown_def by (auto dest: less_le_trans intro: same_token_trans)

lemma grown_token:
  assumes "grown l l'" "i < length (lex_tokens l)"
  shows "token_Kind (lex_tokens l' ! i) = token_Kind (lex_tokens l ! i)"
    "token_Location (lex_tokens l' ! i) = token_Location (lex_tokens l ! i)"
    "token_Length (lex_tokens l' ! i) = token_Length (lex_tokens l ! i)"
    "token_Value (lex_tokens l' ! i) = token_Value (lex_tokens l ! i)"
    "i < length (lex_tokens l')"
  using assms same_token_fields unfolding grown_def by auto

lemma wf_lexer_New: "wf_lexer (New source)"
  by (simp add: wf_lexer_def New_def NewSOFToken_def token_chain_def)

lemma wf_lexer_saw_EOF:
  assumes "wf_lexer l"
  shows "lexer_at l = KindEOF \<longleftrightarrow> saw_EOF l \<and> Suc (lex_token l) = length (lex_tokens l)"
proof -
  have *: "lex_token l < length (lex_tokens l)"
      "\<And>i. i < length (lex_tokens l) \<Longrightarrow> token_Kind (lex_tokens l ! i) = KindEOF \<Longrightarrow> Suc i = length (lex_tokens l)"
    using assms by (auto simp: wf_lexer_def)
  show ?thesis
  proof
    assume k: "lexer_at l = KindEOF"
    then have "Suc (lex_token l) = length (lex_tokens l)" using * by (simp add: lexer_at_def lexer_Token_def)
    moreover have "last (lex_tokens l) = lex_tokens l ! lex_token l"
      using * calculation by (metis diff_Suc_1 last_conv_nth length_0_conv not_less_zero)
    ultimately show "saw_EOF l \<and> Suc (lex_token l) = length (lex_tokens l)"
      using k by (simp add: saw_EOF_def lexer_at_def lexer_Token_def)
  next
    assume k: "saw_EOF l \<and> Suc (lex_token l) = length (lex_tokens l)"
    then have "last (lex_tokens l) = lex_tokens l ! lex_token l"
      by (metis diff_Suc_1 last_conv_nth length_0_conv nat.distinct(1))
    then show "lexer_at l = KindEOF" using k by (simp add: saw_EOF_def lexer_at_def lexer_Token_def)
  qed
qed

section \<open>Linking a new token\<close>

definition next_token_ok :: "lexer \<Rightarrow> token \<Rightarrow> bool" where
  "next_token_ok l t \<longleftrightarrow> token_Prev t = Some (lex_token l) \<and> token_Next t = None \<and> token_Kind t \<noteq> KindSOF"

lemma append_fresh:
  assumes wf: "wf_lexer l" and last: "Suc (lex_token l) = length (lex_tokens l)" and k: "lexer_at l \<noteq> KindEOF"
    and t: "next_token_ok l t" and m: "moved l s l1"
    and app: "appendToken (lex_token l) t l1 = (q, l')"
  shows "wf_lexer l'" "grown l l'" "q = length (lex_tokens l)" "lex_token l' = lex_token l"
    "lex_lastToken l' = lex_lastToken l"
    "length (lex_tokens l') = Suc q" "lex_tokens l' ! q = t" "lex_bytePos l' = lex_bytePos l1"
    "bodySize l' = bodySize l" "map token_Kind (lex_tokens l') = map token_Kind (lex_tokens l) @ [token_Kind t]"
proof -
  let ?toks = "lex_tokens l" and ?p = "lex_token l"
  note f = moved_frame [OF m]
  let ?new = "?toks[?p := (?toks ! ?p)\<lparr>token_Next := Some (length ?toks)\<rparr>] @ [t]"
  have l': "q = length ?toks" "l' = l1\<lparr>lex_store := (lex_store l)\<lparr>store_tokens := ?new\<rparr>\<rparr>"
    using app f by (auto simp: appendToken_def Let_def)
  have nth_new: "?new ! i = (if i = ?p then (?toks ! ?p)\<lparr>token_Next := Some (length ?toks)\<rparr> else ?toks ! i)"
    if "i < length ?toks" for i
    using that by (simp add: nth_append)
  have kinds: "map token_Kind ?new = map token_Kind ?toks @ [token_Kind t]"
    by (rule nth_equalityI) (use last in \<open>auto simp: nth_append nth_list_update\<close>)
  have chain: "token_chain ?new"
    using wf last t by (intro token_chain_snoc) (auto simp: wf_lexer_def next_token_ok_def)
  have kind_new: "token_Kind (?new ! i) = token_Kind (?toks ! i)" if "i < length ?toks" for i
    by (subst nth_new [OF that]) simp
  have eof: "Suc i = length ?new" if "i < length ?new" "token_Kind (?new ! i) = KindEOF" for i
  proof (cases "i < length ?toks")
    case True
    then have "token_Kind (?toks ! i) = KindEOF" using that kind_new by simp
    then have "i = ?p" using True wf last by (auto simp: wf_lexer_def)
    then show ?thesis using k \<open>token_Kind (?toks ! i) = KindEOF\<close> by (simp add: lexer_at_def lexer_Token_def)
  next
    case False
    then show ?thesis using that by simp
  qed
  have sof: "token_Kind (?new ! i) = KindSOF \<longleftrightarrow> i = 0" if "i < length ?new" for i
  proof (cases "i < length ?toks")
    case True
    then show ?thesis using kind_new wf by (simp add: wf_lexer_def)
  next
    case False
    then have "i = length ?toks" "?new ! i = t" using that by (simp_all add: nth_append)
    then show ?thesis using t wf by (auto simp: next_token_ok_def wf_lexer_def)
  qed
  have "bodySize l1 = bodySize l" by (rule f(5))
  then show size: "bodySize l' = bodySize l" by (simp add: l' bodySize_def)
  moreover have "lex_tokens l' = ?new" "store_sof (lex_store l') = [(0, lex_source l')]"
      "lex_bytePos l' \<le> bodySize l" "lex_token l' < length (lex_tokens l')" "lex_lastToken l' < length (lex_tokens l')"
    using l' f wf by (simp_all add: wf_lexer_def)
  ultimately show "wf_lexer l'" unfolding wf_lexer_def using chain eof sof by metis
  show "grown l l'"
    using f nth_new by (simp add: grown_def l' same_token_def)
  show "q = length (lex_tokens l)" "lex_token l' = lex_token l" "lex_lastToken l' = lex_lastToken l"
    "length (lex_tokens l') = Suc q" "lex_bytePos l' = lex_bytePos l1"
    using l' f by simp_all
  show "lex_tokens l' ! q = t" using l' by (simp add: nth_append)
  show "map token_Kind (lex_tokens l') = map token_Kind (lex_tokens l) @ [token_Kind t]" using l' kinds by simp
qed


lemma append_measure:
  assumes wf: "wf_lexer l" and last: "Suc (lex_token l) = length (lex_tokens l)" and k: "lexer_at l \<noteq> KindEOF"
    and t: "next_token_ok l t" and m: "moved l s l1"
    and app: "appendToken (lex_token l) t l1 = (q, l')" and s: "token_Kind t \<noteq> KindEOF \<Longrightarrow> s \<noteq> []"
  shows "lex_measure l' \<le> lex_measure l"
proof -
  note a = append_fresh [OF wf last k t m app]
  note f = moved_frame [OF m]
  have "\<not> saw_EOF l" using wf_lexer_saw_EOF [OF wf] k last by simp
  moreover have "saw_EOF l' \<longleftrightarrow> token_Kind t = KindEOF"
    using a(10) by (metis (mono_tags, lifting) append_is_Nil_conv last_map last_snoc list.map_disc_iff not_Cons_self2 saw_EOF_def)
  ultimately show ?thesis
    using a(3,4,6,8,9) f(6,7) last s by (cases "token_Kind t = KindEOF"; cases s) (auto simp: lex_measure_def)
qed

lemma sof_first:
  assumes "wf_lexer l" "i < length (lex_tokens l)"
  shows "token_Kind (lex_tokens l ! i) = KindSOF \<longleftrightarrow> i = 0"
  using assms by (simp add: wf_lexer_def)

section \<open>Following a link\<close>

text \<open>
  One step of the walk, from the current token \<open>l\<close>: the next token exists or is lexed now. Either
  way it is the successor in the store, and what is left to read does not grow.
\<close>

definition link_post :: "lexer \<Rightarrow> token_ref \<Rightarrow> lexer \<Rightarrow> bool" where
  "link_post l q l' \<longleftrightarrow> wf_lexer l' \<and> grown l l' \<and> q = Suc (lex_token l) \<and> q < length (lex_tokens l') \<and>
     lex_token l' = lex_token l \<and> lex_lastToken l' = lex_lastToken l \<and>
     token_Kind (lex_tokens l' ! q) \<noteq> KindSOF \<and> lex_measure l' \<le> lex_measure l"

lemma lex_measure_moved:
  assumes "moved l s l'"
  shows "lex_measure l' = lex_measure l - length s" "length s \<le> lex_measure l"
  using moved_frame [OF assms] by (simp_all add: lex_measure_def saw_EOF_def)

lemma wf_lexer_moved: "wf_lexer l \<Longrightarrow> moved l s l' \<Longrightarrow> wf_lexer l' \<and> grown l l'"
  using moved_frame [of l s l'] by (simp add: wf_lexer_def grown_def)

lemma nextLink_post:
  assumes wf: "wf_lexer l" and k: "lexer_at l \<noteq> KindEOF"
  shows "(\<exists>q l'. nextLink (lex_token l) l = (Ok q, l') \<and> link_post l q l') \<or>
    (\<exists>e l'. nextLink (lex_token l) l = (Error e, l') \<and> wf_lexer l' \<and> grown l l' \<and> lex_measure l' \<le> lex_measure l)"
proof -
  let ?toks = "lex_tokens l" and ?p = "lex_token l"
  have chain: "token_chain ?toks" and p: "?p < length ?toks" and pos: "lex_bytePos l \<le> bodySize l"
    using wf by (auto simp: wf_lexer_def)
  note nx = token_chain_Next [OF chain p]
  show ?thesis
  proof (cases "Suc ?p = length ?toks")
    case False
    then have q: "nextLink ?p l = (Ok (Suc ?p), l)" "Suc ?p < length ?toks"
      using nx p by (auto simp: nextLink_def)
    have "token_Prev (?toks ! Suc ?p) = Some ?p" using token_chain_Prev [OF chain q(2)] by simp
    show ?thesis using q wf sof_first [OF wf q(2)] by (auto simp: link_post_def)
  next
    case True
    have post: "lex_post l (next_token_post l) (lexToken l)" by (rule lexToken_post [OF pos])
    have run: "nextLink ?p l =
        andThen lexToken (\<lambda>nextToken l. case appendToken ?p nextToken l of (q, l') \<Rightarrow> (Ok q, l')) l"
      using nx True by (simp add: nextLink_def)
    show ?thesis
    proof (cases "lexToken l")
      case (Pair r l1)
      show ?thesis
      proof (cases r)
        case (Ok t)
        then obtain s where m: "moved l s l1" and nt: "next_token_post l s t l1"
          using post Pair by (auto simp: lex_post_def)
        obtain q l' where app: "appendToken ?p t l1 = (q, l')" by fastforce
        have ok: "next_token_ok l t" and s: "token_Kind t \<noteq> KindEOF \<Longrightarrow> s \<noteq> []"
          using nt lexeme_nonempty by (auto simp: next_token_post_def next_token_ok_def lexeme_ok_def)
        note a = append_fresh [OF wf True k ok m app]
        have "lex_measure l' \<le> lex_measure l" by (rule append_measure [OF wf True k ok m app s])
        then have "link_post l q l'" using a True ok by (simp add: link_post_def next_token_ok_def)
        moreover have "nextLink ?p l = (Ok q, l')" using run Pair Ok app by (simp add: andThen_def)
        ultimately show ?thesis by blast
      next
        case (Error e)
        then obtain s where m: "moved l s l1" using post Pair by (auto simp: lex_post_def)
        moreover have "nextLink ?p l = (Error e, l1)" using run Pair Error by (simp add: andThen_def)
        ultimately show ?thesis using wf_lexer_moved [OF wf m] lex_measure_moved [OF m] by auto
      qed (use post Pair in \<open>auto simp: lex_post_def\<close>)
    qed
  qed
qed

section \<open>Lookahead and Advance\<close>

text \<open>
  \<open>Lookahead\<close> finds the first token after the current one that is not a comment; the comments
  between them become the current token on the way. At the end of the file it stays.
\<close>

definition lookahead_post :: "lexer \<Rightarrow> token_ref \<Rightarrow> lexer \<Rightarrow> bool" where
  "lookahead_post l q l' \<longleftrightarrow> wf_lexer l' \<and> grown l l' \<and> q = Suc (lex_token l') \<and> q < length (lex_tokens l') \<and>
     lex_lastToken l' = lex_lastToken l \<and> lex_measure l' \<le> lex_measure l \<and>
     token_Kind (lex_tokens l' ! q) \<notin> {KindComment, KindSOF} \<and>
     (\<forall>i. lex_token l < i \<longrightarrow> i < q \<longrightarrow> token_Kind (lex_tokens l' ! i) = KindComment)"

definition failed_post :: "lexer \<Rightarrow> lexer \<Rightarrow> bool" where
  "failed_post l l' \<longleftrightarrow> wf_lexer l' \<and> grown l l' \<and> lex_measure l' \<le> lex_measure l"

text \<open>Moving the current token one link further.\<close>

lemma step_link:
  assumes post: "link_post l q l'"
  defines "m \<equiv> l'\<lparr>lex_token := q\<rparr>"
  shows "wf_lexer m" "grown l m" "lex_measure m < lex_measure l" "lexer_at m = token_Kind (lex_tokens l' ! q)"
proof -
  show "wf_lexer m" using post by (simp add: link_post_def wf_lexer_def m_def bodySize_def)
  show "grown l m" using post by (simp add: link_post_def grown_def m_def)
  show "lex_measure m < lex_measure l"
    using post by (auto simp: link_post_def lex_measure_def m_def bodySize_def saw_EOF_def)
  show "lexer_at m = token_Kind (lex_tokens l' ! q)" by (simp add: lexer_at_def lexer_Token_def m_def)
qed

lemma Lookahead_loop_post:
  assumes "wf_lexer l" "lexer_at l \<noteq> KindEOF" "lex_measure l < fuel"
  shows "(\<exists>q l'. Lookahead_loop fuel (lex_token l) l = (Ok q, l') \<and> lookahead_post l q l') \<or>
    (\<exists>e l'. Lookahead_loop fuel (lex_token l) l = (Error e, l') \<and> failed_post l l')"
  using assms
proof (induction fuel arbitrary: l)
  case 0
  then show ?case by simp
next
  case (Suc fuel)
  from nextLink_post [OF Suc.prems(1,2)]
  consider (ok) q l1 where "nextLink (lex_token l) l = (Ok q, l1)" "link_post l q l1"
    | (error) e l1 where "nextLink (lex_token l) l = (Error e, l1)" "failed_post l l1"
    by (auto simp: failed_post_def)
  then show ?case
  proof cases
    case error
    then show ?thesis by (simp add: andThen_def)
  next
    case ok
    show ?thesis
    proof (cases "token_Kind (lex_tokens l1 ! q) = KindComment")
      case False
      then have "lookahead_post l q l1" using ok(2) by (auto simp: lookahead_post_def link_post_def)
      then show ?thesis using ok False by (simp add: andThen_def)
    next
      case True
      let ?m = "l1\<lparr>lex_token := q\<rparr>"
      note m = step_link [OF ok(2)]
      have run: "Lookahead_loop (Suc fuel) (lex_token l) l = Lookahead_loop fuel (lex_token ?m) ?m"
        using ok True by (simp add: andThen_def)
      have q: "q = Suc (lex_token l)" "q < length (lex_tokens ?m)" "lex_lastToken ?m = lex_lastToken l"
        using ok(2) by (simp_all add: link_post_def)
      have "lexer_at ?m \<noteq> KindEOF" "lex_measure ?m < fuel" using m True Suc.prems(3) by auto
      from Suc.IH [OF m(1) this]
      consider (ok') r l2 where "Lookahead_loop fuel (lex_token ?m) ?m = (Ok r, l2)" "lookahead_post ?m r l2"
        | (error') e l2 where "Lookahead_loop fuel (lex_token ?m) ?m = (Error e, l2)" "failed_post ?m l2" by blast
      then show ?thesis
      proof cases
        case ok'
        have "token_Kind (lex_tokens l2 ! i) = KindComment" if "lex_token l < i" "i < r" for i
        proof (cases "i = q")
          case True
          have "token_Kind (lex_tokens l2 ! q) = token_Kind (lex_tokens ?m ! q)"
            using ok'(2) q(2) grown_token(1) [of ?m l2 q] by (simp add: lookahead_post_def)
          then show ?thesis using True \<open>token_Kind (lex_tokens l1 ! q) = KindComment\<close> by simp
        next
          case False
          then show ?thesis using ok'(2) that q(1) by (auto simp: lookahead_post_def)
        qed
        then have "lookahead_post l r l2"
          using ok'(2) m grown_trans [OF m(2)] q(3) by (auto simp: lookahead_post_def)
        then show ?thesis using run ok'(1) by metis
      next
        case error'
        then have "failed_post l l2" using m grown_trans [OF m(2)] by (auto simp: failed_post_def)
        then show ?thesis using run error'(1) by metis
      qed
    qed
  qed
qed

lemma lex_measure_bound: "wf_lexer l \<Longrightarrow> lex_measure l < length (lex_tokens l) + (bodySize l - lex_bytePos l) + 1"
  by (auto simp: lex_measure_def wf_lexer_def)

lemma Lookahead_post:
  assumes wf: "wf_lexer l" and k: "lexer_at l \<noteq> KindEOF"
  shows "(\<exists>q l'. Lookahead l = (Ok q, l') \<and> lookahead_post l q l') \<or>
    (\<exists>e l'. Lookahead l = (Error e, l') \<and> failed_post l l')"
  using Lookahead_loop_post [OF wf k lex_measure_bound [OF wf]] k
  by (simp add: Lookahead_def Let_def lexer_at_def lexer_Token_def)

definition advance_post :: "lexer \<Rightarrow> token_ref \<Rightarrow> lexer \<Rightarrow> bool" where
  "advance_post l q l' \<longleftrightarrow> grown l l' \<and> q = lex_token l' \<and> lexer_at l' \<notin> {KindComment, KindSOF} \<and>
     (\<forall>i. lex_token l < i \<longrightarrow> i < q \<longrightarrow> token_Kind (lex_tokens l' ! i) = KindComment) \<and>
     lex_lastToken l' = q - 1 \<and> lex_token l < q \<and> lex_measure l' < lex_measure l"

lemma Advance_post:
  assumes wf: "wf_lexer l" and k: "lexer_at l \<noteq> KindEOF"
  shows "(\<exists>q l'. Advance l = (Ok q, l') \<and> wf_lexer l' \<and> advance_post l q l') \<or>
    (\<exists>e l'. Advance l = (Error e, l') \<and> failed_post l l')"
proof -
  from Lookahead_post [OF wf k]
  consider (ok) q l1 where "Lookahead l = (Ok q, l1)" "lookahead_post l q l1"
    | (error) e l1 where "Lookahead l = (Error e, l1)" "failed_post l l1" by blast
  then show ?thesis
  proof cases
    case ok
    let ?l' = "l1\<lparr>lex_lastToken := lex_token l1, lex_token := q\<rparr>"
    have "Advance l = (Ok q, ?l')" using ok(1) by (simp add: Advance_def andThen_def)
    moreover have "wf_lexer ?l'" using ok(2) by (simp add: lookahead_post_def wf_lexer_def bodySize_def)
    moreover have "grown l ?l'" "lex_token l < q" "lex_measure ?l' < lex_measure l"
      using ok(2) by (auto simp: lookahead_post_def grown_def lex_measure_def bodySize_def saw_EOF_def)
    moreover have "advance_post l q ?l'" using ok(2) calculation(3-5)
      by (auto simp: lookahead_post_def advance_post_def lexer_at_def lexer_Token_def)
    ultimately show ?thesis by blast
  next
    case error
    then show ?thesis by (simp add: Advance_def andThen_def)
  qed
qed

lemma Lookahead_EOF: "lexer_at l = KindEOF \<Longrightarrow> Lookahead l = (Ok (lex_token l), l)"
  by (simp add: Lookahead_def lexer_at_def lexer_Token_def Let_def)

lemma Advance_EOF: "lexer_at l = KindEOF \<Longrightarrow> Advance l = (Ok (lex_token l), l\<lparr>lex_lastToken := lex_token l\<rparr>)"
  by (simp add: Advance_def andThen_def Lookahead_EOF)

section \<open>The tokens are the source\<close>

text \<open>
  \<open>tokenised body ts p\<close>: the first \<open>p\<close> bytes of the source are the lexemes of \<open>ts\<close>, in order, each
  at the location and with the length its token has, and with only ignored text between them.
\<close>

inductive tokenised :: "source_body \<Rightarrow> token list \<Rightarrow> nat \<Rightarrow> bool" for body where
  tokenised_Nil: "tokenised body [] 0"
| tokenised_snoc: "tokenised body ts p \<Longrightarrow> drop p body = ws @ lexeme @ r \<Longrightarrow> ignored_text p ws \<Longrightarrow>
    token_Location t = p + length ws + 1 \<Longrightarrow> token_Length t = length lexeme \<Longrightarrow>
    lexeme_ok (token_Kind t) lexeme (token_Value t) r \<Longrightarrow>
    tokenised body (ts @ [t]) (p + length ws + length lexeme)"

inductive_cases tokenised_snocE: "tokenised body (ts @ [t]) p"
inductive_cases tokenised_NilE [elim!]: "tokenised body [] p"

lemma tokenised_same:
  assumes "tokenised body ts p" "list_all2 same_token ts us"
  shows "tokenised body us p"
  using assms
proof (induction arbitrary: us rule: tokenised.induct)
  case tokenised_Nil
  then show ?case by (simp add: tokenised.tokenised_Nil)
next
  case (tokenised_snoc ts p ws lexeme r t)
  then obtain vs u where us: "us = vs @ [u]" "list_all2 same_token ts vs" "same_token t u"
    by (auto simp: list_all2_append1 list_all2_Cons1)
  show ?case unfolding us(1)
    using tokenised_snoc same_token_fields [OF us(3)] us(2) by (intro tokenised.tokenised_snoc) auto
qed

lemma tokenised_bound: "tokenised body ts p \<Longrightarrow> p \<le> length body"
proof (induction rule: tokenised.induct)
  case (tokenised_snoc ts p ws lexeme r t)
  then have "length body - p = length ws + length lexeme + length r" by (metis length_drop length_append add.assoc)
  then show ?case using tokenised_snoc by linarith
qed simp

lemma tokenised_EOF:
  assumes "tokenised body ts p" "ts \<noteq> []" "token_Kind (last ts) = KindEOF"
  shows "p = length body"
  using assms
proof cases
  case (tokenised_snoc ts' p' ws lexeme r t)
  then have "lexeme = []" "r = []" using assms by (auto simp: lexeme_ok_def)
  then have "length body - p' = length ws" using tokenised_snoc by (metis append.right_neutral length_drop)
  then show ?thesis using tokenised_snoc tokenised_bound [OF tokenised_snoc(3)] \<open>lexeme = []\<close> by simp
qed simp

definition covered :: "lexer \<Rightarrow> bool" where
  "covered l \<longleftrightarrow> tokenised (lex_body l) (tl (lex_tokens l)) (lex_bytePos l)"

lemma covered_New: "covered (New source)"
  by (simp add: covered_def New_def NewSOFToken_def tokenised_Nil)

lemma appendToken_covered:
  assumes "covered l" "lex_tokens l \<noteq> []" "moved l s l1" "next_token_post l s t l1"
    and "appendToken p t l1 = (q, l')"
  shows "covered l'"
proof -
  note f = moved_frame [OF assms(3)]
  obtain ws lexeme where t: "s = ws @ lexeme" "ignored_text (lex_bytePos l) ws"
    "token_Location t = lex_bytePos l + length ws + 1" "token_Length t = length lexeme"
    "lexeme_ok (token_Kind t) lexeme (token_Value t) (rest l1)"
    using assms(4) by (auto simp: next_token_post_def)
  let ?us = "(lex_tokens l)[p := (lex_tokens l ! p)\<lparr>token_Next := Some (length (lex_tokens l))\<rparr>]"
  have l': "lex_tokens l' = ?us @ [t]" "lex_bytePos l' = lex_bytePos l1" "lex_source l' = lex_source l"
    using assms(5) f by (auto simp: appendToken_def Let_def)
  have "same_token (lex_tokens l ! i) (?us ! i)" if "i < length (lex_tokens l)" for i
    using that by (cases "i = p") (auto simp: same_token_def)
  then have "list_all2 same_token (lex_tokens l) ?us" by (simp add: list_all2_conv_all_nth)
  then have "list_all2 same_token (tl (lex_tokens l)) (tl ?us)" by (cases "lex_tokens l"; cases ?us) auto
  then have "tokenised (lex_body l) (tl ?us) (lex_bytePos l)"
    using assms(1) by (auto simp: covered_def intro: tokenised_same)
  then have "tokenised (lex_body l) (tl ?us @ [t]) (lex_bytePos l + length ws + length lexeme)"
    using t f by (intro tokenised_snoc [where r = "rest l1"]) (auto simp: rest_def)
  then show ?thesis using l' f t assms(2) by (simp add: covered_def tl_append2 add.assoc)
qed

lemma nextLink_covered:
  assumes "wf_lexer l" "covered l" "nextLink p l = (Ok q, l')"
  shows "covered l'"
proof -
  have pos: "lex_bytePos l \<le> bodySize l" and ne: "lex_tokens l \<noteq> []" using assms(1) by (auto simp: wf_lexer_def)
  show ?thesis
  proof (cases "token_Next (lex_tokens l ! p)")
    case None
    then obtain t l1 where t: "lexToken l = (Ok t, l1)" "appendToken p t l1 = (q, l')"
      using assms(3) by (auto simp: nextLink_def elim!: andThen_OkE split: prod.splits)
    then show ?thesis using lexToken_post [OF pos] assms(2) ne
      by (auto simp: lex_post_def intro: appendToken_covered)
  qed (use assms in \<open>auto simp: nextLink_def\<close>)
qed

lemma Lookahead_loop_covered:
  "wf_lexer l \<Longrightarrow> lexer_at l \<noteq> KindEOF \<Longrightarrow> covered l \<Longrightarrow> Lookahead_loop fuel (lex_token l) l = (Ok q, l') \<Longrightarrow> covered l'"
proof (induction fuel arbitrary: l)
  case 0
  then show ?case by simp
next
  case (Suc fuel)
  then obtain r l1 where link: "nextLink (lex_token l) l = (Ok r, l1)"
      "(if token_Kind (lex_tokens l1 ! r) \<noteq> KindComment then (Ok r, l1)
        else Lookahead_loop fuel r (l1\<lparr>lex_token := r\<rparr>)) = (Ok q, l')"
    by (auto elim!: andThen_OkE)
  have cov: "covered l1" by (rule nextLink_covered [OF Suc.prems(1,3) link(1)])
  have post: "link_post l r l1" using nextLink_post [OF Suc.prems(1,2)] link(1) by auto
  show ?case
  proof (cases "token_Kind (lex_tokens l1 ! r) = KindComment")
    case True
    let ?m = "l1\<lparr>lex_token := r\<rparr>"
    have "wf_lexer ?m" "lexer_at ?m \<noteq> KindEOF" "covered ?m"
      using step_link [OF post] True cov by (simp_all add: covered_def)
    then show ?thesis using link(2) True by (intro Suc.IH [of ?m]) simp_all
  next
    case False
    then show ?thesis using link(2) cov by simp
  qed
qed

lemma Lookahead_covered:
  assumes "wf_lexer l" "covered l" "Lookahead l = (Ok q, l')"
  shows "covered l'"
proof (cases "lexer_at l = KindEOF")
  case True
  then show ?thesis using assms by (simp add: Lookahead_EOF)
next
  case False
  then show ?thesis
    using assms Lookahead_loop_covered [OF assms(1) False assms(2)]
    by (auto simp: Lookahead_def Let_def lexer_at_def lexer_Token_def simp del: Lookahead_loop.simps)
qed

lemma Advance_covered:
  assumes "wf_lexer l" "covered l" "Advance l = (Ok q, l')"
  shows "covered l'"
proof -
  obtain l1 where "Lookahead l = (Ok q, l1)" "l' = l1\<lparr>lex_lastToken := lex_token l1, lex_token := q\<rparr>"
    using assms(3) by (auto simp: Advance_def elim!: andThen_OkE)
  then show ?thesis using Lookahead_covered [OF assms(1,2)] by (simp add: covered_def)
qed

section \<open>Reachable lexers\<close>

text \<open>The lexers a client reaches: a new one, and the ones after calls that return a token.\<close>

inductive reachable :: "source \<Rightarrow> lexer \<Rightarrow> bool" for source where
  reachable_New: "reachable source (New source)"
| reachable_Advance: "reachable source l \<Longrightarrow> Advance l = (Ok q, l') \<Longrightarrow> reachable source l'"
| reachable_Lookahead: "reachable source l \<Longrightarrow> Lookahead l = (Ok q, l') \<Longrightarrow> reachable source l'"

lemma wf_lexer_Advance: "wf_lexer l \<Longrightarrow> Advance l = (Ok q, l') \<Longrightarrow> wf_lexer l' \<and> grown l l'"
  using Advance_post [of l] Advance_EOF [of l]
  by (cases "lexer_at l = KindEOF") (auto simp: advance_post_def wf_lexer_def grown_def bodySize_def)

lemma wf_lexer_Lookahead: "wf_lexer l \<Longrightarrow> Lookahead l = (Ok q, l') \<Longrightarrow> wf_lexer l' \<and> grown l l'"
  using Lookahead_post [of l] Lookahead_EOF [of l]
  by (cases "lexer_at l = KindEOF") (auto simp: lookahead_post_def)

lemma reachable_invariant:
  "reachable source l \<Longrightarrow> wf_lexer l \<and> covered l \<and> lex_source l = source"
proof (induction rule: reachable.induct)
  case reachable_New
  then show ?case by (simp add: wf_lexer_New covered_New) (simp add: New_def NewSOFToken_def)
next
  case (reachable_Advance l q l')
  then show ?case using wf_lexer_Advance [of l q l'] Advance_covered [of l q l'] by (auto simp: grown_def)
next
  case (reachable_Lookahead l q l')
  then show ?case using wf_lexer_Lookahead [of l q l'] Lookahead_covered [of l q l'] by (auto simp: grown_def)
qed

lemma reachable_wf: "reachable source l \<Longrightarrow> wf_lexer l"
  using reachable_invariant by blast

text \<open>A source and a lexer that has read its first token, for the examples below.\<close>

definition sample_source :: source where
  "sample_source = \<lparr>source_body = ''{a #x'' @ [LF] @ ''}'', source_name = ''GraphQL'',
     source_lineOffset = 0, source_columnOffset = 0\<rparr>"

lemma sample_Advance: "Advance (New sample_source) = (Ok 1, snd (Advance (New sample_source)))"
  by code_simp

lemma sample_reachable: "reachable sample_source (snd (Advance (New sample_source)))"
  by (rule reachable_Advance [OF reachable_New sample_Advance])

section \<open>Properties\<close>

text \<open>
  C3: lexing loses nothing. In every state a client of the lexer reaches, the tokens read so far are the lexemes of
  the source up to the lexer's position: each has the location, length and value of its lexeme, and
  between them is only ignored text (white space, commas, a byte order mark at the start). At the end-of-file
  token the whole source has been read.
\<close>

theorem lexer_lossless:
  assumes "reachable source l"
  shows "tokenised (source_body source) (tl (lex_tokens l)) (lex_bytePos l) \<and>
    (lexer_at l = KindEOF \<longrightarrow> lex_bytePos l = length (source_body source))"
proof
  note inv = reachable_invariant [OF assms]
  then show tok: "tokenised (source_body source) (tl (lex_tokens l)) (lex_bytePos l)" by (auto simp: covered_def)
  show "lexer_at l = KindEOF \<longrightarrow> lex_bytePos l = length (source_body source)"
  proof
    assume "lexer_at l = KindEOF"
    then have e: "saw_EOF l" "lex_tokens l \<noteq> []" using inv wf_lexer_saw_EOF [of l] by (auto simp: wf_lexer_def)
    then have "tl (lex_tokens l) \<noteq> []"
      using sof_first [of l 0] inv by (cases "lex_tokens l") (auto simp: saw_EOF_def)
    then show "lex_bytePos l = length (source_body source)"
      using tokenised_EOF [OF tok] e by (simp add: saw_EOF_def last_tl)
  qed
qed

theorem lexer_lossless_witness:
  "tokenised (source_body sample_source) (tl (lex_tokens (snd (Advance (New sample_source)))))
     (lex_bytePos (snd (Advance (New sample_source))))"
  using lexer_lossless [OF sample_reachable] by blast

text \<open>
  C4: the token store of a reachable lexer is one doubly linked list in address order, it begins with the only
  start-of-file token, an end-of-file token is its last element, and every token leads \<open>Source\<close> back to the
  source the lexer was made for.
\<close>

theorem lexer_store_invariant:
  assumes "reachable source l" and "p < length (lex_tokens l)"
  shows "token_chain (lex_tokens l) \<and> (token_Kind (lex_tokens l ! p) = KindSOF \<longleftrightarrow> p = 0) \<and>
    (token_Kind (lex_tokens l ! p) = KindEOF \<longrightarrow> Suc p = length (lex_tokens l)) \<and>
    token_Source (lex_store l) p = Some source"
proof -
  have wf: "wf_lexer l" and src: "lex_source l = source" using reachable_invariant [OF assms(1)] by auto
  then show ?thesis
    using assms(2) token_first_chain [of "lex_tokens l" p] by (auto simp: wf_lexer_def token_Source_def)
qed

theorem lexer_store_invariant_witness:
  "token_Source (lex_store (snd (Advance (New sample_source)))) 1 = Some sample_source"
proof -
  have "1 < length (lex_tokens (snd (Advance (New sample_source))))" by code_simp
  then show ?thesis using lexer_store_invariant [OF sample_reachable] by blast
qed

text \<open>
  C5: \<open>Advance\<close> returns. From a reachable state it neither panics nor loops: it gives a token or a syntax
  error. Before the end of the file the token is the first one after the current token that is not a comment,
  it becomes the current token, and what is left to read gets strictly smaller; at the end of
  the file the end-of-file token is returned again.
\<close>

theorem Advance_returns:
  assumes "reachable source l"
  shows "(\<exists>e l'. Advance l = (Error e, l')) \<or>
    (\<exists>q l'. Advance l = (Ok q, l') \<and> lex_token l' = q \<and>
      (if lexer_at l = KindEOF then q = lex_token l \<and> lex_store l' = lex_store l
       else lex_token l < q \<and> token_Kind (lex_tokens l' ! q) \<notin> {KindComment, KindSOF} \<and>
         (\<forall>i. lex_token l < i \<longrightarrow> i < q \<longrightarrow> token_Kind (lex_tokens l' ! i) = KindComment) \<and>
         lex_measure l' < lex_measure l))"
proof (cases "lexer_at l = KindEOF")
  case True
  then show ?thesis using Advance_EOF [OF True] by simp
next
  case False
  then show ?thesis
    using Advance_post [OF reachable_wf [OF assms] False]
    by (fastforce simp: advance_post_def lexer_at_def lexer_Token_def)
qed

theorem Advance_returns_witness:
  "(\<exists>e l'. Advance (New sample_source) = (Error e, l')) \<or>
   (\<exists>q l'. Advance (New sample_source) = (Ok q, l') \<and> lex_token l' = q)"
  using Advance_returns [OF reachable_New [of sample_source]] by blast

text \<open>Calling \<open>Advance\<close> a number of times.\<close>

fun advances :: "nat \<Rightarrow> unit lex" where
  "advances 0 = ret ()"
| "advances (Suc n) = andThen Advance (\<lambda>_. advances n)"

lemma advances_EOF: "wf_lexer l \<Longrightarrow> lexer_at l = KindEOF \<Longrightarrow> \<exists>l'. advances n l = (Ok (), l') \<and> lexer_at l' = KindEOF"
proof (induction n arbitrary: l)
  case (Suc n)
  let ?l = "l\<lparr>lex_lastToken := lex_token l\<rparr>"
  have "wf_lexer ?l" "lexer_at ?l = KindEOF"
    using Suc.prems by (simp_all add: wf_lexer_def bodySize_def lexer_at_def lexer_Token_def)
  then show ?case using Suc.IH [of ?l] Suc.prems by (simp add: andThen_def Advance_EOF)
qed simp

lemma advances_reaches:
  "wf_lexer l \<Longrightarrow> lex_measure l \<le> n \<Longrightarrow>
   (\<exists>l'. advances n l = (Ok (), l') \<and> lexer_at l' = KindEOF) \<or> (\<exists>e l'. advances n l = (Error e, l'))"
proof (induction n arbitrary: l)
  case 0
  then have "saw_EOF l" "Suc (lex_token l) = length (lex_tokens l)"
    by (auto simp: lex_measure_def wf_lexer_def split: if_splits)
  then show ?case using 0 wf_lexer_saw_EOF by simp
next
  case (Suc n)
  show ?case
  proof (cases "lexer_at l = KindEOF")
    case True
    then show ?thesis using advances_EOF [OF Suc.prems(1)] by blast
  next
    case False
    from Advance_post [OF Suc.prems(1) False]
    consider (ok) q l1 where "Advance l = (Ok q, l1)" "wf_lexer l1" "advance_post l q l1"
      | (error) e l1 where "Advance l = (Error e, l1)" by blast
    then show ?thesis
    proof cases
      case ok
      then have "lex_measure l1 \<le> n" using Suc.prems(2) by (simp add: advance_post_def)
      then show ?thesis using Suc.IH [OF ok(2)] ok(1) by (simp add: andThen_def)
    qed (simp add: andThen_def)
  qed
qed

text \<open>
  C6: lexing a source ends. After at most one call of \<open>Advance\<close> for every byte of the source and one more, the
  lexer has returned a syntax error or stands at the end-of-file token.
\<close>

theorem lexing_ends:
  "(\<exists>l'. advances (length (source_body source) + 1) (New source) = (Ok (), l') \<and> lexer_at l' = KindEOF) \<or>
   (\<exists>e l'. advances (length (source_body source) + 1) (New source) = (Error e, l'))"
proof (rule advances_reaches [OF wf_lexer_New])
  show "lex_measure (New source) \<le> length (source_body source) + 1"
    by (simp add: lex_measure_def New_def NewSOFToken_def bodySize_def Size_def)
qed

end
