(* ===== verification/ParserSpec.thy ===== *)
theory ParserSpec
  imports Parser LexerStream
begin

text \<open>
  What the parser returns is what the source says. A node stands for a sequence of grammar symbols
  (\<open>value_syms\<close>, \<open>selection_syms\<close>, ...). Every parsing function of \<open>Parser\<close> returns (its fuel is enough, it does
  not panic), and the tokens it moved over, without comments, are exactly the symbols of the node
  it returns; the node satisfies the side conditions of the grammar.
\<close>

section \<open>Symbols\<close>

text \<open>
  A symbol: a token of a kind that carries no value, a keyword, the token of a name in or not in a list of
  words, or the token of a literal of one of some kinds.
\<close>

datatype sym =
    Punct kind
  | Keyword string
  | OneOf "string list" token_ref
  | NoneOf "string list" token_ref
  | Literal "kind list" token_ref

fun sym_matches :: "token list \<Rightarrow> token_ref \<Rightarrow> sym \<Rightarrow> bool" where
  "sym_matches toks p (Punct kind) \<longleftrightarrow> token_Kind (toks ! p) = kind"
| "sym_matches toks p (Keyword w) \<longleftrightarrow> token_Kind (toks ! p) = KindName \<and> token_Value (toks ! p) = w"
| "sym_matches toks p (OneOf ws q) \<longleftrightarrow> p = q \<and> token_Kind (toks ! p) = KindName \<and> token_Value (toks ! p) \<in> set ws"
| "sym_matches toks p (NoneOf ws q) \<longleftrightarrow> p = q \<and> token_Kind (toks ! p) = KindName \<and> token_Value (toks ! p) \<notin> set ws"
| "sym_matches toks p (Literal kinds q) \<longleftrightarrow> p = q \<and> token_Kind (toks ! p) \<in> set kinds"

text \<open>The tokens between two addresses that are no comments.\<close>

definition significant :: "token list \<Rightarrow> nat \<Rightarrow> nat \<Rightarrow> token_ref list" where
  "significant toks i j = filter (\<lambda>p. token_Kind (toks ! p) \<noteq> KindComment) [i..<j]"

text \<open>The lexer moved from \<open>l\<close> to \<open>l'\<close> over tokens that match the symbols.\<close>

definition reads :: "lexer \<Rightarrow> sym list \<Rightarrow> lexer \<Rightarrow> bool" where
  "reads l ss l' \<longleftrightarrow> list_all2 (sym_matches (lex_tokens l')) (significant (lex_tokens l') (lex_token l) (lex_token l')) ss"

section \<open>The lexer as a reader\<close>

definition parse_inv :: "lexer \<Rightarrow> bool" where
  "parse_inv l \<longleftrightarrow> reachable (lex_source l) l \<and> lexer_at l \<noteq> KindComment"

lemma parse_inv_wf: "parse_inv l \<Longrightarrow> wf_lexer l"
  by (auto simp: parse_inv_def intro: reachable_wf)

definition later :: "lexer \<Rightarrow> lexer \<Rightarrow> bool" where
  "later l l' \<longleftrightarrow> grown l l' \<and> lex_measure l' \<le> lex_measure l"

lemma sym_matches_grown:
  assumes "grown l l'" "p < length (lex_tokens l)"
  shows "sym_matches (lex_tokens l') p s \<longleftrightarrow> sym_matches (lex_tokens l) p s"
  using grown_token [OF assms] by (cases s) auto

lemma significant_grown:
  assumes "grown l l'" "j \<le> length (lex_tokens l)"
  shows "significant (lex_tokens l') i j = significant (lex_tokens l) i j"
  unfolding significant_def by (rule filter_cong) (use assms grown_token [OF assms(1)] in auto)

lemma significant_append: "i \<le> j \<Longrightarrow> j \<le> k \<Longrightarrow> significant toks i k = significant toks i j @ significant toks j k"
  unfolding significant_def by (metis filter_append le_add_diff_inverse upt_add_eq_append)

lemma reads_trans_grown:
  assumes "wf_lexer m" "grown l m" "grown m u" "reads l xs m" "reads m ys u"
  shows "reads l (xs @ ys) u"
proof -
  have le: "lex_token l \<le> lex_token m" "lex_token m \<le> lex_token u" "lex_token m \<le> length (lex_tokens m)"
    using assms(1-3) by (auto simp: grown_def wf_lexer_def)
  have mem: "p < length (lex_tokens m)" if "p \<in> set (significant (lex_tokens m) (lex_token l) (lex_token m))" for p
    using that le by (auto simp: significant_def)
  have "list_all2 (sym_matches (lex_tokens u)) (significant (lex_tokens m) (lex_token l) (lex_token m)) xs"
    using assms(4) unfolding reads_def
    by (rule list.rel_mono_strong) (simp add: sym_matches_grown [OF assms(3)] mem)
  then show ?thesis
    using assms(5) unfolding reads_def significant_append [OF le(1,2)] significant_grown [OF assms(3) le(3)]
    by (rule list_all2_appendI)
qed

interpretation lp: reader parse_inv later lex_measure reads
proof
  fix s t u :: lexer
  show "later s s" by (simp add: later_def)
  show "later s t \<Longrightarrow> later t u \<Longrightarrow> later s u" by (auto simp: later_def intro: grown_trans)
  show "later s t \<Longrightarrow> lex_measure t \<le> lex_measure s" by (simp add: later_def)
  show "reads s [] s" by (simp add: reads_def significant_def)
  show "parse_inv t \<Longrightarrow> later s t \<Longrightarrow> later t u \<Longrightarrow> reads s xs t \<Longrightarrow> reads t ys u \<Longrightarrow> reads s (xs @ ys) u" for xs ys
    by (auto simp: later_def intro: reads_trans_grown parse_inv_wf)
qed

section \<open>Reading one token\<close>

lemma reaches_Advance:
  assumes inv: "parse_inv l" and k: "lexer_at l \<noteq> KindEOF" and s: "sym_matches (lex_tokens l) (lex_token l) s"
  shows "lp.reaches l (Advance l) (\<lambda>_ t. lex_measure t < lex_measure l \<and> reads l [s] t)"
proof -
  have wf: "wf_lexer l" and p: "lex_token l < length (lex_tokens l)" using parse_inv_wf [OF inv] by (auto simp: wf_lexer_def)
  from Advance_post [OF wf k]
  consider (ok) q t where "Advance l = (Ok q, t)" "wf_lexer t" "advance_post l q t"
    | (error) e t where "Advance l = (Error e, t)" by blast
  then show ?thesis
  proof cases
    case ok
    then have g: "grown l t" and q: "lex_token l < lex_token t" by (auto simp: advance_post_def)
    have "significant (lex_tokens t) (lex_token l) (lex_token t) = [lex_token l]"
    proof -
      have "[lex_token l..<lex_token t] = lex_token l # [Suc (lex_token l)..<lex_token t]" using q by (simp add: upt_conv_Cons)
      moreover have "filter (\<lambda>p. token_Kind (lex_tokens t ! p) \<noteq> KindComment) [Suc (lex_token l)..<lex_token t] = []"
        using ok(3) by (auto simp: advance_post_def filter_empty_conv)
      moreover have "token_Kind (lex_tokens t ! lex_token l) \<noteq> KindComment"
        using grown_token(1) [OF g p] inv by (simp add: parse_inv_def lexer_at_def lexer_Token_def)
      ultimately show ?thesis by (simp add: significant_def)
    qed
    then have "reads l [s] t" using s sym_matches_grown [OF g p] by (simp add: reads_def)
    moreover have "parse_inv t"
      using inv ok(3) g reachable_Advance [of "lex_source l" l q t] ok(1)
      by (auto simp: parse_inv_def advance_post_def grown_def)
    ultimately show ?thesis using ok by (auto simp: later_def advance_post_def intro!: lp.reaches_Ok)
  qed simp
qed

lemma lexer_Token_at: "token_Kind (lexer_Token l) = lexer_at l"
  by (simp add: lexer_at_def)

lemma parses_expect:
  assumes "k \<noteq> KindEOF" and "\<And>l. sym_matches (lex_tokens l) (lex_token l) (Punct k) \<Longrightarrow> sym_matches (lex_tokens l) (lex_token l) (s (lex_token l))"
  shows "lp.parses True n (expect k) (\<lambda>p xs. xs = [s p])"
proof (rule lp.parsesI)
  fix l assume inv: "parse_inv l"
  show "lp.reaches l (expect k l) (\<lambda>p t. (True \<longrightarrow> lex_measure t < lex_measure l) \<and> (\<exists>xs. reads l xs t \<and> xs = [s p]))"
  proof (cases "lexer_at l = k")
    case True
    then have "sym_matches (lex_tokens l) (lex_token l) (s (lex_token l))" using assms(2) [of l] by (simp add: lexer_at_def lexer_Token_def)
    then have "lp.reaches l (Advance l) (\<lambda>_ t. lex_measure t < lex_measure l \<and> reads l [s (lex_token l)] t)"
      using reaches_Advance [OF inv] True assms(1) by simp
    then show ?thesis using True
      by (auto simp: expect_def lexer_Token_at Let_def intro!: lp.reaches_andThen lp.reaches_ret)
  qed (simp add: expect_def lexer_Token_at Let_def raise_def)
qed

lemma parses_skip:
  assumes "k \<noteq> KindEOF"
  shows "lp.parses False n (skip k) (\<lambda>b xs. xs = (if b then [Punct k] else []))"
proof (rule lp.parsesI)
  fix l assume inv: "parse_inv l"
  show "lp.reaches l (skip k l) (\<lambda>b t. (False \<longrightarrow> lex_measure t < lex_measure l) \<and>
      (\<exists>xs. reads l xs t \<and> xs = (if b then [Punct k] else [])))"
  proof (cases "lexer_at l = k")
    case True
    have "lp.reaches l (Advance l) (\<lambda>_ t. lex_measure t < lex_measure l \<and> reads l [Punct k] t)"
      using reaches_Advance [OF inv, of "Punct k"] True assms by (simp add: lexer_at_def lexer_Token_def)
    then show ?thesis using True
      by (auto simp: skip_def lexer_Token_at intro!: lp.reaches_andThen lp.reaches_ret)
  next
    case False
    then show ?thesis using inv lp.reads_refl by (auto simp: skip_def lexer_Token_at intro!: lp.reaches_ret)
  qed
qed

text \<open>
  The symbols a list of nodes has read, when each node determines its symbols and satisfies a condition.
\<close>

lemma reads_all_fun:
  "lp.reads_all (\<lambda>a xs. xs = f a \<and> P a) as xs \<longleftrightarrow> xs = concat (map f as) \<and> list_all P as"
proof -
  have "list_all2 (\<lambda>a xs. xs = f a \<and> P a) as xss \<longleftrightarrow> xss = map f as \<and> list_all P as" for xss
    by (induction as arbitrary: xss) (auto simp: list_all2_Cons1)
  then show ?thesis by (auto simp: lp.reads_all_def)
qed

lemma parses_name: "lp.parses True n parseName (\<lambda>name xs. xs = [NoneOf [] (name_Token name)])"
proof -
  have "lp.parses True (Suc n) parseName (\<lambda>name xs. xs = [NoneOf [] (name_Token name)])" unfolding parseName_def
    by (rule lp.parses_andThen [OF parses_expect [where s = "NoneOf []"]]) (auto intro: lp.parses_ret)
  then show ?thesis by (rule lp.parses_mono) auto
qed

lemma parses_punct: "k \<noteq> KindEOF \<Longrightarrow> lp.parses True n (expect k) (\<lambda>p xs. xs = [Punct k])"
  by (rule parses_expect [where s = "\<lambda>_. Punct k"])

lemma parses_peekIs: "lp.parses False n (get (\<lambda>l. \<not> peekIs k l)) (\<lambda>b xs. xs = [])"
  by (auto simp: lp.parses_def intro!: lp.reaches_ret lp.reads_refl)

text \<open>Continuing after \<open>skip\<close>: something has been read if it returns true.\<close>

lemma parses_skip_branch:
  assumes k: "k \<noteq> KindEOF" and yes: "lp.parses False n (f True) (\<lambda>a ys. Q a (Punct k # ys))"
    and no: "lp.parses b (Suc n) (f False) Q"
  shows "lp.parses b (Suc n) (andThen (skip k) f) Q"
proof (rule lp.parsesI)
  fix l assume inv: "parse_inv l" and n: "lex_measure l < Suc n"
  let ?Q = "\<lambda>a t. (b \<longrightarrow> lex_measure t < lex_measure l) \<and> (\<exists>xs. reads l xs t \<and> Q a xs)"
  show "lp.reaches l (andThen (skip k) f l) ?Q"
  proof (cases "lexer_at l = k")
    case True
    have "lp.reaches l (Advance l) (\<lambda>_ t. lex_measure t < lex_measure l \<and> reads l [Punct k] t)"
      using reaches_Advance [OF inv, of "Punct k"] True k by (simp add: lexer_at_def lexer_Token_def)
    moreover have "lp.reaches t (f True t) ?Q"
      if "parse_inv t" "later l t" "lex_measure t < lex_measure l \<and> reads l [Punct k] t" for t
      using lp.reaches_next [OF that(1,2) _ _ n yes] that(3) by blast
    ultimately have "lp.reaches l (andThen Advance (\<lambda>_. f True) l) ?Q" by (rule lp.reaches_andThen) auto
    moreover have "andThen (skip k) f l = andThen Advance (\<lambda>_. f True) l"
      using True by (simp add: skip_def lexer_Token_at andThen_def split: prod.splits outcome.splits)
    ultimately show ?thesis by simp
  next
    case False
    then have "andThen (skip k) f l = f False l" by (simp add: skip_def lexer_Token_at andThen_def)
    then show ?thesis using lp.parsesD [OF no inv n] by simp
  qed
qed

text \<open>Continuing after an \<open>expect\<close> whose token is known to match a symbol.\<close>

lemma reaches_expect_sym:
  assumes inv: "parse_inv l" and n: "lex_measure l < Suc n" and k: "lexer_at l = k" "k \<noteq> KindEOF"
    and s: "sym_matches (lex_tokens l) (lex_token l) s"
    and f: "lp.parses False n (f (lex_token l)) (\<lambda>a ys. Q a (s # ys))"
  shows "lp.reaches l (andThen (expect k) f l) (\<lambda>a t. (b \<longrightarrow> lex_measure t < lex_measure l) \<and> (\<exists>xs. reads l xs t \<and> Q a xs))"
    (is "lp.reaches _ _ ?Q")
proof -
  have "lp.reaches l (Advance l) (\<lambda>_ t. lex_measure t < lex_measure l \<and> reads l [s] t)"
    using reaches_Advance [OF inv _ s] k by simp
  moreover have "lp.reaches t (f (lex_token l) t) ?Q"
    if "parse_inv t" "later l t" "lex_measure t < lex_measure l \<and> reads l [s] t" for t
    using lp.reaches_next [OF that(1,2) _ _ n f] that(3) by blast
  ultimately have "lp.reaches l (andThen Advance (\<lambda>_. f (lex_token l)) l) ?Q" by (rule lp.reaches_andThen) auto
  moreover have "andThen (expect k) f l = andThen Advance (\<lambda>_. f (lex_token l)) l"
    using k by (simp add: expect_def lexer_Token_at andThen_def Let_def split: prod.splits outcome.splits)
  ultimately show ?thesis by simp
qed

lemma parses_whenPeek:
  assumes "lp.parses True n p R"
  shows "lp.parses False n (whenPeek k p z) (\<lambda>a xs. R a xs \<or> a = z \<and> xs = [])"
proof (rule lp.parsesI)
  fix l assume inv: "parse_inv l" "lex_measure l < n"
  show "lp.reaches l (whenPeek k p z l) (\<lambda>a t. (False \<longrightarrow> lex_measure t < lex_measure l) \<and>
     (\<exists>xs. reads l xs t \<and> (R a xs \<or> a = z \<and> xs = [])))"
  proof (cases "peekIs k l")
    case True
    then show ?thesis using lp.parsesD [OF assms inv] by (auto simp: whenPeek_def elim!: lp.reaches_mono)
  next
    case False
    then show ?thesis using inv lp.reads_refl by (auto simp: whenPeek_def intro!: lp.reaches_ret)
  qed
qed

lemma parses_unexpected: "lp.parses b n unexpected R"
  by (rule lp.parses_fail) (simp add: unexpected_def raise_def Let_def)

section \<open>Values\<close>

abbreviation name_syms :: "token_ref name \<Rightarrow> sym list" where
  "name_syms name \<equiv> [NoneOf [] (name_Token name)]"

fun value_syms :: "token_ref ast_value \<Rightarrow> sym list"
  and object_field_syms :: "token_ref object_field \<Rightarrow> sym list"
where
  "value_syms (Variable name) = Punct KindDollar # name_syms name"
| "value_syms (IntValue t) = [Literal [KindInt] t]"
| "value_syms (FloatValue t) = [Literal [KindFloat] t]"
| "value_syms (StringValue t) = [Literal [KindString, KindBlockString] t]"
| "value_syms (BooleanValue t) = [OneOf [''true'', ''false''] t]"
| "value_syms (NullValue t) = [OneOf [''null''] t]"
| "value_syms (EnumValue t) = [NoneOf [''true'', ''false'', ''null''] t]"
| "value_syms (ListValue vs) = Punct KindLeftBracket # concat (map value_syms vs) @ [Punct KindRightBracket]"
| "value_syms (EmptyListValue t) = [Literal [KindLeftBracket] t, Punct KindRightBracket]"
| "value_syms (ObjectValue fs) = Punct KindLeftBrace # concat (map object_field_syms fs) @ [Punct KindRightBrace]"
| "value_syms (EmptyObjectValue t) = [Literal [KindLeftBrace] t, Punct KindRightBrace]"
| "object_field_syms (ObjectField name v) = name_syms name @ Punct KindColon # value_syms v"

text \<open>A list or object node that is not the empty one has elements, and a constant has no variables.\<close>

fun value_ok :: "bool \<Rightarrow> token_ref ast_value \<Rightarrow> bool"
  and object_field_ok :: "bool \<Rightarrow> token_ref object_field \<Rightarrow> bool"
where
  "value_ok isConst (Variable name) \<longleftrightarrow> \<not> isConst"
| "value_ok isConst (ListValue vs) \<longleftrightarrow> vs \<noteq> [] \<and> list_all (value_ok isConst) vs"
| "value_ok isConst (ObjectValue fs) \<longleftrightarrow> fs \<noteq> [] \<and> list_all (object_field_ok isConst) fs"
| "value_ok isConst _ \<longleftrightarrow> True"
| "object_field_ok isConst (ObjectField name v) \<longleftrightarrow> value_ok isConst v"

definition value_spec :: "bool \<Rightarrow> token_ref ast_value \<Rightarrow> sym list \<Rightarrow> bool" where
  "value_spec isConst v xs \<longleftrightarrow> xs = value_syms v \<and> value_ok isConst v"

definition object_field_spec :: "bool \<Rightarrow> token_ref object_field \<Rightarrow> sym list \<Rightarrow> bool" where
  "object_field_spec isConst f xs \<longleftrightarrow> xs = object_field_syms f \<and> object_field_ok isConst f"

lemma parses_variable: "lp.parses True n parseVariable (\<lambda>name xs. xs = Punct KindDollar # name_syms name)"
proof -
  have "lp.parses True (Suc n) parseVariable (\<lambda>name xs. xs = Punct KindDollar # name_syms name)"
    unfolding parseVariable_def
    by (rule lp.parses_andThen [OF parses_punct]) (auto intro!: lp.parses_mono [OF parses_name])
  then show ?thesis by (rule lp.parses_mono) auto
qed

lemma reaches_literal:
  assumes "parse_inv l" "lexer_at l \<noteq> KindEOF" "sym_matches (lex_tokens l) (lex_token l) s" "R a [s]"
  shows "lp.reaches l (andThen Advance (\<lambda>_. ret a) l) (\<lambda>a t. (b \<longrightarrow> lex_measure t < lex_measure l) \<and> (\<exists>xs. reads l xs t \<and> R a xs))"
  by (rule lp.reaches_andThen, rule reaches_Advance [OF assms(1-3)]) (use assms(4) in \<open>auto intro!: lp.reaches_ret\<close>)

lemma reads_Punct: "reads l (Literal [k] p # xs) t \<Longrightarrow> reads l (Punct k # xs) t"
  by (auto simp: reads_def list_all2_Cons2)

text \<open>
  A bracketed sequence that may be empty, and what its node is.
\<close>

lemma parses_sequence:
  assumes item: "lp.parses True n item (\<lambda>a xs. xs = f a \<and> P a)" and k: "openKind \<noteq> KindEOF" "closeKind \<noteq> KindEOF"
    and fuel: "n \<le> fuel"
    and empty: "\<And>p. R (E p) [Literal [openKind] p, Punct closeKind]"
    and some: "\<And>as. as \<noteq> [] \<Longrightarrow> list_all P as \<Longrightarrow> R (N as) (Punct openKind # concat (map f as) @ [Punct closeKind])"
  shows "lp.parses True (Suc n) (andThen (expect openKind) (\<lambda>p.
      andThen (repeat_unless fuel item (skip closeKind) []) (\<lambda>as. ret (if as = [] then E p else N as)))) R"
proof (rule lp.parsesI)
  fix l assume inv: "parse_inv l" "lex_measure l < Suc n"
  let ?k = "\<lambda>p. andThen (repeat_unless fuel item (skip closeKind) []) (\<lambda>as. ret (if as = [] then E p else N as))"
  let ?p = "lex_token l"
  have loop: "lp.parses False n (repeat_unless fuel item (skip closeKind) [])
      (\<lambda>as xs. \<exists>ys zs. lp.reads_all (\<lambda>a xs. xs = f a \<and> P a) as ys \<and> zs = (if True then [Punct closeKind] else []) \<and> xs = ys @ zs)"
    by (rule lp.parses_repeat_unless [OF item parses_skip [OF k(2)] _ fuel]) simp
  have rest: "lp.parses False n (?k ?p) (\<lambda>a ys. \<exists>as. a = (if as = [] then E ?p else N as) \<and> list_all P as \<and>
      ys = concat (map f as) @ [Punct closeKind])"
    by (rule lp.parses_andThen_weak [OF loop]) (auto simp: reads_all_fun intro!: lp.parses_ret)
  show "lp.reaches l (andThen (expect openKind) ?k l)
      (\<lambda>a t. (True \<longrightarrow> lex_measure t < lex_measure l) \<and> (\<exists>xs. reads l xs t \<and> R a xs))"
  proof (cases "lexer_at l = openKind")
    case True
    let ?Q = "\<lambda>a xs. \<exists>as. a = (if as = [] then E ?p else N as) \<and> list_all P as \<and>
      xs = Literal [openKind] ?p # concat (map f as) @ [Punct closeKind]"
    have "lp.reaches l (andThen (expect openKind) ?k l)
        (\<lambda>a t. (True \<longrightarrow> lex_measure t < lex_measure l) \<and> (\<exists>xs. reads l xs t \<and> ?Q a xs))"
      by (rule reaches_expect_sym [OF inv True k(1), of "Literal [openKind] ?p"], simp_all add: rest)
         (use True in \<open>simp add: lexer_at_def lexer_Token_def\<close>)
    then show ?thesis
    proof (rule lp.reaches_mono)
      fix a t assume "(True \<longrightarrow> lex_measure t < lex_measure l) \<and> (\<exists>xs. reads l xs t \<and> ?Q a xs)"
      then obtain as where t: "lex_measure t < lex_measure l" "a = (if as = [] then E ?p else N as)" "list_all P as"
          "reads l (Literal [openKind] ?p # concat (map f as) @ [Punct closeKind]) t" by blast
      show "(True \<longrightarrow> lex_measure t < lex_measure l) \<and> (\<exists>xs. reads l xs t \<and> R a xs)"
        using t reads_Punct [OF t(4)] empty [of ?p] some [of as] by (cases "as = []") auto
    qed
  next
    case False
    then show ?thesis by (simp add: expect_def lexer_Token_at Let_def raise_def andThen_def)
  qed
qed

lemma parses_object_field:
  assumes "lp.parses True n (parseValue fuel isConst) (value_spec isConst)"
  shows "lp.parses True n (parseObjectField fuel isConst) (object_field_spec isConst)"
  unfolding parseObjectField.simps
  by (rule lp.parses_then [OF parses_name], rule lp.parses_weak, rule lp.parses_then [OF parses_punct], simp,
      rule lp.parses_weak, rule lp.parses_then [OF assms])
     (auto simp: object_field_spec_def value_spec_def intro!: lp.parses_ret)

lemma parses_list_value:
  assumes "lp.parses True n (parseValue n isConst) (value_spec isConst)"
  shows "lp.parses True (Suc n) (parseListValue n isConst) (value_spec isConst)"
  unfolding parseListValue.simps
  by (rule parses_sequence [OF assms [unfolded value_spec_def]]) (auto simp: value_spec_def)

lemma parses_object_value:
  assumes "lp.parses True n (parseValue n isConst) (value_spec isConst)"
  shows "lp.parses True (Suc n) (parseObjectValue n isConst) (value_spec isConst)"
  unfolding parseObjectValue.simps
  by (rule parses_sequence [OF parses_object_field [OF assms, unfolded object_field_spec_def]])
     (auto simp: value_spec_def)

lemma parses_value: "lp.parses True fuel (parseValue fuel isConst) (value_spec isConst)"
proof (induction fuel)
  case 0
  then show ?case by (simp add: lp.parses_def)
next
  case (Suc fuel)
  note list = parses_list_value [OF Suc] and object = parses_object_value [OF Suc]
  have variable: "lp.parses True (Suc fuel) (andThen parseVariable (\<lambda>name. ret (Variable name))) (value_spec isConst)" if "\<not> isConst"
    by (rule lp.parses_then [OF parses_variable]) (use that in \<open>auto simp: value_spec_def intro!: lp.parses_ret\<close>)
  show ?case
  proof (rule lp.parsesI)
    fix l assume inv: "parse_inv l" "lex_measure l < Suc fuel"
    have tok: "token_Kind (peekToken l) = lexer_at l" "token_Value (peekToken l) = token_Value (lex_tokens l ! lex_token l)"
      "token_Kind (lex_tokens l ! lex_token l) = lexer_at l"
      by (simp_all add: peekToken_def lexer_at_def lexer_Token_def)
    let ?Q = "\<lambda>a t. (True \<longrightarrow> lex_measure t < lex_measure l) \<and> (\<exists>xs. reads l xs t \<and> value_spec isConst a xs)"
    have literal: "lp.reaches l (andThen Advance (\<lambda>_. ret v) l) ?Q"
      if "lexer_at l \<noteq> KindEOF" "value_syms v = [s]" "sym_matches (lex_tokens l) (lex_token l) s" "value_ok isConst v" for v s
      using that by (intro reaches_literal [OF inv(1)]) (auto simp: value_spec_def)
    have int: "lexer_at l = KindInt \<Longrightarrow> lp.reaches l (andThen Advance (\<lambda>_. ret (IntValue (lex_token l))) l) ?Q"
      by (rule literal, simp, simp) (simp_all add: tok(3))
    have float: "lexer_at l = KindFloat \<Longrightarrow> lp.reaches l (andThen Advance (\<lambda>_. ret (FloatValue (lex_token l))) l) ?Q"
      by (rule literal, simp, simp) (simp_all add: tok(3))
    have string: "lexer_at l = KindString \<or> lexer_at l = KindBlockString \<Longrightarrow>
        lp.reaches l (andThen Advance (\<lambda>_. ret (StringValue (lex_token l))) l) ?Q"
      by (rule literal, force, simp) (auto simp: tok(3))
    have name: "lp.reaches l (andThen Advance (\<lambda>_. ret (nameValue v (lex_token l))) l) ?Q"
      if "lexer_at l = KindName" "v = token_Value (lex_tokens l ! lex_token l)" for v
    proof -
      let ?s = "if v = ''true'' \<or> v = ''false'' then OneOf [''true'', ''false''] (lex_token l)
        else if v = ''null'' then OneOf [''null''] (lex_token l) else NoneOf [''true'', ''false'', ''null''] (lex_token l)"
      show ?thesis by (rule literal [of _ ?s]) (use that in \<open>simp_all add: nameValue_def tok(3)\<close>)
    qed
    have other: "lp.reaches l (unexpected l) ?Q" by (rule lp.parsesD [OF parses_unexpected inv])
    show "lp.reaches l (parseValue (Suc fuel) isConst l) ?Q"
      unfolding parseValue.simps Let_def tok(1,2)
      using lp.parsesD [OF list inv] lp.parsesD [OF object inv] other lp.parsesD [OF variable inv] int float string name
      by (simp del: parseListValue.simps parseObjectValue.simps)
  qed
qed

section \<open>Arguments and directives\<close>

fun argument_syms :: "token_ref argument \<Rightarrow> sym list" where
  "argument_syms (Argument name v) = name_syms name @ Punct KindColon # value_syms v"

definition bracketed :: "kind \<Rightarrow> kind \<Rightarrow> ('a \<Rightarrow> sym list) \<Rightarrow> 'a list \<Rightarrow> sym list" where
  "bracketed openKind closeKind f as = Punct openKind # concat (map f as) @ [Punct closeKind]"

definition optional :: "('a list \<Rightarrow> sym list) \<Rightarrow> 'a list \<Rightarrow> sym list" where
  "optional f as = (if as = [] then [] else f as)"

definition arguments_syms :: "token_ref argument list \<Rightarrow> sym list" where
  "arguments_syms = bracketed KindLeftParen KindRightParen argument_syms"

fun directive_syms :: "token_ref directive \<Rightarrow> sym list" where
  "directive_syms (Directive name args) = Punct KindAt # name_syms name @ optional arguments_syms args"

definition directives_syms :: "token_ref directive list \<Rightarrow> sym list" where
  "directives_syms ds = concat (map directive_syms ds)"

definition argument_ok :: "bool \<Rightarrow> token_ref argument \<Rightarrow> bool" where
  "argument_ok isConst a \<longleftrightarrow> value_ok isConst (argument_Value a)"

definition directive_ok :: "bool \<Rightarrow> token_ref directive \<Rightarrow> bool" where
  "directive_ok isConst d \<longleftrightarrow> list_all (argument_ok isConst) (directive_Arguments d)"

text \<open>A bracketed sequence with at least one element.\<close>

lemma parses_sequence1:
  assumes item: "lp.parses True n item (\<lambda>a xs. xs = f a \<and> P a)" and k: "openKind \<noteq> KindEOF" "closeKind \<noteq> KindEOF"
    and fuel: "n \<le> fuel"
  shows "lp.parses True n (andThen (expect openKind) (\<lambda>_. repeat_until fuel item (skip closeKind) []))
    (\<lambda>as xs. as \<noteq> [] \<and> list_all P as \<and> xs = bracketed openKind closeKind f as)"
proof (rule lp.parses_then [OF parses_punct [OF k(1)]])
  have loop: "lp.parses True n (repeat_until fuel item (skip closeKind) [])
      (\<lambda>as xs. as \<noteq> [] \<and> (\<exists>ys zs. lp.reads_all (\<lambda>a xs. xs = f a \<and> P a) as ys \<and>
        zs = (if True then [Punct closeKind] else []) \<and> xs = ys @ zs))"
    by (rule lp.parses_repeat_until [OF item parses_skip [OF k(2)] _ fuel]) simp
  fix p xs assume "xs = [Punct openKind]"
  then show "lp.parses False n (repeat_until fuel item (skip closeKind) [])
      (\<lambda>as ys. as \<noteq> [] \<and> list_all P as \<and> xs @ ys = bracketed openKind closeKind f as)"
    by (auto simp: reads_all_fun bracketed_def intro!: lp.parses_mono [OF loop])
qed

text \<open>A sequence that is left out when its first token does not come next.\<close>

lemma parses_optional:
  assumes "lp.parses True n p (\<lambda>as xs. as \<noteq> [] \<and> list_all P as \<and> xs = f as)"
  shows "lp.parses False n (whenPeek k p []) (\<lambda>as xs. list_all P as \<and> xs = optional f as)"
  by (rule lp.parses_mono [OF parses_whenPeek [OF assms]]) (auto simp: optional_def)

lemma parses_argument: "lp.parses True n (parseArgument n isConst) (\<lambda>a xs. xs = argument_syms a \<and> argument_ok isConst a)"
  unfolding parseArgument_def
  by (rule lp.parses_then [OF parses_name], rule lp.parses_weak, rule lp.parses_then [OF parses_punct], simp,
      rule lp.parses_weak, rule lp.parses_then [OF parses_value])
     (auto simp: value_spec_def argument_ok_def intro!: lp.parses_ret)

lemma parses_arguments:
  "lp.parses True n (parseArguments n isConst) (\<lambda>as xs. as \<noteq> [] \<and> list_all (argument_ok isConst) as \<and> xs = arguments_syms as)"
  unfolding parseArguments_def arguments_syms_def by (rule parses_sequence1 [OF parses_argument]) simp_all

lemma parses_directive: "lp.parses True n (parseDirective n isConst) (\<lambda>d xs. xs = directive_syms d \<and> directive_ok isConst d)"
  unfolding parseDirective_def
  by (rule lp.parses_then [OF parses_punct], simp, rule lp.parses_weak, rule lp.parses_then [OF parses_name],
      rule lp.parses_andThen_weak [OF parses_optional [OF parses_arguments]])
     (auto simp: directive_ok_def intro!: lp.parses_ret)

lemma parses_directives:
  "lp.parses True n (parseDirectives n isConst)
     (\<lambda>ds xs. ds \<noteq> [] \<and> list_all (directive_ok isConst) ds \<and> xs = directives_syms ds)"
  unfolding parseDirectives_def
  by (rule lp.parses_mono [OF lp.parses_repeat_until [OF parses_directive parses_peekIs]])
     (auto simp: reads_all_fun directives_syms_def)

lemma parses_optional_directives:
  "lp.parses False n (whenPeek k (parseDirectives n isConst) [])
     (\<lambda>ds xs. list_all (directive_ok isConst) ds \<and> xs = directives_syms ds)"
  by (rule lp.parses_mono [OF parses_optional [OF parses_directives]]) (auto simp: optional_def directives_syms_def)

section \<open>Types\<close>

fun type_syms :: "token_ref ast_type \<Rightarrow> sym list" where
  "type_syms (NamedType name) = name_syms name"
| "type_syms (ListType t) = Punct KindLeftBracket # type_syms t @ [Punct KindRightBracket]"
| "type_syms (NonNullType t) = type_syms t @ [Punct KindBang]"

definition nullable :: "'t ast_type \<Rightarrow> bool" where
  "nullable t \<longleftrightarrow> (\<forall>u. t \<noteq> NonNullType u)"

text \<open>A non-null type wraps a nullable one.\<close>

fun type_ok :: "'t ast_type \<Rightarrow> bool" where
  "type_ok (NamedType name) \<longleftrightarrow> True"
| "type_ok (ListType t) \<longleftrightarrow> type_ok t"
| "type_ok (NonNullType t) \<longleftrightarrow> nullable t \<and> type_ok t"

lemma nullable_simps [simp]: "nullable (NamedType name)" "nullable (ListType t)" "\<not> nullable (NonNullType t)"
  by (simp_all add: nullable_def)

lemma nonNull_nullable: "nullable t \<Longrightarrow> nonNull t = ret (NonNullType t)"
  by (cases t) (simp_all add: nonNull_def)

text \<open>The optional exclamation mark after a nullable type.\<close>

lemma parses_bang:
  assumes "nullable t" "type_ok t"
  shows "lp.parses False n (andThen (skip KindBang) (\<lambda>isNonNull. if isNonNull then nonNull t else ret t))
    (\<lambda>t' xs. type_syms t' = type_syms t @ xs \<and> type_ok t')"
  by (rule lp.parses_andThen_weak [OF parses_skip]) (use assms in \<open>auto simp: nonNull_nullable intro!: lp.parses_ret\<close>)

lemma parses_type_open:
  "n \<le> fuel \<Longrightarrow> lp.parses True n (parseType_open fuel k)
     (\<lambda>(k', name) xs. k \<le> k' \<and> xs = replicate (k' - k) (Punct KindLeftBracket) @ name_syms name)"
proof (induction fuel arbitrary: n k)
  case 0
  then show ?case by (simp add: lp.parses_def)
next
  case (Suc fuel)
  let ?R = "\<lambda>k (k', name) xs. k \<le> k' \<and> xs = replicate (k' - k) (Punct KindLeftBracket) @ name_syms name"
  have step: "replicate (k' - k) (Punct KindLeftBracket) = Punct KindLeftBracket # replicate (k' - Suc k) (Punct KindLeftBracket)"
    if "Suc k \<le> k'" for k'
    using that by (metis Suc_diff_le diff_Suc_Suc replicate_Suc)
  have "lp.parses True (Suc fuel) (parseType_open (Suc fuel) k) (?R k)"
    unfolding parseType_open.simps
  proof (rule parses_skip_branch)
    show "lp.parses False fuel (if True then parseType_open fuel (k + 1) else andThen parseName (\<lambda>name. ret (k, name)))
        (\<lambda>a ys. ?R k a (Punct KindLeftBracket # ys))"
      using Suc.IH [of fuel "Suc k"] step by (auto elim!: lp.parses_mono split: prod.splits)
    show "lp.parses True (Suc fuel) (if False then parseType_open fuel (k + 1) else andThen parseName (\<lambda>name. ret (k, name))) (?R k)"
      by (simp, rule lp.parses_then [OF parses_name]) (auto intro!: lp.parses_ret)
  qed simp
  then show ?case using Suc.prems by (auto elim: lp.parses_mono)
qed

lemma parses_type_close:
  "nullable t \<Longrightarrow> type_ok t \<Longrightarrow> lp.parses False n (parseType_close k t)
     (\<lambda>t' xs. type_syms t' = replicate k (Punct KindLeftBracket) @ type_syms t @ xs \<and> nullable t' \<and> type_ok t')"
proof (induction k arbitrary: t)
  case 0
  then show ?case unfolding parseType_close.simps by (intro lp.parses_ret) simp
next
  case (Suc k)
  let ?b = "andThen (skip KindBang) (\<lambda>isNonNull. if isNonNull then nonNull t else ret t)"
  have assoc: "parseType_close (Suc k) t = andThen ?b (\<lambda>t. andThen (expect KindRightBracket) (\<lambda>_. parseType_close k (ListType t)))"
    by (simp add: andThen_assoc)
  show ?case unfolding assoc
  proof (rule lp.parses_andThen_weak [OF parses_bang [OF Suc.prems]], elim conjE)
    fix u xs assume u: "type_syms u = type_syms t @ xs" "type_ok u"
    show "lp.parses False n (andThen (expect KindRightBracket) (\<lambda>_. parseType_close k (ListType u)))
      (\<lambda>t' ys. type_syms t' = replicate (Suc k) (Punct KindLeftBracket) @ type_syms t @ xs @ ys \<and> nullable t' \<and> type_ok t')"
      by (rule lp.parses_weak, rule lp.parses_then [OF parses_punct], simp, rule lp.parses_mono [OF Suc.IH [of "ListType u"]])
         (use u in \<open>auto simp flip: replicate_append_same\<close>)
  qed
qed

lemma parses_type: "lp.parses True n (parseType n) (\<lambda>t xs. xs = type_syms t \<and> type_ok t)"
  unfolding parseType_def
  by (rule lp.parses_then [OF parses_type_open [OF order_refl]], clarsimp,
      rule lp.parses_andThen_weak [OF parses_type_close], simp, simp, elim conjE,
      rule lp.parses_mono [OF parses_bang])
     auto

section \<open>Variable definitions\<close>

definition default_syms :: "token_ref ast_value option \<Rightarrow> sym list" where
  "default_syms d = (case d of None \<Rightarrow> [] | Some v \<Rightarrow> Punct KindEquals # value_syms v)"

fun variable_definition_syms :: "token_ref variable_definition \<Rightarrow> sym list" where
  "variable_definition_syms (VariableDefinition name t d directives) =
     Punct KindDollar # name_syms name @ Punct KindColon # type_syms t @ default_syms d @ directives_syms directives"

definition variable_definitions_syms :: "token_ref variable_definition list \<Rightarrow> sym list" where
  "variable_definitions_syms = bracketed KindLeftParen KindRightParen variable_definition_syms"

fun variable_definition_ok :: "token_ref variable_definition \<Rightarrow> bool" where
  "variable_definition_ok (VariableDefinition name t d directives) \<longleftrightarrow>
     type_ok t \<and> pred_option (value_ok True) d \<and> list_all (directive_ok True) directives"

lemma parses_default:
  "lp.parses False n (whenPeek KindEquals (andThen (parseDefaultValue n) (\<lambda>v. ret (Some v))) None)
     (\<lambda>d xs. pred_option (value_ok True) d \<and> xs = default_syms d)"
proof (rule lp.parses_mono [OF parses_whenPeek])
  show "lp.parses True n (andThen (parseDefaultValue n) (\<lambda>v. ret (Some v)))
      (\<lambda>d xs. d \<noteq> None \<and> pred_option (value_ok True) d \<and> xs = default_syms d)"
    unfolding parseDefaultValue_def andThen_assoc
    by (rule lp.parses_then [OF parses_punct], simp, rule lp.parses_weak, rule lp.parses_then [OF parses_value])
       (auto simp: value_spec_def default_syms_def intro!: lp.parses_ret)
qed (auto simp: default_syms_def)

lemma parses_variable_definition:
  "lp.parses True n (parseVariableDefinition n) (\<lambda>v xs. xs = variable_definition_syms v \<and> variable_definition_ok v)"
  unfolding parseVariableDefinition_def
  by (rule lp.parses_then [OF parses_variable], rule lp.parses_weak, rule lp.parses_then [OF parses_punct], simp,
      rule lp.parses_weak, rule lp.parses_then [OF parses_type],
      rule lp.parses_andThen_weak [OF parses_default], rule lp.parses_andThen_weak [OF parses_optional_directives])
     (auto intro!: lp.parses_ret)

lemma parses_variable_definitions:
  "lp.parses True n (parseVariableDefinitions n)
     (\<lambda>vs xs. vs \<noteq> [] \<and> list_all variable_definition_ok vs \<and> xs = variable_definitions_syms vs)"
  unfolding parseVariableDefinitions_def variable_definitions_syms_def
  by (rule parses_sequence1 [OF parses_variable_definition]) simp_all

section \<open>Selections\<close>

definition condition_syms :: "token_ref name option \<Rightarrow> sym list" where
  "condition_syms c = (case c of None \<Rightarrow> [] | Some name \<Rightarrow> Keyword ''on'' # name_syms name)"

fun selection_syms :: "token_ref selection \<Rightarrow> sym list" where
  "selection_syms (FieldNode alias name arguments directives selections) =
     (case alias of None \<Rightarrow> [] | Some a \<Rightarrow> name_syms a @ [Punct KindColon]) @ name_syms name @
     optional arguments_syms arguments @ directives_syms directives @
     (if selections = [] then [] else Punct KindLeftBrace # concat (map selection_syms selections) @ [Punct KindRightBrace])"
| "selection_syms (FragmentSpread name directives) =
     Punct KindSpread # NoneOf [''on''] (name_Token name) # directives_syms directives"
| "selection_syms (InlineFragment typeCondition directives selections) =
     Punct KindSpread # condition_syms typeCondition @ directives_syms directives @
     Punct KindLeftBrace # concat (map selection_syms selections) @ [Punct KindRightBrace]"

fun selection_ok :: "token_ref selection \<Rightarrow> bool" where
  "selection_ok (FieldNode alias name arguments directives selections) \<longleftrightarrow>
     list_all (argument_ok False) arguments \<and> list_all (directive_ok False) directives \<and> list_all selection_ok selections"
| "selection_ok (FragmentSpread name directives) \<longleftrightarrow> list_all (directive_ok False) directives"
| "selection_ok (InlineFragment typeCondition directives selections) \<longleftrightarrow>
     list_all (directive_ok False) directives \<and> selections \<noteq> [] \<and> list_all selection_ok selections"

definition selection_set_syms :: "token_ref selection list \<Rightarrow> sym list" where
  "selection_set_syms = bracketed KindLeftBrace KindRightBrace selection_syms"

definition selection_spec :: "token_ref selection \<Rightarrow> sym list \<Rightarrow> bool" where
  "selection_spec s xs \<longleftrightarrow> xs = selection_syms s \<and> selection_ok s"

lemma parses_expectKeyword: "lp.parses True n (expectKeyword w) (\<lambda>_ xs. xs = [Keyword w])"
proof (rule lp.parsesI)
  fix l assume inv: "parse_inv l"
  let ?Q = "\<lambda>_ t. (True \<longrightarrow> lex_measure t < lex_measure l) \<and> (\<exists>xs. reads l xs t \<and> xs = [Keyword w])"
  let ?m = "token_Kind (peekToken l) = KindName \<and> token_Value (peekToken l) = w"
  show "lp.reaches l (expectKeyword w l) ?Q"
  proof (cases ?m)
    case True
    then have "lp.reaches l (Advance l) (\<lambda>_ t. lex_measure t < lex_measure l \<and> reads l [Keyword w] t)"
      by (intro reaches_Advance inv) (auto simp: peekToken_def lexer_at_def lexer_Token_def)
    moreover have "expectKeyword w l = andThen Advance (\<lambda>_. ret ()) l"
      using True by (auto simp: expectKeyword_def skipKeyword_def andThen_def Let_def split: prod.splits outcome.splits)
    ultimately show ?thesis by (auto intro!: lp.reaches_andThen lp.reaches_ret)
  next
    case False
    then have "\<exists>e t. expectKeyword w l = (Error e, t)"
      by (auto simp: expectKeyword_def skipKeyword_def andThen_def Let_def raise_def)
    then show ?thesis by auto
  qed
qed

lemma parses_condition: "lp.parses True n parseTypeCondition (\<lambda>name xs. xs = Keyword ''on'' # name_syms name)"
  unfolding parseTypeCondition_def parseNamedType_def
  by (rule lp.parses_then [OF parses_expectKeyword], rule lp.parses_weak, rule lp.parses_mono [OF parses_name]) auto

lemma parses_optional_condition:
  "lp.parses False n (whenPeek KindName (andThen parseTypeCondition (\<lambda>t. ret (Some t))) None) (\<lambda>c xs. xs = condition_syms c)"
proof (rule lp.parses_mono [OF parses_whenPeek])
  show "lp.parses True n (andThen parseTypeCondition (\<lambda>t. ret (Some t))) (\<lambda>c xs. c \<noteq> None \<and> xs = condition_syms c)"
    by (rule lp.parses_then [OF parses_condition]) (auto simp: condition_syms_def intro!: lp.parses_ret)
qed (auto simp: condition_syms_def)

lemma parses_selection_set:
  assumes "lp.parses True n (parseSelection n) selection_spec"
  shows "lp.parses True n (parseSelectionSet n)
    (\<lambda>ss xs. ss \<noteq> [] \<and> list_all selection_ok ss \<and> xs = selection_set_syms ss)"
  unfolding parseSelectionSet.simps selection_set_syms_def
  by (rule parses_sequence1 [OF assms [unfolded selection_spec_def]]) simp_all

lemma parses_alias:
  "lp.parses True n (andThen parseName (\<lambda>nameOrAlias. andThen (skip KindColon) (\<lambda>hasColon.
      if hasColon then andThen parseName (\<lambda>name. ret (Some nameOrAlias, name)) else ret (None, nameOrAlias))))
    (\<lambda>(alias, name) xs. xs = (case alias of None \<Rightarrow> [] | Some a \<Rightarrow> name_syms a @ [Punct KindColon]) @ name_syms name)"
proof (rule lp.parses_then [OF parses_name], rule lp.parses_andThen_weak [OF parses_skip], simp)
  fix a :: "token_ref name" and b xs ys assume xs: "xs = name_syms a" and ys: "ys = (if b then [Punct KindColon] else [])"
  let ?Q = "\<lambda>r zs. (case r of (alias, name) \<Rightarrow> \<lambda>xs. xs =
      (case alias of None \<Rightarrow> [] | Some a \<Rightarrow> name_syms a @ [Punct KindColon]) @ name_syms name) (xs @ ys @ zs)"
  show "lp.parses False n (if b then andThen parseName (\<lambda>name. ret (Some a, name)) else ret (None, a)) ?Q"
  proof (cases b)
    case True
    have "lp.parses True n (andThen parseName (\<lambda>name. ret (Some a, name))) ?Q"
      by (rule lp.parses_then [OF parses_name]) (use xs ys True in \<open>auto intro!: lp.parses_ret\<close>)
    then show ?thesis using True by (simp add: lp.parses_weak)
  next
    case False
    have "lp.parses False n (ret (None, a)) ?Q" by (rule lp.parses_ret) (use xs ys False in simp)
    then show ?thesis using False by (simp only: if_False)
  qed
qed

lemma parses_field:
  assumes "lp.parses True n (parseSelection n) selection_spec"
  shows "lp.parses True (Suc n) (parseField n) selection_spec"
proof -
  note set = lp.parses_mono [OF parses_optional [OF parses_selection_set [OF assms], of KindLeftBrace] order_refl, of
    "\<lambda>ss xs. list_all selection_ok ss \<and> xs = optional selection_set_syms ss" False]
  have assoc: "parseField n = andThen (andThen parseName (\<lambda>nameOrAlias. andThen (skip KindColon) (\<lambda>hasColon.
      if hasColon then andThen parseName (\<lambda>name. ret (Some nameOrAlias, name)) else ret (None, nameOrAlias))))
    (\<lambda>(alias, name). andThen (whenPeek KindLeftParen (parseArguments n False) []) (\<lambda>arguments.
       andThen (whenPeek KindAt (parseDirectives n False) []) (\<lambda>directives.
       andThen (whenPeek KindLeftBrace (parseSelectionSet n) []) (\<lambda>selectionSet.
         ret (FieldNode alias name arguments directives selectionSet)))))"
    by (simp add: andThen_assoc del: parseSelectionSet.simps)
  show ?thesis unfolding assoc
    by (rule lp.parses_andThen [OF parses_alias], clarify, rule lp.parses_andThen_weak [OF parses_optional [OF parses_arguments]],
        rule lp.parses_andThen_weak [OF parses_optional_directives], rule lp.parses_andThen_weak [OF set], simp, simp)
       (auto simp: selection_spec_def optional_def selection_set_syms_def bracketed_def intro!: lp.parses_ret)
qed

lemma parses_inline_fragment:
  assumes "lp.parses True n (parseSelection n) selection_spec"
  shows "lp.parses True n (parseInlineFragment n) (\<lambda>s xs. selection_spec s (Punct KindSpread # xs))"
  unfolding parseInlineFragment.simps
  by (rule lp.parses_andThen_weak [OF parses_optional_condition], rule lp.parses_andThen_weak [OF parses_optional_directives],
      rule lp.parses_then [OF parses_selection_set [OF assms]])
     (auto simp: selection_spec_def selection_set_syms_def bracketed_def intro!: lp.parses_ret)

text \<open>The current token, as a name.\<close>

lemma peekToken_eq: "peekToken l = lex_tokens l ! lex_token l"
  by (simp add: peekToken_def lexer_Token_def)

lemma reaches_named:
  assumes inv: "parse_inv l" "lex_measure l < n" and k: "token_Kind (peekToken l) = KindName"
    and s: "sym_matches (lex_tokens l) (lex_token l) s"
    and f: "lp.parses False n (f (lex_token l)) (\<lambda>a ys. Q a (s # ys))"
  shows "lp.reaches l (andThen (expect KindName) f l) (\<lambda>a t. (b \<longrightarrow> lex_measure t < lex_measure l) \<and> (\<exists>xs. reads l xs t \<and> Q a xs))"
proof -
  have "lexer_at l = KindName" using k by (simp add: peekToken_def lexer_at_def)
  then show ?thesis using inv(2) by (intro reaches_expect_sym [where f = f and s = s and n = n] inv(1) s f) simp_all
qed

lemma parses_fragment:
  assumes "lp.parses True n (parseSelection n) selection_spec"
  shows "lp.parses True n (\<lambda>l. let tok = peekToken l in
      if token_Kind tok \<noteq> KindName \<or> token_Value tok = ''on'' then parseInlineFragment n l else parseFragmentSpread n l)
    (\<lambda>s xs. selection_spec s (Punct KindSpread # xs))" (is "lp.parses True n ?m ?R")
proof (rule lp.parsesI)
  fix l assume inv: "parse_inv l" "lex_measure l < n"
  show "lp.reaches l (?m l) (\<lambda>a t. (True \<longrightarrow> lex_measure t < lex_measure l) \<and> (\<exists>xs. reads l xs t \<and> ?R a xs))"
  proof (cases "token_Kind (peekToken l) \<noteq> KindName \<or> token_Value (peekToken l) = ''on''")
    case True
    then show ?thesis using lp.parsesD [OF parses_inline_fragment [OF assms] inv] by (simp add: Let_def)
  next
    case False
    let ?k = "\<lambda>p. andThen (whenPeek KindAt (parseDirectives n False) []) (\<lambda>directives. ret (FragmentSpread (Name p) directives))"
    have "lp.parses False n (?k p) (\<lambda>s xs. ?R s (NoneOf [''on''] p # xs))" for p
      by (rule lp.parses_andThen_weak [OF parses_optional_directives]) (auto simp: selection_spec_def intro!: lp.parses_ret)
    then have "lp.reaches l (andThen (expect KindName) ?k l)
        (\<lambda>a t. (True \<longrightarrow> lex_measure t < lex_measure l) \<and> (\<exists>xs. reads l xs t \<and> ?R a xs))"
      using False by (intro reaches_named [OF inv, of "NoneOf [''on''] (lex_token l)"]) (auto simp: peekToken_eq)
    moreover have "parseFragmentSpread n = andThen (expect KindName) ?k"
      by (simp add: parseFragmentSpread_def parseName_def andThen_assoc)
    ultimately show ?thesis using False by (simp add: Let_def)
  qed
qed

lemma parses_selection: "lp.parses True fuel (parseSelection fuel) selection_spec"
proof (induction fuel)
  case 0
  then show ?case by (simp add: lp.parses_def)
next
  case (Suc fuel)
  show ?case unfolding parseSelection.simps
    by (rule parses_skip_branch, simp)
       (use parses_fragment [OF Suc, THEN lp.parses_weak] parses_field [OF Suc] in \<open>simp_all del: parseField.simps parseInlineFragment.simps\<close>)
qed

lemmas parses_selections = parses_selection_set [OF parses_selection]

section \<open>Definitions and documents\<close>

abbreviation operation_keywords :: "string list" where
  "operation_keywords \<equiv> [''query'', ''mutation'', ''subscription'']"

definition operation_name_syms :: "token_ref name option \<Rightarrow> sym list" where
  "operation_name_syms n = (case n of None \<Rightarrow> [] | Some name \<Rightarrow> name_syms name)"

fun definition_syms :: "token_ref definition_node \<Rightarrow> sym list" where
  "definition_syms (OperationDefinition typ name variables directives selections) =
     (case typ of None \<Rightarrow> [] | Some t \<Rightarrow> [OneOf operation_keywords t]) @ operation_name_syms name @
     optional variable_definitions_syms variables @ directives_syms directives @ selection_set_syms selections"
| "definition_syms (FragmentDefinition name variables typeCondition directives selections) =
     Keyword ''fragment'' # NoneOf [''on''] (name_Token name) # optional variable_definitions_syms variables @
     Keyword ''on'' # name_syms typeCondition @ directives_syms directives @ selection_set_syms selections"

fun definition_ok :: "parse_options \<Rightarrow> token_ref definition_node \<Rightarrow> bool" where
  "definition_ok options (OperationDefinition typ name variables directives selections) \<longleftrightarrow>
     (typ = None \<longrightarrow> name = None \<and> variables = [] \<and> directives = []) \<and>
     list_all variable_definition_ok variables \<and> list_all (directive_ok False) directives \<and>
     selections \<noteq> [] \<and> list_all selection_ok selections"
| "definition_ok options (FragmentDefinition name variables typeCondition directives selections) \<longleftrightarrow>
     (variables \<noteq> [] \<longrightarrow> ExperimentalFragmentVariables options) \<and>
     list_all variable_definition_ok variables \<and> list_all (directive_ok False) directives \<and>
     selections \<noteq> [] \<and> list_all selection_ok selections"

definition definition_spec :: "parse_options \<Rightarrow> token_ref definition_node \<Rightarrow> sym list \<Rightarrow> bool" where
  "definition_spec options d xs \<longleftrightarrow> xs = definition_syms d \<and> definition_ok options d"

lemma parses_shorthand: "lp.parses True n (parseQueryShorthand n) (definition_spec options)"
  unfolding parseQueryShorthand_def
  by (rule lp.parses_then [OF parses_selections])
     (auto simp: definition_spec_def operation_name_syms_def optional_def directives_syms_def intro!: lp.parses_ret)

lemma parses_operation_name:
  "lp.parses False n (whenPeek KindName (andThen parseName (\<lambda>name. ret (Some name))) None) (\<lambda>name xs. xs = operation_name_syms name)"
proof (rule lp.parses_mono [OF parses_whenPeek])
  show "lp.parses True n (andThen parseName (\<lambda>name. ret (Some name))) (\<lambda>name xs. name \<noteq> None \<and> xs = operation_name_syms name)"
    by (rule lp.parses_then [OF parses_name]) (auto simp: operation_name_syms_def intro!: lp.parses_ret)
qed (auto simp: operation_name_syms_def)

lemma parses_operation_rest:
  "lp.parses False n
     (andThen (whenPeek KindName (andThen parseName (\<lambda>n. ret (Some n))) None) (\<lambda>name.
      andThen (whenPeek KindLeftParen (parseVariableDefinitions n) []) (\<lambda>variableDefinitions.
      andThen (whenPeek KindAt (parseDirectives n False) []) (\<lambda>directives.
      andThen (parseSelectionSet n) (\<lambda>selectionSet.
        ret (OperationDefinition (Some p) name variableDefinitions directives selectionSet))))))
     (\<lambda>d xs. definition_spec options d (OneOf operation_keywords p # xs))"
  by (rule lp.parses_andThen_weak [OF parses_operation_name],
      rule lp.parses_andThen_weak [OF parses_optional [OF parses_variable_definitions]],
      rule lp.parses_andThen_weak [OF parses_optional_directives], rule lp.parses_weak, rule lp.parses_then [OF parses_selections])
     (auto simp: definition_spec_def intro!: lp.parses_ret)

lemma parses_fragment_name: "lp.parses True n parseFragmentName (\<lambda>name xs. xs = [NoneOf [''on''] (name_Token name)])"
proof (rule lp.parsesI)
  fix l assume inv: "parse_inv l" "lex_measure l < n"
  let ?R = "\<lambda>name xs. xs = [NoneOf [''on''] (name_Token name)]"
  show "lp.reaches l (parseFragmentName l) (\<lambda>a t. (True \<longrightarrow> lex_measure t < lex_measure l) \<and> (\<exists>xs. reads l xs t \<and> ?R a xs))"
  proof (cases "token_Kind (peekToken l) = KindName")
    case True
    show ?thesis
    proof (cases "token_Value (peekToken l) = ''on''")
      case False
      have "lp.parses False n (ret (Name (lex_token l))) (\<lambda>name xs. ?R name (NoneOf [''on''] (lex_token l) # xs))"
        by (rule lp.parses_ret) simp
      then have "lp.reaches l (andThen (expect KindName) (\<lambda>token. ret (Name token)) l)
          (\<lambda>a t. (True \<longrightarrow> lex_measure t < lex_measure l) \<and> (\<exists>xs. reads l xs t \<and> ?R a xs))"
        using True False by (intro reaches_named [OF inv, of "NoneOf [''on''] (lex_token l)"]) (auto simp: peekToken_eq)
      then show ?thesis using False by (simp add: parseFragmentName_def parseName_def Let_def)
    qed (use True in \<open>simp add: parseFragmentName_def raise_def Let_def\<close>)
  next
    case False
    then have "\<exists>e t. parseFragmentName l = (Error e, t)"
      by (simp add: parseFragmentName_def parseName_def expect_def raise_def Let_def andThen_def peekToken_def)
    then show ?thesis by auto
  qed
qed

lemma parses_fragment_variables:
  "lp.parses False n (if ExperimentalFragmentVariables options then whenPeek KindLeftParen (parseVariableDefinitions n) [] else ret [])
     (\<lambda>vs xs. (vs \<noteq> [] \<longrightarrow> ExperimentalFragmentVariables options) \<and> list_all variable_definition_ok vs \<and>
        xs = optional variable_definitions_syms vs)"
proof (cases "ExperimentalFragmentVariables options")
  case True
  then show ?thesis
    using parses_optional [OF parses_variable_definitions, of n KindLeftParen] by simp
next
  case False
  have "lp.parses False n (ret []) (\<lambda>vs xs. (vs \<noteq> [] \<longrightarrow> False) \<and> list_all variable_definition_ok vs \<and>
      xs = optional variable_definitions_syms vs)"
    by (rule lp.parses_ret) (simp add: optional_def)
  then show ?thesis using False by simp
qed

lemma parses_fragment_rest:
  "lp.parses False n
     (andThen parseFragmentName (\<lambda>name.
      andThen (if ExperimentalFragmentVariables options
               then whenPeek KindLeftParen (parseVariableDefinitions n) [] else ret []) (\<lambda>variableDefinitions.
      andThen parseTypeCondition (\<lambda>typeCondition.
      andThen (whenPeek KindAt (parseDirectives n False) []) (\<lambda>directives.
      andThen (parseSelectionSet n) (\<lambda>selectionSet.
        ret (FragmentDefinition name variableDefinitions typeCondition directives selectionSet)))))))
     (\<lambda>d xs. definition_spec options d (Keyword ''fragment'' # xs))"
  by (rule lp.parses_weak, rule lp.parses_then [OF parses_fragment_name], rule lp.parses_andThen_weak [OF parses_fragment_variables],
      rule lp.parses_weak, rule lp.parses_then [OF parses_condition], rule lp.parses_andThen_weak [OF parses_optional_directives],
      rule lp.parses_weak, rule lp.parses_then [OF parses_selections])
     (auto simp: definition_spec_def intro!: lp.parses_ret)

lemma parses_definition: "lp.parses True n (parseDefinition n options) (definition_spec options)"
proof (rule lp.parsesI)
  fix l assume inv: "parse_inv l" "lex_measure l < n"
  let ?Q = "\<lambda>a t. (True \<longrightarrow> lex_measure t < lex_measure l) \<and> (\<exists>xs. reads l xs t \<and> definition_spec options a xs)"
  have operation: "lp.reaches l (parseOperationDefinition n l) ?Q"
    if "token_Kind (peekToken l) = KindName" "token_Value (peekToken l) \<in> set operation_keywords"
    unfolding parseOperationDefinition_def
    by (rule reaches_named [OF inv that(1) _ parses_operation_rest]) (use that in \<open>simp add: peekToken_eq\<close>)
  have fragment: "lp.reaches l (parseFragmentDefinition n options l) ?Q"
    if "token_Kind (peekToken l) = KindName" "token_Value (peekToken l) = ''fragment''"
    unfolding parseFragmentDefinition_def
    by (rule reaches_named [OF inv that(1) _ parses_fragment_rest]) (use that in \<open>simp add: peekToken_eq\<close>)
  have other: "lp.reaches l (unexpected l) ?Q" by (rule lp.parsesD [OF parses_unexpected inv])
  show "lp.reaches l (parseDefinition n options l) ?Q"
    using operation fragment other lp.parsesD [OF parses_shorthand inv] by (simp add: parseDefinition_def Let_def)
qed

definition document_syms :: "token_ref document \<Rightarrow> sym list" where
  "document_syms doc = concat (map definition_syms (document_Definitions doc))"

definition document_ok :: "parse_options \<Rightarrow> token_ref document \<Rightarrow> bool" where
  "document_ok options doc \<longleftrightarrow> document_Definitions doc \<noteq> [] \<and> list_all (definition_ok options) (document_Definitions doc)"

lemma skip_EOF: "skip KindEOF l = (if lexer_at l = KindEOF then (Ok True, l\<lparr>lex_lastToken := lex_token l\<rparr>) else (Ok False, l))"
  by (simp add: skip_def lexer_Token_at andThen_def Advance_EOF)

lemma expect_EOF: "lexer_at l = KindEOF \<Longrightarrow> expect KindEOF l = (Ok (lex_token l), l\<lparr>lex_lastToken := lex_token l\<rparr>)"
  by (simp add: expect_def lexer_Token_at andThen_def Advance_EOF Let_def)

lemma parse_inv_EOF:
  assumes "parse_inv l" "lexer_at l = KindEOF"
  defines "t \<equiv> l\<lparr>lex_lastToken := lex_token l\<rparr>"
  shows "parse_inv t" "later l t" "reads l [] t" "lexer_at t = KindEOF"
proof -
  show at: "lexer_at t = KindEOF" using assms(2) by (simp add: t_def lexer_at_def lexer_Token_def)
  show "parse_inv t"
    using assms(1) reachable_Advance [OF _ Advance_EOF [OF assms(2)], of "lex_source l"] at by (simp add: parse_inv_def t_def)
  show "later l t" by (simp add: later_def t_def grown_def lex_measure_def bodySize_def saw_EOF_def)
  show "reads l [] t" by (simp add: reads_def t_def significant_def)
qed

lemma parses_skip_EOF: "lp.parses False n (skip KindEOF) (\<lambda>b xs. xs = [])"
proof (rule lp.parsesI)
  fix l assume "parse_inv l"
  then show "lp.reaches l (skip KindEOF l) (\<lambda>b t. (False \<longrightarrow> lex_measure t < lex_measure l) \<and> (\<exists>xs. reads l xs t \<and> xs = []))"
    using parse_inv_EOF [of l] lp.reads_refl by (auto simp: skip_EOF intro!: lp.reaches_Ok lp.reaches_ret)
qed

lemma parses_SOF: "lp.parses True n (expect KindSOF) (\<lambda>_ xs. xs = [Punct KindSOF])"
  by (rule parses_punct) simp

lemma parses_document:
  "lp.parses True n (parseDocument n options) (\<lambda>doc xs. document_ok options doc \<and> xs = Punct KindSOF # document_syms doc)"
  unfolding parseDocument_def
  by (rule lp.parses_then [OF parses_SOF], rule lp.parses_weak,
      rule lp.parses_then [OF lp.parses_repeat_until [OF parses_definition [unfolded definition_spec_def] parses_skip_EOF]])
     (auto simp: reads_all_fun document_ok_def document_syms_def intro!: lp.parses_ret)

lemma repeat_until_stops:
  "repeat_until fuel item stop xs s = (Ok ys, t) \<Longrightarrow> \<exists>u. stop u = (Ok True, t)"
  by (induction fuel arbitrary: xs s) (auto elim!: andThen_OkE split: if_splits)

lemma parse_inv_New: "parse_inv (New source)"
proof -
  have "lex_source (New source) = source" by (simp add: New_def NewSOFToken_def)
  moreover have "lexer_at (New source) = KindSOF" by (simp add: New_def NewSOFToken_def lexer_at_def lexer_Token_def)
  ultimately show ?thesis by (simp add: parse_inv_def reachable_New)
qed

lemma parse_fuel_enough: "lex_measure (New source) < parse_fuel (New source)"
  by (simp add: lex_measure_def parse_fuel_def New_def NewSOFToken_def bodySize_def Size_def)

lemmas parse_start = parse_inv_New parse_fuel_enough

section \<open>Entry points\<close>

text \<open>
  \<open>whole_source source syms l\<close>: the lexer \<open>l\<close> has read the whole source, and its tokens, without comments, are the start
  of the file, the symbols, and the end of the file.
\<close>

definition whole_source :: "source \<Rightarrow> sym list \<Rightarrow> lexer \<Rightarrow> bool" where
  "whole_source source syms l \<longleftrightarrow>
     tokenised (source_body source) (tl (lex_tokens l)) (length (source_body source)) \<and>
     list_all2 (sym_matches (lex_tokens l)) (significant (lex_tokens l) 0 (length (lex_tokens l)))
       (Punct KindSOF # syms @ [Punct KindEOF])"

lemma whole_source:
  assumes inv: "parse_inv l" "lex_source l = source" and eof: "lexer_at l = KindEOF"
    and r: "reads (New source) (Punct KindSOF # syms) l"
  shows "whole_source source syms l"
proof -
  have re: "reachable source l" using inv by (simp add: parse_inv_def)
  have wf: "wf_lexer l" "covered l" using reachable_invariant [OF re] by auto
  have last: "saw_EOF l" "Suc (lex_token l) = length (lex_tokens l)" using wf_lexer_saw_EOF [OF wf(1)] eof by auto
  have "tl (lex_tokens l) \<noteq> []" using sof_first [OF wf(1), of 0] last by (cases "lex_tokens l") (auto simp: saw_EOF_def)
  then have "lex_bytePos l = length (source_body source)"
    using tokenised_EOF [of "source_body source" "tl (lex_tokens l)"] wf(2) last inv(2)
    by (simp add: covered_def saw_EOF_def last_tl)
  moreover have "significant (lex_tokens l) 0 (length (lex_tokens l)) = significant (lex_tokens l) 0 (lex_token l) @ [lex_token l]"
    using eof by (simp add: significant_def lexer_at_def lexer_Token_def flip: last(2))
  moreover have "sym_matches (lex_tokens l) (lex_token l) (Punct KindEOF)" using eof by (simp add: lexer_at_def lexer_Token_def)
  moreover have "lex_token (New source) = 0" by (simp add: New_def NewSOFToken_def)
  ultimately show ?thesis
    using wf(2) inv(2) list_all2_appendI [OF r [unfolded reads_def], of "[lex_token l]" "[Punct KindEOF]"]
    by (simp add: whole_source_def covered_def)
qed

lemma reads_New_source: "lp.reaches (New source) r Q \<Longrightarrow> r = (Ok a, l) \<Longrightarrow> parse_inv l \<and> lex_source l = source \<and> Q a l"
  using lp.reaches_value [of "New source" r Q a l] by (auto simp: later_def grown_def New_def NewSOFToken_def)

definition options_of :: "parse_option list \<Rightarrow> parse_options" where
  "options_of options = fold (\<lambda>applyOption. applyOption) options \<lparr>ExperimentalFragmentVariables = False\<rparr>"

lemma Parse_eq: "Parse (Some source) options =
   (case parseDocument (parse_fuel (New source)) (options_of options) (New source) of
      (r, l) \<Rightarrow> bind_outcome r (\<lambda>doc. Ok (doc, l)))"
  by (simp add: Parse_def newParser_def options_of_def Let_def)

text \<open>The shape of \<open>ParseValue\<close> and \<open>ParseType\<close>: one node between the start and the end of the source.\<close>

definition parse_single :: "'a parser \<Rightarrow> 'a parser" where
  "parse_single p = andThen (expect KindSOF) (\<lambda>_. andThen p (\<lambda>a. andThen (expect KindEOF) (\<lambda>_. ret a)))"

lemma parse_single_reaches:
  assumes p: "lp.parses True (parse_fuel (New source)) p (\<lambda>a xs. xs = f a \<and> P a)"
  shows "lp.reaches (New source) (parse_single p (New source))
    (\<lambda>a l. lexer_at l = KindEOF \<and> P a \<and> reads (New source) (Punct KindSOF # f a) l)"
proof -
  let ?q = "andThen (expect KindSOF) (\<lambda>_. p)"
  have q: "lp.parses True (parse_fuel (New source)) ?q (\<lambda>a xs. xs = Punct KindSOF # f a \<and> P a)"
    by (rule lp.parses_then [OF parses_SOF], rule lp.parses_weak, rule lp.parses_mono [OF p]) auto
  have eq: "parse_single p = andThen ?q (\<lambda>a. andThen (expect KindEOF) (\<lambda>_. ret a))"
    by (simp add: parse_single_def andThen_assoc)
  show ?thesis unfolding eq
  proof (rule lp.reaches_andThen, rule lp.parsesD [OF q parse_start])
    fix a t assume t: "parse_inv t" "(True \<longrightarrow> lex_measure t < lex_measure (New source)) \<and>
        (\<exists>xs. reads (New source) xs t \<and> xs = Punct KindSOF # f a \<and> P a)" "later (New source) t"
    show "lp.reaches t (andThen (expect KindEOF) (\<lambda>_. ret a) t)
        (\<lambda>a l. lexer_at l = KindEOF \<and> P a \<and> reads (New source) (Punct KindSOF # f a) l)"
    proof (cases "lexer_at t = KindEOF")
      case True
      note e = parse_inv_EOF [OF t(1) True]
      then show ?thesis
        using t lp.reads_trans [OF t(1,3) e(2) _ e(3)] by (auto simp: andThen_def expect_EOF [OF True] intro!: lp.reaches_Ok)
    next
      case False
      then show ?thesis by (simp add: andThen_def expect_def lexer_Token_at Let_def raise_def)
    qed
  qed
qed

lemma ParseValue_eq: "ParseValue (Some source) =
   (case parse_single (parseValue (parse_fuel (New source)) False) (New source) of (r, l) \<Rightarrow> bind_outcome r (\<lambda>v. Ok (v, l)))"
  by (simp add: ParseValue_def newParser_def parse_single_def)

lemma ParseType_eq: "ParseType (Some source) =
   (case parse_single (parseType (parse_fuel (New source))) (New source) of (r, l) \<Rightarrow> bind_outcome r (\<lambda>v. Ok (v, l)))"
  by (simp add: ParseType_def newParser_def parse_single_def)

lemmas parse_value_reaches = parse_single_reaches [OF parses_value [unfolded value_spec_def]]
lemmas parse_type_reaches = parse_single_reaches [OF parses_type]

lemma bind_pair_Ok: "(case r of (r, l) \<Rightarrow> bind_outcome r (\<lambda>a. Ok (a, l))) = Ok (a, l) \<longleftrightarrow> r = (Ok a, l)"
  by (cases r; cases "fst r") auto

lemma bind_pair_returns:
  "fst r \<noteq> Panic \<and> fst r \<noteq> OutOfFuel \<Longrightarrow>
   (case r of (r, l) \<Rightarrow> bind_outcome r (\<lambda>a. Ok (a, l))) \<notin> {Panic, OutOfFuel}"
  by (cases r; cases "fst r") auto

section \<open>Properties\<close>

lemma Parse_post:
  assumes "Parse (Some source) options = Ok (doc, l)"
  shows "whole_source source (document_syms doc) l \<and> document_ok (options_of options) doc"
proof -
  let ?r = "parseDocument (parse_fuel (New source)) (options_of options) (New source)"
  have r: "?r = (Ok doc, l)" using assms by (simp add: Parse_eq bind_pair_Ok)
  have post: "parse_inv l" "lex_source l = source" "document_ok (options_of options) doc"
      "reads (New source) (Punct KindSOF # document_syms doc) l"
    using reads_New_source [OF lp.parsesD [OF parses_document parse_start] r] by auto
  obtain u where "skip KindEOF u = (Ok True, l)"
    using r by (auto simp: parseDocument_def elim!: andThen_OkE dest!: repeat_until_stops)
  then have "lexer_at l = KindEOF" by (auto simp: skip_EOF lexer_at_def lexer_Token_def split: if_splits)
  then show ?thesis using post whole_source by blast
qed

lemma ParseValue_post:
  assumes "ParseValue (Some source) = Ok (v, l)"
  shows "whole_source source (value_syms v) l \<and> value_ok False v"
  using reads_New_source [OF parse_value_reaches] whole_source assms unfolding ParseValue_eq bind_pair_Ok by blast

lemma ParseType_post:
  assumes "ParseType (Some source) = Ok (t, l)"
  shows "whole_source source (type_syms t) l \<and> type_ok t"
  using reads_New_source [OF parse_type_reaches] whole_source assms unfolding ParseType_eq bind_pair_Ok by blast

text \<open>
  C1: the document that \<open>Parse\<close> returns is what the source says. The whole source has been lexed, its tokens without
  comments are the start of the file, the symbols of the document in order (its nodes point to exactly the
  tokens of their names and literals), and the end of the file. The document has a definition, selection sets and
  lists are not empty, constants contain no variables, a non-null type wraps a nullable one, and variables of
  a fragment appear only when the option is on.
\<close>

theorem Parse_sound:
  assumes "Parse (Some source) options = Ok (doc, l)"
  shows "whole_source source (document_syms doc) l \<and> document_ok (options_of options) doc"
  using assms by (rule Parse_post)

definition sample_query :: source where
  "sample_query = \<lparr>source_body = ''{a}'', source_name = ''GraphQL'', source_lineOffset = 0, source_columnOffset = 0\<rparr>"

definition sample_document :: "token_ref document" where
  "sample_document = Document [OperationDefinition None None [] [] [FieldNode None (Name 2) [] [] []]]"

theorem Parse_sound_witness:
  "\<exists>l. Parse (Some sample_query) [] = Ok (sample_document, l) \<and> whole_source sample_query (document_syms sample_document) l"
proof -
  have "case Parse (Some sample_query) [] of Ok (doc, l) \<Rightarrow> doc = sample_document | _ \<Rightarrow> False" by code_simp
  then obtain l where "Parse (Some sample_query) [] = Ok (sample_document, l)"
    by (auto split: outcome.splits prod.splits)
  then show ?thesis using Parse_sound by blast
qed

text \<open>
  C2: \<open>Parse\<close> returns on every source: it gives a document or a syntax error, never a panic, and the recursion
  and the loops of the parser end within the fuel of one more than the bytes and tokens left.
\<close>

theorem Parse_returns: "Parse source options \<notin> {Panic, OutOfFuel}"
proof (cases source)
  case (Some s)
  show ?thesis unfolding Some Parse_eq
    by (rule bind_pair_returns, rule lp.reaches_returns, rule lp.parsesD [OF parses_document parse_start])
qed (simp add: Parse_def newParser_def Let_def)

text \<open>
  C7: the value that \<open>ParseValue\<close> returns is the whole source: its symbols are the tokens of the source, and lists and
  objects that are not the empty ones have elements.
\<close>

theorem ParseValue_sound:
  assumes "ParseValue (Some source) = Ok (v, l)"
  shows "whole_source source (value_syms v) l \<and> value_ok False v"
  using assms by (rule ParseValue_post)

definition sample_value :: source where
  "sample_value = \<lparr>source_body = ''[$a]'', source_name = ''GraphQL'', source_lineOffset = 0, source_columnOffset = 0\<rparr>"

theorem ParseValue_sound_witness:
  "\<exists>l. whole_source sample_value (value_syms (ListValue [Variable (Name 3)])) l"
proof -
  have "case ParseValue (Some sample_value) of Ok (v, l) \<Rightarrow> v = ListValue [Variable (Name 3)] | _ \<Rightarrow> False" by code_simp
  then obtain l where "ParseValue (Some sample_value) = Ok (ListValue [Variable (Name 3)], l)"
    by (auto split: outcome.splits prod.splits)
  then show ?thesis using ParseValue_sound by blast
qed

text \<open>
  The type that \<open>ParseType\<close> returns is the whole source, and a non-null type never wraps a non-null type.
\<close>

theorem ParseType_sound:
  assumes "ParseType (Some source) = Ok (t, l)"
  shows "whole_source source (type_syms t) l \<and> type_ok t"
  using assms by (rule ParseType_post)

definition sample_type :: source where
  "sample_type = \<lparr>source_body = ''[T!]'', source_name = ''GraphQL'', source_lineOffset = 0, source_columnOffset = 0\<rparr>"

theorem ParseType_sound_witness:
  "\<exists>l. whole_source sample_type (type_syms (ListType (NonNullType (NamedType (Name 2))))) l"
proof -
  have "case ParseType (Some sample_type) of Ok (t, l) \<Rightarrow> t = ListType (NonNullType (NamedType (Name 2))) | _ \<Rightarrow> False" by code_simp
  then obtain l where "ParseType (Some sample_type) = Ok (ListType (NonNullType (NamedType (Name 2))), l)"
    by (auto split: outcome.splits prod.splits)
  then show ?thesis using ParseType_sound by blast
qed

text \<open>
  \<open>ParseValue\<close> and \<open>ParseType\<close> return: a node or an error, no panic. In particular the type
  assertion \<open>t.(ast.NullableType)\<close> in \<open>parseType\<close> never fails.
\<close>

theorem ParseValue_ParseType_return:
  "ParseValue source \<notin> {Panic, OutOfFuel} \<and> ParseType source \<notin> {Panic, OutOfFuel}"
proof (cases source)
  case (Some s)
  have "ParseValue (Some s) \<notin> {Panic, OutOfFuel}" unfolding ParseValue_eq
    by (rule bind_pair_returns, rule lp.reaches_returns, rule parse_value_reaches)
  moreover have "ParseType (Some s) \<notin> {Panic, OutOfFuel}" unfolding ParseType_eq
    by (rule bind_pair_returns, rule lp.reaches_returns, rule parse_type_reaches)
  ultimately show ?thesis using Some by simp
qed (simp add: ParseValue_def ParseType_def newParser_def)

end
