(* ===== verification/StringRoundTrip.thy ===== *)
theory StringRoundTrip
  imports LexerSpec JsonWriter
begin

text \<open>
  A string that the JSON writer has escaped (as the printer of string values does) is read back by the
  lexer: the escapes of \<open>jsonwriter\<close> are escapes of GraphQL strings, and they mean the same. Bytes that are not
  valid UTF-8 come back as the replacement character.
\<close>

section \<open>Scanning escaped strings\<close>

function to_valid_utf8 :: "string \<Rightarrow> string" where
  "to_valid_utf8 [] = []"
| "to_valid_utf8 (b # s) =
     (let c = fst (utf8_DecodeRune (b # s)); size = snd (utf8_DecodeRune (b # s)) in
      if c = RuneError \<and> size = 1 then utf8_EncodeRune RuneError @ to_valid_utf8 s
      else take size (b # s) @ to_valid_utf8 (drop size (b # s)))"
  by pat_completeness auto
termination
  by (relation "measure length") (use decode_shorter in auto)

declare to_valid_utf8.simps(2) [simp del]

definition plain_char :: "char \<Rightarrow> bool" where
  "plain_char c \<longleftrightarrow> 0x20 \<le> byte_of c \<and> c \<noteq> QUOTE \<and> c \<noteq> BACKSLASH"

lemma byte_of_consts:
  "byte_of LF = 10" "byte_of CR = 13" "byte_of TAB = 9" "byte_of QUOTE = 34" "byte_of BACKSLASH = 92"
  "byte_of (CHR 0x20) = 32" "byte_of (CHR 0x7F) = 127"
  by (simp_all add: byte_of_def)

lemma scanString_plain:
  "list_all plain_char p \<Longrightarrow> scanString (p @ s) = map_option (\<lambda>(v, r). (p @ v, r)) (scanString s)"
proof (induction p)
  case Nil
  then show ?case by (simp add: option.map_id0 [unfolded id_def] case_prod_eta)
next
  case (Cons c p)
  then have "c \<noteq> LF \<and> c \<noteq> CR \<and> c \<noteq> QUOTE \<and> c \<noteq> BACKSLASH \<and> \<not> c < CHR 0x20"
    by (auto simp: plain_char_def less_char_byte_of byte_of_consts)
  then show ?case using Cons by (simp add: option.map_comp comp_def case_prod_unfold)
qed

lemma scanString_escape:
  "scanEscape s = Some (bs, r) \<Longrightarrow>
   scanString (BACKSLASH # s) = map_option (\<lambda>(v, r'). (bs @ v, r')) (scanString r)"
  by (simp add: less_char_byte_of byte_of_consts)

lemma hex_value_char: "n < 16 \<Longrightarrow> hex_value (hex_char n) = Some n"
proof -
  assume n: "n < 16"
  have "list_all (\<lambda>n. hex_value (hex_char n) = Some n) [0..<16]" by code_simp
  then show ?thesis using n by (simp add: list_all_iff)
qed

lemma hex_char_digits:
  "CHR ''0'' = hex_char 0" "CHR ''2'' = hex_char 2" "CHR ''f'' = hex_char 15" "CHR ''d'' = hex_char 13"
  by code_simp+

lemma hex4_chars:
  "a < 16 \<Longrightarrow> b < 16 \<Longrightarrow> c < 16 \<Longrightarrow> d < 16 \<Longrightarrow>
   hex4 (hex_char a) (hex_char b) (hex_char c) (hex_char d) = Some (4096 * a + 256 * b + 16 * c + d)"
  by (simp add: hex4_def hex_value_char)

lemma hex_byte:
  "n < 128 \<Longrightarrow> hex4 (CHR ''0'') (CHR ''0'') (hex_char (n div 16)) (hex_char (n mod 16)) = Some n"
  using hex4_chars [of 0 0 "n div 16" "n mod 16"] by (simp add: hex_char_digits(1))

lemma scanEscape_bytes:
  assumes "byte_of b < RuneSelf"
  shows "\<exists>s. escape_bytes b = BACKSLASH # s \<and> (\<forall>r. scanEscape (s @ r) = Some ([b], r))"
proof (cases "b \<in> {BACKSLASH, QUOTE, LF, CR, TAB}")
  case True
  then show ?thesis by (auto simp: escape_bytes_def escapedCharacter_def)
next
  case False
  then show ?thesis
    using hex_byte [OF assms] assms
    by (auto simp: escape_bytes_def escapedCharacter_def utf8_EncodeRune_ascii)
qed

lemma scanEscape_special:
  "scanEscape (''ufffd'' @ r) = Some (utf8_EncodeRune RuneError, r)"
  "c = 0x2028 \<or> c = 0x2029 \<Longrightarrow> scanEscape (''u202'' @ hex_char (c mod 16) # r) = Some (utf8_EncodeRune c, r)"
proof -
  have "hex4 (CHR ''f'') (CHR ''f'') (CHR ''f'') (CHR ''d'') = Some RuneError"
    using hex4_chars [of 15 15 15 13] by (simp add: hex_char_digits)
  then show "scanEscape (''ufffd'' @ r) = Some (utf8_EncodeRune RuneError, r)" by (simp add: escapedCharacter_def)
  have "hex4 (CHR ''2'') (CHR ''0'') (CHR ''2'') (hex_char (0x2028 mod 16)) = Some 0x2028"
    "hex4 (CHR ''2'') (CHR ''0'') (CHR ''2'') (hex_char (0x2029 mod 16)) = Some 0x2029"
    using hex4_chars [of 2 0 2 8] hex4_chars [of 2 0 2 9] by (simp_all add: hex_char_digits)
  then show "c = 0x2028 \<or> c = 0x2029 \<Longrightarrow> scanEscape (''u202'' @ hex_char (c mod 16) # r) = Some (utf8_EncodeRune c, r)"
    by (auto simp: escapedCharacter_def)
qed

lemma scanString_json_escape: "scanString (json_escape s @ QUOTE # r) = Some (to_valid_utf8 s, r)"
proof (induction s rule: json_escape.induct)
  case 1
  then show ?case by (simp add: less_char_byte_of byte_of_consts)
next
  case (2 b s)
  let ?c = "fst (utf8_DecodeRune (b # s))" and ?n = "snd (utf8_DecodeRune (b # s))"
  note enc = utf8_encode_decode [of "b # s" ?c ?n, simplified]
  show ?case
  proof (cases "byte_of b < RuneSelf")
    case ascii: True
    have dec: "?c = byte_of b" "?n = 1" using ascii by (simp_all add: utf8_DecodeRune_def)
    have valid: "to_valid_utf8 (b # s) = b # to_valid_utf8 s" using dec ascii by (simp add: to_valid_utf8.simps(2))
    show ?thesis
    proof (cases "htmlSafe b")
      case True
      then have "list_all plain_char [b]"
        by (simp add: htmlSafe_def plain_char_def less_eq_char_byte_of byte_of_consts)
      then show ?thesis
        using scanString_plain [of "[b]" "json_escape s @ QUOTE # r"] 2(1) [OF ascii True] True ascii
        by (simp add: json_escape.simps(2) valid)
    next
      case False
      obtain e where e: "escape_bytes b = BACKSLASH # e" "\<And>r. scanEscape (e @ r) = Some ([b], r)"
        using scanEscape_bytes [OF ascii] by blast
      then show ?thesis
        using scanString_escape [OF e(2)] 2(2) [OF ascii False] False ascii by (simp add: json_escape.simps(2) valid)
    qed
  next
    case wide: False
    consider (error) "?c = RuneError \<and> ?n = 1" | (separator) "\<not> (?c = RuneError \<and> ?n = 1)" "?c = 0x2028 \<or> ?c = 0x2029"
      | (other) "\<not> (?c = RuneError \<and> ?n = 1)" "\<not> (?c = 0x2028 \<or> ?c = 0x2029)" by blast
    then show ?thesis
    proof cases
      case error
      have "json_escape (b # s) @ QUOTE # r = BACKSLASH # ''ufffd'' @ json_escape s @ QUOTE # r"
        using wide error by (simp add: json_escape.simps(2))
      then show ?thesis
        using scanString_escape [OF scanEscape_special(1)] 2(3) [OF wide refl refl error] error
        by (simp only: to_valid_utf8.simps(2) Let_def) simp
    next
      case separator
      have "json_escape (b # s) @ QUOTE # r = BACKSLASH # ''u202'' @ hex_char (?c mod 16) # json_escape (drop ?n (b # s)) @ QUOTE # r"
        using wide separator by (auto simp: json_escape.simps(2) Let_def)
      moreover have "utf8_EncodeRune ?c = take ?n (b # s)" using enc separator(1) by auto
      ultimately show ?thesis
        using scanString_escape [OF scanEscape_special(2) [OF separator(2)]] 2(4) [OF wide refl refl separator] separator(1)
        by (simp only: to_valid_utf8.simps(2) Let_def if_False) simp
    next
      case other
      have "json_escape (b # s) @ QUOTE # r = take ?n (b # s) @ json_escape (drop ?n (b # s)) @ QUOTE # r"
        using wide other by (auto simp: json_escape.simps(2) Let_def)
      moreover have "list_all plain_char (take ?n (b # s))"
        using enc other(1) wide by (auto simp: list_all_iff plain_char_def byte_of_consts)
      ultimately show ?thesis
        using scanString_plain [of "take ?n (b # s)"] 2(5) [OF wide refl refl other] other(1)
        by (simp only: to_valid_utf8.simps(2) Let_def if_False) simp
    qed
  qed
qed

lemma to_valid_utf8_runes: "list_all utf8_valid_rune rs \<Longrightarrow> to_valid_utf8 (concat (map utf8_EncodeRune rs)) = concat (map utf8_EncodeRune rs)"
proof (induction rs)
  case (Cons r rs)
  let ?e = "utf8_EncodeRune r" and ?t = "concat (map utf8_EncodeRune rs)"
  have dec: "utf8_DecodeRune (?e @ ?t) = (r, length ?e)" using Cons.prems by (simp add: utf8_decode_encode)
  have ok: "\<not> (r = RuneError \<and> length ?e = 1)" by (auto simp: utf8_EncodeRune_def utf8_valid_rune_def)
  obtain b u where e: "?e = b # u" by (cases ?e) auto
  have "to_valid_utf8 (?e @ ?t) = take (length ?e) (?e @ ?t) @ to_valid_utf8 (drop (length ?e) (?e @ ?t))"
    using to_valid_utf8.simps(2) [of b "u @ ?t"] dec ok unfolding e by (auto simp: Let_def)
  then show ?case using Cons by simp
qed simp

section \<open>Lexing escaped strings\<close>

lemma consumeWhitespace_quote:
  assumes "rest l = QUOTE # cs" "lex_bytePos l \<le> bodySize l"
  shows "consumeWhitespace l = l"
proof -
  obtain ws where ws: "moved l ws (consumeWhitespace l)" "ignored_text (lex_bytePos l) ws"
    by (rule consumeWhitespace_moved [OF assms(2)])
  have "ws = []"
  proof (rule ccontr)
    assume "ws \<noteq> []"
    then obtain w where "ws = QUOTE # w" using moved_frame(8) [OF ws(1)] assms(1) by (cases ws) auto
    then show False using ws(2) by (auto simp: ignored_text_def is_ignored_def BOM_def)
  qed
  then show ?thesis using ws(1) by (simp add: moved_def)
qed

lemma lexToken_quote:
  assumes "rest l = QUOTE # cs" "lex_bytePos l \<le> bodySize l"
  shows "lexToken l = lexQuote l"
proof -
  have "peek l = QUOTE" using assms(1) by (simp add: peek_rest)
  moreover have "lex_bytePos l < bodySize l" using assms(1) rest_nonempty [of l] by simp
  ultimately show ?thesis
    using consumeWhitespace_quote [OF assms] by (simp add: lexToken_def Let_def is_name_start_def is_digit_def less_eq_char_byte_of byte_of_def)
qed


lemma json_escape_first: "s \<noteq> [] \<Longrightarrow> first_byte (json_escape s @ r) \<noteq> QUOTE"
proof (cases s)
  case (Cons b s')
  let ?n = "snd (utf8_DecodeRune (b # s'))"
  have "?n \<noteq> 0" using utf8_DecodeRune_size [of "b # s'"] by simp
  then have "first_byte (take ?n (b # s') @ r') = b" for r' by (cases ?n) auto
  then show ?thesis unfolding Cons
    by (auto simp: json_escape.simps(2) [of b s'] Let_def escape_bytes_def htmlSafe_def byte_of_consts)
qed simp

lemma lexToken_json_string:
  assumes r: "rest l = json_string s @ r" and pos: "lex_bytePos l \<le> bodySize l" and q: "first_byte r \<noteq> QUOTE"
  shows "\<exists>l'. lexToken l = (Ok \<lparr>token_Kind = KindString, token_Location = lex_bytePos l + 1,
      token_Length = length (json_string s), token_Value = to_valid_utf8 s, token_Prev = Some (lex_token l), token_Next = None\<rparr>, l') \<and>
    rest l' = r \<and> moved l (json_string s) l'"
proof (cases "s = []")
  case True
  then have r0: "rest l = QUOTE # QUOTE # r" using r by (simp add: json_string_def)
  note s = scan_while_step [OF r0] and s2 = scan_while_step [OF scan_while_step(1) [OF r0]]
  note m = moved_trans [OF s(2) s2(2)]
  show ?thesis
    using True q s s2 m moved_frame [OF m] makeTokenWithValue_run [of 2 "advancePos (advancePos l)" KindString "[]"]
    by (simp add: lexToken_quote [OF r0 pos] lexQuote_def peek_rest json_string_def)
next
  case False
  define cs where "cs = json_escape s @ QUOTE # r"
  have r0: "rest l = QUOTE # cs" using r by (simp add: json_string_def cs_def)
  note s = scan_while_step [OF r0]
  note f = moved_frame [OF s(2)]
  have "first_byte cs \<noteq> QUOTE" using json_escape_first [OF False] by (simp add: cs_def)
  then have q: "lexToken l = lexString_loop (lex_bytePos l) [] (advancePos l)"
    using s f by (simp add: lexToken_quote [OF r0 pos] lexQuote_def lexString_def peek_rest)
  have "scans (advancePos l) (scanString cs) (string_token (advancePos l) KindString (lex_bytePos l) [])
      (lexString_loop (lex_bytePos l) [] (advancePos l))"
    using lexString_loop_scans [of "advancePos l" "lex_bytePos l" "[]"] s f by simp
  then obtain t l' where t: "moved (advancePos l) t l'" "rest l' = r"
      "lexToken l = (Ok (string_token (advancePos l) KindString (lex_bytePos l) [] t l' (to_valid_utf8 s)), l')"
    using q by (auto simp: scans_def cs_def scanString_json_escape)
  note m = moved_trans [OF s(2) t(1)]
  have "[QUOTE] @ t = json_string s" using moved_frame(8) [OF m] t(2) r by simp
  then show ?thesis using t m moved_frame [OF m] f by (simp add: string_token_def)
qed

end
