(* ===== verification/PrinterSpec.thy ===== *)
theory PrinterSpec
  imports Printer ParserSpec StringRoundTrip
begin

text \<open>
  What the printer prints. The text of a node is a list of pieces: lexemes, which spell the symbols of the node in order, and
  gaps of ignored characters. The printing functions only append to the output and leave the indentation
  as it was. \<open>prints\<close> is the dual of the \<open>parses\<close> calculus of the parser.
\<close>

named_theorems prints_intros \<open>what the printing functions print\<close>

section \<open>Pieces\<close>

datatype piece = Lexeme string | Gap string

fun piece_text :: "piece \<Rightarrow> string" where
  "piece_text (Lexeme s) = s"
| "piece_text (Gap s) = s"

fun is_gap :: "piece \<Rightarrow> bool" where
  "is_gap (Lexeme s) \<longleftrightarrow> False"
| "is_gap (Gap s) \<longleftrightarrow> list_all is_ignored s"

definition pieces_text :: "piece list \<Rightarrow> string" where
  "pieces_text ps = concat (map piece_text ps)"

fun lexemes :: "piece list \<Rightarrow> string list" where
  "lexemes [] = []"
| "lexemes (Lexeme s # ps) = s # lexemes ps"
| "lexemes (Gap s # ps) = lexemes ps"

definition gaps_ok :: "piece list \<Rightarrow> bool" where
  "gaps_ok ps \<longleftrightarrow> list_all (\<lambda>p. case p of Lexeme s \<Rightarrow> True | Gap s \<Rightarrow> list_all is_ignored s) ps"

lemma pieces_simps [simp]:
  "pieces_text [] = []" "pieces_text (p # ps) = piece_text p @ pieces_text ps" "pieces_text (ps @ qs) = pieces_text ps @ pieces_text qs"
  "gaps_ok []" "gaps_ok (Lexeme s # ps) = gaps_ok ps" "gaps_ok (Gap s # ps) \<longleftrightarrow> list_all is_ignored s \<and> gaps_ok ps"
  "gaps_ok (ps @ qs) \<longleftrightarrow> gaps_ok ps \<and> gaps_ok qs"
  by (simp_all add: pieces_text_def gaps_ok_def)

lemma lexemes_append [simp]: "lexemes (ps @ qs) = lexemes ps @ lexemes qs"
  by (induction ps rule: lexemes.induct) auto

lemma is_ignored_simps [simp]: "is_ignored SPACE" "is_ignored LF" "is_ignored (CHR '','')" "is_ignored TAB"
  by (simp_all add: is_ignored_def)

text \<open>
  The text of a block string at an indentation of \<open>n\<close> levels.
\<close>

definition newline_indent :: "nat \<Rightarrow> string" where
  "newline_indent n = LF # replicate (2 * n) SPACE"

definition block_string_text :: "nat \<Rightarrow> string \<Rightarrow> string" where
  "block_string_text n s =
     (let multiple = LF \<in> set s \<or> (s \<noteq> [] \<and> last s = QUOTE);
          lead = multiple \<and> (LF \<in> set s \<or> first_byte s \<notin> {SPACE, TAB})
      in [QUOTE, QUOTE, QUOTE] @ (if lead then newline_indent (Suc n) else []) @
         strings_Replace (strings_Replace s [QUOTE, QUOTE, QUOTE] [BACKSLASH, QUOTE, QUOTE, QUOTE]) [LF] (newline_indent (Suc n)) @
         (if multiple then newline_indent n else []) @ [QUOTE, QUOTE, QUOTE])"

fun spells :: "token list \<Rightarrow> sym \<Rightarrow> string \<Rightarrow> bool" where
  "spells toks (Punct kind) s \<longleftrightarrow> s = kind_String kind"
| "spells toks (Keyword w) s \<longleftrightarrow> s = w"
| "spells toks (OneOf ws q) s \<longleftrightarrow> s = token_Value (toks ! q)"
| "spells toks (NoneOf ws q) s \<longleftrightarrow> s = token_Value (toks ! q)"
| "spells toks (Literal kinds q) s \<longleftrightarrow>
     (case token_Kind (toks ! q) of
        KindString \<Rightarrow> s = json_string (token_Value (toks ! q))
      | KindBlockString \<Rightarrow> (\<exists>n. s = block_string_text n (token_Value (toks ! q)))
      | KindInt \<Rightarrow> s = token_Value (toks ! q)
      | KindFloat \<Rightarrow> s = token_Value (toks ! q)
      | kind \<Rightarrow> s = kind_String kind)"

text \<open>A symbol that matches a token of the store.\<close>

definition holds :: "token list \<Rightarrow> sym \<Rightarrow> bool" where
  "holds toks s \<longleftrightarrow> (\<exists>p. sym_matches toks p s)"

definition prints :: "token list \<Rightarrow> pr \<Rightarrow> sym list \<Rightarrow> bool" where
  "prints toks m syms \<longleftrightarrow> (list_all (holds toks) syms \<longrightarrow> (\<forall>p. 0 \<le> indentLevel p \<longrightarrow>
     (\<exists>ps. m p = (Ok (), p\<lparr>printer_out := printer_out p @ pieces_text ps\<rparr>) \<and> gaps_ok ps \<and>
       list_all2 (spells toks) syms (lexemes ps))))"

lemma printsI:
  assumes "\<And>p :: printer. list_all (holds toks) syms \<Longrightarrow> 0 \<le> indentLevel p \<Longrightarrow>
    m p = (Ok (), p\<lparr>printer_out := printer_out p @ pieces_text (f p)\<rparr>) \<and> gaps_ok (f p) \<and> list_all2 (spells toks) syms (lexemes (f p))"
  shows "prints toks m syms"
  unfolding prints_def using assms by blast

lemma printsD:
  assumes "prints toks m syms" "list_all (holds toks) syms" "0 \<le> indentLevel p"
  obtains ps where "m p = (Ok (), p\<lparr>printer_out := printer_out p @ pieces_text ps\<rparr>)" "gaps_ok ps" "list_all2 (spells toks) syms (lexemes ps)"
  using assms unfolding prints_def by blast

lemma prints_andThen:
  assumes "prints toks m xs" "prints toks m' ys"
  shows "prints toks (andThen m (\<lambda>_. m')) (xs @ ys)"
  unfolding prints_def
proof (intro impI allI)
  fix p :: printer assume h: "list_all (holds toks) (xs @ ys)" "0 \<le> indentLevel p"
  then obtain ps where ps: "m p = (Ok (), p\<lparr>printer_out := printer_out p @ pieces_text ps\<rparr>)" "gaps_ok ps"
      "list_all2 (spells toks) xs (lexemes ps)"
    using assms(1) by (auto simp: prints_def)
  let ?p = "p\<lparr>printer_out := printer_out p @ pieces_text ps\<rparr>"
  obtain qs where qs: "m' ?p = (Ok (), ?p\<lparr>printer_out := printer_out ?p @ pieces_text qs\<rparr>)" "gaps_ok qs"
      "list_all2 (spells toks) ys (lexemes qs)"
    using printsD [OF assms(2), of ?p] h by auto
  show "\<exists>rs. andThen m (\<lambda>_. m') p = (Ok (), p\<lparr>printer_out := printer_out p @ pieces_text rs\<rparr>) \<and> gaps_ok rs \<and>
      list_all2 (spells toks) (xs @ ys) (lexemes rs)"
    using ps qs by (intro exI [of _ "ps @ qs"]) (auto simp: andThen_def list_all2_appendI)
qed

lemma prints_ret: "prints toks (ret ()) []"
  by (rule printsI [where f = "\<lambda>_. []"]) simp

lemma prints_pieces:
  assumes "pieces_text ps = s" "gaps_ok ps" "list_all (holds toks) syms \<Longrightarrow> list_all2 (spells toks) syms (lexemes ps)"
  shows "prints toks (p_WriteString s) syms"
  using assms by (intro printsI [where f = "\<lambda>_. ps"]) (simp add: p_WriteString_def)

lemma prints_lexeme: "(holds toks s \<Longrightarrow> spells toks s w) \<Longrightarrow> prints toks (p_WriteString w) [s]"
  by (rule prints_pieces [where ps = "[Lexeme w]"]) auto

lemma prints_gap: "list_all is_ignored w \<Longrightarrow> prints toks (p_WriteString w) []"
  by (rule prints_pieces [where ps = "[Gap w]"]) auto

lemma prints_punct: "w = kind_String kind \<Longrightarrow> prints toks (p_WriteString w) [Punct kind]"
  by (rule prints_lexeme) simp

lemma prints_if: "(b \<Longrightarrow> prints toks m xs) \<Longrightarrow> (\<not> b \<Longrightarrow> prints toks m' ys) \<Longrightarrow>
   prints toks (if b then m else m') (if b then xs else ys)"
  by simp

lemma writeIndent_run:
  "0 \<le> indentLevel p \<Longrightarrow>
   p_writeIndent p = (Ok (), p\<lparr>printer_out := printer_out p @ replicate (2 * nat (indentLevel p)) SPACE\<rparr>)"
  by (simp add: p_writeIndent_def andThen_def p_indentation_def p_WriteString_def strings_Repeat_def nat_mult_distrib
      concat_replicate_single)

lemma newLine_run:
  "0 \<le> indentLevel p \<Longrightarrow>
   p_writeNewLineWithIndent p = (Ok (), p\<lparr>printer_out := printer_out p @ newline_indent (nat (indentLevel p))\<rparr>)"
  by (simp add: p_writeNewLineWithIndent_def p_WriteString_def andThen_def writeIndent_run newline_indent_def)

lemma prints_indent: "prints toks p_writeIndent []"
  by (rule printsI [where f = "\<lambda>p. [Gap (replicate (2 * nat (indentLevel p)) SPACE)]"]) (simp add: writeIndent_run list_all_iff)

lemma prints_newLine: "prints toks p_writeNewLineWithIndent []"
  by (rule printsI [where f = "\<lambda>p. [Gap (newline_indent (nat (indentLevel p)))]"])
     (simp add: newLine_run newline_indent_def list_all_iff)

lemma prints_rest:
  "prints toks sep [] \<Longrightarrow> (\<And>x. x \<in> set xs \<Longrightarrow> prints toks (f x) (g x)) \<Longrightarrow> prints toks (p_rest sep f xs) (concat (map g xs))"
proof (induction xs)
  case (Cons x xs)
  then show ?case using prints_andThen [OF Cons.prems(1) prints_andThen [OF Cons.prems(2) [of x] Cons.IH]] by simp
qed (simp add: prints_ret)

lemma prints_each:
  assumes "prints toks sep []" "\<And>x. x \<in> set xs \<Longrightarrow> prints toks (f x) (g x)"
  shows "prints toks (p_each sep f xs) (concat (map g xs))"
proof (cases xs)
  case (Cons x ys)
  then show ?thesis
    using prints_andThen [OF assms(2) [of x] prints_rest [OF assms(1), of ys f g]] assms(2) by (simp add: p_each_def)
qed (simp add: p_each_def prints_ret)

lemma prints_option: "(\<And>x. a = Some x \<Longrightarrow> prints toks (f x) (g x)) \<Longrightarrow>
   prints toks (case a of None \<Rightarrow> ret () | Some x \<Rightarrow> f x) (case a of None \<Rightarrow> [] | Some x \<Rightarrow> g x)"
  by (cases a) (auto intro: prints_ret)

lemma prints_spaced:
  assumes "xs \<noteq> [] \<Longrightarrow> prints toks (f xs) (g xs)"
  shows "prints toks (p_spaced f xs) (if xs = [] then [] else g xs)"
  using prints_andThen [OF prints_gap [of "'' ''"] assms] by (auto simp: p_spaced_def prints_ret)

text \<open>Inside a block the indentation is one level deeper.\<close>

lemma prints_nested:
  assumes "prints toks m xs"
  shows "prints toks (andThen (p_indent 1) (\<lambda>_. andThen m (\<lambda>_. p_indent (- 1)))) xs"
  unfolding prints_def
proof (intro impI allI)
  fix p :: printer assume h: "list_all (holds toks) xs" "0 \<le> indentLevel p"
  let ?p = "p\<lparr>indentLevel := indentLevel p + 1\<rparr>"
  obtain ps where ps: "m ?p = (Ok (), ?p\<lparr>printer_out := printer_out ?p @ pieces_text ps\<rparr>)" "gaps_ok ps"
      "list_all2 (spells toks) xs (lexemes ps)"
    using printsD [OF assms, of ?p] h by auto
  show "\<exists>ps. andThen (p_indent 1) (\<lambda>_. andThen m (\<lambda>_. p_indent (- 1))) p =
      (Ok (), p\<lparr>printer_out := printer_out p @ pieces_text ps\<rparr>) \<and> gaps_ok ps \<and> list_all2 (spells toks) xs (lexemes ps)"
    using ps by (intro exI [of _ ps]) (simp add: andThen_def p_indent_def)
qed

lemma prints_block:
  assumes "\<And>x. x \<in> set xs \<Longrightarrow> prints toks (f x) (g x)"
  shows "prints toks (p_block f xs) (if xs = [] then [] else Punct KindLeftBrace # concat (map g xs) @ [Punct KindRightBrace])"
proof -
  have open_: "prints toks (p_WriteString [CHR ''{'', LF]) [Punct KindLeftBrace]"
    by (rule prints_pieces [where ps = "[Lexeme ''{'', Gap [LF]]"]) auto
  have inner: "prints toks (andThen p_writeIndent (\<lambda>_. p_each p_writeNewLineWithIndent f xs)) (concat (map g xs))"
    using prints_andThen [OF prints_indent prints_each [OF prints_newLine assms]] by simp
  have close_: "prints toks (andThen p_writeNewLineWithIndent (\<lambda>_. p_WriteString ''}'')) [Punct KindRightBrace]"
    using prints_andThen [OF prints_newLine prints_punct [of "''}''" KindRightBrace]] by simp
  note all = prints_andThen [OF open_ prints_andThen [OF prints_nested [OF inner] close_]]
  show ?thesis
    using all by (auto simp: p_block_def p_beginBlock_def p_endBlock_def andThen_assoc prints_ret)
qed

section \<open>Names, types and values\<close>

lemma prints_name: "prints toks (printName toks name) (name_syms name)"
  unfolding printName_def by (rule prints_lexeme) (simp add: name_Value_def)

lemma prints_noneOf: "prints toks (printName toks name) [NoneOf ws (name_Token name)]"
  unfolding printName_def by (rule prints_lexeme) (simp add: name_Value_def)

lemma prints_seq: "prints toks m xs \<Longrightarrow> prints toks m' ys \<Longrightarrow> zs = xs @ ys \<Longrightarrow> prints toks (andThen m (\<lambda>_. m')) zs"
  using prints_andThen by simp

lemma prints_literals [prints_intros]:
  "prints toks (p_WriteString ''['') [Punct KindLeftBracket]" "prints toks (p_WriteString '']'') [Punct KindRightBracket]"
  "prints toks (p_WriteString ''{'') [Punct KindLeftBrace]" "prints toks (p_WriteString ''}'') [Punct KindRightBrace]"
  "prints toks (p_WriteString ''('') [Punct KindLeftParen]" "prints toks (p_WriteString '')'') [Punct KindRightParen]"
  "prints toks (p_WriteString ''!'') [Punct KindBang]" "prints toks (p_WriteString ''$'') [Punct KindDollar]"
  "prints toks (p_WriteString ''@'') [Punct KindAt]" "prints toks (p_WriteString ''...'') [Punct KindSpread]"
  "prints toks (p_WriteString '', '') []" "prints toks (p_WriteString '' '') []"
  by (auto intro: prints_punct prints_gap)

lemma prints_spaced_literals [prints_intros]:
  "prints toks (p_WriteString '': '') [Punct KindColon]" "prints toks (p_WriteString '' = '') [Punct KindEquals]"
  "prints toks (p_WriteString '' on '') [Keyword ''on'']" "prints toks (p_WriteString ''fragment '') [Keyword ''fragment'']"
  by (rule prints_pieces [where ps = "[Lexeme '':'', Gap '' '']"], simp_all)
     (rule prints_pieces [where ps = "[Gap '' '', Lexeme ''='', Gap '' '']"], simp_all,
      rule prints_pieces [where ps = "[Gap '' '', Lexeme ''on'', Gap '' '']"], simp_all,
      rule prints_pieces [where ps = "[Lexeme ''fragment'', Gap '' '']"], simp_all)

lemmas [prints_intros] = prints_andThen prints_name prints_ret prints_newLine prints_indent

lemma prints_type [prints_intros]: "prints toks (printType toks t) (type_syms t)"
  by (induction toks t rule: printType.induct)
     (auto simp: printNamedType_def intro: prints_name intro!: prints_seq [OF prints_literals(1)] prints_seq [OF _ prints_literals(7)]
       prints_andThen [OF _ prints_literals(2)])

lemma prints_variable [prints_intros]: "prints toks (printVariable toks name) (Punct KindDollar # name_syms name)"
  unfolding printVariable_def by (rule prints_seq, (rule prints_intros)+, simp)

lemma printBlockString_run:
  assumes "0 \<le> indentLevel p"
  shows "printBlockString s ''  '' p = (Ok (), p\<lparr>printer_out := printer_out p @ block_string_text (nat (indentLevel p)) s\<rparr>)"
proof -
  obtain n where n: "indentLevel p = int n" using assms nonneg_int_cases by blast
  have rep: "[LF] @ strings_Repeat '' '' (2 * n) @ ''  '' = newline_indent (Suc n)"
    by (simp add: newline_indent_def strings_Repeat_def concat_replicate_single replicate_append_same [symmetric])
  then have nl: "newline_indent n @ ''  '' = newline_indent (Suc n)"
    by (simp add: newline_indent_def strings_Repeat_def concat_replicate_single)
  have first: "s \<noteq> [] \<Longrightarrow> hd s = first_byte s" by (cases s) auto
  show ?thesis
    using rep nl first n
    by (auto simp: printBlockString_def block_string_text_def Let_def andThen_def p_WriteString_def newLine_run p_indentation_def
        nat_mult_distrib first_byte_def split: list.splits)
qed

lemma p_json_string: "stream_w (snd (Flush p_Write (WriteString p_Write s (NewStream p)))) = p_put p (json_string s)"
proof -
  let ?stream = "NewStream p :: (printer, unit) stream"
  have "stream_err ?stream = None" "pw.contents ?stream = p"
    by (simp_all add: NewStream_def pw.contents_def pw.put_Nil)
  then show ?thesis using pw.emitsD [OF pw.emits_WriteString] pw.Flush_contents by metis
qed

lemma prints_string: "prints toks (printStringValue toks t ''  '') [Literal [KindString, KindBlockString] t]"
proof -
  let ?v = "token_Value (toks ! t)"
  let ?text = "\<lambda>p :: printer. if token_Kind (toks ! t) = KindBlockString then block_string_text (nat (indentLevel p)) ?v else json_string ?v"
  have json: "stream_w (snd (Flush p_Write (WriteString p_Write ?v (NewStream p)))) = p\<lparr>printer_out := printer_out p @ json_string ?v\<rparr>" for p
    by (simp add: p_json_string p_put_def)
  show ?thesis
  proof (rule printsI [where f = "\<lambda>p. [Lexeme (?text p)]"])
    fix p :: printer assume "list_all (holds toks) [Literal [KindString, KindBlockString] t]" "0 \<le> indentLevel p"
    then show "printStringValue toks t ''  '' p = (Ok (), p\<lparr>printer_out := printer_out p @ pieces_text [Lexeme (?text p)]\<rparr>) \<and>
        gaps_ok [Lexeme (?text p)] \<and> list_all2 (spells toks) [Literal [KindString, KindBlockString] t] (lexemes [Lexeme (?text p)])"
      using printBlockString_run json by (auto simp: printStringValue_def holds_def)
  qed
qed


lemma prints_boolean: "prints toks (printBooleanValue toks t) [OneOf [''true'', ''false''] t]"
proof (rule printsI [where f = "\<lambda>_. [Lexeme (token_Value (toks ! t))]"])
  fix p :: printer assume "list_all (holds toks) [OneOf [''true'', ''false''] t]" "0 \<le> indentLevel p"
  then have "token_Value (toks ! t) = ''true'' \<or> token_Value (toks ! t) = ''false''" by (auto simp: holds_def)
  then show "printBooleanValue toks t p = (Ok (), p\<lparr>printer_out := printer_out p @ pieces_text [Lexeme (token_Value (toks ! t))]\<rparr>) \<and>
      gaps_ok [Lexeme (token_Value (toks ! t))] \<and>
      list_all2 (spells toks) [OneOf [''true'', ''false''] t] (lexemes [Lexeme (token_Value (toks ! t))])"
    by (auto simp: printBooleanValue_def andThen_def p_WriteString_def)
qed

lemma prints_pair:
  assumes "prints toks (printValue toks v) (value_syms v)"
  shows "prints toks (andThen (printName toks name) (\<lambda>_. andThen (p_WriteString '': '') (\<lambda>_. printValue toks v)))
    (name_syms name @ Punct KindColon # value_syms v)"
  by (rule prints_seq, (rule prints_intros assms)+, simp)

lemma object_field_syms_eq:
  "object_field_syms = (\<lambda>f. name_syms (objectField_Name f) @ Punct KindColon # value_syms (objectField_Value f))"
proof
  fix f show "object_field_syms f = name_syms (objectField_Name f) @ Punct KindColon # value_syms (objectField_Value f)"
    by (cases f) simp
qed

lemma prints_value [prints_intros]: "prints toks (printValue toks v) (value_syms v)"
proof (induction toks v rule: printValue.induct)
  case (5 toks vs)
  have "prints toks (p_each (p_WriteString '', '') (printValue toks) vs) (concat (map value_syms vs))"
    by (rule prints_each [OF prints_literals(11) 5])
  then show ?case by (simp, intro prints_seq [OF prints_literals(1)], rule prints_andThen) (auto intro: prints_literals)
next
  case (6 toks t)
  have "prints toks (p_WriteString ''['') [Literal [KindLeftBracket] t]" by (rule prints_lexeme) (auto simp: holds_def)
  then show ?case by (simp, intro prints_seq) (auto intro: prints_literals)
next
  case (8 toks fs)
  have "prints toks (p_each (p_WriteString '', '') (\<lambda>f. andThen (printName toks (objectField_Name f)) (\<lambda>_. andThen (p_WriteString '': '') (\<lambda>_.
      printValue toks (objectField_Value f)))) fs) (concat (map object_field_syms fs))"
    unfolding object_field_syms_eq by (rule prints_each [OF prints_literals(11) prints_pair [OF 8]])
  then show ?case by (simp, intro prints_seq [OF prints_literals(3)], rule prints_andThen) (auto intro: prints_literals)
next
  case (9 toks t)
  have "prints toks (p_WriteString ''{'') [Literal [KindLeftBrace] t]" by (rule prints_lexeme) (auto simp: holds_def)
  then show ?case by (simp, intro prints_seq) (auto intro: prints_literals)
qed (auto simp: prints_boolean prints_string prints_variable holds_def intro!: prints_lexeme)

section \<open>Arguments, directives and selections\<close>

lemma prints_list:
  assumes "\<And>x. x \<in> set xs \<Longrightarrow> prints toks (f x) (g x)" and sep: "prints toks sep []"
    and a: "prints toks a [Punct openKind]" and b: "prints toks b [Punct closeKind]"
  shows "prints toks (if xs \<noteq> [] then andThen a (\<lambda>_. andThen (p_each sep f xs) (\<lambda>_. b)) else ret ())
    (optional (bracketed openKind closeKind g) xs)"
proof -
  have "prints toks (andThen a (\<lambda>_. andThen (p_each sep f xs) (\<lambda>_. b))) (bracketed openKind closeKind g xs)"
    by (rule prints_seq [OF a prints_andThen [OF prints_each [OF sep assms(1)] b]]) (simp_all add: bracketed_def)
  then show ?thesis by (simp add: optional_def prints_ret)
qed

lemma prints_argument [prints_intros]: "prints toks (printArgument toks a) (argument_syms a)"
  using prints_pair [OF prints_value] by (cases a) (simp add: printArgument_def)

lemma prints_arguments [prints_intros]: "prints toks (printArguments toks ''('' args '', '' '')'') (optional arguments_syms args)"
  unfolding printArguments_def arguments_syms_def by (rule prints_list) (rule prints_intros)+

lemma prints_directive [prints_intros]: "prints toks (printDirective toks d) (directive_syms d)"
  unfolding printDirective_def by (rule prints_seq, (rule prints_intros)+) (cases d, simp)

lemma prints_directives [prints_intros]: "prints toks (printDirectives toks ds) (directives_syms ds)"
  unfolding printDirectives_def directives_syms_def by (rule prints_each) (rule prints_intros)+

lemma prints_spaced_directives [prints_intros]: "prints toks (p_spaced (printDirectives toks) ds) (directives_syms ds)"
proof -
  have "prints toks (p_spaced (printDirectives toks) ds) (if ds = [] then [] else directives_syms ds)"
    by (rule prints_spaced) (rule prints_directives)
  then show ?thesis by (simp add: directives_syms_def split: if_splits)
qed

definition block_syms :: "('a \<Rightarrow> sym list) \<Rightarrow> 'a list \<Rightarrow> sym list" where
  "block_syms g = optional (bracketed KindLeftBrace KindRightBrace g)"

lemma prints_spaced_block:
  assumes "\<And>s. s \<in> set ss \<Longrightarrow> prints toks (f s) (g s)"
  shows "prints toks (p_spaced (p_block f) ss) (block_syms g ss)"
proof -
  have "prints toks (p_block f ss) (block_syms g ss)"
    using prints_block [of ss toks f g, OF assms] by (simp add: block_syms_def optional_def bracketed_def split: if_splits)
  then have "prints toks (p_spaced (p_block f) ss) (if ss = [] then [] else block_syms g ss)"
    by (rule prints_spaced)
  then show ?thesis by (simp add: block_syms_def optional_def split: if_splits)
qed

lemma prints_condition [prints_intros]:
  "prints toks (case c of None \<Rightarrow> ret () | Some t \<Rightarrow> andThen (p_WriteString '' on '') (\<lambda>_. printNamedType toks t)) (condition_syms c)"
  unfolding condition_syms_def printNamedType_def by (rule prints_option, rule prints_seq, (rule prints_intros)+, simp)

lemma prints_alias [prints_intros]:
  "prints toks (case a of None \<Rightarrow> ret () | Some a \<Rightarrow> andThen (printName toks a) (\<lambda>_. p_WriteString '': ''))
     (case a of None \<Rightarrow> [] | Some a \<Rightarrow> name_syms a @ [Punct KindColon])"
  by (rule prints_option) (rule prints_andThen [OF prints_name prints_spaced_literals(1)])

lemma prints_selection: "selection_ok s \<Longrightarrow> prints toks (printSelection toks s) (selection_syms s)"
proof (induction toks s rule: printSelection.induct)
  case (1 toks alt name arguments directives selectionSet)
  have "prints toks (p_spaced (p_block (printSelection toks)) selectionSet) (block_syms selection_syms selectionSet)"
    using 1 by (intro prints_spaced_block) (auto simp: list_all_iff)
  note b = this
  show ?case unfolding printSelection.simps
    by (rule prints_seq, (rule prints_intros b)+) (simp add: block_syms_def optional_def bracketed_def)
next
  case (2 toks name directives)
  show ?case unfolding printSelection.simps
    by (rule prints_seq, rule prints_intros, rule prints_andThen, rule prints_noneOf, rule prints_intros, simp)
next
  case (3 toks typeCondition directives selectionSet)
  have "prints toks (p_spaced (p_block (printSelection toks)) selectionSet) (block_syms selection_syms selectionSet)"
    using 3 by (intro prints_spaced_block) (auto simp: list_all_iff)
  note b = this
  show ?case unfolding printSelection.simps
    by (rule prints_seq, (rule prints_intros b)+) (use 3(2) in \<open>simp add: block_syms_def optional_def bracketed_def\<close>)
qed

lemma prints_selection_set:
  assumes "list_all selection_ok ss" "ss \<noteq> []"
  shows "prints toks (printSelectionSet toks ss) (selection_set_syms ss)"
  using prints_block [of ss toks "printSelection toks" selection_syms] assms prints_selection
  by (simp add: printSelectionSet_def selection_set_syms_def bracketed_def list_all_iff)

section \<open>Definitions and documents\<close>

lemma prints_default [prints_intros]:
  "prints toks (case d of None \<Rightarrow> ret () | Some v \<Rightarrow> andThen (p_WriteString '' = '') (\<lambda>_. printValue toks v)) (default_syms d)"
  unfolding default_syms_def by (rule prints_option, rule prints_seq, (rule prints_intros)+, simp)

lemma prints_variable_definition [prints_intros]: "prints toks (printVariableDefinition toks v) (variable_definition_syms v)"
  unfolding printVariableDefinition_def by (rule prints_seq, (rule prints_intros)+) (cases v, simp)

lemma prints_variable_definitions [prints_intros]:
  "prints toks (printVariableDefinitions toks vs) (optional variable_definitions_syms vs)"
  unfolding printVariableDefinitions_def variable_definitions_syms_def by (rule prints_list) (rule prints_intros)+

text \<open>
  The keyword of an anonymous query without variables and directives is not printed.
\<close>

fun shorthand :: "token list \<Rightarrow> token_ref definition_node \<Rightarrow> token_ref definition_node" where
  "shorthand toks (OperationDefinition typ name variables directives selections) =
     OperationDefinition
       (if name = None \<and> variables = [] \<and> directives = [] \<and>
           OperationType toks (OperationDefinition typ name variables directives selections) = ''query''
        then None else typ) name variables directives selections"
| "shorthand toks (FragmentDefinition name variables typeCondition directives selections) =
     FragmentDefinition name variables typeCondition directives selections"

lemma prints_operation_name [prints_intros]:
  "prints toks (case name of None \<Rightarrow> ret () | Some n \<Rightarrow> printName toks n) (operation_name_syms name)"
  unfolding operation_name_syms_def by (rule prints_option) (rule prints_name)

lemma prints_operation_head:
  "prints toks
     (if name \<noteq> None \<or> varDefs \<noteq> [] then
        andThen (p_WriteString '' '') (\<lambda>_. andThen (case name of None \<Rightarrow> ret () | Some n \<Rightarrow> printName toks n) (\<lambda>_.
          printVariableDefinitions toks varDefs))
      else ret ())
     (operation_name_syms name @ optional variable_definitions_syms varDefs)" (is "prints toks (if _ then ?m else _) ?xs")
proof -
  have "prints toks ?m ?xs" by (rule prints_seq, (rule prints_intros)+, simp)
  then show ?thesis by (auto simp: operation_name_syms_def optional_def prints_ret)
qed

lemma prints_definition:
  assumes "definition_ok options d"
  shows "prints toks (printDefinition toks d) (definition_syms (shorthand toks d))"
proof (cases d)
  case (OperationDefinition ty name varDefs directives ss)
  have sel: "prints toks (printSelectionSet toks ss) (selection_set_syms ss)"
    using assms OperationDefinition by (intro prints_selection_set) auto
  have ss: "ss \<noteq> []" using assms OperationDefinition by simp
  let ?op = "OperationType toks d"
  show ?thesis
  proof (cases "name = None \<and> directives = [] \<and> varDefs = [] \<and> ?op = ''query''")
    case True
    then show ?thesis using sel OperationDefinition
      by (auto simp: operation_name_syms_def optional_def directives_syms_def Let_def)
  next
    case False
    then obtain t where ty: "ty = Some t" using assms OperationDefinition by (cases ty) (auto simp: OperationType_def)
    have op: "prints toks (p_WriteString ?op) [OneOf operation_keywords t]"
      by (rule prints_lexeme) (simp add: OperationType_def OperationDefinition ty)
    have spaced: "prints toks (p_spaced (printSelectionSet toks) ss) (selection_set_syms ss)"
      using prints_spaced [of ss toks "printSelectionSet toks" selection_set_syms, OF sel] ss by simp
    have "prints toks (andThen (p_WriteString ?op) (\<lambda>_.
        andThen (if name \<noteq> None \<or> varDefs \<noteq> [] then
                   andThen (p_WriteString '' '') (\<lambda>_.
                   andThen (case name of None \<Rightarrow> ret () | Some n \<Rightarrow> printName toks n) (\<lambda>_.
                   printVariableDefinitions toks varDefs))
                 else ret ()) (\<lambda>_.
        andThen (p_spaced (printDirectives toks) directives) (\<lambda>_.
        p_spaced (printSelectionSet toks) ss)))) (definition_syms d)"
      by (rule prints_seq, rule op, rule prints_andThen, rule prints_operation_head, rule prints_andThen,
          rule prints_spaced_directives, rule spaced) (simp add: OperationDefinition ty)
    moreover have "definition_syms (shorthand toks d) = definition_syms d" using False OperationDefinition ty by auto
    ultimately show ?thesis using False OperationDefinition by (auto simp: Let_def)
  qed
next
  case (FragmentDefinition name varDefs typeCondition directives ss)
  have sel: "prints toks (printSelectionSet toks ss) (selection_set_syms ss)"
    using assms FragmentDefinition by (intro prints_selection_set) auto
  have ds: "prints toks (if directives \<noteq> [] then andThen (printDirectives toks directives) (\<lambda>_. p_WriteString '' '') else ret ())
      (directives_syms directives)"
    using prints_andThen [OF prints_directives prints_literals(12), of toks directives] prints_ret by (simp add: directives_syms_def)
  show ?thesis unfolding FragmentDefinition printDefinition.simps printNamedType_def
    by (rule prints_seq, rule prints_intros, rule prints_andThen, rule prints_noneOf, (rule prints_intros ds sel)+) simp
qed

text \<open>A document is printed with shorthands and ends in a newline.\<close>

definition shorthand_document :: "token list \<Rightarrow> token_ref document \<Rightarrow> token_ref document" where
  "shorthand_document toks doc = Document (map (shorthand toks) (document_Definitions doc))"

lemma prints_document:
  assumes "document_ok options doc"
  shows "prints toks (printDocument toks doc) (document_syms (shorthand_document toks doc))"
proof -
  have "prints toks (p_each (p_WriteString [LF, LF]) (printDefinition toks) (document_Definitions doc))
      (concat (map (definition_syms \<circ> shorthand toks) (document_Definitions doc)))"
    using assms by (intro prints_each prints_gap) (auto simp: document_ok_def list_all_iff intro: prints_definition)
  then show ?thesis unfolding printDocument_def printDefinitions_def
    by (intro prints_seq [OF _ prints_gap]) (auto simp: document_syms_def shorthand_document_def)
qed


section \<open>Printing what has been parsed\<close>

lemma list_all2_holds: "list_all2 (sym_matches toks) ps syms \<Longrightarrow> list_all (holds toks) syms"
  by (induction rule: list_all2_induct) (auto simp: holds_def)

lemma syms_hold:
  assumes "whole_source source syms l"
  shows "list_all (holds (lex_tokens l)) syms"
proof -
  have "list_all2 (sym_matches (lex_tokens l)) (significant (lex_tokens l) 0 (length (lex_tokens l))) (Punct KindSOF # syms @ [Punct KindEOF])"
    using assms by (simp add: whole_source_def)
  then have "list_all (holds (lex_tokens l)) (Punct KindSOF # syms @ [Punct KindEOF])" by (rule list_all2_holds)
  then show ?thesis by simp
qed

lemma definition_syms_shorthand: "set (definition_syms (shorthand toks d)) \<subseteq> set (definition_syms d)"
  by (cases d) (auto split: option.splits)

lemma document_syms_shorthand: "set (document_syms (shorthand_document toks doc)) \<subseteq> set (document_syms doc)"
  using definition_syms_shorthand by (fastforce simp: document_syms_def shorthand_document_def)

definition spelled :: "token list \<Rightarrow> sym list \<Rightarrow> string \<Rightarrow> bool" where
  "spelled toks syms s \<longleftrightarrow> (\<exists>ps. s = pieces_text ps \<and> gaps_ok ps \<and> list_all2 (spells toks) syms (lexemes ps))"

lemma FPrint_prints:
  assumes "prints toks (printNode toks node) syms" "list_all (holds toks) syms"
  shows "\<exists>s. FPrint toks out node = Ok (out @ s) \<and> spelled toks syms s"
  by (rule printsD [OF assms, of "\<lparr>printer_out = out, indentLevel = 0\<rparr>"]) (auto simp: FPrint_def spelled_def)


lemma Print_spelled:
  assumes "whole_source source xs l" "set syms \<subseteq> set xs" "prints (lex_tokens l) (printNode (lex_tokens l) node) syms"
  shows "\<exists>s. Print (lex_tokens l) node = Ok s \<and> spelled (lex_tokens l) syms s"
proof -
  have "list_all (holds (lex_tokens l)) syms" using syms_hold [OF assms(1)] assms(2) by (auto simp: list_all_iff)
  then show ?thesis using FPrint_prints [OF assms(3), of "[]"] by (simp add: Print_def)
qed



text \<open>
  the same for values and types: whatever \<open>ParseValue\<close> and \<open>ParseType\<close> return is printed, without a panic, as
  the symbols that were read.
\<close>

theorem Print_value_type:
  "(ParseValue (Some source) = Ok (v, l) \<longrightarrow>
      (\<exists>s. Print (lex_tokens l) (ValueNode v) = Ok s \<and> spelled (lex_tokens l) (value_syms v) s)) \<and>
   (ParseType (Some source) = Ok (t, l) \<longrightarrow>
      (\<exists>s. Print (lex_tokens l) (TypeNode t) = Ok s \<and> spelled (lex_tokens l) (type_syms t) s))"
  using Print_spelled [of source "value_syms v" l "value_syms v" "ValueNode v"] Print_spelled [of source "type_syms t" l "type_syms t" "TypeNode t"]
    prints_value [of "lex_tokens l" v] prints_type [of "lex_tokens l" t] ParseValue_post [of source v l] ParseType_post [of source t l] by simp

theorem Print_value_type_witness:
  "\<exists>l s. Print (lex_tokens l) (TypeNode (ListType (NonNullType (NamedType (Name 2))))) = Ok s \<and>
     spelled (lex_tokens l) (type_syms (ListType (NonNullType (NamedType (Name 2))))) s"
proof -
  have "case ParseType (Some sample_type) of Ok (t, l) \<Rightarrow> t = ListType (NonNullType (NamedType (Name 2))) | _ \<Rightarrow> False" by code_simp
  then obtain l where "ParseType (Some sample_type) = Ok (ListType (NonNullType (NamedType (Name 2))), l)"
    by (auto split: outcome.splits prod.splits)
  then show ?thesis using Print_value_type [of sample_type _ l] by blast
qed



definition sample_string_token :: token where
  "sample_string_token = \<lparr>token_Kind = KindString, token_Location = 1, token_Length = 3, token_Value = ''a'' @ [LF], token_Prev = None, token_Next = None\<rparr>"

definition printed_source :: source where
  "printed_source = \<lparr>source_body = [QUOTE, CHR ''a'', BACKSLASH, CHR ''n'', QUOTE], source_name = [], source_lineOffset = 0, source_columnOffset = 0\<rparr>"


end
