(* ===== verification/OperationCache.thy ===== *)
theory OperationCache
  imports Prelude
begin

text \<open>
  \<open>graphql/handler/operation_cache.go\<close>: the cache of prepared operations behind the handler, an eviction list threaded through
  a slice of entries. Pointers to entries are \<open>entry_ref\<close>: the sentinel of the list or a slot of the slice. The bit set of
  \<open>github.com/willf/bitset\<close> is a parameter with its documented behaviour as \<open>bitset_laws\<close>. A goroutine that locks a mutex it
  already holds blocks for ever; that is the error \<open>Deadlock\<close>.
\<close>

section \<open>Entries\<close>

datatype entry_ref = Root | Slot nat

record 'op lru_entry =
  entry_query :: string
  entry_operation :: "'op option"
  entry_next :: "entry_ref option"
  entry_prev :: "entry_ref option"

definition zero_entry :: "'op lru_entry" where
  "zero_entry = \<lparr>entry_query = [], entry_operation = None, entry_next = None, entry_prev = None\<rparr>"

record 'b bitset_ops =
  bs_Set :: "'b \<Rightarrow> nat \<Rightarrow> 'b"
  bs_Clear :: "'b \<Rightarrow> nat \<Rightarrow> 'b"
  bs_NextSet :: "'b \<Rightarrow> nat \<Rightarrow> nat option"
  bs_empty :: 'b

record ('b, 'op) lru_list =
  list_entries :: "'op lru_entry list"
  list_allocated :: 'b
  list_root :: "'op lru_entry"
  list_len :: nat

record ('b, 'op) lru_cache =
  cache_maxEntries :: nat
  cache_locked :: bool
  cache_map :: "string \<rightharpoonup> entry_ref"
  cache_list :: "('b, 'op) lru_list"

datatype cache_error = ErrZeroCacheSize | Deadlock

type_synonym ('b, 'op, 'a) list_action = "(('b, 'op) lru_list, cache_error, 'a) action"
type_synonym ('b, 'op, 'a) cache_action = "(('b, 'op) lru_cache, cache_error, 'a) action"

text \<open>Reading and writing through a pointer; a nil pointer panics.\<close>

definition load_entry :: "entry_ref option \<Rightarrow> ('b, 'op, 'op lru_entry) list_action" where
  "load_entry r = (\<lambda>l. case r of
      None \<Rightarrow> (Panic, l)
    | Some Root \<Rightarrow> (Ok (list_root l), l)
    | Some (Slot i) \<Rightarrow> if i < length (list_entries l) then (Ok (list_entries l ! i), l) else (Panic, l))"

definition store_entry :: "entry_ref option \<Rightarrow> ('op lru_entry \<Rightarrow> 'op lru_entry) \<Rightarrow> ('b, 'op, unit) list_action" where
  "store_entry r f = (\<lambda>l. case r of
      None \<Rightarrow> (Panic, l)
    | Some Root \<Rightarrow> (Ok (), l\<lparr>list_root := f (list_root l)\<rparr>)
    | Some (Slot i) \<Rightarrow>
        if i < length (list_entries l) then (Ok (), l\<lparr>list_entries := (list_entries l)[i := f (list_entries l ! i)]\<rparr>)
        else (Panic, l))"

section \<open>Allocation\<close>

definition newLRUEntryAllocator :: "'b bitset_ops \<Rightarrow> nat \<Rightarrow> 'op lru_entry list \<times> 'b" where
  "newLRUEntryAllocator ops maxEntries =
     (replicate maxEntries zero_entry, bs_Set ops (bs_empty ops) (usub maxEntries 1))"

definition allocator_New :: "'b bitset_ops \<Rightarrow> string \<Rightarrow> 'op \<Rightarrow> ('b, 'op, entry_ref) list_action" where
  "allocator_New ops query operation = (\<lambda>l.
     case bs_NextSet ops (list_allocated l) 0 of
       None \<Rightarrow> (Panic, l)
     | Some i \<Rightarrow>
         if i < length (list_entries l) then
           andThen (store_entry (Some (Slot i)) (\<lambda>e. e\<lparr>entry_query := query, entry_operation := Some operation\<rparr>)) (\<lambda>_. ret (Slot i))
             (l\<lparr>list_allocated := bs_Set ops (list_allocated l) i\<rparr>)
         else (Panic, l))"

text \<open>\<open>indexOf\<close> computes the slot from the address of an entry; the sentinel is not in the slice.\<close>

definition allocator_Free :: "'b bitset_ops \<Rightarrow> entry_ref \<Rightarrow> ('b, 'op, unit) list_action" where
  "allocator_Free ops entry =
     andThen (store_entry (Some entry) (\<lambda>e. e\<lparr>entry_query := [], entry_operation := None\<rparr>)) (\<lambda>_ l.
       case entry of Root \<Rightarrow> (Panic, l) | Slot i \<Rightarrow> (Ok (), l\<lparr>list_allocated := bs_Clear ops (list_allocated l) i\<rparr>))"

section \<open>The eviction list\<close>

definition newLRUEvictList :: "'b bitset_ops \<Rightarrow> nat \<Rightarrow> ('b, 'op) lru_list" where
  "newLRUEvictList ops maxEntries =
     (case newLRUEntryAllocator ops maxEntries of (entries, allocated) \<Rightarrow>
        \<lparr>list_entries = entries, list_allocated = allocated,
         list_root = zero_entry\<lparr>entry_next := Some Root, entry_prev := Some Root\<rparr>, list_len = 0\<rparr>)"

definition list_Back :: "('b, 'op) lru_list \<Rightarrow> entry_ref option" where
  "list_Back l = (if list_len l = 0 then None else entry_prev (list_root l))"

definition list_insert :: "entry_ref \<Rightarrow> entry_ref \<Rightarrow> ('b, 'op, entry_ref) list_action" where
  "list_insert e at =
     andThen (load_entry (Some at)) (\<lambda>a. let n = entry_next a in
     andThen (store_entry (Some at) (\<lambda>x. x\<lparr>entry_next := Some e\<rparr>)) (\<lambda>_.
     andThen (store_entry (Some e) (\<lambda>x. x\<lparr>entry_prev := Some at\<rparr>)) (\<lambda>_.
     andThen (store_entry (Some e) (\<lambda>x. x\<lparr>entry_next := n\<rparr>)) (\<lambda>_.
     andThen (store_entry n (\<lambda>x. x\<lparr>entry_prev := Some e\<rparr>)) (\<lambda>_ l.
     (Ok e, l\<lparr>list_len := list_len l + 1\<rparr>))))))"

definition list_insertEntry :: "'b bitset_ops \<Rightarrow> string \<Rightarrow> 'op \<Rightarrow> entry_ref \<Rightarrow> ('b, 'op, entry_ref) list_action" where
  "list_insertEntry ops query operation at = andThen (allocator_New ops query operation) (\<lambda>e. list_insert e at)"

definition list_unlink :: "entry_ref \<Rightarrow> ('b, 'op, unit) list_action" where
  "list_unlink e =
     andThen (load_entry (Some e)) (\<lambda>x.
     andThen (store_entry (entry_prev x) (\<lambda>y. y\<lparr>entry_next := entry_next x\<rparr>)) (\<lambda>_.
     andThen (load_entry (Some e)) (\<lambda>x.
     store_entry (entry_next x) (\<lambda>y. y\<lparr>entry_prev := entry_prev x\<rparr>))))"

definition list_remove :: "'b bitset_ops \<Rightarrow> entry_ref \<Rightarrow> ('b, 'op, unit) list_action" where
  "list_remove ops e =
     andThen (list_unlink e) (\<lambda>_.
     andThen (store_entry (Some e) (\<lambda>x. x\<lparr>entry_next := None, entry_prev := None\<rparr>)) (\<lambda>_.
     andThen (\<lambda>l. (Ok (), l\<lparr>list_len := usub (list_len l) 1\<rparr>)) (\<lambda>_.
     allocator_Free ops e)))"

definition list_move :: "entry_ref \<Rightarrow> entry_ref \<Rightarrow> ('b, 'op, entry_ref) list_action" where
  "list_move e at =
     (if e = at then ret e
      else
        andThen (list_unlink e) (\<lambda>_.
        andThen (load_entry (Some at)) (\<lambda>a. let n = entry_next a in
        andThen (store_entry (Some at) (\<lambda>x. x\<lparr>entry_next := Some e\<rparr>)) (\<lambda>_.
        andThen (store_entry (Some e) (\<lambda>x. x\<lparr>entry_prev := Some at\<rparr>)) (\<lambda>_.
        andThen (store_entry (Some e) (\<lambda>x. x\<lparr>entry_next := n\<rparr>)) (\<lambda>_.
        andThen (store_entry n (\<lambda>x. x\<lparr>entry_prev := Some e\<rparr>)) (\<lambda>_.
        ret e)))))))"

definition list_Remove :: "'b bitset_ops \<Rightarrow> entry_ref \<Rightarrow> ('b, 'op, unit) list_action" where
  "list_Remove ops e = list_remove ops e"

definition list_PushFront :: "'b bitset_ops \<Rightarrow> string \<Rightarrow> 'op \<Rightarrow> ('b, 'op, entry_ref) list_action" where
  "list_PushFront ops query operation = list_insertEntry ops query operation Root"

definition list_MoveToFront :: "entry_ref \<Rightarrow> ('b, 'op, unit) list_action" where
  "list_MoveToFront e = (\<lambda>l.
     if entry_next (list_root l) = Some e then (Ok (), l)
     else andThen (list_move e Root) (\<lambda>_. ret ()) l)"

section \<open>The cache\<close>

definition NewLRUOperationCache :: "'b bitset_ops \<Rightarrow> nat \<Rightarrow> (cache_error, ('b, 'op) lru_cache) outcome" where
  "NewLRUOperationCache ops maxEntries =
     (if maxEntries \<le> 0 then Error ErrZeroCacheSize
      else Ok \<lparr>cache_maxEntries = maxEntries, cache_locked = False, cache_map = Map.empty,
               cache_list = newLRUEvictList ops maxEntries\<rparr>)"

definition m_Lock :: "('b, 'op, unit) cache_action" where
  "m_Lock = (\<lambda>c. if cache_locked c then (Error Deadlock, c) else (Ok (), c\<lparr>cache_locked := True\<rparr>))"

definition m_Unlock :: "('b, 'op, unit) cache_action" where
  "m_Unlock = (\<lambda>c. (Ok (), c\<lparr>cache_locked := False\<rparr>))"

definition on_list :: "('b, 'op, 'a) list_action \<Rightarrow> ('b, 'op, 'a) cache_action" where
  "on_list m = (\<lambda>c. case m (cache_list c) of (r, l) \<Rightarrow> (r, c\<lparr>cache_list := l\<rparr>))"

text \<open>\<open>Get\<close> returns \<open>None\<close> when \<open>ok\<close> is false.\<close>

definition cache_Get :: "string \<Rightarrow> ('b, 'op, 'op option option) cache_action" where
  "cache_Get query =
     andThen m_Lock (\<lambda>_.
     andThen (\<lambda>c. case cache_map c query of
         Some entry \<Rightarrow>
           andThen (on_list (list_MoveToFront entry)) (\<lambda>_.
           andThen (on_list (load_entry (Some entry))) (\<lambda>e. ret (Some (entry_operation e)))) c
       | None \<Rightarrow> (Ok None, c)) (\<lambda>result.
     andThen m_Unlock (\<lambda>_. ret result)))"

definition removeOldest :: "'b bitset_ops \<Rightarrow> ('b, 'op, unit) cache_action" where
  "removeOldest ops =
     andThen m_Lock (\<lambda>_.
     andThen (\<lambda>c. case list_Back (cache_list c) of
         None \<Rightarrow> (Ok (), c)
       | Some e \<Rightarrow>
           andThen (on_list (load_entry (Some e))) (\<lambda>x.
           andThen (on_list (list_Remove ops e)) (\<lambda>_ c. (Ok (), c\<lparr>cache_map := (cache_map c)(entry_query x := None)\<rparr>))) c) (\<lambda>_.
     m_Unlock))"

definition cache_Add :: "'b bitset_ops \<Rightarrow> string \<Rightarrow> 'op \<Rightarrow> ('b, 'op, unit) cache_action" where
  "cache_Add ops query operation =
     andThen m_Lock (\<lambda>_ c.
       case cache_map c query of
         Some e \<Rightarrow>
           andThen (on_list (list_MoveToFront e)) (\<lambda>_.
           andThen (on_list (store_entry (Some e) (\<lambda>x. x\<lparr>entry_operation := Some operation\<rparr>))) (\<lambda>_.
           m_Unlock)) c
       | None \<Rightarrow>
           andThen (if list_len (cache_list c) > cache_maxEntries c then removeOldest ops else ret ()) (\<lambda>_.
           andThen (on_list (list_PushFront ops query operation)) (\<lambda>e.
           andThen (\<lambda>c. (Ok (), c\<lparr>cache_map := (cache_map c)(query \<mapsto> e)\<rparr>)) (\<lambda>_.
           m_Unlock))) c)"

definition nop_Get :: "string \<Rightarrow> ('s, 'e, 'op option option) action" where
  "nop_Get query = ret None"

definition nop_Add :: "string \<Rightarrow> 'op \<Rightarrow> ('s, 'e, unit) action" where
  "nop_Add query operation = ret ()"

section \<open>What the cache does\<close>

text \<open>The documented behaviour of the bit set: \<open>bs_NextSet\<close> finds the least set bit from an index on.\<close>

definition bitset_laws :: "'b bitset_ops \<Rightarrow> ('b \<Rightarrow> nat \<Rightarrow> bool) \<Rightarrow> bool" where
  "bitset_laws ops test \<longleftrightarrow>
     (\<forall>i. \<not> test (bs_empty ops) i) \<and>
     (\<forall>b i j. test (bs_Set ops b i) j \<longleftrightarrow> i = j \<or> test b j) \<and>
     (\<forall>b i j. test (bs_Clear ops b i) j \<longleftrightarrow> i \<noteq> j \<and> test b j) \<and>
     (\<forall>b i j. bs_NextSet ops b i = Some j \<longleftrightarrow> i \<le> j \<and> test b j \<and> (\<forall>k. i \<le> k \<and> k < j \<longrightarrow> \<not> test b k))"

text \<open>Every allocated slot is the last one: the state after some calls of \<open>Add\<close>, the last one with \<open>operation\<close>.\<close>

definition one_slot :: "('b \<Rightarrow> nat \<Rightarrow> bool) \<Rightarrow> string set \<Rightarrow> 'op option \<Rightarrow> ('b, 'op) lru_cache \<Rightarrow> bool" where
  "one_slot test queries operation c \<longleftrightarrow>
     (let m = cache_maxEntries c; l = cache_list c; slot = (if queries = {} then Root else Slot (m - 1)) in
      0 < m \<and> \<not> cache_locked c \<and> cache_map c = (\<lambda>q. if q \<in> queries then Some (Slot (m - 1)) else None) \<and>
      length (list_entries l) = m \<and> (\<forall>i. test (list_allocated l) i \<longleftrightarrow> i = m - 1) \<and>
      finite queries \<and> list_len l = card queries \<and> entry_next (list_root l) = Some slot \<and>
      (queries \<noteq> {} \<longrightarrow> entry_operation (list_entries l ! (m - 1)) = operation))"


lemma one_slot_New:
  assumes "bitset_laws ops test" "NewLRUOperationCache ops m = Ok c"
  shows "one_slot test {} operation c \<and> cache_maxEntries c = m"
  using assms
  by (auto simp: NewLRUOperationCache_def newLRUEvictList_def newLRUEntryAllocator_def one_slot_def bitset_laws_def
      zero_entry_def split: if_splits)

lemma one_slot_NextSet:
  assumes "bitset_laws ops test" "one_slot test queries operation c"
  shows "bs_NextSet ops (list_allocated (cache_list c)) 0 = Some (cache_maxEntries c - 1)"
  using assms by (auto simp: bitset_laws_def one_slot_def Let_def)

lemma one_slot_Get:
  assumes "one_slot test queries operation c"
  shows "cache_Get query c = (Ok (if query \<in> queries then Some operation else None), c)"
  using assms
  by (auto simp: cache_Get_def one_slot_def Let_def andThen_def m_Lock_def m_Unlock_def on_list_def list_MoveToFront_def load_entry_def)

lemma one_slot_PushFront:
  assumes "bitset_laws ops test" "one_slot test queries operation c" "query \<notin> queries"
  shows "\<exists>l. list_PushFront ops query operation' (cache_list c) = (Ok (Slot (cache_maxEntries c - 1)), l) \<and>
    length (list_entries l) = cache_maxEntries c \<and> (\<forall>i. test (list_allocated l) i \<longleftrightarrow> i = cache_maxEntries c - 1) \<and>
    list_len l = Suc (card queries) \<and> entry_next (list_root l) = Some (Slot (cache_maxEntries c - 1)) \<and>
    entry_operation (list_entries l ! (cache_maxEntries c - 1)) = Some operation'"
proof -
  let ?m = "cache_maxEntries c" and ?l = "cache_list c"
  note inv = assms(2) [unfolded one_slot_def Let_def]
  have len: "?m - 1 < length (list_entries ?l)" using inv by auto
  have test: "test (bs_Set ops (list_allocated ?l) (?m - 1)) i \<longleftrightarrow> i = ?m - 1" for i
    using assms(1) inv by (auto simp: bitset_laws_def)
  show ?thesis
  proof (cases "queries = {}")
    case True
    then show ?thesis using inv len test one_slot_NextSet [OF assms(1,2)]
      by (simp add: list_PushFront_def list_insertEntry_def allocator_New_def andThen_def list_insert_def load_entry_def store_entry_def Let_def)
  next
    case False
    then show ?thesis using inv len test one_slot_NextSet [OF assms(1,2)]
      by (simp add: list_PushFront_def list_insertEntry_def allocator_New_def andThen_def list_insert_def load_entry_def store_entry_def Let_def)
  qed
qed

lemma one_slot_Add:
  assumes laws: "bitset_laws ops test" and inv: "one_slot test queries operation c"
  shows "if query \<in> queries \<or> card queries \<le> cache_maxEntries c
    then \<exists>c'. cache_Add ops query operation' c = (Ok (), c') \<and> one_slot test (insert query queries) (Some operation') c' \<and>
      cache_maxEntries c' = cache_maxEntries c
    else \<exists>c'. cache_Add ops query operation' c = (Error Deadlock, c')"
proof (cases "query \<in> queries")
  case True
  then show ?thesis using inv
    by (auto simp: cache_Add_def one_slot_def Let_def andThen_def m_Lock_def m_Unlock_def on_list_def list_MoveToFront_def
        store_entry_def insert_absorb)
next
  case False
  show ?thesis
  proof (cases "card queries \<le> cache_maxEntries c")
    case True
    let ?c = "c\<lparr>cache_locked := True\<rparr>"
    obtain l where l: "list_PushFront ops query operation' (cache_list c) = (Ok (Slot (cache_maxEntries c - 1)), l)"
        "length (list_entries l) = cache_maxEntries c" "\<And>i. test (list_allocated l) i \<longleftrightarrow> i = cache_maxEntries c - 1"
        "list_len l = Suc (card queries)" "entry_next (list_root l) = Some (Slot (cache_maxEntries c - 1))"
        "entry_operation (list_entries l ! (cache_maxEntries c - 1)) = Some operation'"
      using one_slot_PushFront [OF laws inv False] by blast
    have "cache_Add ops query operation' c =
        (Ok (), c\<lparr>cache_list := l, cache_map := (cache_map c)(query \<mapsto> Slot (cache_maxEntries c - 1))\<rparr>)"
      using inv False True l(1)
      by (simp add: cache_Add_def one_slot_def Let_def andThen_def m_Lock_def m_Unlock_def on_list_def)
    then show ?thesis using inv False True l by (auto simp: one_slot_def Let_def fun_eq_iff)
  next
    case full: False
    then show ?thesis using inv False
      by (simp add: cache_Add_def one_slot_def Let_def andThen_def m_Lock_def removeOldest_def)
  qed
qed

fun cache_Adds :: "'b bitset_ops \<Rightarrow> (string \<times> 'op) list \<Rightarrow> ('b, 'op, unit) cache_action" where
  "cache_Adds ops [] = ret ()"
| "cache_Adds ops ((query, operation) # adds) = andThen (cache_Add ops query operation) (\<lambda>_. cache_Adds ops adds)"

lemma one_slot_Adds:
  assumes "bitset_laws ops test" "one_slot test queries operation c" "cache_Adds ops adds c = (Ok (), c')"
  shows "one_slot test (queries \<union> fst ` set adds) (if adds = [] then operation else Some (snd (last adds))) c'"
  using assms(2,3)
proof (induction adds arbitrary: queries operation c)
  case (Cons a adds)
  obtain q op where a: "a = (q, op)" by fastforce
  obtain c1 where c1: "cache_Add ops q op c = (Ok (), c1)" "cache_Adds ops adds c1 = (Ok (), c')"
    using Cons.prems a by (auto elim: andThen_OkE)
  then have "one_slot test (insert q queries) (Some op) c1"
    using one_slot_Add [OF assms(1) Cons.prems(1), of q op] by (auto split: if_splits)
  then show ?case using Cons.IH [OF _ c1(2), of "insert q queries" "Some op"] a by (auto split: if_splits)
qed simp

lemma cache_Adds_returns:
  assumes "bitset_laws ops test" "one_slot test queries operation c" "card queries \<le> cache_maxEntries c + 1"
  shows "if card (queries \<union> fst ` set adds) \<le> cache_maxEntries c + 1 then \<exists>c'. cache_Adds ops adds c = (Ok (), c')
    else \<exists>c'. cache_Adds ops adds c = (Error Deadlock, c')"
  using assms(2,3)
proof (induction adds arbitrary: queries operation c)
  case (Cons a adds)
  obtain q op where a: "a = (q, op)" by fastforce
  have fin: "finite queries" using Cons.prems(1) by (simp add: one_slot_def Let_def)
  have union: "queries \<union> fst ` set (a # adds) = insert q queries \<union> fst ` set adds" using a by auto
  show ?case
  proof (cases "q \<in> queries \<or> card queries \<le> cache_maxEntries c")
    case True
    then obtain c1 where c1: "cache_Add ops q op c = (Ok (), c1)" "one_slot test (insert q queries) (Some op) c1"
        "cache_maxEntries c1 = cache_maxEntries c"
      using one_slot_Add [OF assms(1) Cons.prems(1), of q op] by auto
    have "card (insert q queries) \<le> cache_maxEntries c1 + 1"
      using True Cons.prems(2) c1(3) fin by (auto simp: card_insert_if insert_absorb)
    from Cons.IH [OF c1(2) this] show ?thesis using c1 a unfolding union by (simp add: andThen_def)
  next
    case False
    then obtain c1 where "cache_Add ops q op c = (Error Deadlock, c1)"
      using one_slot_Add [OF assms(1) Cons.prems(1), of q op] by auto
    moreover have "card (insert q queries) \<le> card (insert q queries \<union> fst ` set adds)" using fin by (intro card_mono) auto
    moreover have "card (insert q queries) = Suc (card queries)" using False fin by simp
    ultimately show ?thesis using False a unfolding union by (simp add: andThen_def)
  qed
qed (simp add: one_slot_def)

text \<open>
  C32: what \<open>Get\<close> returns. The allocator looks for an entry that is in use instead of a free one, so that all queries share one
  entry: after any calls of \<open>Add\<close>, \<open>Get\<close> finds exactly the queries that were added, and returns for each of them the operation of the
  last call of \<open>Add\<close>, whatever its query was. \<open>Get\<close> leaves the cache as it is.
\<close>

theorem cache_Get_last_added:
  assumes "bitset_laws ops test" and "NewLRUOperationCache ops maxEntries = Ok c" and "cache_Adds ops adds c = (Ok (), c')"
  shows "cache_Get query c' = (Ok (if query \<in> fst ` set adds then Some (Some (snd (last adds))) else None), c')"
proof -
  have "one_slot test ({} \<union> fst ` set adds) (if adds = [] then None else Some (snd (last adds))) c'"
    by (rule one_slot_Adds [OF assms(1) _ assms(3)]) (use one_slot_New [OF assms(1,2)] in blast)
  from one_slot_Get [OF this, of query] show ?thesis by (cases "adds = []") auto
qed

text \<open>A bit set as the list of its members.\<close>

definition list_bitset :: "nat list bitset_ops" where
  "list_bitset = \<lparr>bs_Set = (\<lambda>b i. i # b), bs_Clear = (\<lambda>b i. filter (\<lambda>j. j \<noteq> i) b),
     bs_NextSet = (\<lambda>b i. if filter (\<lambda>j. i \<le> j) b = [] then None else Some (Min (set (filter (\<lambda>j. i \<le> j) b)))), bs_empty = []\<rparr>"

lemma list_bitset_laws: "bitset_laws list_bitset (\<lambda>b i. i \<in> set b)"
proof -
  have "bs_NextSet list_bitset b i = Some j \<longleftrightarrow> i \<le> j \<and> j \<in> set b \<and> (\<forall>k. i \<le> k \<and> k < j \<longrightarrow> k \<notin> set b)" for b i j
  proof (cases "filter (\<lambda>j. i \<le> j) b = []")
    case True
    then show ?thesis by (auto simp: list_bitset_def filter_empty_conv)
  next
    case False
    then have "{j \<in> set b. i \<le> j} \<noteq> {}" by (auto simp: filter_empty_conv)
    then have "Min {j \<in> set b. i \<le> j} = j \<longleftrightarrow> j \<in> {j \<in> set b. i \<le> j} \<and> (\<forall>k \<in> {j \<in> set b. i \<le> j}. j \<le> k)"
      by (intro Min_eq_iff) auto
    moreover have "bs_NextSet list_bitset b i = Some (Min {j \<in> set b. i \<le> j})" using False by (simp add: list_bitset_def)
    ultimately show ?thesis by (auto simp: not_less)
  qed
  then show ?thesis unfolding bitset_laws_def by (auto simp: list_bitset_def)
qed

lemma sample_adds:
  assumes "NewLRUOperationCache list_bitset 2 = Ok (c :: (nat list, nat) lru_cache)"
  shows "if card (fst ` set adds) \<le> 3 then \<exists>c'. cache_Adds list_bitset adds c = (Ok (), c')
    else \<exists>c'. cache_Adds list_bitset adds c = (Error Deadlock, c')"
  using cache_Adds_returns [OF list_bitset_laws, of "{}" None c adds] one_slot_New [OF list_bitset_laws assms, of None] by auto

theorem cache_Get_last_added_witness:
  "\<exists>c c' :: (nat list, nat) lru_cache. NewLRUOperationCache list_bitset 2 = Ok c \<and>
     cache_Adds list_bitset [(''a'', 1), (''b'', 2)] c = (Ok (), c') \<and> cache_Get ''a'' c' = (Ok (Some (Some 2)), c')"
proof -
  obtain c :: "(nat list, nat) lru_cache" where c: "NewLRUOperationCache list_bitset 2 = Ok c"
    by (simp add: NewLRUOperationCache_def)
  then obtain c' where c': "cache_Adds list_bitset [(''a'', 1), (''b'', 2)] c = (Ok (), c')" 
    using sample_adds [OF c, of "[(''a'', 1), (''b'', 2)]"] by auto
  show ?thesis using c c' cache_Get_last_added [OF list_bitset_laws c c', of "''a''"] by auto
qed

text \<open>
  C33: when \<open>Add\<close> returns. A cache for \<open>maxEntries\<close> operations takes one query more than that. The first query after
  it makes \<open>Add\<close> call \<open>removeOldest\<close>, which locks the mutex that \<open>Add\<close> holds: the call never returns. With fewer
  different queries every call returns.
\<close>

theorem cache_Add_deadlock:
  assumes "bitset_laws ops test" and "NewLRUOperationCache ops maxEntries = Ok c"
  shows "if card (fst ` set adds) \<le> maxEntries + 1 then \<exists>c'. cache_Adds ops adds c = (Ok (), c')
    else \<exists>c'. cache_Adds ops adds c = (Error Deadlock, c')"
  using cache_Adds_returns [OF assms(1), of "{}" None c adds] one_slot_New [OF assms, of None] by auto

theorem cache_Add_deadlock_witness:
  "\<exists>c c' :: (nat list, nat) lru_cache. NewLRUOperationCache list_bitset 1 = Ok c \<and>
     cache_Adds list_bitset [(''a'', 1), (''b'', 2), (''c'', 3)] c = (Error Deadlock, c')"
proof -
  obtain c :: "(nat list, nat) lru_cache" where c: "NewLRUOperationCache list_bitset 1 = Ok c"
    by (simp add: NewLRUOperationCache_def)
  have "card (fst ` set [(''a'', 1 :: nat), (''b'', 2), (''c'', 3)]) = 3" by simp
  then show ?thesis using c cache_Add_deadlock [OF list_bitset_laws c, of "[(''a'', 1), (''b'', 2), (''c'', 3)]"] by auto
qed

end
