(* ===== verification/LoaderTask.thy ===== *)
theory LoaderTask
  imports Prelude
begin

text \<open>
  \<open>dataloader/task.go\<close>: a task that loads a value, the futures that wait for it, and its completion, as a machine with any
  number of concurrent calls.

  The memory holds the \<open>taskResult\<close> objects and the arrays of wakers that have been allocated, the pointer \<open>task.result\<close>, and a log of
  the wakers that were called. A call of \<open>Poll\<close>, \<open>newFuture\<close> or \<open>complete\<close> is a program counter with the local variables that
  are live; \<open>thread_step\<close> runs it up to the next access to shared memory. A \<open>taskResult\<close> never changes once it is published,
  so reading it is one step with loading the pointer; the arrays of wakers do change, in \<open>Poll\<close>.
\<close>

section \<open>Memory\<close>

type_synonym result_ref = nat
type_synonym array_ref = nat

datatype ('e, 'v) task_result = TaskNotCompleted array_ref | TaskResultErr 'e | TaskResultValue 'v

record ('e, 'v, 'w) task_mem =
  mem_results :: "('e, 'v) task_result list"
  mem_wakers :: "'w list list"
  mem_result :: result_ref
  mem_woken :: "'w list"

definition newTask :: "('e, 'v, 'w) task_mem" where
  "newTask = \<lparr>mem_results = [TaskNotCompleted 0], mem_wakers = [[]], mem_result = 0, mem_woken = []\<rparr>"

definition loadResult :: "('e, 'v, 'w) task_mem \<Rightarrow> ('e, 'v) task_result" where
  "loadResult m = mem_results m ! mem_result m"

definition wakers :: "('e, 'v, 'w) task_mem \<Rightarrow> array_ref \<Rightarrow> 'w list" where
  "wakers m s = mem_wakers m ! s"

text \<open>\<open>atomic.CompareAndSwapPointer\<close> on \<open>task.result\<close>, with the address of a new object.\<close>

definition compareAndSwap :: "result_ref \<Rightarrow> ('e, 'v) task_result \<Rightarrow> ('e, 'v, 'w) task_mem \<Rightarrow> bool \<times> ('e, 'v, 'w) task_mem" where
  "compareAndSwap old new m =
     (if mem_result m = old then (True, m\<lparr>mem_results := mem_results m @ [new], mem_result := length (mem_results m)\<rparr>)
      else (False, m))"

definition completed :: "('e, 'v) task_result \<Rightarrow> bool" where
  "completed r \<longleftrightarrow> (case r of TaskNotCompleted _ \<Rightarrow> False | _ \<Rightarrow> True)"

definition Completed :: "('e, 'v, 'w) task_mem \<Rightarrow> bool" where
  "Completed m \<longleftrightarrow> completed (loadResult m)"

section \<open>Calls\<close>

datatype ('e, 'v) poll_result = PollPending | PollErr 'e | PollReady 'v

datatype ('e, 'v) future = ResultFuture nat | FutureErr 'e | FutureReady 'v

datatype ('e, 'v, 'w) call =
    Idle
  | PollLoad nat 'w
  | PollCompare nat 'w result_ref array_ref
  | PollWrite nat 'w result_ref array_ref
  | PollSwap nat 'w result_ref array_ref
  | PollReturn nat 'w "('e, 'v) poll_result"
  | FutureLoad
  | FutureCopy result_ref array_ref "'w list"
  | FutureSwap result_ref "'w list"
  | FutureReturn "('e, 'v) future"
  | CompleteLoad "('e, 'v) task_result"
  | CompleteSwap "('e, 'v) task_result" result_ref array_ref
  | CompleteWake "('e, 'v) task_result" array_ref nat
  | CompleteReturn "('e, 'v) task_result" bool
  | Panicked

definition Complete :: "'v \<Rightarrow> ('e, 'v, 'w) call" where
  "Complete v = CompleteLoad (TaskResultValue v)"

definition SetError :: "'e \<Rightarrow> ('e, 'v, 'w) call" where
  "SetError err = CompleteLoad (TaskResultErr err)"

definition Poll_step :: "('e, 'v, 'w) task_mem \<Rightarrow> ('e, 'v, 'w) call \<Rightarrow> (('e, 'v, 'w) task_mem \<times> ('e, 'v, 'w) call) option" where
  "Poll_step m c =
     (case c of
        PollLoad slot w \<Rightarrow>
          Some (m, case loadResult m of
              TaskNotCompleted s \<Rightarrow> PollCompare slot w (mem_result m) s
            | TaskResultErr err \<Rightarrow> PollReturn slot w (PollErr err)
            | TaskResultValue v \<Rightarrow> PollReturn slot w (PollReady v))
      | PollCompare slot w r s \<Rightarrow>
          Some (m, if length (wakers m s) \<le> slot then Panicked
                   else if wakers m s ! slot \<noteq> w then PollWrite slot w r s
                   else PollReturn slot w PollPending)
      | PollWrite slot w r s \<Rightarrow>
          Some (m\<lparr>mem_wakers := (mem_wakers m)[s := (wakers m s)[slot := w]]\<rparr>, PollSwap slot w r s)
      | PollSwap slot w r s \<Rightarrow>
          Some (case compareAndSwap r (TaskNotCompleted s) m of (swapped, m') \<Rightarrow>
            (m', if swapped then PollReturn slot w PollPending else PollLoad slot w))
      | _ \<Rightarrow> None)"

definition newFuture_step :: "'w \<Rightarrow> ('e, 'v, 'w) task_mem \<Rightarrow> ('e, 'v, 'w) call \<Rightarrow> (('e, 'v, 'w) task_mem \<times> ('e, 'v, 'w) call) option" where
  "newFuture_step NopWaker m c =
     (case c of
        FutureLoad \<Rightarrow>
          Some (m, case loadResult m of
              TaskNotCompleted s \<Rightarrow> FutureCopy (mem_result m) s []
            | TaskResultErr err \<Rightarrow> FutureReturn (FutureErr err)
            | TaskResultValue v \<Rightarrow> FutureReturn (FutureReady v))
      | FutureCopy r s newWakers \<Rightarrow>
          Some (m, if length newWakers < length (wakers m s)
                   then FutureCopy r s (newWakers @ [wakers m s ! length newWakers])
                   else FutureSwap r (newWakers @ [NopWaker]))
      | FutureSwap r newWakers \<Rightarrow>
          Some (case compareAndSwap r (TaskNotCompleted (length (mem_wakers m))) (m\<lparr>mem_wakers := mem_wakers m @ [newWakers]\<rparr>) of
              (swapped, m') \<Rightarrow> (m', if swapped then FutureReturn (ResultFuture (length newWakers - 1)) else FutureLoad))
      | _ \<Rightarrow> None)"

definition complete_step :: "('e, 'v, 'w) task_mem \<Rightarrow> ('e, 'v, 'w) call \<Rightarrow> (('e, 'v, 'w) task_mem \<times> ('e, 'v, 'w) call) option" where
  "complete_step m c =
     (case c of
        CompleteLoad newResult \<Rightarrow>
          Some (m, case loadResult m of
              TaskNotCompleted s \<Rightarrow> CompleteSwap newResult (mem_result m) s
            | _ \<Rightarrow> CompleteReturn newResult False)
      | CompleteSwap newResult r s \<Rightarrow>
          Some (case compareAndSwap r newResult m of (swapped, m') \<Rightarrow>
            (m', if swapped then CompleteWake newResult s 0 else CompleteLoad newResult))
      | CompleteWake newResult s i \<Rightarrow>
          Some (if i < length (wakers m s) then (m\<lparr>mem_woken := mem_woken m @ [wakers m s ! i]\<rparr>, CompleteWake newResult s (i + 1))
                else (m, CompleteReturn newResult True))
      | _ \<Rightarrow> None)"

text \<open>The next step of a call; none after it has returned.\<close>

definition thread_step :: "'w \<Rightarrow> ('e, 'v, 'w) task_mem \<Rightarrow> ('e, 'v, 'w) call \<Rightarrow> (('e, 'v, 'w) task_mem \<times> ('e, 'v, 'w) call) option" where
  "thread_step NopWaker m c =
     (case Poll_step m c of Some r \<Rightarrow> Some r
      | None \<Rightarrow> (case newFuture_step NopWaker m c of Some r \<Rightarrow> Some r | None \<Rightarrow> complete_step m c))"

lemmas thread_step_defs = thread_step_def Poll_step_def newFuture_step_def complete_step_def compareAndSwap_def

section \<open>Interleavings\<close>

text \<open>
  Calls are numbered. \<open>may\<close> says which calls the environment may begin in a state; a call may be
  a poll of any future that \<open>newFuture\<close> has returned.
\<close>

record ('e, 'v, 'w) task_sys =
  sys_mem :: "('e, 'v, 'w) task_mem"
  sys_calls :: "nat \<Rightarrow> ('e, 'v, 'w) call"

definition init_sys :: "('e, 'v, 'w) task_sys" where
  "init_sys = \<lparr>sys_mem = newTask, sys_calls = \<lambda>_. Idle\<rparr>"

inductive task_reachable :: "'w \<Rightarrow> (('e, 'v, 'w) task_sys \<Rightarrow> ('e, 'v, 'w) call \<Rightarrow> bool) \<Rightarrow> ('e, 'v, 'w) task_sys \<Rightarrow> bool" for nop may where
  reach_init: "task_reachable nop may init_sys"
| reach_start: "task_reachable nop may s \<Longrightarrow> sys_calls s i = Idle \<Longrightarrow> may s c \<Longrightarrow>
    task_reachable nop may (s\<lparr>sys_calls := (sys_calls s)(i := c)\<rparr>)"
| reach_run: "task_reachable nop may s \<Longrightarrow> thread_step nop (sys_mem s) (sys_calls s i) = Some (m, c) \<Longrightarrow>
    task_reachable nop may (s\<lparr>sys_mem := m, sys_calls := (sys_calls s)(i := c)\<rparr>)"

fun polling :: "('e, 'v, 'w) call \<Rightarrow> nat option" where
  "polling (PollLoad slot w) = Some slot"
| "polling (PollCompare slot w r s) = Some slot"
| "polling (PollWrite slot w r s) = Some slot"
| "polling (PollSwap slot w r s) = Some slot"
| "polling _ = None"

fun creating :: "('e, 'v, 'w) call \<Rightarrow> bool" where
  "creating FutureLoad \<longleftrightarrow> True"
| "creating (FutureCopy r s newWakers) \<longleftrightarrow> True"
| "creating (FutureSwap r newWakers) \<longleftrightarrow> True"
| "creating _ \<longleftrightarrow> False"

text \<open>
  One poll of a future at a time, always with the waker \<open>wk slot\<close>; everything else is concurrent. In the second one futures are not
  created while one is polled.
\<close>

definition one_poll :: "(nat \<Rightarrow> 'w) \<Rightarrow> ('e, 'v, 'w) task_sys \<Rightarrow> ('e, 'v, 'w) call \<Rightarrow> bool" where
  "one_poll wk s c \<longleftrightarrow>
     (case c of
        PollLoad slot w \<Rightarrow> w = wk slot \<and> (\<exists>i. sys_calls s i = FutureReturn (ResultFuture slot)) \<and> (\<forall>i. polling (sys_calls s i) \<noteq> Some slot)
      | FutureLoad \<Rightarrow> True
      | CompleteLoad r \<Rightarrow> completed r
      | _ \<Rightarrow> False)"

definition exclusive :: "(nat \<Rightarrow> 'w) \<Rightarrow> ('e, 'v, 'w) task_sys \<Rightarrow> ('e, 'v, 'w) call \<Rightarrow> bool" where
  "exclusive wk s c \<longleftrightarrow> one_poll wk s c \<and>
     (polling c \<noteq> None \<longrightarrow> (\<forall>i. \<not> creating (sys_calls s i))) \<and> (creating c \<longrightarrow> (\<forall>i. polling (sys_calls s i) = None))"

section \<open>A task is completed once\<close>

text \<open>How the memory may change: published objects stay, arrays keep their lengths, a completed task stays completed.\<close>

definition mem_le :: "('e, 'v, 'w) task_mem \<Rightarrow> ('e, 'v, 'w) task_mem \<Rightarrow> bool" where
  "mem_le m m' \<longleftrightarrow> (\<exists>rs. mem_results m' = mem_results m @ rs) \<and> length (mem_wakers m) \<le> length (mem_wakers m') \<and>
     (\<forall>s < length (mem_wakers m). length (wakers m' s) = length (wakers m s)) \<and>
     (case loadResult m of
        TaskNotCompleted s \<Rightarrow> (\<forall>s'. loadResult m' = TaskNotCompleted s' \<longrightarrow> length (wakers m s) \<le> length (wakers m' s'))
      | r \<Rightarrow> loadResult m' = r)"

definition mem_ok :: "('e, 'v, 'w) task_mem \<Rightarrow> bool" where
  "mem_ok m \<longleftrightarrow> mem_result m < length (mem_results m) \<and>
     (\<forall>r s. r < length (mem_results m) \<longrightarrow> mem_results m ! r = TaskNotCompleted s \<longrightarrow> s < length (mem_wakers m))"

definition slot_ok :: "('e, 'v, 'w) task_mem \<Rightarrow> nat \<Rightarrow> bool" where
  "slot_ok m slot \<longleftrightarrow> (\<forall>s. loadResult m = TaskNotCompleted s \<longrightarrow> slot < length (wakers m s))"

definition points :: "('e, 'v, 'w) task_mem \<Rightarrow> result_ref \<Rightarrow> array_ref \<Rightarrow> bool" where
  "points m r s \<longleftrightarrow> r < length (mem_results m) \<and> mem_results m ! r = TaskNotCompleted s \<and> s < length (mem_wakers m)"

fun call_ok :: "('e, 'v, 'w) task_mem \<Rightarrow> ('e, 'v, 'w) call \<Rightarrow> bool" where
  "call_ok m Idle \<longleftrightarrow> True"
| "call_ok m (PollLoad slot w) \<longleftrightarrow> slot_ok m slot"
| "call_ok m (PollCompare slot w r s) \<longleftrightarrow> slot_ok m slot \<and> points m r s \<and> slot < length (wakers m s)"
| "call_ok m (PollWrite slot w r s) \<longleftrightarrow> slot_ok m slot \<and> points m r s \<and> slot < length (wakers m s)"
| "call_ok m (PollSwap slot w r s) \<longleftrightarrow> slot_ok m slot \<and> points m r s \<and> slot < length (wakers m s)"
| "call_ok m (PollReturn slot w r) \<longleftrightarrow>
     (case r of PollPending \<Rightarrow> slot_ok m slot | PollErr err \<Rightarrow> loadResult m = TaskResultErr err | PollReady v \<Rightarrow> loadResult m = TaskResultValue v)"
| "call_ok m FutureLoad \<longleftrightarrow> True"
| "call_ok m (FutureCopy r s newWakers) \<longleftrightarrow> points m r s \<and> length newWakers \<le> length (wakers m s)"
| "call_ok m (FutureSwap r newWakers) \<longleftrightarrow> (\<exists>s. points m r s \<and> length newWakers = Suc (length (wakers m s)))"
| "call_ok m (FutureReturn f) \<longleftrightarrow>
     (case f of ResultFuture slot \<Rightarrow> slot_ok m slot | FutureErr err \<Rightarrow> loadResult m = TaskResultErr err | FutureReady v \<Rightarrow> loadResult m = TaskResultValue v)"
| "call_ok m (CompleteLoad new) \<longleftrightarrow> completed new"
| "call_ok m (CompleteSwap new r s) \<longleftrightarrow> completed new \<and> points m r s"
| "call_ok m (CompleteWake new s i) \<longleftrightarrow> completed new \<and> loadResult m = new \<and> s < length (mem_wakers m)"
| "call_ok m (CompleteReturn new ok) \<longleftrightarrow> completed new \<and> completed (loadResult m) \<and> (ok \<longrightarrow> loadResult m = new)"
| "call_ok m Panicked \<longleftrightarrow> False"

text \<open>The call that completed the task.\<close>

fun winner :: "('e, 'v, 'w) call \<Rightarrow> bool" where
  "winner (CompleteWake new s i) \<longleftrightarrow> True"
| "winner (CompleteReturn new ok) \<longleftrightarrow> ok"
| "winner _ \<longleftrightarrow> False"

lemma mem_le_refl [simp]: "mem_le m m"
  by (auto simp: mem_le_def split: task_result.splits)

lemma slot_ok_mono: "mem_le m m' \<Longrightarrow> slot_ok m slot \<Longrightarrow> slot_ok m' slot"
  by (fastforce simp: mem_le_def slot_ok_def split: task_result.splits)

lemma points_mono: "mem_le m m' \<Longrightarrow> points m r s \<Longrightarrow> points m' r s"
  by (auto simp: mem_le_def points_def nth_append)

lemma points_length: "mem_le m m' \<Longrightarrow> points m r s \<Longrightarrow> length (wakers m' s) = length (wakers m s)"
  by (auto simp: mem_le_def points_def)

lemma completed_mono: "mem_le m m' \<Longrightarrow> completed (loadResult m) \<Longrightarrow> loadResult m' = loadResult m"
  by (auto simp: mem_le_def completed_def split: task_result.splits)

lemma completed_simps [simp]: "completed (TaskResultErr err)" "completed (TaskResultValue v)" "\<not> completed (TaskNotCompleted s)"
  by (simp_all add: completed_def)

lemma call_ok_mono: "mem_le m m' \<Longrightarrow> call_ok m c \<Longrightarrow> call_ok m' c"
proof (cases c)
  case (FutureSwap r newWakers)
  assume le: "mem_le m m'" and ok: "call_ok m c"
  then obtain s where "points m r s" "length newWakers = Suc (length (wakers m s))" using FutureSwap by auto
  then show ?thesis using points_mono [OF le] points_length [OF le] FutureSwap by (auto intro!: exI [of _ s])
next
  case (CompleteWake new s i)
  assume le: "mem_le m m'" and ok: "call_ok m c"
  then show ?thesis using CompleteWake completed_mono [OF le] by (auto simp: mem_le_def)
qed (auto simp: slot_ok_mono points_mono points_length dest: completed_mono split: poll_result.splits future.splits)


text \<open>The steps, one fact for each kind of call.\<close>

lemma step_cases:
  assumes "thread_step nop m c = Some (m', c')"
  obtains
    (poll_load) slot w where "c = PollLoad slot w" "m' = m"
      "c' = (case loadResult m of TaskNotCompleted s \<Rightarrow> PollCompare slot w (mem_result m) s
             | TaskResultErr err \<Rightarrow> PollReturn slot w (PollErr err) | TaskResultValue v \<Rightarrow> PollReturn slot w (PollReady v))"
  | (poll_compare) slot w r s where "c = PollCompare slot w r s" "m' = m"
      "c' = (if length (wakers m s) \<le> slot then Panicked else if wakers m s ! slot \<noteq> w then PollWrite slot w r s else PollReturn slot w PollPending)"
  | (poll_write) slot w r s where "c = PollWrite slot w r s" "m' = m\<lparr>mem_wakers := (mem_wakers m)[s := (wakers m s)[slot := w]]\<rparr>" "c' = PollSwap slot w r s"
  | (poll_swap) slot w r s where "c = PollSwap slot w r s" "mem_result m = r"
      "m' = m\<lparr>mem_results := mem_results m @ [TaskNotCompleted s], mem_result := length (mem_results m)\<rparr>" "c' = PollReturn slot w PollPending"
  | (poll_retry) slot w r s where "c = PollSwap slot w r s" "mem_result m \<noteq> r" "m' = m" "c' = PollLoad slot w"
  | (future_load) "c = FutureLoad" "m' = m"
      "c' = (case loadResult m of TaskNotCompleted s \<Rightarrow> FutureCopy (mem_result m) s []
             | TaskResultErr err \<Rightarrow> FutureReturn (FutureErr err) | TaskResultValue v \<Rightarrow> FutureReturn (FutureReady v))"
  | (future_copy) r s newWakers where "c = FutureCopy r s newWakers" "m' = m" "length newWakers < length (wakers m s)"
      "c' = FutureCopy r s (newWakers @ [wakers m s ! length newWakers])"
  | (future_copied) r s newWakers where "c = FutureCopy r s newWakers" "m' = m" "\<not> length newWakers < length (wakers m s)"
      "c' = FutureSwap r (newWakers @ [nop])"
  | (future_swap) r newWakers where "c = FutureSwap r newWakers" "mem_result m = r"
      "m' = m\<lparr>mem_wakers := mem_wakers m @ [newWakers], mem_results := mem_results m @ [TaskNotCompleted (length (mem_wakers m))],
              mem_result := length (mem_results m)\<rparr>" "c' = FutureReturn (ResultFuture (length newWakers - 1))"
  | (future_retry) r newWakers where "c = FutureSwap r newWakers" "mem_result m \<noteq> r"
      "m' = m\<lparr>mem_wakers := mem_wakers m @ [newWakers]\<rparr>" "c' = FutureLoad"
  | (complete_load) new where "c = CompleteLoad new" "m' = m"
      "c' = (case loadResult m of TaskNotCompleted s \<Rightarrow> CompleteSwap new (mem_result m) s | _ \<Rightarrow> CompleteReturn new False)"
  | (complete_swap) new r s where "c = CompleteSwap new r s" "mem_result m = r"
      "m' = m\<lparr>mem_results := mem_results m @ [new], mem_result := length (mem_results m)\<rparr>" "c' = CompleteWake new s 0"
  | (complete_retry) new r s where "c = CompleteSwap new r s" "mem_result m \<noteq> r" "m' = m" "c' = CompleteLoad new"
  | (complete_wake) new s i where "c = CompleteWake new s i" "i < length (wakers m s)"
      "m' = m\<lparr>mem_woken := mem_woken m @ [wakers m s ! i]\<rparr>" "c' = CompleteWake new s (i + 1)"
  | (complete_return) new s i where "c = CompleteWake new s i" "\<not> i < length (wakers m s)" "m' = m" "c' = CompleteReturn new True"
proof (cases c)
  case (PollLoad slot w)
  then show ?thesis using assms by (intro poll_load) (auto simp: thread_step_defs)
next
  case (PollCompare slot w r s)
  then show ?thesis using assms by (intro poll_compare) (auto simp: thread_step_defs)
next
  case (PollWrite slot w r s)
  then show ?thesis using assms by (intro poll_write) (auto simp: thread_step_defs)
next
  case (PollSwap slot w r s)
  then show ?thesis using assms poll_swap [of slot w r s] poll_retry [of slot w r s]
    by (cases "mem_result m = r") (fastforce simp: thread_step_defs)+
next
  case FutureLoad
  then show ?thesis using assms by (intro future_load) (auto simp: thread_step_defs)
next
  case (FutureCopy r s newWakers)
  then show ?thesis using assms future_copy [of r s newWakers] future_copied [of r s newWakers]
    by (cases "length newWakers < length (wakers m s)") (fastforce simp: thread_step_defs)+
next
  case (FutureSwap r newWakers)
  then show ?thesis using assms future_swap [of r newWakers] future_retry [of r newWakers]
    by (cases "mem_result m = r") (fastforce simp: thread_step_defs)+
next
  case (CompleteLoad new)
  then show ?thesis using assms by (intro complete_load) (auto simp: thread_step_defs)
next
  case (CompleteSwap new r s)
  then show ?thesis using assms complete_swap [of new r s] complete_retry [of new r s]
    by (cases "mem_result m = r") (fastforce simp: thread_step_defs)+
next
  case (CompleteWake new s i)
  then show ?thesis using assms complete_wake [of new s i] complete_return [of new s i]
    by (cases "i < length (wakers m s)") (fastforce simp: thread_step_defs)+
qed (use assms in \<open>simp_all add: thread_step_defs\<close>)

lemma mem_simps [simp]:
  "loadResult (m\<lparr>mem_wakers := ws\<rparr>) = loadResult m" "loadResult (m\<lparr>mem_woken := log\<rparr>) = loadResult m"
  "loadResult (m\<lparr>mem_results := rs @ [r], mem_result := length rs\<rparr>) = r"
  "wakers (m\<lparr>mem_results := rs\<rparr>) = wakers m" "wakers (m\<lparr>mem_result := k\<rparr>) = wakers m" "wakers (m\<lparr>mem_woken := log\<rparr>) = wakers m"
  "slot_ok (m\<lparr>mem_woken := log\<rparr>) = slot_ok m" "points (m\<lparr>mem_woken := log\<rparr>) = points m"
  by (auto simp: loadResult_def wakers_def slot_ok_def points_def fun_eq_iff)

lemma wakers_write:
  "s < length (mem_wakers m) \<Longrightarrow> wakers (m\<lparr>mem_wakers := (mem_wakers m)[s := ws]\<rparr>) s' = (if s' = s then ws else wakers m s')"
  by (simp add: wakers_def)

lemma wakers_append:
  "s \<le> length (mem_wakers m) \<Longrightarrow> wakers (m\<lparr>mem_wakers := mem_wakers m @ [ws]\<rparr>) s = (if s = length (mem_wakers m) then ws else wakers m s)"
  by (simp add: wakers_def nth_append)

lemma points_current: "mem_ok m \<Longrightarrow> loadResult m = TaskNotCompleted s \<Longrightarrow> points m (mem_result m) s"
  by (auto simp: mem_ok_def points_def loadResult_def)

lemma points_load: "points m r s \<Longrightarrow> mem_result m = r \<Longrightarrow> loadResult m = TaskNotCompleted s"
  by (simp add: points_def loadResult_def)

text \<open>Every step keeps what the other calls rely on, and leads the call itself to a good state.\<close>

lemma step_ok:
  assumes "mem_ok m" and "call_ok m c" and "thread_step nop m c = Some (m', c')"
  shows "mem_le m m' \<and> mem_ok m' \<and> call_ok m' c' \<and> (winner c' \<longrightarrow> winner c \<or> \<not> Completed m \<and> Completed m') \<and> (Completed m' \<longrightarrow> Completed m \<or> winner c')"
  using assms(3)
proof (cases rule: step_cases)
  case (poll_load slot w)
  then show ?thesis using assms points_current [OF assms(1)] by (auto simp: slot_ok_def split: task_result.splits)
next
  case (poll_compare slot w r s)
  then show ?thesis using assms by auto
next
  case (poll_write slot w r s)
  then have "s < length (mem_wakers m)" using assms(2) by (simp add: points_def)
  then show ?thesis using assms poll_write
    by (auto simp: mem_le_def mem_ok_def slot_ok_def points_def wakers_write Completed_def split: task_result.splits)
next
  case (poll_swap slot w r s)
  then show ?thesis using assms points_load [of m r s]
    by (auto simp: mem_le_def mem_ok_def slot_ok_def points_def nth_append Completed_def)
next
  case (poll_retry slot w r s)
  then show ?thesis using assms by auto
next
  case future_load
  then show ?thesis using assms points_current [OF assms(1)] by (auto split: task_result.splits)
next
  case (future_copy r s newWakers)
  then show ?thesis using assms by auto
next
  case (future_copied r s newWakers)
  then show ?thesis using assms by auto
next
  case (future_swap r newWakers)
  then obtain s where "points m r s" "length newWakers = Suc (length (wakers m s))" using assms(2) by auto
  then show ?thesis using assms(1) future_swap points_load [of m r s]
    by (auto simp: mem_le_def mem_ok_def slot_ok_def points_def nth_append wakers_append Completed_def less_SucI)
next
  case (future_retry r newWakers)
  moreover have "loadResult m = TaskNotCompleted s \<Longrightarrow> s < length (mem_wakers m)" for s
    using points_current [OF assms(1)] by (simp add: points_def)
  ultimately show ?thesis using assms
    by (auto simp: mem_le_def mem_ok_def wakers_append Completed_def less_SucI split: task_result.splits)
next
  case (complete_load new)
  then show ?thesis using assms points_current [OF assms(1)] by (auto split: task_result.splits)
next
  case (complete_swap new r s)
  then show ?thesis using assms points_load [of m r s]
    by (auto simp: mem_le_def mem_ok_def points_def nth_append Completed_def)
next
  case (complete_retry new r s)
  then show ?thesis using assms by auto
next
  case (complete_wake new s i)
  then show ?thesis using assms by (auto simp: mem_le_def mem_ok_def Completed_def split: task_result.splits)
next
  case (complete_return new s i)
  then show ?thesis using assms by auto
qed

text \<open>The invariant of the machine, for every environment that starts good calls.\<close>

definition sys_ok :: "('e, 'v, 'w) task_sys \<Rightarrow> bool" where
  "sys_ok s \<longleftrightarrow> mem_ok (sys_mem s) \<and> (\<forall>i. call_ok (sys_mem s) (sys_calls s i)) \<and>
     (Completed (sys_mem s) \<longrightarrow> (\<exists>i. winner (sys_calls s i))) \<and> (\<forall>i j. winner (sys_calls s i) \<longrightarrow> winner (sys_calls s j) \<longrightarrow> i = j)"

lemma winner_Completed: "call_ok m c \<Longrightarrow> winner c \<Longrightarrow> Completed m"
  by (cases c) (auto simp: Completed_def)

lemma one_poll_ok: "one_poll wk s c \<Longrightarrow> sys_ok s \<Longrightarrow> call_ok (sys_mem s) c \<and> \<not> winner c"
proof (cases c)
  case (PollLoad slot w)
  assume "one_poll wk s c" "sys_ok s"
  then obtain i where "sys_calls s i = FutureReturn (ResultFuture slot)" using PollLoad by (auto simp: one_poll_def)
  moreover have "call_ok (sys_mem s) (sys_calls s i)" using \<open>sys_ok s\<close> by (simp add: sys_ok_def)
  ultimately show ?thesis using PollLoad by simp
qed (auto simp: one_poll_def)

lemma sys_ok_init: "sys_ok init_sys"
  by (simp add: sys_ok_def init_sys_def newTask_def mem_ok_def Completed_def loadResult_def less_Suc_eq)

lemma sys_ok_start: "sys_ok s \<Longrightarrow> sys_calls s i = Idle \<Longrightarrow> one_poll wk s c \<Longrightarrow> sys_ok (s\<lparr>sys_calls := (sys_calls s)(i := c)\<rparr>)"
  using one_poll_ok [of wk s c] by (auto simp: sys_ok_def) (metis winner.simps(3))

lemma sys_ok_run:
  assumes "sys_ok s" and "thread_step nop (sys_mem s) (sys_calls s i) = Some (m, c)"
  shows "sys_ok (s\<lparr>sys_mem := m, sys_calls := (sys_calls s)(i := c)\<rparr>)"
proof -
  have ok: "mem_ok (sys_mem s)" "\<And>j. call_ok (sys_mem s) (sys_calls s j)" using assms(1) by (auto simp: sys_ok_def)
  note step = step_ok [OF ok(1) ok(2) assms(2)]
  have calls: "call_ok m (sys_calls s j)" for j using call_ok_mono step ok(2) by blast
  have keep: "winner c" if "winner (sys_calls s i)"
    using assms(2) that by (cases rule: step_cases) auto
  have new: "\<not> winner (sys_calls s j)" if "winner c" "\<not> winner (sys_calls s i)" for j
    using that step winner_Completed [OF ok(2)] by blast
  have uniq: "\<And>j k. winner (sys_calls s j) \<Longrightarrow> winner (sys_calls s k) \<Longrightarrow> j = k"
    and ex: "Completed (sys_mem s) \<Longrightarrow> \<exists>j. winner (sys_calls s j)" using assms(1) by (auto simp: sys_ok_def)
  have ex': "\<exists>j. winner (((sys_calls s)(i := c)) j)" if fin: "Completed m"
  proof (cases "winner c")
    case True
    then show ?thesis by (auto intro: exI [of _ i])
  next
    case False
    then obtain j where "winner (sys_calls s j)" using step fin ex by blast
    then show ?thesis using False keep by (cases "j = i") (auto intro: exI [of _ j])
  qed
  have uniq': "j = k" if "winner (((sys_calls s)(i := c)) j)" "winner (((sys_calls s)(i := c)) k)" for j k
  proof (cases "winner c \<and> \<not> winner (sys_calls s i)")
    case True
    then show ?thesis using new that by (auto split: if_splits)
  next
    case False
    then have "winner (sys_calls s j)" "winner (sys_calls s k)" using that keep by (auto split: if_splits)
    then show ?thesis by (rule uniq)
  qed
  have calls': "call_ok m (((sys_calls s)(i := c)) j)" for j using step calls by simp
  show ?thesis using step calls' ex' uniq' unfolding sys_ok_def by (simp del: fun_upd_apply)
qed


lemma task_reachable_ok: "task_reachable nop (one_poll wk) s \<Longrightarrow> sys_ok s"
  by (induction rule: task_reachable.induct) (auto intro: sys_ok_init sys_ok_start sys_ok_run)

lemma task_reachable_mono: "task_reachable nop may s \<Longrightarrow> (\<And>s c. may s c \<Longrightarrow> may' s c) \<Longrightarrow> task_reachable nop may' s"
  by (induction rule: task_reachable.induct) (auto intro: task_reachable.intros)

lemma exclusive_ok: "task_reachable nop (exclusive wk) s \<Longrightarrow> sys_ok s"
  using task_reachable_mono [of nop "exclusive wk" s "one_poll wk"] task_reachable_ok by (auto simp: exclusive_def)

section \<open>Wakers\<close>

text \<open>A waker was called, or the call that completed the task is still to come to it.\<close>

definition pending_wake :: "('e, 'v, 'w) task_sys \<Rightarrow> nat \<Rightarrow> 'w \<Rightarrow> bool" where
  "pending_wake s slot w \<longleftrightarrow> w \<in> set (mem_woken (sys_mem s)) \<or>
     (\<exists>j new a k. sys_calls s j = CompleteWake new a k \<and> k \<le> slot \<and> slot < length (wakers (sys_mem s) a) \<and> wakers (sys_mem s) a ! slot = w)"

definition registered :: "('e, 'v, 'w) task_sys \<Rightarrow> nat \<Rightarrow> 'w \<Rightarrow> bool" where
  "registered s slot w \<longleftrightarrow>
     (case loadResult (sys_mem s) of TaskNotCompleted a \<Rightarrow> wakers (sys_mem s) a ! slot = w | _ \<Rightarrow> pending_wake s slot w)"

definition same_array :: "('e, 'v, 'w) task_mem \<Rightarrow> array_ref \<Rightarrow> bool" where
  "same_array m a \<longleftrightarrow> (\<forall>a'. loadResult m = TaskNotCompleted a' \<longrightarrow> a' = a)"

fun call_registered :: "'w \<Rightarrow> (nat \<Rightarrow> 'w) \<Rightarrow> ('e, 'v, 'w) task_sys \<Rightarrow> ('e, 'v, 'w) call \<Rightarrow> bool" where
  "call_registered nop wk s (PollLoad slot w) \<longleftrightarrow> w = wk slot"
| "call_registered nop wk s (PollCompare slot w r a) \<longleftrightarrow> w = wk slot \<and> same_array (sys_mem s) a \<and>
     (wakers (sys_mem s) a ! slot = w \<longrightarrow> Completed (sys_mem s) \<longrightarrow> pending_wake s slot w)"
| "call_registered nop wk s (PollWrite slot w r a) \<longleftrightarrow> w = wk slot \<and> same_array (sys_mem s) a"
| "call_registered nop wk s (PollSwap slot w r a) \<longleftrightarrow> w = wk slot \<and> same_array (sys_mem s) a \<and> wakers (sys_mem s) a ! slot = w"
| "call_registered nop wk s (PollReturn slot w r) \<longleftrightarrow> w = wk slot \<and> (r = PollPending \<longrightarrow> registered s slot w)"
| "call_registered nop wk s (FutureCopy r a newWakers) \<longleftrightarrow> newWakers = take (length newWakers) (wakers (sys_mem s) a)"
| "call_registered nop wk s (FutureSwap r newWakers) \<longleftrightarrow> (\<exists>a. points (sys_mem s) r a \<and> newWakers = wakers (sys_mem s) a @ [nop])"
| "call_registered nop wk s _ \<longleftrightarrow> True"

definition excl_ok :: "'w \<Rightarrow> (nat \<Rightarrow> 'w) \<Rightarrow> ('e, 'v, 'w) task_sys \<Rightarrow> bool" where
  "excl_ok nop wk s \<longleftrightarrow>
     (\<forall>i j slot. polling (sys_calls s i) = Some slot \<longrightarrow> polling (sys_calls s j) = Some slot \<longrightarrow> i = j) \<and>
     (\<forall>i j. polling (sys_calls s i) \<noteq> None \<longrightarrow> \<not> creating (sys_calls s j)) \<and>
     (\<forall>i. call_registered nop wk s (sys_calls s i))"

text \<open>What a step of a call does to the entries of the arrays that exist.\<close>

lemma step_wakers:
  assumes "call_ok m c" "thread_step nop m c = Some (m', c')" "a < length (mem_wakers m)" "k < length (wakers m a)"
  shows "wakers m' a ! k = wakers m a ! k \<or> (\<exists>w r. c = PollWrite k w r a \<and> wakers m' a ! k = w)"
  using assms(2)
proof (cases rule: step_cases)
  case (poll_write slot w r s)
  moreover have "s < length (mem_wakers m)" using poll_write(1) assms(1) by (simp add: points_def)
  ultimately show ?thesis using assms(3,4) by (cases "k = slot") (auto simp: wakers_write)
qed (use assms(3) in \<open>auto simp: wakers_append\<close>)

definition moves :: "'w \<Rightarrow> (nat \<Rightarrow> 'w) \<Rightarrow> ('e, 'v, 'w) task_sys \<Rightarrow> nat \<Rightarrow> ('e, 'v, 'w) task_mem \<Rightarrow> ('e, 'v, 'w) call \<Rightarrow> ('e, 'v, 'w) task_sys \<Rightarrow> bool" where
  "moves nop wk s i m c s' \<longleftrightarrow> sys_ok s \<and> excl_ok nop wk s \<and> thread_step nop (sys_mem s) (sys_calls s i) = Some (m, c) \<and>
     s' = s\<lparr>sys_mem := m, sys_calls := (sys_calls s)(i := c)\<rparr>"

lemma movesD:
  assumes "moves nop wk s i m c s'"
  shows "mem_ok (sys_mem s)" "call_ok (sys_mem s) (sys_calls s j)" "call_registered nop wk s (sys_calls s j)"
    "thread_step nop (sys_mem s) (sys_calls s i) = Some (m, c)" "sys_mem s' = m" "sys_calls s' j = (if j = i then c else sys_calls s j)"
    "mem_le (sys_mem s) m" "call_ok m (sys_calls s j)" "call_ok m c"
    "polling (sys_calls s i) = Some slot \<Longrightarrow> polling (sys_calls s j) = Some slot \<Longrightarrow> i = j"
    "polling (sys_calls s i) \<noteq> None \<Longrightarrow> \<not> creating (sys_calls s j)" "creating (sys_calls s i) \<Longrightarrow> polling (sys_calls s j) = None"
proof -
  have ok: "mem_ok (sys_mem s)" "\<And>j. call_ok (sys_mem s) (sys_calls s j)"
    and step: "thread_step nop (sys_mem s) (sys_calls s i) = Some (m, c)" using assms by (auto simp: moves_def sys_ok_def)
  from step_ok [OF ok step] show le: "mem_le (sys_mem s) m" and "call_ok m c" by auto
  show "call_ok m (sys_calls s j)" using call_ok_mono [OF le ok(2)] .
  show "mem_ok (sys_mem s)" "call_ok (sys_mem s) (sys_calls s j)" "thread_step nop (sys_mem s) (sys_calls s i) = Some (m, c)"
    using ok step by auto
qed (use assms in \<open>auto simp: moves_def excl_ok_def\<close>)

lemma moves_wakers:
  assumes "moves nop wk s i m c s'" "a < length (mem_wakers (sys_mem s))" "k < length (wakers (sys_mem s) a)"
  shows "length (wakers m a) = length (wakers (sys_mem s) a)" "wakers (sys_mem s) a ! k = wk k \<Longrightarrow> wakers m a ! k = wk k"
    "polling (sys_calls s i) \<noteq> Some k \<Longrightarrow> wakers m a ! k = wakers (sys_mem s) a ! k"
  using step_wakers [OF movesD(2) [OF assms(1)] movesD(4) [OF assms(1)] assms(2,3)] movesD(3) [OF assms(1), of i] movesD(7) [OF assms(1)] assms(2)
  by (auto simp: mem_le_def)

lemma pending_wake_moves:
  assumes mv: "moves nop wk s i m c s'" and p: "pending_wake s slot (wk slot)"
  shows "pending_wake s' slot (wk slot)"
proof (cases "wk slot \<in> set (mem_woken (sys_mem s))")
  case True
  have "set (mem_woken (sys_mem s)) \<subseteq> set (mem_woken m)" using movesD(4) [OF mv] by (cases rule: step_cases) auto
  then show ?thesis using True movesD(5) [OF mv] by (auto simp: pending_wake_def)
next
  case False
  then obtain j new a k where j: "sys_calls s j = CompleteWake new a k" "k \<le> slot" "slot < length (wakers (sys_mem s) a)" "wakers (sys_mem s) a ! slot = wk slot"
    using p by (auto simp: pending_wake_def)
  have a: "a < length (mem_wakers (sys_mem s))" using movesD(2) [OF mv, of j] j(1) by simp
  note w = moves_wakers [OF mv a j(3)]
  show ?thesis
  proof (cases "j = i")
    case True
    from movesD(4) [OF mv] show ?thesis
    proof (cases rule: step_cases)
      case (complete_wake new' s'' k')
      then show ?thesis using j True movesD(5,6) [OF mv] w by (cases "k = slot") (auto simp: pending_wake_def intro!: exI [of _ i])
    qed (use j True in \<open>auto split: task_result.splits\<close>)
  next
    case False
    then show ?thesis using j movesD(5,6) [OF mv] w by (auto simp: pending_wake_def intro!: exI [of _ j])
  qed
qed

lemma registered_moves:
  assumes mv: "moves nop wk s i m c s'" and r: "registered s slot (wk slot)" and slot: "slot_ok (sys_mem s) slot"
  shows "registered s' slot (wk slot)"
proof (cases "loadResult (sys_mem s)")
  case (TaskNotCompleted a)
  then have a: "a < length (mem_wakers (sys_mem s))" "slot < length (wakers (sys_mem s) a)" and w: "wakers (sys_mem s) a ! slot = wk slot"
    using points_current [OF movesD(1) [OF mv]] slot r by (auto simp: points_def slot_ok_def registered_def)
  note w' = moves_wakers(2) [OF mv a w] moves_wakers(1) [OF mv a]
  note mem = movesD(5) [OF mv]
  from movesD(4) [OF mv] show ?thesis
  proof (cases rule: step_cases)
    case (poll_swap slot' w'' r' a')
    then have "a' = a" using movesD(3) [OF mv, of i] TaskNotCompleted by (simp add: same_array_def)
    then show ?thesis using poll_swap(3) w by (simp add: registered_def mem)
  next
    case (future_swap r' newWakers)
    then obtain a' where a': "points (sys_mem s) r' a'" "newWakers = wakers (sys_mem s) a' @ [nop]" using movesD(3) [OF mv, of i] by auto
    then have "a' = a" using points_load [OF a'(1) future_swap(2)] TaskNotCompleted by simp
    then show ?thesis using future_swap(3) a' a w by (simp add: registered_def mem wakers_append nth_append)
  next
    case (complete_swap new r' a')
    then have "points (sys_mem s) r' a'" "completed new" using movesD(2) [OF mv, of i] by auto
    then have "a' = a" using points_load [of "sys_mem s" r' a'] complete_swap(2) TaskNotCompleted by simp
    then have "pending_wake s' slot (wk slot)"
      using complete_swap w a movesD(6) [OF mv, of i] by (auto simp: pending_wake_def mem intro!: exI [of _ i])
    then show ?thesis using complete_swap(3) \<open>completed new\<close> by (cases new) (auto simp: registered_def mem)
  qed (use TaskNotCompleted w w'(1) in \<open>simp_all add: registered_def mem\<close>)
next
  case (TaskResultErr err)
  then show ?thesis using r pending_wake_moves [OF mv] completed_mono [OF movesD(7) [OF mv]] by (simp add: registered_def movesD(5) [OF mv])
next
  case (TaskResultValue v)
  then show ?thesis using r pending_wake_moves [OF mv] completed_mono [OF movesD(7) [OF mv]] by (simp add: registered_def movesD(5) [OF mv])
qed


lemma same_array_moves:
  assumes mv: "moves nop wk s i m c s'" and j: "polling (sys_calls s j) \<noteq> None" and a: "same_array (sys_mem s) a"
  shows "same_array m a"
  using movesD(4) [OF mv]
proof (cases rule: step_cases)
  case (poll_swap slot w r a')
  then show ?thesis using movesD(2) [OF mv, of i] points_load [of "sys_mem s" r a'] a by (simp add: same_array_def)
next
  case (future_swap r newWakers)
  then show ?thesis using movesD(12) [OF mv, of j] j by simp
next
  case (complete_swap new r a')
  then show ?thesis using movesD(2) [OF mv, of i] by (auto simp: same_array_def)
qed (use a in \<open>auto simp: same_array_def\<close>)

lemma array_moves:
  assumes mv: "moves nop wk s i m c s'" and "creating (sys_calls s j)" and "a < length (mem_wakers (sys_mem s))"
  shows "wakers m a = wakers (sys_mem s) a"
proof (rule nth_equalityI)
  have i: "polling (sys_calls s i) \<noteq> Some k" for k using movesD(11) [OF mv, of j] assms(2) by (cases "polling (sys_calls s i)") auto
  show len: "length (wakers m a) = length (wakers (sys_mem s) a)" using movesD(7) [OF mv] assms(3) by (simp add: mem_le_def)
  show "wakers m a ! k = wakers (sys_mem s) a ! k" if "k < length (wakers m a)" for k
    using that moves_wakers(3) [OF mv assms(3) _ i] len by simp
qed

lemma other_call_moves:
  assumes mv: "moves nop wk s i m c s'" and j: "j \<noteq> i"
  shows "call_registered nop wk s' (sys_calls s j)"
proof -
  note reg = movesD(3) [OF mv, of j] and ok = movesD(2) [OF mv, of j] and mem = movesD(5) [OF mv]
  have other: "polling (sys_calls s i) \<noteq> Some slot" if "polling (sys_calls s j) = Some slot" for slot
    using movesD(10) [OF mv, of slot j] that j by blast
  show ?thesis
  proof (cases "sys_calls s j")
    case (PollCompare slot w r a)
    then have a: "a < length (mem_wakers (sys_mem s))" "slot < length (wakers (sys_mem s) a)" using ok by (auto simp: points_def)
    have "pending_wake s' slot w" if w: "wakers (sys_mem s) a ! slot = w" and fin: "Completed m"
    proof (cases "Completed (sys_mem s)")
      case True
      then show ?thesis using pending_wake_moves [OF mv] PollCompare reg w by auto
    next
      case False
      then have "registered s slot (wk slot)" using PollCompare reg w
        by (auto simp: registered_def same_array_def Completed_def completed_def split: task_result.splits)
      then have "registered s' slot (wk slot)" using registered_moves [OF mv] ok PollCompare by simp
      then show ?thesis using fin PollCompare reg by (auto simp: registered_def mem Completed_def completed_def split: task_result.splits)
    qed
    then show ?thesis using PollCompare reg same_array_moves [OF mv, of j] moves_wakers(3) [OF mv a] other by (simp add: mem)
  next
    case (PollWrite slot w r a)
    then show ?thesis using reg same_array_moves [OF mv, of j] by (simp add: mem)
  next
    case (PollSwap slot w r a)
    then have a: "a < length (mem_wakers (sys_mem s))" "slot < length (wakers (sys_mem s) a)" using ok by (auto simp: points_def)
    then show ?thesis using PollSwap reg same_array_moves [OF mv, of j] moves_wakers(3) [OF mv a] other by (simp add: mem)
  next
    case (PollReturn slot w r)
    then show ?thesis using reg ok registered_moves [OF mv] by auto
  next
    case (FutureCopy r a newWakers)
    then show ?thesis using reg ok array_moves [OF mv, of j a] by (simp add: mem points_def)
  next
    case (FutureSwap r newWakers)
    then obtain a where a: "points (sys_mem s) r a" "newWakers = wakers (sys_mem s) a @ [nop]" using reg by auto
    then have "wakers m a = wakers (sys_mem s) a" using array_moves [OF mv, of j a] FutureSwap by (simp add: points_def)
    then show ?thesis using FutureSwap a points_mono [OF movesD(7) [OF mv] a(1)] by (auto simp: mem intro!: exI [of _ a])
  qed (use reg in auto)
qed

lemma own_call_moves:
  assumes mv: "moves nop wk s i m c s'"
  shows "call_registered nop wk s' c"
proof -
  note reg = movesD(3) [OF mv, of i] and ok = movesD(2) [OF mv, of i] and mem = movesD(5) [OF mv]
  from movesD(4) [OF mv] show ?thesis
  proof (cases rule: step_cases)
    case (poll_load slot w)
    then show ?thesis using reg by (auto simp: mem same_array_def Completed_def split: task_result.splits)
  next
    case (poll_compare slot w r a)
    have "registered s' slot w" if "wakers (sys_mem s) a ! slot = w"
      using that poll_compare reg pending_wake_moves [OF mv, of slot]
      by (auto simp: registered_def mem same_array_def Completed_def completed_def split: task_result.splits)
    then show ?thesis using poll_compare reg by (auto simp: mem)
  next
    case (poll_write slot w r a)
    then show ?thesis using reg ok by (auto simp: mem same_array_def points_def wakers_write)
  next
    case (poll_swap slot w r a)
    then show ?thesis using reg by (auto simp: mem registered_def)
  next
    case (future_copy r a newWakers)
    then show ?thesis using reg by (simp add: mem take_Suc_conv_app_nth)
  next
    case (future_copied r a newWakers)
    then show ?thesis using reg ok by (auto simp: mem intro!: exI [of _ a])
  qed (use reg in \<open>auto split: task_result.splits\<close>)
qed

lemma polling_step: "thread_step nop m c = Some (m', c') \<Longrightarrow> polling c' = Some slot \<Longrightarrow> polling c = Some slot"
  by (erule step_cases) (auto split: task_result.splits if_splits)

lemma creating_step: "thread_step nop m c = Some (m', c') \<Longrightarrow> creating c' \<Longrightarrow> creating c"
  by (erule step_cases) (auto split: task_result.splits if_splits)

lemma excl_ok_run:
  assumes mv: "moves nop wk s i m c s'"
  shows "excl_ok nop wk s'"
proof -
  have excl: "excl_ok nop wk s" and calls: "sys_calls s' = (sys_calls s)(i := c)" using mv by (auto simp: moves_def)
  have poll: "polling (sys_calls s' j) = Some slot \<Longrightarrow> polling (sys_calls s j) = Some slot" for j slot
    using polling_step [OF movesD(4) [OF mv]] by (auto simp: calls split: if_splits)
  have create: "creating (sys_calls s' j) \<Longrightarrow> creating (sys_calls s j)" for j
    using creating_step [OF movesD(4) [OF mv]] by (auto simp: calls split: if_splits)
  have "call_registered nop wk s' (sys_calls s' j)" for j
    using own_call_moves [OF mv] other_call_moves [OF mv, of j] by (simp add: calls)
  then show ?thesis using excl poll create unfolding excl_ok_def by blast
qed

lemma call_registered_start:
  assumes "call_registered nop wk s c" and "sys_calls s i = Idle"
  shows "call_registered nop wk (s\<lparr>sys_calls := (sys_calls s)(i := c')\<rparr>) c"
proof -
  have "pending_wake (s\<lparr>sys_calls := (sys_calls s)(i := c')\<rparr>) slot w" if p: "pending_wake s slot w" for slot w
  proof (cases "w \<in> set (mem_woken (sys_mem s))")
    case False
    then obtain j new a k where j: "sys_calls s j = CompleteWake new a k" "k \<le> slot" "slot < length (wakers (sys_mem s) a)" "wakers (sys_mem s) a ! slot = w"
      using p by (auto simp: pending_wake_def)
    then have "j \<noteq> i" using assms(2) by auto
    then show ?thesis using j by (auto simp: pending_wake_def intro!: exI [of _ j])
  qed (simp add: pending_wake_def)
  then show ?thesis using assms(1) by (cases c) (auto simp: registered_def split: task_result.splits)
qed

lemma excl_ok_start:
  assumes "excl_ok nop wk s" "sys_calls s i = Idle" "exclusive wk s c"
  shows "excl_ok nop wk (s\<lparr>sys_calls := (sys_calls s)(i := c)\<rparr>)"
proof -
  have c: "call_registered nop wk s c" using assms(3) by (cases c) (auto simp: exclusive_def one_poll_def)
  have poll: "polling c = Some slot \<Longrightarrow> polling (sys_calls s j) \<noteq> Some slot \<and> \<not> creating (sys_calls s j)" for slot j
    using assms(3) by (cases c) (auto simp: exclusive_def one_poll_def)
  have create: "creating c \<Longrightarrow> polling (sys_calls s j) = None \<and> polling c = None" for j
    using assms(3) by (cases c) (auto simp: exclusive_def one_poll_def)
  show ?thesis using assms(1,2) c poll create call_registered_start [OF _ assms(2), of nop wk _ c]
    unfolding excl_ok_def by (auto split: if_splits)
qed

lemma exclusive_excl_ok: "task_reachable nop (exclusive wk) s \<Longrightarrow> excl_ok nop wk s"
proof (induction rule: task_reachable.induct)
  case reach_init
  then show ?case by (simp add: excl_ok_def init_sys_def)
next
  case (reach_start s i c)
  then show ?case by (simp add: excl_ok_start)
next
  case (reach_run s i m c)
  then have "moves nop wk s i m c (s\<lparr>sys_mem := m, sys_calls := (sys_calls s)(i := c)\<rparr>)"
    using exclusive_ok by (auto simp: moves_def)
  then show ?case by (rule excl_ok_run)
qed


section \<open>Properties\<close>



text \<open>Runs, for examples: the listed calls take a step each.\<close>

fun steps :: "'w \<Rightarrow> nat list \<Rightarrow> ('e, 'v, 'w) task_sys \<Rightarrow> ('e, 'v, 'w) task_sys" where
  "steps nop [] s = s"
| "steps nop (i # is) s =
     (case thread_step nop (sys_mem s) (sys_calls s i) of
        None \<Rightarrow> s
      | Some (m, c) \<Rightarrow> steps nop is (s\<lparr>sys_mem := m, sys_calls := (sys_calls s)(i := c)\<rparr>))"

definition begin_call :: "nat \<Rightarrow> ('e, 'v, 'w) call \<Rightarrow> ('e, 'v, 'w) task_sys \<Rightarrow> ('e, 'v, 'w) task_sys" where
  "begin_call i c s = s\<lparr>sys_calls := (sys_calls s)(i := c)\<rparr>"

lemma task_reachable_steps: "task_reachable nop may s \<Longrightarrow> task_reachable nop may (steps nop is s)"
  by (induction "is" arbitrary: s) (auto split: option.splits intro: reach_run)

lemma task_reachable_begin: "task_reachable nop may s \<Longrightarrow> sys_calls s i = Idle \<Longrightarrow> may s c \<Longrightarrow> task_reachable nop may (begin_call i c s)"
  by (simp add: begin_call_def reach_start)

type_synonym sample_sys = "(string, string, nat) task_sys"

definition sample0 :: sample_sys where "sample0 = steps 0 [0, 0, 0] (begin_call 0 FutureLoad init_sys)"
definition sample1 :: sample_sys where "sample1 = steps 0 [1, 1, 1, 1] (begin_call 1 FutureLoad sample0)"
definition sample2 :: sample_sys where "sample2 = steps 0 [2, 2] (begin_call 2 (PollLoad 0 1) sample1)"
definition sample3 :: sample_sys where "sample3 = steps 0 [3, 3, 3, 3] (begin_call 3 (PollLoad 1 2) sample2)"
definition sample4 :: sample_sys where "sample4 = steps 0 [4, 4, 4, 4, 2, 2, 2, 2, 4] (begin_call 4 FutureLoad sample3)"
definition sample5 :: sample_sys where "sample5 = steps 0 [5, 5, 5, 5, 5, 5] (begin_call 5 (Complete ''value'') sample4)"


lemmas sample_simps = sample0_def sample1_def sample2_def sample3_def sample4_def sample5_def begin_call_def init_sys_def newTask_def
  thread_step_defs loadResult_def wakers_def Complete_def numeral_2_eq_2 numeral_3_eq_3

lemma sample1_exclusive: "task_reachable 0 (exclusive Suc) sample1"
proof -
  have "task_reachable 0 (exclusive Suc) sample0"
    unfolding sample0_def by (intro task_reachable_steps task_reachable_begin reach_init) (simp_all add: init_sys_def exclusive_def one_poll_def)
  then show ?thesis
    unfolding sample1_def by (intro task_reachable_steps task_reachable_begin) (simp_all add: exclusive_def one_poll_def sample_simps)
qed

lemma sample5_reachable: "task_reachable 0 (one_poll Suc) sample5"
proof -
  have "task_reachable 0 (one_poll Suc) sample1"
    using task_reachable_mono [OF sample1_exclusive, of "one_poll Suc"] by (simp add: exclusive_def)
  then have "task_reachable 0 (one_poll Suc) sample2"
    unfolding sample2_def by (intro task_reachable_steps task_reachable_begin) (simp_all add: one_poll_def sample_simps)
  then have "task_reachable 0 (one_poll Suc) sample3"
    unfolding sample3_def by (intro task_reachable_steps task_reachable_begin) (auto simp: one_poll_def sample_simps intro!: exI [of _ "Suc 0"])
  then have "task_reachable 0 (one_poll Suc) sample4"
    unfolding sample4_def by (intro task_reachable_steps task_reachable_begin) (simp_all add: one_poll_def sample_simps)
  then show ?thesis
    unfolding sample5_def by (intro task_reachable_steps task_reachable_begin) (simp_all add: one_poll_def sample_simps)
qed



definition sample6 :: sample_sys where "sample6 = steps 0 [2, 2, 2, 2] (begin_call 2 (PollLoad 0 1) sample1)"
definition sample7 :: sample_sys where "sample7 = steps 0 [5, 5, 5, 5, 5] (begin_call 5 (Complete ''value'') sample6)"


end
