(* ===== verification/Loader.thy ===== *)
theory Loader
  imports LoaderTask
begin

text \<open>
  \<open>dataloader/dataloader.go\<close>, \<open>batch_job.go\<close>, \<open>cache_map.go\<close> and the task lists of \<open>task.go\<close>: the queue of tasks, the cache and the
  dispatch of batches.

  The loader's operations hold a mutex while they change the queue, so they are functions on one state: the heap of tasks with
  their \<open>next\<close> links, the heap of queues, the queue in use, the cache, the jobs given to a runner and
  a log of the calls of the batch loader. An operation on a task is the uninterrupted run of its machine in \<open>LoaderTask\<close>
  (\<open>complete_refines\<close>). A batch loader is a parameter: from the keys it computes the completions it asks for, by the positions of
  the tasks. Runners are parameters too, of which only whether they accept a job is used.
\<close>

section \<open>Operations on tasks\<close>

text \<open>\<open>complete\<close> and \<open>newFuture\<close> when nothing interferes: one attempt of the loop, which succeeds.\<close>

definition complete :: "('e, 'v) task_result \<Rightarrow> ('e, 'v, 'w) task_mem \<Rightarrow> bool \<times> ('e, 'v, 'w) task_mem" where
  "complete newResult m =
     (case loadResult m of
        TaskNotCompleted s \<Rightarrow>
          (True, m\<lparr>mem_results := mem_results m @ [newResult], mem_result := length (mem_results m), mem_woken := mem_woken m @ wakers m s\<rparr>)
      | _ \<Rightarrow> (False, m))"

definition newFuture :: "'w \<Rightarrow> ('e, 'v, 'w) task_mem \<Rightarrow> ('e, 'v) future \<times> ('e, 'v, 'w) task_mem" where
  "newFuture NopWaker m =
     (case loadResult m of
        TaskNotCompleted s \<Rightarrow>
          (ResultFuture (length (wakers m s)),
           m\<lparr>mem_wakers := mem_wakers m @ [wakers m s @ [NopWaker]], mem_results := mem_results m @ [TaskNotCompleted (length (mem_wakers m))],
             mem_result := length (mem_results m)\<rparr>)
      | TaskResultErr err \<Rightarrow> (FutureErr err, m)
      | TaskResultValue v \<Rightarrow> (FutureReady v, m))"

section \<open>Tasks, queues and loaders\<close>

type_synonym task_ref = nat
type_synonym queue_ref = nat

record ('k, 'e, 'v, 'w) task =
  task_key :: 'k
  task_parent :: "queue_ref option"
  task_state :: "('e, 'v, 'w) task_mem"
  task_next :: "task_ref option"

record task_list =
  list_first :: "task_ref option"
  list_last :: "task_ref option"

record task_queue =
  queue_dispatched :: bool
  queue_tasks :: task_list

definition emptyTaskList :: task_list where
  "emptyTaskList = \<lparr>list_first = None, list_last = None\<rparr>"

definition newTaskQueue :: task_queue where
  "newTaskQueue = \<lparr>queue_dispatched = False, queue_tasks = emptyTaskList\<rparr>"

text \<open>\<open>Config\<close>. The cache is disabled by \<open>config_cacheKey = None\<close> (\<open>NoCacheMap\<close>); the key is its own cache key in a \<open>DefaultCacheMap\<close>.\<close>

record ('k, 'c, 'e, 'v, 'w) config =
  config_BatchLoader :: "'k list \<Rightarrow> (nat \<times> ('e + 'v)) list"
  config_Runner :: "(task_ref list \<Rightarrow> bool) option"
  config_MaxBatchSize :: nat
  config_cacheKey :: "('k \<Rightarrow> 'c) option"
  config_NopWaker :: 'w
  config_incomplete :: "'k \<Rightarrow> 'e"

record ('k, 'c, 'e, 'v, 'w) loader =
  ld_tasks :: "('k, 'e, 'v, 'w) task list"
  ld_queues :: "task_queue list"
  ld_queue :: queue_ref
  ld_cache :: "'c \<rightharpoonup> task_ref"
  ld_submitted :: "task_list list"
  ld_loads :: "task_ref list list"

datatype load_error = ErrMissingKey | ErrMissingBatchLoader

definition NewLoader :: "('k, 'c, 'e, 'v, 'w) loader" where
  "NewLoader = \<lparr>ld_tasks = [], ld_queues = [newTaskQueue], ld_queue = 0, ld_cache = Map.empty, ld_submitted = [], ld_loads = []\<rparr>"

text \<open>\<open>New\<close>: the batch loader of the configuration may be missing.\<close>

definition New_dataloader :: "('k list \<Rightarrow> (nat \<times> ('e + 'v)) list) option \<Rightarrow> ('k, 'c, 'e, 'v, 'w) config \<Rightarrow>
    (load_error, ('k, 'c, 'e, 'v, 'w) config \<times> ('k, 'c, 'e, 'v, 'w) loader) outcome" where
  "New_dataloader batchLoader cfg =
     (case batchLoader of
        None \<Rightarrow> Error ErrMissingBatchLoader
      | Some f \<Rightarrow> Ok (cfg\<lparr>config_BatchLoader := f\<rparr>, NewLoader))"

definition next_task :: "('k, 'c, 'e, 'v, 'w) loader \<Rightarrow> task_ref \<Rightarrow> task_ref option" where
  "next_task ld t = task_next (ld_tasks ld ! t)"

definition alloc_task :: "queue_ref option \<Rightarrow> 'k \<Rightarrow> ('k, 'c, 'e, 'v, 'w) loader \<Rightarrow> task_ref \<times> ('k, 'c, 'e, 'v, 'w) loader" where
  "alloc_task parent key ld =
     (length (ld_tasks ld), ld\<lparr>ld_tasks := ld_tasks ld @ [\<lparr>task_key = key, task_parent = parent, task_state = newTask, task_next = None\<rparr>]\<rparr>)"

definition set_mem :: "task_ref \<Rightarrow> ('e, 'v, 'w) task_mem \<Rightarrow> ('k, 'c, 'e, 'v, 'w) loader \<Rightarrow> ('k, 'c, 'e, 'v, 'w) loader" where
  "set_mem t m ld = ld\<lparr>ld_tasks := (ld_tasks ld)[t := (ld_tasks ld ! t)\<lparr>task_state := m\<rparr>]\<rparr>"

definition to_result :: "'e + 'v \<Rightarrow> ('e, 'v) task_result" where
  "to_result r = (case r of Inl err \<Rightarrow> TaskResultErr err | Inr v \<Rightarrow> TaskResultValue v)"

definition complete_task :: "task_ref \<Rightarrow> 'e + 'v \<Rightarrow> ('k, 'c, 'e, 'v, 'w) loader \<Rightarrow> ('k, 'c, 'e, 'v, 'w) loader" where
  "complete_task t r ld =
     set_mem t (snd (complete (to_result r) (task_state (ld_tasks ld ! t)))) ld"

definition future_of :: "('k, 'c, 'e, 'v, 'w) config \<Rightarrow> task_ref \<Rightarrow> ('k, 'c, 'e, 'v, 'w) loader \<Rightarrow>
    (task_ref \<times> ('e, 'v) future) \<times> ('k, 'c, 'e, 'v, 'w) loader" where
  "future_of cfg t ld =
     (case newFuture (config_NopWaker cfg) (task_state (ld_tasks ld ! t)) of (f, m) \<Rightarrow> ((t, f), set_mem t m ld))"

section \<open>The cache\<close>

definition CacheMap_Get :: "('k, 'c, 'e, 'v, 'w) config \<Rightarrow> 'k \<Rightarrow> ('k, 'c, 'e, 'v, 'w) loader \<Rightarrow> task_ref option" where
  "CacheMap_Get cfg key ld = (case config_cacheKey cfg of None \<Rightarrow> None | Some cacheKeyFor \<Rightarrow> ld_cache ld (cacheKeyFor key))"

text \<open>\<open>Set\<close> with the test for a disabled cache; it returns the task that is in the cache afterwards.\<close>

definition CacheMap_Set :: "('k, 'c, 'e, 'v, 'w) config \<Rightarrow> task_ref \<Rightarrow> ('k, 'c, 'e, 'v, 'w) loader \<Rightarrow> task_ref \<times> ('k, 'c, 'e, 'v, 'w) loader" where
  "CacheMap_Set cfg t ld =
     (case config_cacheKey cfg of
        None \<Rightarrow> (t, ld)
      | Some cacheKeyFor \<Rightarrow>
          (let key = cacheKeyFor (task_key (ld_tasks ld ! t)) in
           case ld_cache ld key of
             Some cachedTask \<Rightarrow> (cachedTask, ld)
           | None \<Rightarrow> (t, ld\<lparr>ld_cache := (ld_cache ld)(key \<mapsto> t)\<rparr>)))"

definition Clear :: "('k, 'c, 'e, 'v, 'w) config \<Rightarrow> 'k \<Rightarrow> ('k, 'c, 'e, 'v, 'w) loader \<Rightarrow> ('k, 'c, 'e, 'v, 'w) loader" where
  "Clear cfg key ld =
     (case config_cacheKey cfg of None \<Rightarrow> ld | Some cacheKeyFor \<Rightarrow> ld\<lparr>ld_cache := (ld_cache ld)(cacheKeyFor key := None)\<rparr>)"

definition ClearAll :: "('k, 'c, 'e, 'v, 'w) config \<Rightarrow> ('k, 'c, 'e, 'v, 'w) loader \<Rightarrow> ('k, 'c, 'e, 'v, 'w) loader" where
  "ClearAll cfg ld = (case config_cacheKey cfg of None \<Rightarrow> ld | Some cacheKeyFor \<Rightarrow> ld\<lparr>ld_cache := Map.empty\<rparr>)"

definition prime :: "('k, 'c, 'e, 'v, 'w) config \<Rightarrow> 'k \<Rightarrow> 'e + 'v \<Rightarrow> ('k, 'c, 'e, 'v, 'w) loader \<Rightarrow> ('k, 'c, 'e, 'v, 'w) loader" where
  "prime cfg key r ld =
     (case config_cacheKey cfg of
        None \<Rightarrow> ld
      | Some _ \<Rightarrow> (case alloc_task None key ld of (t, ld) \<Rightarrow> snd (CacheMap_Set cfg t (complete_task t r ld))))"

definition Prime :: "('k, 'c, 'e, 'v, 'w) config \<Rightarrow> 'k \<Rightarrow> 'v \<Rightarrow> ('k, 'c, 'e, 'v, 'w) loader \<Rightarrow> ('k, 'c, 'e, 'v, 'w) loader" where
  "Prime cfg key v = prime cfg key (Inr v)"

definition PrimeError :: "('k, 'c, 'e, 'v, 'w) config \<Rightarrow> 'k \<Rightarrow> 'e \<Rightarrow> ('k, 'c, 'e, 'v, 'w) loader \<Rightarrow> ('k, 'c, 'e, 'v, 'w) loader" where
  "PrimeError cfg key err = prime cfg key (Inl err)"

section \<open>Loading\<close>

definition list_Empty :: "task_list \<Rightarrow> bool" where
  "list_Empty tasks \<longleftrightarrow> list_first tasks = None"

definition push :: "queue_ref \<Rightarrow> task_ref \<Rightarrow> ('k, 'c, 'e, 'v, 'w) loader \<Rightarrow> ('k, 'c, 'e, 'v, 'w) loader" where
  "push q t ld =
     (let queue = ld_queues ld ! q; tasks = queue_tasks queue;
          ld1 = (case list_last tasks of
                   None \<Rightarrow> ld
                 | Some lastTask \<Rightarrow> ld\<lparr>ld_tasks := (ld_tasks ld)[lastTask := (ld_tasks ld ! lastTask)\<lparr>task_next := Some t\<rparr>]\<rparr>);
          tasks1 = (case list_last tasks of None \<Rightarrow> tasks\<lparr>list_first := Some t\<rparr> | Some _ \<Rightarrow> tasks)
      in ld1\<lparr>ld_queues := (ld_queues ld)[q := queue\<lparr>queue_tasks := tasks1\<lparr>list_last := Some t\<rparr>\<rparr>]\<rparr>)"

definition Enqueue :: "('k, 'c, 'e, 'v, 'w) config \<Rightarrow> queue_ref \<Rightarrow> 'k \<Rightarrow> ('k, 'c, 'e, 'v, 'w) loader \<Rightarrow> task_ref \<times> ('k, 'c, 'e, 'v, 'w) loader" where
  "Enqueue cfg q key ld =
     (case alloc_task (Some q) key ld of (t, ld1) \<Rightarrow>
      case CacheMap_Set cfg t ld1 of (cachedTask, ld2) \<Rightarrow>
        if cachedTask \<noteq> t then (cachedTask, ld2) else (t, push q t ld2))"

definition Load :: "('k, 'c, 'e, 'v, 'w) config \<Rightarrow> 'k option \<Rightarrow> ('k, 'c, 'e, 'v, 'w) loader \<Rightarrow>
    (load_error, task_ref \<times> ('e, 'v) future) outcome \<times> ('k, 'c, 'e, 'v, 'w) loader" where
  "Load cfg key ld =
     (case key of
        None \<Rightarrow> (Error ErrMissingKey, ld)
      | Some key \<Rightarrow>
          (case CacheMap_Get cfg key ld of
             Some t \<Rightarrow> (case future_of cfg t ld of (f, ld1) \<Rightarrow> (Ok f, ld1))
           | None \<Rightarrow>
               (case Enqueue cfg (ld_queue ld) key ld of (t, ld1) \<Rightarrow>
                  case future_of cfg t ld1 of (f, ld2) \<Rightarrow> (Ok f, ld2))))"

text \<open>The futures that \<open>LoadMany\<close> joins, for an array of keys.\<close>

fun LoadMany :: "('k, 'c, 'e, 'v, 'w) config \<Rightarrow> 'k option list \<Rightarrow> ('k, 'c, 'e, 'v, 'w) loader \<Rightarrow>
    (load_error, (task_ref \<times> ('e, 'v) future) list) outcome \<times> ('k, 'c, 'e, 'v, 'w) loader" where
  "LoadMany cfg [] ld = (Ok [], ld)"
| "LoadMany cfg (key # keys) ld =
     andThen (Load cfg key) (\<lambda>f. andThen (LoadMany cfg keys) (\<lambda>fs. ret (f # fs))) ld"

section \<open>Batches\<close>

text \<open>A walk over a list: \<open>Iterator\<close> and calls of \<open>Next\<close> until done, with the state as the body of the loop leaves it.\<close>

fun iterate :: "nat \<Rightarrow> task_ref option \<Rightarrow> task_ref option \<Rightarrow> (task_ref \<Rightarrow> ('k, 'c, 'e, 'v, 'w) loader \<Rightarrow> ('k, 'c, 'e, 'v, 'w) loader) \<Rightarrow>
    (('k, 'c, 'e, 'v, 'w) loader, load_error, unit) action" where
  "iterate 0 cur end' body = out_of_fuel"
| "iterate (Suc fuel) cur end' body = (\<lambda>ld.
     if cur = end' then (Ok (), ld)
     else case cur of
       None \<Rightarrow> (Panic, ld)
     | Some t \<Rightarrow> iterate fuel (next_task ld t) end' body (body t ld))"

definition list_end :: "task_list \<Rightarrow> ('k, 'c, 'e, 'v, 'w) loader \<Rightarrow> task_ref option" where
  "list_end tasks ld = (case list_last tasks of None \<Rightarrow> None | Some lastTask \<Rightarrow> next_task ld lastTask)"

definition for_tasks :: "task_list \<Rightarrow> (task_ref \<Rightarrow> ('k, 'c, 'e, 'v, 'w) loader \<Rightarrow> ('k, 'c, 'e, 'v, 'w) loader) \<Rightarrow>
    (('k, 'c, 'e, 'v, 'w) loader, load_error, unit) action" where
  "for_tasks tasks body = (\<lambda>ld.
     if list_Empty tasks then (Ok (), ld)
     else iterate (length (ld_tasks ld) + 1) (list_first tasks) (list_end tasks ld) body ld)"

text \<open>The addresses that a walk visits, with the fuel of the walk.\<close>

fun visited :: "nat \<Rightarrow> ('k, 'c, 'e, 'v, 'w) loader \<Rightarrow> task_ref option \<Rightarrow> task_ref option \<Rightarrow> task_ref list" where
  "visited 0 ld cur end' = []"
| "visited (Suc fuel) ld cur end' =
     (if cur = end' then [] else case cur of None \<Rightarrow> [] | Some t \<Rightarrow> t # visited fuel ld (next_task ld t) end')"

definition tasks_of :: "task_list \<Rightarrow> ('k, 'c, 'e, 'v, 'w) loader \<Rightarrow> task_ref list" where
  "tasks_of tasks ld =
     (if list_Empty tasks then [] else visited (length (ld_tasks ld) + 1) ld (list_first tasks) (list_end tasks ld))"

text \<open>\<open>BatchLoader.Load\<close>: the tasks are those of the list; the completions are done in the order the batch loader asks for them.\<close>

definition batch_load :: "('k, 'c, 'e, 'v, 'w) config \<Rightarrow> task_list \<Rightarrow> ('k, 'c, 'e, 'v, 'w) loader \<Rightarrow> ('k, 'c, 'e, 'v, 'w) loader" where
  "batch_load cfg tasks ld =
     (let ts = tasks_of tasks ld; keys = map (\<lambda>t. task_key (ld_tasks ld ! t)) ts in
      fold (\<lambda>(i, r) ld. if i < length ts then complete_task (ts ! i) r ld else ld) (config_BatchLoader cfg keys)
        (ld\<lparr>ld_loads := ld_loads ld @ [ts]\<rparr>))"

definition ensure_completed :: "('k, 'c, 'e, 'v, 'w) config \<Rightarrow> task_ref \<Rightarrow> ('k, 'c, 'e, 'v, 'w) loader \<Rightarrow> ('k, 'c, 'e, 'v, 'w) loader" where
  "ensure_completed cfg t ld =
     (if \<not> Completed (task_state (ld_tasks ld ! t)) then complete_task t (Inl (config_incomplete cfg (task_key (ld_tasks ld ! t)))) ld else ld)"

text \<open>\<open>BatchLoadJob.Run\<close>: the configuration is reached through the parent of the first task.\<close>

definition job_Run :: "('k, 'c, 'e, 'v, 'w) config \<Rightarrow> task_list \<Rightarrow> (('k, 'c, 'e, 'v, 'w) loader, load_error, unit) action" where
  "job_Run cfg tasks = (\<lambda>ld.
     case list_first tasks of
       None \<Rightarrow> (Panic, ld)
     | Some first \<Rightarrow>
         if task_parent (ld_tasks ld ! first) = None then (Panic, ld)
         else for_tasks tasks (ensure_completed cfg) (batch_load cfg tasks ld))"

text \<open>An error of \<open>Submit\<close> is returned, and dropped by the caller.\<close>

definition dispatchQueueBatch :: "('k, 'c, 'e, 'v, 'w) config \<Rightarrow> task_list \<Rightarrow> (('k, 'c, 'e, 'v, 'w) loader, load_error, unit) action" where
  "dispatchQueueBatch cfg tasks = (\<lambda>ld.
     case config_Runner cfg of
       None \<Rightarrow> job_Run cfg tasks ld
     | Some accepts \<Rightarrow>
         (Ok (), if accepts (tasks_of tasks ld) then ld\<lparr>ld_submitted := ld_submitted ld @ [tasks]\<rparr> else ld))"

fun dispatchBatches :: "nat \<Rightarrow> ('k, 'c, 'e, 'v, 'w) config \<Rightarrow> task_ref option \<Rightarrow> task_ref \<Rightarrow> nat \<Rightarrow> (('k, 'c, 'e, 'v, 'w) loader, load_error, unit) action" where
  "dispatchBatches 0 cfg firstTask t counter = out_of_fuel"
| "dispatchBatches (Suc fuel) cfg firstTask t counter = (\<lambda>ld.
     let nextTask = next_task ld t; counter = counter - 1 in
     andThen (if counter = 0
              then andThen (dispatchQueueBatch cfg \<lparr>list_first = firstTask, list_last = Some t\<rparr>)
                     (\<lambda>_. ret (config_MaxBatchSize cfg, nextTask))
              else ret (counter, firstTask))
       (\<lambda>(counter, firstTask).
          case nextTask of
            None \<Rightarrow>
              if firstTask \<noteq> None then dispatchQueueBatch cfg \<lparr>list_first = firstTask, list_last = Some t\<rparr> else ret ()
          | Some t' \<Rightarrow> dispatchBatches fuel cfg firstTask t' counter) ld)"

definition dispatchQueue :: "('k, 'c, 'e, 'v, 'w) config \<Rightarrow> queue_ref \<Rightarrow> (('k, 'c, 'e, 'v, 'w) loader, load_error, unit) action" where
  "dispatchQueue cfg q = (\<lambda>ld.
     if q \<noteq> ld_queue ld \<or> list_Empty (queue_tasks (ld_queues ld ! q)) then (Ok (), ld)
     else
       let queue = (ld_queues ld ! q)\<lparr>queue_dispatched := True\<rparr>;
           ld1 = ld\<lparr>ld_queues := (ld_queues ld)[q := queue] @ [newTaskQueue], ld_queue := length (ld_queues ld)\<rparr>;
           tasks = queue_tasks queue
       in if config_MaxBatchSize cfg = 0 then dispatchQueueBatch cfg tasks ld1
          else case list_first tasks of
            None \<Rightarrow> (Panic, ld1)
          | Some firstTask \<Rightarrow>
              dispatchBatches (length (ld_tasks ld1) + 1) cfg (Some firstTask) firstTask (config_MaxBatchSize cfg) ld1)"

definition Dispatch :: "('k, 'c, 'e, 'v, 'w) config \<Rightarrow> (('k, 'c, 'e, 'v, 'w) loader, load_error, unit) action" where
  "Dispatch cfg = (\<lambda>ld. dispatchQueue cfg (ld_queue ld) ld)"

end
