(* ===== verification/LoaderSpec.thy ===== *)
theory LoaderSpec
  imports Loader
begin

text \<open>
  What the data loader promises: an uninterrupted call on a task is atomic, dispatching splits the pending tasks into batches and
  completes them, and tasks are neither lost nor loaded twice.
\<close>

section \<open>Calls without interference\<close>

fun run_call :: "nat \<Rightarrow> 'w \<Rightarrow> ('e, 'v, 'w) task_mem \<times> ('e, 'v, 'w) call \<Rightarrow> ('e, 'v, 'w) task_mem \<times> ('e, 'v, 'w) call" where
  "run_call 0 nop mc = mc"
| "run_call (Suc n) nop mc = (case thread_step nop (fst mc) (snd mc) of None \<Rightarrow> mc | Some mc' \<Rightarrow> run_call n nop mc')"

lemma run_wake:
  "i \<le> length (wakers m s) \<Longrightarrow>
   run_call (length (wakers m s) - i + 1) nop (m, CompleteWake new s i) =
     (m\<lparr>mem_woken := mem_woken m @ drop i (wakers m s)\<rparr>, CompleteReturn new True)"
proof (induction "length (wakers m s) - i" arbitrary: i m)
  case 0
  then show ?case by (simp add: thread_step_defs)
next
  case (Suc n)
  then have i: "i < length (wakers m s)" by linarith
  let ?m = "m\<lparr>mem_woken := mem_woken m @ [wakers m s ! i]\<rparr>"
  have "run_call (length (wakers ?m s) - Suc i + 1) nop (?m, CompleteWake new s (Suc i)) =
      (?m\<lparr>mem_woken := mem_woken ?m @ drop (Suc i) (wakers ?m s)\<rparr>, CompleteReturn new True)"
    using Suc.hyps(1) [of ?m "Suc i"] Suc.hyps(2) i by (simp del: run_call.simps)
  moreover have "length (wakers m s) - i + 1 = Suc (length (wakers m s) - Suc i + 1)" using i by simp
  ultimately show ?case using i by (simp add: thread_step_defs Cons_nth_drop_Suc [symmetric])
qed

lemma run_copy:
  "length acc \<le> length (wakers m s) \<Longrightarrow> acc = take (length acc) (wakers m s) \<Longrightarrow>
   run_call (length (wakers m s) - length acc + 1) nop (m, FutureCopy r s acc) = (m, FutureSwap r (wakers m s @ [nop]))"
proof (induction "length (wakers m s) - length acc" arbitrary: acc)
  case 0
  then show ?case by (simp add: thread_step_defs)
next
  case (Suc n)
  then have i: "length acc < length (wakers m s)" by linarith
  let ?acc = "acc @ [wakers m s ! length acc]"
  have "run_call (length (wakers m s) - length ?acc + 1) nop (m, FutureCopy r s ?acc) = (m, FutureSwap r (wakers m s @ [nop]))"
    using Suc.hyps(1) [of ?acc] Suc.hyps(2) Suc.prems i by (simp add: take_Suc_conv_app_nth del: run_call.simps)
  moreover have "length (wakers m s) - length acc + 1 = Suc (length (wakers m s) - length ?acc + 1)" using i by simp
  ultimately show ?case using i by (simp add: thread_step_defs)
qed

lemma run_call_add: "run_call (a + b) nop mc = run_call b nop (run_call a nop mc)"
proof (induction a arbitrary: mc)
  case (Suc a)
  have stuck: "thread_step nop (fst mc) (snd mc) = None \<Longrightarrow> run_call b nop mc = mc" for b by (cases b) auto
  show ?case using Suc stuck by (auto split: option.splits)
qed simp

text \<open>
  C37: an uninterrupted call is atomic. The machine of \<open>complete\<close>, run alone, ends in the state and with the answer of the
  atomic operation: it sets the result and calls the wakers of all futures in order, or refuses; and \<open>newFuture\<close>
  run alone adds a slot for its future or gives the result at once.
\<close>

theorem calls_refine:
  "(\<exists>n. run_call n nop (m, CompleteLoad new) = (snd (complete new m), CompleteReturn new (fst (complete new m)))) \<and>
   (\<exists>n. run_call n nop (m, FutureLoad) = (snd (newFuture nop m), FutureReturn (fst (newFuture nop m))))"
proof
  show "\<exists>n. run_call n nop (m, CompleteLoad new) = (snd (complete new m), CompleteReturn new (fst (complete new m)))"
  proof (cases "loadResult m")
    case (TaskNotCompleted s)
    let ?m = "m\<lparr>mem_results := mem_results m @ [new], mem_result := length (mem_results m)\<rparr>"
    have "run_call 2 nop (m, CompleteLoad new) = (?m, CompleteWake new s 0)"
      using TaskNotCompleted by (simp add: thread_step_defs numeral_2_eq_2)
    then have "run_call (2 + (length (wakers m s) + 1)) nop (m, CompleteLoad new) =
        (?m\<lparr>mem_woken := mem_woken m @ wakers m s\<rparr>, CompleteReturn new True)"
      using run_wake [of 0 ?m s nop new] unfolding run_call_add by (simp del: run_call.simps)
    then have "run_call (2 + (length (wakers m s) + 1)) nop (m, CompleteLoad new) = (snd (complete new m), CompleteReturn new (fst (complete new m)))"
      using TaskNotCompleted by (simp add: complete_def)
    then show ?thesis by blast
  qed (rule exI [of _ 1], simp add: complete_def thread_step_defs)+
  show "\<exists>n. run_call n nop (m, FutureLoad) = (snd (newFuture nop m), FutureReturn (fst (newFuture nop m)))"
  proof (cases "loadResult m")
    case (TaskNotCompleted s)
    have "run_call 1 nop (m, FutureLoad) = (m, FutureCopy (mem_result m) s [])" using TaskNotCompleted by (simp add: thread_step_defs)
    moreover have "run_call 1 nop (m, FutureSwap (mem_result m) (wakers m s @ [nop])) = (snd (newFuture nop m), FutureReturn (fst (newFuture nop m)))"
      using TaskNotCompleted by (simp add: thread_step_defs newFuture_def)
    ultimately have "run_call (1 + ((length (wakers m s) + 1) + 1)) nop (m, FutureLoad) = (snd (newFuture nop m), FutureReturn (fst (newFuture nop m)))"
      using run_copy [of "[]" m s nop "mem_result m"] unfolding run_call_add by simp
    then show ?thesis by blast
  qed (rule exI [of _ 1], simp add: newFuture_def thread_step_defs)+
qed


section \<open>Linked lists of tasks\<close>

definition first_or :: "task_ref list \<Rightarrow> task_ref option \<Rightarrow> task_ref option" where
  "first_or xs e = (case xs of [] \<Rightarrow> e | x # _ \<Rightarrow> Some x)"

lemma first_or_simps [simp]: "first_or [] e = e" "first_or (x # xs) e = Some x"
  by (simp_all add: first_or_def)

fun linked :: "('k, 'c, 'e, 'v, 'w) loader \<Rightarrow> task_ref list \<Rightarrow> task_ref option \<Rightarrow> bool" where
  "linked ld [] e \<longleftrightarrow> True"
| "linked ld (t # ts) e \<longleftrightarrow> next_task ld t = first_or ts e \<and> linked ld ts e"

lemma linked_append: "linked ld (xs @ ys) e \<longleftrightarrow> linked ld xs (first_or ys e) \<and> linked ld ys e"
proof (induction xs)
  case (Cons x xs)
  then show ?case by (cases xs) auto
qed simp

text \<open>Two states in which tasks have the same keys, parents and links.\<close>

definition same_links :: "('k, 'c, 'e, 'v, 'w) loader \<Rightarrow> ('k, 'c, 'e, 'v, 'w) loader \<Rightarrow> bool" where
  "same_links ld ld' \<longleftrightarrow> length (ld_tasks ld') = length (ld_tasks ld) \<and> ld_queues ld' = ld_queues ld \<and> ld_queue ld' = ld_queue ld \<and>
     ld_cache ld' = ld_cache ld \<and> ld_submitted ld' = ld_submitted ld \<and>
     (\<forall>t. next_task ld' t = next_task ld t \<and> task_key (ld_tasks ld' ! t) = task_key (ld_tasks ld ! t) \<and>
       task_parent (ld_tasks ld' ! t) = task_parent (ld_tasks ld ! t))"

lemma same_links_refl [simp]: "same_links ld ld"
  by (simp add: same_links_def)

lemma same_links_trans: "same_links a b \<Longrightarrow> same_links b c \<Longrightarrow> same_links a c"
  by (simp add: same_links_def)

lemma linked_same: "same_links ld ld' \<Longrightarrow> linked ld' xs e = linked ld xs e"
  by (induction xs) (auto simp: same_links_def)

lemma set_mem_links [simp]: "same_links ld (set_mem t m ld)"
  by (cases "t < length (ld_tasks ld)") (auto simp: same_links_def set_mem_def next_task_def nth_list_update list_update_beyond)

lemma set_mem_loads [simp]: "ld_loads (set_mem t m ld) = ld_loads ld"
  by (simp add: set_mem_def)

lemma complete_task_links [simp]: "same_links ld (complete_task t r ld)"
  by (simp add: complete_task_def)

lemma ensure_completed_links [simp]: "same_links ld (ensure_completed cfg t ld)"
  by (simp add: ensure_completed_def)

lemma fold_links: "(\<And>x ld. same_links ld (f x ld)) \<Longrightarrow> same_links ld (fold f xs ld)"
  by (induction xs arbitrary: ld) (auto intro: same_links_trans)

lemma iterate_linked:
  assumes "\<And>t ld. same_links ld (body t ld)"
  shows "linked ld xs e \<Longrightarrow> e \<notin> Some ` set xs \<Longrightarrow> length xs < fuel \<Longrightarrow> iterate fuel (first_or xs e) e body ld = (Ok (), fold body xs ld)"
proof (induction xs arbitrary: ld fuel)
  case Nil
  then show ?case by (cases fuel) auto
next
  case (Cons x xs)
  then obtain n where n: "fuel = Suc n" by (cases fuel) auto
  have "linked (body x ld) xs e" using Cons.prems(1) linked_same [OF assms] by simp
  then show ?case using Cons n by (auto simp: image_iff)
qed

lemma visited_linked:
  "linked ld xs e \<Longrightarrow> e \<notin> Some ` set xs \<Longrightarrow> length xs < fuel \<Longrightarrow> visited fuel ld (first_or xs e) e = xs"
proof (induction xs arbitrary: fuel)
  case Nil
  then show ?case by (cases fuel) auto
next
  case (Cons x xs)
  then obtain n where n: "fuel = Suc n" by (cases fuel) auto
  then show ?case using Cons by (auto simp: image_iff)
qed

text \<open>A part of a list: tasks in the order in which they were made, up to a later task or the end.\<close>

definition part :: "('k, 'c, 'e, 'v, 'w) loader \<Rightarrow> task_ref list \<Rightarrow> task_ref option \<Rightarrow> bool" where
  "part ld xs e \<longleftrightarrow> linked ld xs e \<and> sorted_wrt (<) xs \<and> (\<forall>x \<in> set xs. x < length (ld_tasks ld) \<and> task_parent (ld_tasks ld ! x) \<noteq> None) \<and>
     (\<forall>y. e = Some y \<longrightarrow> (\<forall>x \<in> set xs. x < y))"

lemma part_same: "same_links ld ld' \<Longrightarrow> part ld' xs e = part ld xs e"
  using linked_same [of ld ld' xs e] by (auto simp: part_def same_links_def)

lemma part_append: "part ld (xs @ ys) e \<Longrightarrow> part ld xs (first_or ys e) \<and> part ld ys e"
  by (cases ys) (auto simp: part_def linked_append sorted_wrt_append)

lemma part_facts:
  assumes "part ld xs e"
  shows "e \<notin> Some ` set xs" "length xs \<le> length (ld_tasks ld)" "distinct xs" "linked ld xs e"
proof -
  show "distinct xs" using assms by (auto simp: part_def strict_sorted_iff)
  moreover have "set xs \<subseteq> {..<length (ld_tasks ld)}" using assms by (auto simp: part_def)
  ultimately show "length xs \<le> length (ld_tasks ld)" using card_mono [of "{..<length (ld_tasks ld)}" "set xs"] distinct_card by fastforce
qed (use assms in \<open>auto simp: part_def\<close>)

definition list_of :: "task_ref list \<Rightarrow> task_list" where
  "list_of xs = (if xs = [] then emptyTaskList else \<lparr>list_first = Some (hd xs), list_last = Some (last xs)\<rparr>)"

lemma list_of_simps [simp]:
  "list_of [] = emptyTaskList" "list_first (list_of xs) = first_or xs None" "list_last (list_of xs) = (if xs = [] then None else Some (last xs))"
  "list_Empty (list_of xs) \<longleftrightarrow> xs = []"
  by (cases xs; simp add: list_of_def emptyTaskList_def list_Empty_def)+

lemma list_of_snoc: "\<lparr>list_first = first_or (b @ [t]) None, list_last = Some t\<rparr> = list_of (b @ [t])"
  by (cases b) (simp_all add: list_of_def)

lemma list_end_part: "part ld xs e \<Longrightarrow> xs \<noteq> [] \<Longrightarrow> list_end (list_of xs) ld = e"
proof -
  assume "part ld xs e" "xs \<noteq> []"
  then have "linked ld (butlast xs @ [last xs]) e" by (simp add: part_def)
  then show ?thesis using \<open>xs \<noteq> []\<close> by (simp only: linked_append) (simp add: list_end_def)
qed

lemma first_or_nonempty: "xs \<noteq> [] \<Longrightarrow> first_or xs None = first_or xs e"
  by (cases xs) auto

lemma tasks_of_part: "part ld xs e \<Longrightarrow> tasks_of (list_of xs) ld = xs"
  using visited_linked [of ld xs e "length (ld_tasks ld) + 1"] part_facts [of ld xs e] list_end_part [of ld xs e] first_or_nonempty [of xs e]
  by (auto simp: tasks_of_def)

lemma for_tasks_part:
  assumes "part ld xs e" and "\<And>t ld. same_links ld (body t ld)"
  shows "for_tasks (list_of xs) body ld = (Ok (), fold body xs ld)"
  using iterate_linked [of body ld xs e "length (ld_tasks ld) + 1"] assms part_facts [OF assms(1)] list_end_part [OF assms(1)] first_or_nonempty [of xs e]
  by (auto simp: for_tasks_def)


section \<open>Completion of a batch\<close>

lemma mem_ok_newTask: "mem_ok newTask"
  by (simp add: mem_ok_def newTask_def)

lemma loadResult_complete: "loadResult (snd (complete new m)) = (if Completed m then loadResult m else new)"
  by (cases "loadResult m") (simp_all add: complete_def Completed_def loadResult_def)

lemma completed_to_result [simp]: "completed (to_result r)"
  by (cases r) (simp_all add: to_result_def)

definition result_at :: "('k, 'c, 'e, 'v, 'w) loader \<Rightarrow> task_ref \<Rightarrow> ('e, 'v) task_result" where
  "result_at ld t = loadResult (task_state (ld_tasks ld ! t))"

lemma result_at_loads [simp]: "result_at (ld\<lparr>ld_loads := ls\<rparr>) = result_at ld"
  by (simp add: result_at_def fun_eq_iff)

lemma Completed_result: "Completed (task_state (ld_tasks ld ! t)) = completed (result_at ld t)"
  by (simp add: Completed_def result_at_def)

lemma result_complete_task:
  "t < length (ld_tasks ld) \<Longrightarrow>
     result_at (complete_task t r ld) u = (if u = t \<and> \<not> completed (result_at ld t) then to_result r else result_at ld u)"
  by (cases "u = t") (auto simp: result_at_def complete_task_def set_mem_def loadResult_complete Completed_def)

lemma result_ensure_completed:
  "t < length (ld_tasks ld) \<Longrightarrow> result_at (ensure_completed cfg t ld) u =
     (if u = t \<and> \<not> completed (result_at ld t) then TaskResultErr (config_incomplete cfg (task_key (ld_tasks ld ! t))) else result_at ld u)"
  by (auto simp: ensure_completed_def Completed_result result_complete_task to_result_def)

text \<open>The completion that a batch loader asks for first at a position.\<close>

definition asked :: "(nat \<times> 'r) list \<Rightarrow> nat \<Rightarrow> 'r option" where
  "asked cs i = map_of cs i"

definition batch_result :: "('k, 'c, 'e, 'v, 'w) config \<Rightarrow> 'k list \<Rightarrow> nat \<Rightarrow> ('e, 'v) task_result" where
  "batch_result cfg keys i =
     (case asked (config_BatchLoader cfg keys) i of Some r \<Rightarrow> to_result r | None \<Rightarrow> TaskResultErr (config_incomplete cfg (keys ! i)))"

definition run_asked :: "task_ref list \<Rightarrow> (nat \<times> ('e + 'v)) list \<Rightarrow> ('k, 'c, 'e, 'v, 'w) loader \<Rightarrow> ('k, 'c, 'e, 'v, 'w) loader" where
  "run_asked ts cs = fold (\<lambda>(i, r) ld. if i < length ts then complete_task (ts ! i) r ld else ld) cs"

lemma run_asked_links [simp]: "same_links ld (run_asked ts cs ld)"
  unfolding run_asked_def by (rule fold_links) auto

lemma run_asked_loads [simp]: "ld_loads (run_asked ts cs ld) = ld_loads ld"
  unfolding run_asked_def by (induction cs arbitrary: ld) (auto simp: complete_task_def set_mem_def)

lemma run_asked_result:
  assumes "distinct ts" and "i < length ts"
  shows "\<forall>t \<in> set ts. t < length (ld_tasks ld) \<Longrightarrow>
    result_at (run_asked ts cs ld) (ts ! i) =
      (if completed (result_at ld (ts ! i)) then result_at ld (ts ! i)
       else case asked cs i of Some r \<Rightarrow> to_result r | None \<Rightarrow> result_at ld (ts ! i))"
proof (induction cs arbitrary: ld)
  case Nil
  then show ?case by (simp add: run_asked_def asked_def)
next
  case (Cons c cs)
  obtain j r where c: "c = (j, r)" by (cases c)
  define ld1 where "ld1 = (if j < length ts then complete_task (ts ! j) r ld else ld)"
  have run: "run_asked ts (c # cs) ld = run_asked ts cs ld1" by (simp add: run_asked_def c ld1_def)
  have "same_links ld ld1" by (simp add: ld1_def)
  then have len: "length (ld_tasks ld1) = length (ld_tasks ld)" by (simp add: same_links_def)
  have "result_at ld1 (ts ! i) = (if j = i \<and> \<not> completed (result_at ld (ts ! i)) then to_result r else result_at ld (ts ! i))"
    using Cons.prems assms by (auto simp: ld1_def result_complete_task nth_eq_iff_index_eq)
  then show ?case unfolding run using Cons.IH [of ld1] Cons.prems len by (cases "j = i") (simp_all add: asked_def c split: option.splits)
qed

lemma run_asked_other: "u \<notin> set ts \<Longrightarrow> ld_tasks (run_asked ts cs ld) ! u = ld_tasks ld ! u"
  unfolding run_asked_def
proof (induction cs arbitrary: ld)
  case (Cons c cs)
  obtain i r where c: "c = (i, r)" by (cases c)
  have "i < length ts \<Longrightarrow> ts ! i \<noteq> u" using Cons.prems nth_mem by blast
  then show ?case using Cons c by (simp add: complete_task_def set_mem_def)
qed simp

definition run_batch :: "('k, 'c, 'e, 'v, 'w) config \<Rightarrow> task_ref list \<Rightarrow> ('k, 'c, 'e, 'v, 'w) loader \<Rightarrow> ('k, 'c, 'e, 'v, 'w) loader" where
  "run_batch cfg ts ld =
     fold (ensure_completed cfg) ts
       (run_asked ts (config_BatchLoader cfg (map (\<lambda>t. task_key (ld_tasks ld ! t)) ts)) (ld\<lparr>ld_loads := ld_loads ld @ [ts]\<rparr>))"

lemma ensure_other: "u \<notin> set ts \<Longrightarrow> ld_tasks (fold (ensure_completed cfg) ts ld) ! u = ld_tasks ld ! u"
  by (induction ts arbitrary: ld) (auto simp: ensure_completed_def complete_task_def set_mem_def nth_list_update_neq)

lemma ensure_loads [simp]: "ld_loads (fold (ensure_completed cfg) ts ld) = ld_loads ld"
  by (induction ts arbitrary: ld) (auto simp: ensure_completed_def complete_task_def set_mem_def)

lemma ensure_result:
  "distinct ts \<Longrightarrow> \<forall>t \<in> set ts. t < length (ld_tasks ld) \<Longrightarrow> u \<in> set ts \<Longrightarrow>
   result_at (fold (ensure_completed cfg) ts ld) u =
     (if completed (result_at ld u) then result_at ld u else TaskResultErr (config_incomplete cfg (task_key (ld_tasks ld ! u))))"
proof (induction ts arbitrary: ld)
  case (Cons t ts)
  let ?ld = "ensure_completed cfg t ld"
  have links: "same_links ld ?ld" by simp
  then have len: "length (ld_tasks ?ld) = length (ld_tasks ld)" and keys: "\<And>u. task_key (ld_tasks ?ld ! u) = task_key (ld_tasks ld ! u)"
    by (auto simp: same_links_def)
  show ?case
  proof (cases "u = t")
    case True
    then have "ld_tasks (fold (ensure_completed cfg) ts ?ld) ! u = ld_tasks ?ld ! u" using Cons.prems by (simp add: ensure_other)
    then show ?thesis using True Cons.prems result_ensure_completed [of t ld cfg t] by (simp add: result_at_def)
  next
    case False
    then show ?thesis using Cons result_ensure_completed [of t ld cfg u] len keys by simp
  qed
qed simp

lemma run_batch_links [simp]: "same_links ld (run_batch cfg ts ld)"
proof -
  have "same_links ld (ld\<lparr>ld_loads := ld_loads ld @ [ts]\<rparr>)" by (simp add: same_links_def next_task_def)
  then show ?thesis unfolding run_batch_def by (meson same_links_trans run_asked_links fold_links ensure_completed_links)
qed

lemma run_batch_loads [simp]: "ld_loads (run_batch cfg ts ld) = ld_loads ld @ [ts]"
  by (simp add: run_batch_def)

lemma run_batch_other: "u \<notin> set ts \<Longrightarrow> ld_tasks (run_batch cfg ts ld) ! u = ld_tasks ld ! u"
  by (simp add: run_batch_def ensure_other run_asked_other)

lemma run_batch_result:
  assumes "distinct ts" and "\<forall>t \<in> set ts. t < length (ld_tasks ld)" and "i < length ts" and "\<not> completed (result_at ld (ts ! i))"
  shows "result_at (run_batch cfg ts ld) (ts ! i) = batch_result cfg (map (\<lambda>t. task_key (ld_tasks ld ! t)) ts) i"
proof -
  let ?keys = "map (\<lambda>t. task_key (ld_tasks ld ! t)) ts" and ?ld = "ld\<lparr>ld_loads := ld_loads ld @ [ts]\<rparr>"
  let ?ld1 = "run_asked ts (config_BatchLoader cfg ?keys) ?ld"
  have "same_links ?ld ?ld1" by simp
  then have len: "length (ld_tasks ?ld1) = length (ld_tasks ld)" and key: "task_key (ld_tasks ?ld1 ! (ts ! i)) = ?keys ! i"
    using assms(3) by (auto simp: same_links_def)
  have res: "result_at ?ld1 (ts ! i) = (case asked (config_BatchLoader cfg ?keys) i of Some r \<Rightarrow> to_result r | None \<Rightarrow> result_at ld (ts ! i))"
    using run_asked_result [OF assms(1,3), of ?ld] assms(2,4) by (simp split: option.splits)
  show ?thesis
    using ensure_result [OF assms(1), of ?ld1 "ts ! i" cfg] assms(2,3,4) len key res
    by (auto simp: run_batch_def batch_result_def split: option.splits)
qed

lemma batch_load_part: "part ld xs e \<Longrightarrow> batch_load cfg (list_of xs) ld =
    run_asked xs (config_BatchLoader cfg (map (\<lambda>t. task_key (ld_tasks ld ! t)) xs)) (ld\<lparr>ld_loads := ld_loads ld @ [xs]\<rparr>)"
  by (simp add: batch_load_def tasks_of_part run_asked_def Let_def)

lemma job_Run_part:
  assumes "part ld xs e" "xs \<noteq> []"
  shows "job_Run cfg (list_of xs) ld = (Ok (), run_batch cfg xs ld)"
proof -
  have "same_links ld (batch_load cfg (list_of xs) ld)"
    unfolding batch_load_part [OF assms(1)] by (rule same_links_trans [OF _ run_asked_links]) (simp add: same_links_def next_task_def)
  then have "part (batch_load cfg (list_of xs) ld) xs e" using part_same assms(1) by blast
  moreover have "task_parent (ld_tasks ld ! hd xs) \<noteq> None" using assms by (simp add: part_def)
  moreover have "first_or xs None = Some (hd xs)" using assms(2) by (cases xs) auto
  ultimately show ?thesis using for_tasks_part [of _ xs e "ensure_completed cfg"] by (simp add: job_Run_def batch_load_part [OF assms(1)] run_batch_def)
qed


section \<open>Dispatch\<close>

function chunks :: "nat \<Rightarrow> 'a list \<Rightarrow> 'a list list" where
  "chunks n xs = (if n = 0 \<or> xs = [] then [] else take n xs # chunks n (drop n xs))"
  by pat_completeness auto
termination
  by (relation "measure (\<lambda>(n, xs). length xs)") auto

declare chunks.simps [simp del]

lemma chunks_Nil [simp]: "chunks n [] = []"
  by (simp add: chunks.simps)

lemma chunks_short: "0 < n \<Longrightarrow> xs \<noteq> [] \<Longrightarrow> length xs \<le> n \<Longrightarrow> chunks n xs = [xs]"
  by (simp add: chunks.simps [of n xs])

lemma chunks_append: "0 < n \<Longrightarrow> length b = n \<Longrightarrow> chunks n (b @ ys) = b # chunks n ys"
  by (subst chunks.simps) auto

lemma concat_chunks: "0 < n \<Longrightarrow> concat (chunks n xs) = xs"
  by (induction n xs rule: chunks.induct) (simp add: chunks.simps)

lemma chunks_sizes: "0 < n \<Longrightarrow> b \<in> set (chunks n xs) \<Longrightarrow> b \<noteq> [] \<and> length b \<le> n"
proof (induction n xs rule: chunks.induct)
  case (1 n xs)
  then show ?case by (cases "xs = []") (auto simp: chunks.simps [of n xs])
qed

definition batches :: "nat \<Rightarrow> 'a list \<Rightarrow> 'a list list" where
  "batches n xs = (if xs = [] then [] else if n = 0 then [xs] else chunks n xs)"

lemma concat_batches: "concat (batches n xs) = xs"
  by (simp add: batches_def concat_chunks)

lemma dispatchQueueBatch_part:
  "config_Runner cfg = None \<Longrightarrow> part ld xs e \<Longrightarrow> xs \<noteq> [] \<Longrightarrow> dispatchQueueBatch cfg (list_of xs) ld = (Ok (), run_batch cfg xs ld)"
  by (simp add: dispatchQueueBatch_def job_Run_part)

lemma fold_batch_links: "same_links ld (fold (run_batch cfg) bs ld)"
  by (rule fold_links) simp

text \<open>The loop, in the middle of a batch: \<open>b\<close> is the part of the batch before the current task.\<close>

lemma dispatchBatches_part:
  assumes "config_Runner cfg = None" and n: "config_MaxBatchSize cfg = n" "0 < n"
  shows "part ld (b @ t # ys) None \<Longrightarrow> length b < n \<Longrightarrow> length ys < fuel \<Longrightarrow>
    dispatchBatches fuel cfg (first_or (b @ [t]) None) t (n - length b) ld = (Ok (), fold (run_batch cfg) (chunks n (b @ t # ys)) ld)"
proof (induction ys arbitrary: ld b t fuel)
  case Nil
  then obtain k where fuel: "fuel = Suc k" by (cases fuel) auto
  have p: "part ld (b @ [t]) None" using Nil.prems by simp
  have next': "next_task ld t = None" using part_facts(4) [OF p] by (simp add: linked_append)
  have run: "dispatchQueueBatch cfg (list_of (b @ [t])) ld = (Ok (), run_batch cfg (b @ [t]) ld)"
    using dispatchQueueBatch_part [OF assms(1) p] by simp
  have "chunks n (b @ [t]) = [b @ [t]]" using Nil.prems(2) n by (intro chunks_short) auto
  moreover have "\<exists>x. first_or (b @ [t]) None = Some x" by (cases b) auto
  ultimately show ?case using fuel next' run Nil.prems(2) by (auto simp: list_of_snoc andThen_def)
next
  case (Cons y ys)
  then obtain k where fuel: "fuel = Suc k" by (cases fuel) auto
  have p: "part ld (b @ [t]) (Some y)" "part ld ([y] @ ys) None"
    using part_append [of ld "b @ [t]" "y # ys" None] Cons.prems(1) by auto
  have next': "next_task ld t = Some y" using part_facts(4) [OF p(1)] by (simp add: linked_append)
  have run: "dispatchQueueBatch cfg (list_of (b @ [t])) ld = (Ok (), run_batch cfg (b @ [t]) ld)"
    using dispatchQueueBatch_part [OF assms(1) p(1)] by simp
  show ?case
  proof (cases "n - length b - 1 = 0")
    case True
    have "part (run_batch cfg (b @ [t]) ld) ([] @ y # ys) None" using p(2) part_same [OF run_batch_links [of ld cfg "b @ [t]"]] by auto
    from Cons.IH [OF this, of k] have "dispatchBatches k cfg (Some y) y n (run_batch cfg (b @ [t]) ld) =
        (Ok (), fold (run_batch cfg) (chunks n (y # ys)) (run_batch cfg (b @ [t]) ld))"
      using Cons.prems(3) fuel n by simp
    moreover have "chunks n (b @ t # y # ys) = (b @ [t]) # chunks n (y # ys)"
      using chunks_append [of n "b @ [t]" "y # ys"] True Cons.prems(2) n by simp
    ultimately show ?thesis using True fuel next' run n by (simp add: list_of_snoc andThen_def)
  next
    case False
    have "dispatchBatches k cfg (first_or ((b @ [t]) @ [y]) None) y (n - length (b @ [t])) ld =
        (Ok (), fold (run_batch cfg) (chunks n ((b @ [t]) @ y # ys)) ld)"
      using Cons.IH [of ld "b @ [t]" y k] Cons.prems fuel False by simp
    moreover have "first_or ((b @ [t]) @ [y]) None = first_or (b @ [t]) None" by (cases b) auto
    ultimately show ?thesis using False fuel next' by (simp add: andThen_def)
  qed
qed

text \<open>The pending tasks: those of the queue in use.\<close>

definition pending :: "('k, 'c, 'e, 'v, 'w) loader \<Rightarrow> task_ref list" where
  "pending ld = tasks_of (queue_tasks (ld_queues ld ! ld_queue ld)) ld"

definition queue_is :: "('k, 'c, 'e, 'v, 'w) loader \<Rightarrow> task_ref list \<Rightarrow> bool" where
  "queue_is ld xs \<longleftrightarrow> ld_queue ld < length (ld_queues ld) \<and> queue_tasks (ld_queues ld ! ld_queue ld) = list_of xs \<and> part ld xs None"

lemma pending_queue: "queue_is ld xs \<Longrightarrow> pending ld = xs"
  by (auto simp: pending_def queue_is_def tasks_of_part)

lemma Dispatch_queue:
  assumes "config_Runner cfg = None" and q: "queue_is ld xs"
  shows "Dispatch cfg ld = (Ok (), if xs = [] then ld
    else fold (run_batch cfg) (batches (config_MaxBatchSize cfg) xs)
      (ld\<lparr>ld_queues := (ld_queues ld)[ld_queue ld := (ld_queues ld ! ld_queue ld)\<lparr>queue_dispatched := True\<rparr>] @ [newTaskQueue],
          ld_queue := length (ld_queues ld)\<rparr>))"
proof (cases xs)
  case Nil
  then show ?thesis using q by (simp add: Dispatch_def dispatchQueue_def queue_is_def list_Empty_def emptyTaskList_def)
next
  case (Cons t ys)
  let ?ld = "ld\<lparr>ld_queues := (ld_queues ld)[ld_queue ld := (ld_queues ld ! ld_queue ld)\<lparr>queue_dispatched := True\<rparr>] @ [newTaskQueue],
      ld_queue := length (ld_queues ld)\<rparr>"
  have links: "linked ?ld zs e = linked ld zs e" for zs e by (induction zs) (auto simp: next_task_def)
  have p: "part ?ld xs None" using q links by (simp add: queue_is_def part_def)
  have tasks: "queue_tasks (ld_queues ld ! ld_queue ld) = list_of xs" using q by (simp add: queue_is_def)
  have start: "Dispatch cfg ld =
      (if config_MaxBatchSize cfg = 0 then dispatchQueueBatch cfg (list_of xs) ?ld
       else dispatchBatches (length (ld_tasks ld) + 1) cfg (Some t) t (config_MaxBatchSize cfg) ?ld)"
    using tasks Cons by (simp add: Dispatch_def dispatchQueue_def Let_def list_of_def list_Empty_def)
  show ?thesis
  proof (cases "config_MaxBatchSize cfg = 0")
    case True
    then show ?thesis using start dispatchQueueBatch_part [OF assms(1) p] Cons by (simp add: batches_def)
  next
    case False
    have "length ys < length (ld_tasks ld) + 1" using part_facts(2) [OF p] Cons by simp
    then have "dispatchBatches (length (ld_tasks ld) + 1) cfg (Some t) t (config_MaxBatchSize cfg) ?ld =
        (Ok (), fold (run_batch cfg) (chunks (config_MaxBatchSize cfg) xs) ?ld)"
      using dispatchBatches_part [OF assms(1) refl, of ?ld "[]" t ys] p Cons False by (simp del: dispatchBatches.simps)
    then show ?thesis using start False Cons by (simp add: batches_def del: dispatchBatches.simps)
  qed
qed


section \<open>The invariant\<close>

text \<open>
  Every task is either completed or in the queue in use, no task was or will be given to the batch loader twice, and the cache
  holds tasks under their keys. \<open>cfg\<close> has no runner.
\<close>

definition loader_ok :: "('k, 'c, 'e, 'v, 'w) config \<Rightarrow> ('k, 'c, 'e, 'v, 'w) loader \<Rightarrow> bool" where
  "loader_ok cfg ld \<longleftrightarrow> queue_is ld (pending ld) \<and> distinct (concat (ld_loads ld) @ pending ld) \<and>
     (\<forall>t \<in> set (concat (ld_loads ld)). t < length (ld_tasks ld)) \<and>
     (\<forall>t < length (ld_tasks ld). completed (result_at ld t) \<longleftrightarrow> t \<notin> set (pending ld)) \<and>
     (\<forall>c t. ld_cache ld c = Some t \<longrightarrow> t < length (ld_tasks ld) \<and> (\<exists>f. config_cacheKey cfg = Some f \<and> f (task_key (ld_tasks ld ! t)) = c))"

lemma loader_okI:
  assumes "queue_is ld xs" "distinct (concat (ld_loads ld) @ xs)" "\<And>t. t \<in> set (concat (ld_loads ld)) \<Longrightarrow> t < length (ld_tasks ld)"
    "\<And>t. t < length (ld_tasks ld) \<Longrightarrow> completed (result_at ld t) \<longleftrightarrow> t \<notin> set xs"
    "\<And>c t. ld_cache ld c = Some t \<Longrightarrow> t < length (ld_tasks ld) \<and> (\<exists>f. config_cacheKey cfg = Some f \<and> f (task_key (ld_tasks ld ! t)) = c)"
  shows "loader_ok cfg ld"
  unfolding loader_ok_def pending_queue [OF assms(1)] using assms by blast

lemma loader_okD:
  assumes "loader_ok cfg ld"
  shows "queue_is ld (pending ld)" "distinct (concat (ld_loads ld) @ pending ld)" "t \<in> set (concat (ld_loads ld)) \<Longrightarrow> t < length (ld_tasks ld)"
    "t < length (ld_tasks ld) \<Longrightarrow> completed (result_at ld t) \<longleftrightarrow> t \<notin> set (pending ld)"
    "ld_cache ld c = Some t \<Longrightarrow> t < length (ld_tasks ld) \<and> (\<exists>f. config_cacheKey cfg = Some f \<and> f (task_key (ld_tasks ld ! t)) = c)"
    "t \<in> set (pending ld) \<Longrightarrow> t < length (ld_tasks ld)"
  using assms unfolding loader_ok_def by (auto simp: queue_is_def part_def)

lemma loader_ok_New: "loader_ok cfg NewLoader"
  by (rule loader_okI [where xs = "[]"]) (simp_all add: NewLoader_def queue_is_def newTaskQueue_def part_def)

text \<open>Changes of the states of tasks only.\<close>

lemma queue_is_same: "same_links ld ld' \<Longrightarrow> queue_is ld' xs = queue_is ld xs"
  using part_same [of ld ld' xs None] by (auto simp: queue_is_def same_links_def)

lemma loader_ok_same:
  assumes "loader_ok cfg ld" "same_links ld ld'" "ld_loads ld' = ld_loads ld" "\<And>t. completed (result_at ld' t) = completed (result_at ld t)"
  shows "loader_ok cfg ld' \<and> pending ld' = pending ld"
proof
  have q: "queue_is ld' (pending ld)" using queue_is_same assms(2) loader_okD(1) [OF assms(1)] by blast
  then show "pending ld' = pending ld" by (rule pending_queue)
  show "loader_ok cfg ld'" using q
    by (rule loader_okI) (use loader_okD [OF assms(1)] assms(2-4) in \<open>auto simp: same_links_def\<close>)
qed

lemma loadResult_newFuture: "completed (loadResult (snd (newFuture nop m))) = completed (loadResult m)"
  by (cases "loadResult m") (simp_all add: newFuture_def loadResult_def)

lemma future_of_ok:
  assumes "loader_ok cfg ld" "future_of cfg t ld = (f, ld')"
  shows "loader_ok cfg ld' \<and> pending ld' = pending ld \<and> fst f = t \<and> ld_cache ld' = ld_cache ld \<and> ld_loads ld' = ld_loads ld \<and>
    (\<forall>u. task_key (ld_tasks ld' ! u) = task_key (ld_tasks ld ! u))"
proof -
  obtain g m where m: "newFuture (config_NopWaker cfg) (task_state (ld_tasks ld ! t)) = (g, m)" by fastforce
  then have ld': "ld' = set_mem t m ld" "f = (t, g)" using assms(2) by (auto simp: future_of_def)
  have "completed (loadResult m) = completed (result_at ld t)" using loadResult_newFuture [of "config_NopWaker cfg" "task_state (ld_tasks ld ! t)"] m by (simp add: result_at_def)
  then have "completed (result_at ld' u) = completed (result_at ld u)" for u
    by (cases "u = t \<and> t < length (ld_tasks ld)") (auto simp: ld' set_mem_def result_at_def nth_list_update list_update_beyond)
  then have "loader_ok cfg ld' \<and> pending ld' = pending ld" using loader_ok_same [OF assms(1), of ld'] by (simp add: ld')
  moreover have "same_links ld ld'" by (simp add: ld')
  ultimately show ?thesis by (auto simp: same_links_def ld' set_mem_def)
qed

text \<open>Allocation does not disturb the lists.\<close>

lemma part_alloc:
  "part ld xs e \<Longrightarrow> alloc_task p key ld = (t, ld') \<Longrightarrow> part ld' xs e"
proof -
  assume p: "part ld xs e" and a: "alloc_task p key ld = (t, ld')"
  have same: "x < length (ld_tasks ld) \<Longrightarrow> ld_tasks ld' ! x = ld_tasks ld ! x" for x using a by (auto simp: alloc_task_def nth_append)
  have "linked ld' ys e" if "linked ld ys e" "\<forall>x \<in> set ys. x < length (ld_tasks ld)" for ys
    using that by (induction ys) (auto simp: next_task_def same)
  then show ?thesis using p a same by (auto simp: part_def alloc_task_def)
qed

lemma push_part:
  assumes "queue_is ld xs" and t: "t < length (ld_tasks ld)" "next_task ld t = None" "task_parent (ld_tasks ld ! t) \<noteq> None" "\<forall>x \<in> set xs. x < t"
  shows "queue_is (push (ld_queue ld) t ld) (xs @ [t])"
proof -
  let ?ld = "push (ld_queue ld) t ld"
  have q: "ld_queue ld < length (ld_queues ld)" "queue_tasks (ld_queues ld ! ld_queue ld) = list_of xs" "part ld xs None"
    using assms(1) by (auto simp: queue_is_def)
  have queue: "queue_tasks (ld_queues ?ld ! ld_queue ?ld) = list_of (xs @ [t])" "ld_queue ?ld < length (ld_queues ?ld)"
    using q by (auto simp: push_def Let_def list_of_def emptyTaskList_def split: option.splits)
  have tasks: "ld_tasks ?ld = (if xs = [] then ld_tasks ld else (ld_tasks ld)[last xs := (ld_tasks ld ! last xs)\<lparr>task_next := Some t\<rparr>])"
    using q by (auto simp: push_def Let_def)
  have part: "part ?ld (xs @ [t]) None"
  proof (cases xs rule: rev_cases)
    case Nil
    then show ?thesis using t tasks by (simp add: part_def next_task_def)
  next
    case (snoc ys y)
    have y: "y < length (ld_tasks ld)" "y < t" "\<forall>x \<in> set ys. x < y" using q(3) t(4) snoc by (auto simp: part_def sorted_wrt_append)
    have other: "x \<noteq> y \<Longrightarrow> ld_tasks ?ld ! x = ld_tasks ld ! x" for x using tasks snoc by (simp add: nth_list_update)
    have "linked ?ld zs (Some y) = linked ld zs (Some y)" if "set zs \<subseteq> set ys" for zs
      using that y(3) by (induction zs) (auto simp: next_task_def other)
    moreover have "next_task ?ld y = Some t" "next_task ?ld t = None" using tasks snoc y t other [of t] by (auto simp: next_task_def)
    ultimately have "linked ?ld (xs @ [t]) None" using q(3) snoc by (auto simp: part_def linked_append)
    moreover have "task_parent (ld_tasks ?ld ! x) = task_parent (ld_tasks ld ! x)" for x
      using tasks snoc y by (cases "x = y") (auto simp: other)
    ultimately show ?thesis using q(3) t tasks snoc by (auto simp: part_def sorted_wrt_append)
  qed
  show ?thesis using queue part by (simp add: queue_is_def)
qed


lemma same_keys: "same_links ld ld' \<Longrightarrow> task_key (ld_tasks ld' ! u) = task_key (ld_tasks ld ! u) \<and> ld_cache ld' = ld_cache ld \<and> length (ld_tasks ld') = length (ld_tasks ld)"
  by (simp add: same_links_def)

lemma alloc_facts:
  assumes "alloc_task p key ld = (t, ld')"
  shows "t = length (ld_tasks ld)" "length (ld_tasks ld') = Suc t" "next_task ld' t = None" "task_parent (ld_tasks ld' ! t) = p" "task_key (ld_tasks ld' ! t) = key"
    "\<not> completed (result_at ld' t)" "u < t \<Longrightarrow> ld_tasks ld' ! u = ld_tasks ld ! u"
    "ld_queues ld' = ld_queues ld" "ld_queue ld' = ld_queue ld" "ld_cache ld' = ld_cache ld" "ld_loads ld' = ld_loads ld"
  using assms by (auto simp: alloc_task_def next_task_def result_at_def newTask_def loadResult_def nth_append)

lemma cache_miss_Set:
  "CacheMap_Get cfg key ld = None \<Longrightarrow> task_key (ld_tasks ld ! t) = key \<Longrightarrow>
   CacheMap_Set cfg t ld = (t, case config_cacheKey cfg of None \<Rightarrow> ld | Some f \<Rightarrow> ld\<lparr>ld_cache := (ld_cache ld)(f key \<mapsto> t)\<rparr>)"
  by (auto simp: CacheMap_Get_def CacheMap_Set_def split: option.splits)

lemma update_next [simp]:
  "task_key (ts[i := (ts ! i)\<lparr>task_next := n\<rparr>] ! u) = task_key (ts ! u)" "task_state (ts[i := (ts ! i)\<lparr>task_next := n\<rparr>] ! u) = task_state (ts ! u)"
  by (cases "i = u"; cases "i < length ts"; simp add: list_update_beyond)+

lemma push_frame [simp]:
  "ld_loads (push q t ld) = ld_loads ld" "ld_cache (push q t ld) = ld_cache ld" "ld_queue (push q t ld) = ld_queue ld"
  "length (ld_tasks (push q t ld)) = length (ld_tasks ld)" "task_key (ld_tasks (push q t ld) ! u) = task_key (ld_tasks ld ! u)"
  "result_at (push q t ld) u = result_at ld u"
  by (simp_all add: push_def Let_def result_at_def split: option.splits)

lemma queue_is_cache [simp]: "queue_is (ld\<lparr>ld_cache := m\<rparr>) xs = queue_is ld xs"
proof -
  have "linked (ld\<lparr>ld_cache := m\<rparr>) ys e = linked ld ys e" for ys e by (induction ys) (auto simp: next_task_def)
  then show ?thesis by (simp add: queue_is_def part_def)
qed

lemma result_at_cache [simp]: "result_at (ld\<lparr>ld_cache := m\<rparr>) = result_at ld"
  by (simp add: result_at_def fun_eq_iff)

text \<open>A load that is not in the cache appends a new task to the queue and puts it into the cache.\<close>

lemma Enqueue_miss:
  assumes ok: "loader_ok cfg ld" and miss: "CacheMap_Get cfg key ld = None" and enq: "Enqueue cfg (ld_queue ld) key ld = (t, ld')"
  shows "loader_ok cfg ld' \<and> t = length (ld_tasks ld) \<and> pending ld' = pending ld @ [t] \<and> task_key (ld_tasks ld' ! t) = key \<and> ld_loads ld' = ld_loads ld \<and>
    length (ld_tasks ld') = Suc t \<and> (\<forall>u < t. task_key (ld_tasks ld' ! u) = task_key (ld_tasks ld ! u)) \<and>
    ld_cache ld' = (case config_cacheKey cfg of None \<Rightarrow> ld_cache ld | Some f \<Rightarrow> (ld_cache ld)(f key \<mapsto> t))"
proof -
  obtain u ld1 where alloc: "alloc_task (Some (ld_queue ld)) key ld = (u, ld1)" by fastforce
  note a = alloc_facts [OF alloc]
  define ld2 where "ld2 = (case config_cacheKey cfg of None \<Rightarrow> ld1 | Some f \<Rightarrow> ld1\<lparr>ld_cache := (ld_cache ld1)(f key \<mapsto> u)\<rparr>)"
  have "CacheMap_Get cfg key ld1 = None" using miss a(10) by (simp add: CacheMap_Get_def split: option.splits)
  then have "CacheMap_Set cfg u ld1 = (u, ld2)" using cache_miss_Set [of cfg key ld1 u] a(5) by (simp add: ld2_def)
  then have t: "t = u" and ld': "ld' = push (ld_queue ld) u ld2" using enq alloc by (auto simp: Enqueue_def)
  have ld2: "ld_tasks ld2 = ld_tasks ld1" "ld_queue ld2 = ld_queue ld" "ld_loads ld2 = ld_loads ld" "next_task ld2 u = None" "result_at ld2 = result_at ld1"
      "ld_cache ld2 = (case config_cacheKey cfg of None \<Rightarrow> ld_cache ld | Some f \<Rightarrow> (ld_cache ld)(f key \<mapsto> u))"
    using a by (auto simp: ld2_def next_task_def split: option.splits)
  have q1: "queue_is ld1 (pending ld)" using loader_okD(1) [OF ok] part_alloc [OF _ alloc] a(8,9) by (simp add: queue_is_def)
  then have "queue_is ld2 (pending ld)" by (simp add: ld2_def split: option.splits)
  moreover have "\<forall>x \<in> set (pending ld). x < u" using loader_okD(6) [OF ok] a(1) by blast
  ultimately have q: "queue_is ld' (pending ld @ [u])" using push_part [of ld2 "pending ld" u] ld2 a ld' by simp
  have fresh: "u \<notin> set (concat (ld_loads ld))" "u \<notin> set (pending ld)" using loader_okD(3,6) [OF ok] a(1) by blast+
  have results: "completed (result_at ld1 x) \<longleftrightarrow> x \<notin> set (pending ld @ [u])" if "x < Suc u" for x
    using that a(1,6,7) loader_okD(4) [OF ok, of x] by (cases "x = u") (auto simp: result_at_def)
  have "loader_ok cfg ld'" using q
  proof (rule loader_okI)
    show "distinct (concat (ld_loads ld') @ pending ld @ [u])" using loader_okD(2) [OF ok] fresh ld2 by (auto simp: ld')
    show "x < length (ld_tasks ld')" if "x \<in> set (concat (ld_loads ld'))" for x
      using that loader_okD(3) [OF ok, of x] ld2 a(1,2) by (simp add: ld' less_SucI)
    show "completed (result_at ld' x) \<longleftrightarrow> x \<notin> set (pending ld @ [u])" if "x < length (ld_tasks ld')" for x
      using that results ld2 a(2) by (simp add: ld')
    show "x < length (ld_tasks ld') \<and> (\<exists>f. config_cacheKey cfg = Some f \<and> f (task_key (ld_tasks ld' ! x)) = c)" if "ld_cache ld' c = Some x" for c x
      using that loader_okD(5) [OF ok, of c x] ld2 a(1,2,5,7) by (auto simp: ld' less_Suc_eq split: option.splits if_splits)
  qed
  then show ?thesis using t q pending_queue ld2 a by (auto simp: ld')
qed

lemma Load_ok:
  assumes ok: "loader_ok cfg ld" and load: "Load cfg (Some key) ld = (r, ld')"
  shows "loader_ok cfg ld' \<and> ld_loads ld' = ld_loads ld \<and> (\<exists>t f. r = Ok (t, f) \<and>
    (case CacheMap_Get cfg key ld of
       Some t' \<Rightarrow> t = t' \<and> pending ld' = pending ld \<and> ld_cache ld' = ld_cache ld
     | None \<Rightarrow> t = length (ld_tasks ld) \<and> pending ld' = pending ld @ [t] \<and> task_key (ld_tasks ld' ! t) = key \<and>
         ld_cache ld' = (case config_cacheKey cfg of None \<Rightarrow> ld_cache ld | Some g \<Rightarrow> (ld_cache ld)(g key \<mapsto> t))))"
proof (cases "CacheMap_Get cfg key ld")
  case (Some t)
  obtain f ld1 where f: "future_of cfg t ld = (f, ld1)" by fastforce
  then show ?thesis using load Some future_of_ok [OF ok f] by (cases f) (auto simp: Load_def)
next
  case None
  obtain t ld1 where enq: "Enqueue cfg (ld_queue ld) key ld = (t, ld1)" by fastforce
  obtain f ld2 where f: "future_of cfg t ld1 = (f, ld2)" by fastforce
  note e = Enqueue_miss [OF ok None enq]
  then have "loader_ok cfg ld1" by blast
  from future_of_ok [OF this f] e show ?thesis using load None enq f by (cases f) (auto simp: Load_def)
qed


lemma fold_batches:
  "distinct (concat bs) \<Longrightarrow> \<forall>t \<in> set (concat bs). t < length (ld_tasks ld) \<and> \<not> completed (result_at ld t) \<Longrightarrow>
   ld_loads (fold (run_batch cfg) bs ld) = ld_loads ld @ bs \<and>
   (\<forall>u. u \<notin> set (concat bs) \<longrightarrow> ld_tasks (fold (run_batch cfg) bs ld) ! u = ld_tasks ld ! u) \<and>
   (\<forall>b \<in> set bs. \<forall>i < length b. result_at (fold (run_batch cfg) bs ld) (b ! i) = batch_result cfg (map (\<lambda>t. task_key (ld_tasks ld ! t)) b) i)"
proof (induction bs arbitrary: ld)
  case (Cons b bs)
  let ?ld = "run_batch cfg b ld"
  have same: "length (ld_tasks ?ld) = length (ld_tasks ld)" "\<And>u. task_key (ld_tasks ?ld ! u) = task_key (ld_tasks ld ! u)"
    using same_keys [OF run_batch_links [of ld cfg b]] by auto
  have other: "u \<notin> set b \<Longrightarrow> ld_tasks ?ld ! u = ld_tasks ld ! u" for u by (rule run_batch_other)
  have disj: "set b \<inter> set (concat bs) = {}" using Cons.prems(1) by auto
  then have pre: "\<forall>t \<in> set (concat bs). t < length (ld_tasks ?ld) \<and> \<not> completed (result_at ?ld t)"
    using Cons.prems(2) same(1) other disj by (fastforce simp: result_at_def)
  note IH = Cons.IH [OF _ pre]
  have "result_at (fold (run_batch cfg) bs ?ld) (b ! i) = batch_result cfg (map (\<lambda>t. task_key (ld_tasks ld ! t)) b) i" if i: "i < length b" for i
  proof -
    have "b ! i \<notin> set (concat bs)" using i disj nth_mem by blast
    then have "result_at (fold (run_batch cfg) bs ?ld) (b ! i) = result_at ?ld (b ! i)" using IH Cons.prems(1) by (simp add: result_at_def)
    then show ?thesis using run_batch_result [of b ld i cfg] Cons.prems i by (auto simp: nth_mem)
  qed
  then show ?case using IH Cons.prems(1) same other by auto
qed simp

lemma completed_batch_result [simp]: "completed (batch_result cfg keys i)"
  by (simp add: batch_result_def split: option.splits)

lemma Dispatch_ok:
  assumes ok: "loader_ok cfg ld" and run: "config_Runner cfg = None"
  shows "\<exists>ld'. Dispatch cfg ld = (Ok (), ld') \<and> loader_ok cfg ld' \<and> pending ld' = [] \<and> ld_cache ld' = ld_cache ld \<and>
    ld_loads ld' = ld_loads ld @ batches (config_MaxBatchSize cfg) (pending ld) \<and>
    (\<forall>b \<in> set (batches (config_MaxBatchSize cfg) (pending ld)). \<forall>i < length b.
       result_at ld' (b ! i) = batch_result cfg (map (\<lambda>t. task_key (ld_tasks ld ! t)) b) i)"
proof (cases "pending ld = []")
  case True
  then show ?thesis using Dispatch_queue [OF run loader_okD(1) [OF ok]] ok by (simp add: batches_def)
next
  case False
  let ?bs = "batches (config_MaxBatchSize cfg) (pending ld)"
  define ld1 where "ld1 = ld\<lparr>ld_queues := (ld_queues ld)[ld_queue ld := (ld_queues ld ! ld_queue ld)\<lparr>queue_dispatched := True\<rparr>] @ [newTaskQueue],
      ld_queue := length (ld_queues ld)\<rparr>"
  define ld' where "ld' = fold (run_batch cfg) ?bs ld1"
  have D: "Dispatch cfg ld = (Ok (), ld')" using Dispatch_queue [OF run loader_okD(1) [OF ok]] False by (simp add: ld1_def ld'_def)
  have tasks: "ld_tasks ld1 = ld_tasks ld" "ld_loads ld1 = ld_loads ld" "ld_cache ld1 = ld_cache ld" by (simp_all add: ld1_def)
  have set_bs: "concat ?bs = pending ld" by (rule concat_batches)
  have pre: "\<forall>t \<in> set (concat ?bs). t < length (ld_tasks ld1) \<and> \<not> completed (result_at ld1 t)"
    using loader_okD(4,6) [OF ok] by (auto simp: set_bs tasks result_at_def)
  have dist: "distinct (concat ?bs)" using loader_okD(2) [OF ok] by (simp add: set_bs)
  note f = fold_batches [OF dist pre, of cfg, folded ld'_def, unfolded set_bs tasks]
  have links: "same_links ld1 ld'" unfolding ld'_def by (rule fold_batch_links)
  have "queue_is ld1 []" by (simp add: ld1_def queue_is_def newTaskQueue_def part_def nth_append)
  then have q: "queue_is ld' []" using queue_is_same [OF links] by simp
  have fin: "completed (result_at ld' t)" if t: "t < length (ld_tasks ld)" for t
  proof (cases "t \<in> set (pending ld)")
    case True
    then obtain b where "b \<in> set ?bs" "t \<in> set b" using set_bs by (metis set_concat UN_E)
    then show ?thesis using f completed_batch_result by (metis in_set_conv_nth)
  next
    case False
    then show ?thesis using f loader_okD(4) [OF ok t] by (simp add: result_at_def)
  qed
  have "loader_ok cfg ld'" using q
  proof (rule loader_okI)
    show "distinct (concat (ld_loads ld') @ [])" using f loader_okD(2) [OF ok] by (simp add: concat_batches)
    show "t < length (ld_tasks ld')" if "t \<in> set (concat (ld_loads ld'))" for t
      using that f loader_okD(3,6) [OF ok, of t] same_keys [OF links] tasks by (auto simp: set_bs simp flip: set_concat)
    show "completed (result_at ld' t) \<longleftrightarrow> t \<notin> set []" if "t < length (ld_tasks ld')" for t
      using that fin same_keys [OF links] tasks by simp
    show "t < length (ld_tasks ld') \<and> (\<exists>f. config_cacheKey cfg = Some f \<and> f (task_key (ld_tasks ld' ! t)) = c)" if "ld_cache ld' c = Some t" for c t
      using that loader_okD(5) [OF ok, of c t] same_keys [OF links] tasks by simp
  qed
  then show ?thesis using D f q pending_queue same_keys [OF links] tasks by auto
qed

lemma prime_ok:
  assumes ok: "loader_ok cfg ld"
  shows "loader_ok cfg (prime cfg key r ld) \<and> pending (prime cfg key r ld) = pending ld \<and>
    (\<forall>c t. ld_cache ld c = Some t \<longrightarrow> ld_cache (prime cfg key r ld) c = Some t)"
proof (cases "config_cacheKey cfg")
  case None
  then show ?thesis using ok by (simp add: prime_def)
next
  case (Some g)
  obtain t ld1 where alloc: "alloc_task None key ld = (t, ld1)" by fastforce
  note a = alloc_facts [OF alloc]
  define ld2 where "ld2 = complete_task t r ld1"
  have links: "same_links ld1 ld2" by (simp add: ld2_def)
  note k = same_keys [OF links]
  define ld3 where "ld3 = prime cfg key r ld"
  have ld3: "ld3 = (case ld_cache ld (g key) of Some _ \<Rightarrow> ld2 | None \<Rightarrow> ld2\<lparr>ld_cache := (ld_cache ld)(g key \<mapsto> t)\<rparr>)"
    using Some alloc k a by (simp add: ld3_def prime_def CacheMap_Set_def ld2_def split: option.splits)
  have q1: "queue_is ld1 (pending ld)" using loader_okD(1) [OF ok] part_alloc [OF _ alloc] a(8,9) by (simp add: queue_is_def)
  then have "queue_is ld2 (pending ld)" using queue_is_same [OF links] by simp
  then have q: "queue_is ld3 (pending ld)" by (simp add: ld3 split: option.splits)
  have frame: "ld_loads ld3 = ld_loads ld" "length (ld_tasks ld3) = Suc t" "task_key (ld_tasks ld3 ! x) = task_key (ld_tasks ld1 ! x)"
      "result_at ld3 x = result_at ld2 x" for x
    using k a by (auto simp: ld3 ld2_def complete_task_def split: option.splits)
  have res: "result_at ld2 x = (if x = t then to_result r else result_at ld1 x)" for x
    using a(2,6) by (simp add: ld2_def result_complete_task)
  have "loader_ok cfg ld3" using q
  proof (rule loader_okI)
    show "distinct (concat (ld_loads ld3) @ pending ld)" using loader_okD(2) [OF ok] frame by simp
    show "x < length (ld_tasks ld3)" if "x \<in> set (concat (ld_loads ld3))" for x
      using that loader_okD(3) [OF ok, of x] frame a(1) by (simp add: less_SucI)
    show "completed (result_at ld3 x) \<longleftrightarrow> x \<notin> set (pending ld)" if "x < length (ld_tasks ld3)" for x
      using that loader_okD(4) [OF ok, of x] loader_okD(6) [OF ok, of x] a(1,7) frame res by (cases "x = t") (auto simp: result_at_def [of ld1] result_at_def [of ld])
    show "x < length (ld_tasks ld3) \<and> (\<exists>f. config_cacheKey cfg = Some f \<and> f (task_key (ld_tasks ld3 ! x)) = c)" if "ld_cache ld3 c = Some x" for c x
      using that loader_okD(5) [OF ok, of c x] frame a k Some by (auto simp: ld3 less_Suc_eq split: option.splits if_splits)
  qed
  moreover have "ld_cache ld c = Some x \<Longrightarrow> ld_cache ld3 c = Some x" for c x using a k by (auto simp: ld3 split: option.splits)
  ultimately show ?thesis using q pending_queue by (auto simp flip: ld3_def)
qed

lemma clear_ok:
  assumes ok: "loader_ok cfg ld" and sub: "\<And>c t. m c = Some t \<Longrightarrow> ld_cache ld c = Some t"
  shows "loader_ok cfg (ld\<lparr>ld_cache := m\<rparr>) \<and> pending (ld\<lparr>ld_cache := m\<rparr>) = pending ld"
proof
  have q: "queue_is (ld\<lparr>ld_cache := m\<rparr>) (pending ld)" using loader_okD(1) [OF ok] by simp
  then show "pending (ld\<lparr>ld_cache := m\<rparr>) = pending ld" by (rule pending_queue)
  show "loader_ok cfg (ld\<lparr>ld_cache := m\<rparr>)" using q
    by (rule loader_okI) (use loader_okD [OF ok] sub in \<open>auto, blast+\<close>)
qed


section \<open>Properties of the loader\<close>

datatype ('k, 'e, 'v) op = OpLoad "'k option" | OpDispatch | OpPrime 'k "'e + 'v" | OpClear 'k | OpClearAll

fun apply_op :: "('k, 'c, 'e, 'v, 'w) config \<Rightarrow> ('k, 'e, 'v) op \<Rightarrow> ('k, 'c, 'e, 'v, 'w) loader \<Rightarrow> ('k, 'c, 'e, 'v, 'w) loader" where
  "apply_op cfg (OpLoad key) ld = snd (Load cfg key ld)"
| "apply_op cfg OpDispatch ld = snd (Dispatch cfg ld)"
| "apply_op cfg (OpPrime key r) ld = (case r of Inl err \<Rightarrow> PrimeError cfg key err ld | Inr v \<Rightarrow> Prime cfg key v ld)"
| "apply_op cfg (OpClear key) ld = Clear cfg key ld"
| "apply_op cfg OpClearAll ld = ClearAll cfg ld"

lemma apply_op_ok:
  assumes ok: "loader_ok cfg ld" and run: "config_Runner cfg = None"
  shows "loader_ok cfg (apply_op cfg op ld)"
proof (cases op)
  case (OpLoad key)
  then show ?thesis using Load_ok [OF ok, of "the key"] ok by (cases key) (auto simp: Load_def split: option.splits prod.splits)
next
  case OpDispatch
  then show ?thesis using Dispatch_ok [OF ok run] by auto
next
  case (OpPrime key r)
  then show ?thesis using prime_ok [OF ok] by (cases r) (simp_all add: Prime_def PrimeError_def)
next
  case (OpClear key)
  have "loader_ok cfg (ld\<lparr>ld_cache := (ld_cache ld)(c := None)\<rparr>)" for c
    by (rule clear_ok [OF ok, THEN conjunct1]) (auto split: if_splits)
  then show ?thesis using OpClear ok by (simp add: Clear_def split: option.splits)
next
  case OpClearAll
  then show ?thesis using ok clear_ok [OF ok, of Map.empty] by (simp add: ClearAll_def split: option.splits)
qed

lemma ops_ok: "loader_ok cfg ld \<Longrightarrow> config_Runner cfg = None \<Longrightarrow> loader_ok cfg (fold (apply_op cfg) ops ld)"
  by (induction ops arbitrary: ld) (auto intro: apply_op_ok)


text \<open>For the witnesses: a batch loader that completes the first two tasks of a batch, with batches of two.\<close>

definition loader_config :: "(nat, nat, string, nat, nat) config" where
  "loader_config = \<lparr>config_BatchLoader = \<lambda>keys. [(0, Inr (hd keys)), (1, Inl ''none'')], config_Runner = None, config_MaxBatchSize = 2,
     config_cacheKey = Some id, config_NopWaker = 0, config_incomplete = \<lambda>k. ''incomplete''\<rparr>"

definition loader_ops :: "(nat, string, nat) op list" where
  "loader_ops = [OpLoad (Some 10), OpLoad (Some 20), OpLoad (Some 10), OpLoad (Some 30)]"

lemmas sample_loader_simps = loader_config_def loader_ops_def NewLoader_def newTaskQueue_def emptyTaskList_def Load_def CacheMap_Get_def Enqueue_def alloc_task_def
  CacheMap_Set_def push_def future_of_def newFuture_def set_mem_def newTask_def loadResult_def wakers_def pending_def tasks_of_def list_Empty_def
  list_end_def next_task_def Let_def

lemma sample_pending: "pending (fold (apply_op loader_config) loader_ops NewLoader) = [0, 1, 2]"
  by (simp add: sample_loader_simps)




text \<open>Operations that leave the cached task of a key alone.\<close>

fun keeps :: "('k \<Rightarrow> 'c) \<Rightarrow> 'k \<Rightarrow> ('k, 'e, 'v) op \<Rightarrow> bool" where
  "keeps g key (OpClear k) \<longleftrightarrow> g k \<noteq> g key"
| "keeps g key OpClearAll \<longleftrightarrow> False"
| "keeps g key _ \<longleftrightarrow> True"

lemma apply_op_cache:
  assumes ok: "loader_ok cfg ld" and run: "config_Runner cfg = None" and g: "config_cacheKey cfg = Some g"
    and c: "ld_cache ld (g key) = Some t" and k: "keeps g key op"
  shows "ld_cache (apply_op cfg op ld) (g key) = Some t"
proof (cases op)
  case (OpLoad k)
  then show ?thesis
  proof (cases k)
    case (Some k')
    obtain r ld' where l: "Load cfg (Some k') ld = (r, ld')" by fastforce
    show ?thesis
    proof (cases "CacheMap_Get cfg k' ld")
      case None
      then have "g k' \<noteq> g key" using g c by (auto simp: CacheMap_Get_def)
      then show ?thesis using Load_ok [OF ok l] None OpLoad Some l g c by auto
    qed (use Load_ok [OF ok l] OpLoad Some l c in auto)
  qed (use OpLoad c in \<open>simp add: Load_def\<close>)
next
  case OpDispatch
  then show ?thesis using Dispatch_ok [OF ok run] c by auto
next
  case (OpPrime k r)
  then show ?thesis using prime_ok [OF ok] c by (cases r) (simp_all add: Prime_def PrimeError_def)
qed (use k c g in \<open>simp_all add: Clear_def\<close>)

lemma ops_cache:
  "loader_ok cfg ld \<Longrightarrow> config_Runner cfg = None \<Longrightarrow> config_cacheKey cfg = Some g \<Longrightarrow> ld_cache ld (g key) = Some t \<Longrightarrow>
   \<forall>op \<in> set ops. keeps g key op \<Longrightarrow> ld_cache (fold (apply_op cfg) ops ld) (g key) = Some t"
  by (induction ops arbitrary: ld) (auto intro: apply_op_ok apply_op_cache)

text \<open>
  C40: loads of a key share one task. With a cache, once a key has been loaded, every later load of a key with the same cache key gives the same
  task and enqueues nothing, whatever was loaded, primed or dispatched in between, as long as the key was not cleared.
\<close>

theorem Load_shares_task:
  assumes run: "config_Runner cfg = None" and g: "config_cacheKey cfg = Some g" and "Load cfg (Some key) (fold (apply_op cfg) ops NewLoader) = (Ok (t, f), ld)"
    and "\<forall>op \<in> set ops'. keeps g key op" and "g key' = g key"
  shows "\<exists>f' ld'. Load cfg (Some key') (fold (apply_op cfg) ops' ld) = (Ok (t, f'), ld') \<and> pending ld' = pending (fold (apply_op cfg) ops' ld)"
proof -
  have ok: "loader_ok cfg (fold (apply_op cfg) ops NewLoader)" using ops_ok [OF loader_ok_New run] .
  note l = Load_ok [OF ok assms(3)]
  then have "loader_ok cfg ld" "ld_cache ld (g key) = Some t"
    using g by (auto simp: CacheMap_Get_def split: option.splits)
  then have c: "ld_cache (fold (apply_op cfg) ops' ld) (g key) = Some t" and ok': "loader_ok cfg (fold (apply_op cfg) ops' ld)"
    using ops_cache [OF _ run g _ assms(4)] ops_ok [OF _ run] by blast+
  obtain r ld' where l': "Load cfg (Some key') (fold (apply_op cfg) ops' ld) = (r, ld')" by fastforce
  show ?thesis using Load_ok [OF ok' l'] l' c g assms(5) by (auto simp: CacheMap_Get_def)
qed


theorem Load_shares_task_witness:
  "\<exists>f ld f' ld'. Load loader_config (Some 20) NewLoader = (Ok (0, f), ld) \<and>
     Load loader_config (Some 20) (fold (apply_op loader_config) [OpDispatch] ld) = (Ok (0, f'), ld')"
proof -
  obtain f ld where l: "Load loader_config (Some 20) (fold (apply_op loader_config) [] NewLoader) = (Ok (0, f), ld)"
    by (simp add: sample_loader_simps)
  then show ?thesis using Load_shares_task [of loader_config id 20 "[]" 0 f ld "[OpDispatch]" 20] by (auto simp: loader_config_def)
qed

end
