(* ===== verification/Types.thy ===== *)
theory Types
  imports Ast
begin

text \<open>
  \<open>graphql/types.go\<close>, \<open>schema.go\<close>, \<open>type_comparators.go\<close> and \<open>util/ast/type_resolver.go\<close>: types, the type map of a schema and what
  is computed from it.

  A named type is a Go pointer: here an index into the list \<open>env\<close> of the definitions, so that two types may have the same
  name. Wrapping types are values: the code compares pointers only to shortcut a comparison of the wrapped
  types. A Go map is an association list in the order in which an iteration visits it, which the language leaves
  open. \<open>'v\<close> is the type of default values and of the internal values of enums.
\<close>

section \<open>Types\<close>

type_synonym type_ref = nat

datatype gtype = Named type_ref | ListOf gtype | NonNullOf gtype

record 'v input_def =
  input_Name :: string
  input_Type :: gtype
  input_Default :: "'v option"

record 'v field_def =
  field_Name :: string
  field_Type :: gtype
  field_Args :: "'v input_def list"

datatype 'v type_def =
    ScalarDef string
  | ScalarAliasDef string type_ref
  | ObjectDef string "'v field_def list" "type_ref list"
  | InterfaceDef string "'v field_def list"
  | UnionDef string "type_ref list"
  | EnumDef string "(string \<times> 'v) list"
  | InputObjectDef string "'v input_def list"

type_synonym 'v type_env = "'v type_def list"

fun def_Name :: "'v type_def \<Rightarrow> string" where
  "def_Name (ScalarDef name) = name"
| "def_Name (ScalarAliasDef name _) = name"
| "def_Name (ObjectDef name _ _) = name"
| "def_Name (InterfaceDef name _) = name"
| "def_Name (UnionDef name _) = name"
| "def_Name (EnumDef name _) = name"
| "def_Name (InputObjectDef name _) = name"

definition type_Name :: "'v type_env \<Rightarrow> type_ref \<Rightarrow> string" where
  "type_Name env n = def_Name (env ! n)"

text \<open>The predicates on types; nil is \<open>None\<close>.\<close>

fun NamedTypeOf :: "gtype \<Rightarrow> type_ref" where
  "NamedTypeOf (ListOf t) = NamedTypeOf t"
| "NamedTypeOf (NonNullOf t) = NamedTypeOf t"
| "NamedTypeOf (Named n) = n"

fun NullableTypeOf :: "gtype \<Rightarrow> gtype" where
  "NullableTypeOf (NonNullOf t) = t"
| "NullableTypeOf t = t"

fun IsInputDef :: "'v type_def \<Rightarrow> bool" where
  "IsInputDef (ScalarDef _) \<longleftrightarrow> True"
| "IsInputDef (ScalarAliasDef _ _) \<longleftrightarrow> True"
| "IsInputDef (EnumDef _ _) \<longleftrightarrow> True"
| "IsInputDef (InputObjectDef _ _) \<longleftrightarrow> True"
| "IsInputDef _ \<longleftrightarrow> False"

definition IsInputType :: "'v type_env \<Rightarrow> gtype option \<Rightarrow> bool" where
  "IsInputType env t \<longleftrightarrow> (case t of None \<Rightarrow> False | Some t \<Rightarrow> IsInputDef (env ! NamedTypeOf t))"

fun IsOutputDef :: "'v type_def \<Rightarrow> bool" where
  "IsOutputDef (InputObjectDef _ _) \<longleftrightarrow> False"
| "IsOutputDef _ \<longleftrightarrow> True"

definition IsOutputType :: "'v type_env \<Rightarrow> gtype option \<Rightarrow> bool" where
  "IsOutputType env t \<longleftrightarrow> (case t of None \<Rightarrow> False | Some t \<Rightarrow> IsOutputDef (env ! NamedTypeOf t))"

fun IsCompositeDef :: "'v type_def \<Rightarrow> bool" where
  "IsCompositeDef (ObjectDef _ _ _) \<longleftrightarrow> True"
| "IsCompositeDef (InterfaceDef _ _) \<longleftrightarrow> True"
| "IsCompositeDef (UnionDef _ _) \<longleftrightarrow> True"
| "IsCompositeDef _ \<longleftrightarrow> False"

fun IsCompositeType :: "'v type_env \<Rightarrow> gtype \<Rightarrow> bool" where
  "IsCompositeType env (Named n) \<longleftrightarrow> IsCompositeDef (env ! n)"
| "IsCompositeType env _ \<longleftrightarrow> False"

fun IsNonNullType :: "gtype \<Rightarrow> bool" where
  "IsNonNullType (NonNullOf _) \<longleftrightarrow> True"
| "IsNonNullType _ \<longleftrightarrow> False"

definition IsNullableType :: "gtype \<Rightarrow> bool" where
  "IsNullableType t \<longleftrightarrow> \<not> IsNonNullType t"

fun IsWrappingType :: "gtype \<Rightarrow> bool" where
  "IsWrappingType (Named _) \<longleftrightarrow> False"
| "IsWrappingType _ \<longleftrightarrow> True"

definition IsNamedType :: "gtype \<Rightarrow> bool" where
  "IsNamedType t \<longleftrightarrow> \<not> IsWrappingType t"

fun IsObjectDef :: "'v type_def \<Rightarrow> bool" where
  "IsObjectDef (ObjectDef _ _ _) \<longleftrightarrow> True"
| "IsObjectDef _ \<longleftrightarrow> False"

fun IsAbstractDef :: "'v type_def \<Rightarrow> bool" where
  "IsAbstractDef (InterfaceDef _ _) \<longleftrightarrow> True"
| "IsAbstractDef (UnionDef _ _) \<longleftrightarrow> True"
| "IsAbstractDef _ \<longleftrightarrow> False"

definition IsRequiredInputField :: "'v input_def \<Rightarrow> bool" where
  "IsRequiredInputField field \<longleftrightarrow> IsNonNullType (input_Type field) \<and> input_Default field = None"

text \<open>\<open>inspectTypeTo\<close> of \<open>inspect.go\<close>: the closing wrappers are collected and written in reverse.\<close>

fun inspectTypeTo :: "'v type_env \<Rightarrow> string \<Rightarrow> string \<Rightarrow> gtype \<Rightarrow> string" where
  "inspectTypeTo env out wrapTypes (Named n) = out @ type_Name env n @ rev wrapTypes"
| "inspectTypeTo env out wrapTypes (ListOf t) = inspectTypeTo env (out @ ''['') (wrapTypes @ '']'') t"
| "inspectTypeTo env out wrapTypes (NonNullOf t) = inspectTypeTo env out (wrapTypes @ ''!'') t"

definition InspectType :: "'v type_env \<Rightarrow> gtype \<Rightarrow> string" where
  "InspectType env t = inspectTypeTo env [] [] t"

section \<open>The type map\<close>

type_synonym type_map = "(string \<times> type_ref) list"

definition TypeMap_Lookup :: "type_map \<Rightarrow> string \<Rightarrow> type_ref option" where
  "TypeMap_Lookup m name = map_of m name"

definition field_refs :: "'v field_def list \<Rightarrow> gtype list" where
  "field_refs flds = concat (map (\<lambda>f. field_Type f # map input_Type (field_Args f)) flds)"

text \<open>The types that a definition refers to, in the order in which they are pushed.\<close>

fun def_refs :: "'v type_def \<Rightarrow> gtype list" where
  "def_refs (ObjectDef _ flds interfaces) = map Named interfaces @ field_refs flds"
| "def_refs (InterfaceDef _ flds) = field_refs flds"
| "def_refs (UnionDef _ possibleTypes) = map Named possibleTypes"
| "def_refs (InputObjectDef _ flds) = map input_Type flds"
| "def_refs _ = []"

fun AliasFor :: "'v type_def \<Rightarrow> type_ref \<Rightarrow> type_ref" where
  "AliasFor (ScalarAliasDef _ target) n = target"
| "AliasFor _ n = n"

definition dealias :: "'v type_env \<Rightarrow> type_ref \<Rightarrow> type_ref" where
  "dealias env n = AliasFor (env ! n) n"

definition duplicate_message :: "string \<Rightarrow> string" where
  "duplicate_message name =
     ''Schema must contain unique named types but contains multiple types named '' @ [QUOTE] @ name @ [QUOTE] @ ''.''"

text \<open>For the termination of \<open>add\<close>: the types that are not in the map yet.\<close>

definition missing :: "'v type_env \<Rightarrow> type_map \<Rightarrow> type_ref set" where
  "missing env m = {n. n < length env \<and> map_of m (type_Name env n) \<noteq> Some n}"

lemma missing_add:
  assumes "n < length env" "map_of m (type_Name env n) = None"
  shows "card (missing env (m @ [(type_Name env n, n)])) < card (missing env m)"
proof (rule psubset_card_mono)
  show "finite (missing env m)" by (simp add: missing_def)
  have "n \<in> missing env m" "n \<notin> missing env (m @ [(type_Name env n, n)])"
    using assms by (auto simp: missing_def map_add_def)
  moreover have "missing env (m @ [(type_Name env n, n)]) \<subseteq> missing env m"
    by (auto simp: missing_def map_add_def split: option.splits)
  ultimately show "missing env (m @ [(type_Name env n, n)]) \<subset> missing env m" by auto
qed

text \<open>
  \<open>add\<close> visits what is reachable from the types on a stack; the head of the list is its top.
\<close>

function (sequential) TypeMap_add_loop :: "'v type_env \<Rightarrow> type_map \<Rightarrow> gtype option list \<Rightarrow> (string, type_map) outcome" where
  "TypeMap_add_loop env m [] = Ok m"
| "TypeMap_add_loop env m (None # stack) = TypeMap_add_loop env m stack"
| "TypeMap_add_loop env m (Some (ListOf t) # stack) = TypeMap_add_loop env m (Some t # stack)"
| "TypeMap_add_loop env m (Some (NonNullOf t) # stack) = TypeMap_add_loop env m (Some t # stack)"
| "TypeMap_add_loop env m (Some (Named n0) # stack) =
     (let n = dealias env n0; name = type_Name env n in
      if length env \<le> n then Panic
      else case map_of m name of
        None \<Rightarrow> TypeMap_add_loop env (m @ [(name, n)]) (rev (map Some (def_refs (env ! n))) @ stack)
      | Some prev \<Rightarrow>
          if prev \<noteq> n then Error (duplicate_message name)
          else TypeMap_add_loop env m stack)"
  by pat_completeness auto
termination
proof (relation "measures [\<lambda>(env, m, stack). card (missing env m), \<lambda>(env, m, stack). sum_list (map (size_option size) stack)]", goal_cases)
  case (5 env m n0 stack n name)
  then show ?case using missing_add [of n env m] by auto
qed auto

definition TypeMap_add :: "'v type_env \<Rightarrow> gtype option \<Rightarrow> type_map \<Rightarrow> (string, type_map) outcome" where
  "TypeMap_add env t m = TypeMap_add_loop env m [t]"

section \<open>Schemas\<close>

record 'v directive_def =
  directive_def_Name :: string
  directive_def_Locations :: "string list"
  directive_def_Args :: "'v input_def list"

definition DirectiveList_Lookup :: "'v directive_def list \<Rightarrow> string \<Rightarrow> 'v directive_def option" where
  "DirectiveList_Lookup directives name = find (\<lambda>d. directive_def_Name d = name) directives"

record 'v schema_config =
  config_Query :: "type_ref option"
  config_Mutation :: "type_ref option"
  config_Subscription :: "type_ref option"
  config_Types :: "gtype option list"
  config_Directives :: "'v directive_def list"
  config_ExcludeStandardDirectives :: bool

record 'v schema =
  schema_query :: "type_ref option"
  schema_mutation :: "type_ref option"
  schema_subscription :: "type_ref option"
  schema_typeMap :: type_map
  schema_directives :: "'v directive_def list"
  schema_possibleTypeSets :: "type_ref \<rightharpoonup> type_ref list"

fun TypeMap_add_all :: "'v type_env \<Rightarrow> gtype option list \<Rightarrow> type_map \<Rightarrow> (string, type_map) outcome" where
  "TypeMap_add_all env [] m = Ok m"
| "TypeMap_add_all env (t # ts) m = bind_outcome (TypeMap_add env t m) (TypeMap_add_all env ts)"

definition set_Add :: "type_ref \<Rightarrow> type_ref list \<Rightarrow> type_ref list" where
  "set_Add o' s = (if o' \<in> set s then s else s @ [o'])"

definition addPossible :: "type_ref \<Rightarrow> type_ref \<Rightarrow> (type_ref \<rightharpoonup> type_ref list) \<Rightarrow> (type_ref \<rightharpoonup> type_ref list)" where
  "addPossible t iface sets =
     (let s = (case sets iface of None \<Rightarrow> [] | Some s \<Rightarrow> s) in sets(iface \<mapsto> set_Add t s))"

definition collectPossible :: "'v type_env \<Rightarrow> type_ref \<Rightarrow> (type_ref \<rightharpoonup> type_ref list) \<Rightarrow> (type_ref \<rightharpoonup> type_ref list)" where
  "collectPossible env t sets =
     (case env ! t of
        ObjectDef _ _ interfaces \<Rightarrow> fold (addPossible t) interfaces sets
      | UnionDef _ possibleTypes \<Rightarrow> sets(t \<mapsto> possibleTypes)
      | _ \<Rightarrow> sets)"

text \<open>\<open>introspectionSchema\<close> is the type \<open>__Schema\<close>; \<open>standardDirectives\<close> are those of \<open>directives.go\<close>.\<close>

definition NewSchema ::
  "'v type_env \<Rightarrow> type_ref \<Rightarrow> 'v directive_def list \<Rightarrow> 'v schema_config \<Rightarrow> (string, 'v schema) outcome" where
  "NewSchema env introspectionSchema standardDirectives config =
     (let directives = config_Directives config @ (if config_ExcludeStandardDirectives config then [] else standardDirectives) in
      bind_outcome (TypeMap_add env (map_option Named (config_Query config)) []) (\<lambda>m.
      bind_outcome (TypeMap_add env (map_option Named (config_Mutation config)) m) (\<lambda>m.
      bind_outcome (TypeMap_add env (map_option Named (config_Subscription config)) m) (\<lambda>m.
      bind_outcome (TypeMap_add env (Some (Named introspectionSchema)) m) (\<lambda>m.
      bind_outcome (TypeMap_add_all env (config_Types config) m) (\<lambda>m.
      bind_outcome (TypeMap_add_all env (map (\<lambda>a. Some (input_Type a)) (concat (map directive_def_Args directives))) m) (\<lambda>m.
      Ok \<lparr>schema_query = config_Query config, schema_mutation = config_Mutation config,
          schema_subscription = config_Subscription config, schema_typeMap = m, schema_directives = directives,
          schema_possibleTypeSets = fold (collectPossible env \<circ> snd) m Map.empty\<rparr>)))))))"

definition PossibleTypes :: "'v schema \<Rightarrow> type_ref \<Rightarrow> type_ref list" where
  "PossibleTypes schema t = (case schema_possibleTypeSets schema t of None \<Rightarrow> [] | Some s \<Rightarrow> s)"

definition DoesIntersect :: "type_ref list \<Rightarrow> type_ref list \<Rightarrow> bool" where
  "DoesIntersect s other = list_ex (\<lambda>t. t \<in> set other) s"

text \<open>\<open>NewNonNullOfType\<close> takes a nullable type only.\<close>

definition NewNonNullOfType :: "gtype \<Rightarrow> gtype option" where
  "NewNonNullOfType t = (if IsNonNullType t then None else Some (NonNullOf t))"

fun TypeFromAST_descend :: "token list \<Rightarrow> token_ref ast_type list \<Rightarrow> token_ref ast_type \<Rightarrow> token_ref ast_type list \<times> string" where
  "TypeFromAST_descend toks path (NamedType name) = (path, name_Value toks name)"
| "TypeFromAST_descend toks path (ListType t) = TypeFromAST_descend toks (path @ [ListType t]) t"
| "TypeFromAST_descend toks path (NonNullType t) = TypeFromAST_descend toks (path @ [NonNullType t]) t"

fun TypeFromAST_wrap :: "token_ref ast_type list \<Rightarrow> gtype \<Rightarrow> (string, gtype) outcome" where
  "TypeFromAST_wrap [] t = Ok t"
| "TypeFromAST_wrap (w # path) t =
     (case w of
        ListType _ \<Rightarrow> TypeFromAST_wrap path (ListOf t)
      | _ \<Rightarrow> (case NewNonNullOfType t of None \<Rightarrow> Panic | Some t \<Rightarrow> TypeFromAST_wrap path t))"

text \<open>With an empty name the first loop never ends.\<close>

definition TypeFromAST :: "'v schema \<Rightarrow> token list \<Rightarrow> token_ref ast_type \<Rightarrow> (string, gtype option) outcome" where
  "TypeFromAST schema toks t =
     (case TypeFromAST_descend toks [] t of (path, typeName) \<Rightarrow>
        if typeName = [] then OutOfFuel
        else case TypeMap_Lookup (schema_typeMap schema) typeName of
          None \<Rightarrow> Ok None
        | Some n \<Rightarrow> bind_outcome (TypeFromAST_wrap (rev path) (Named n)) (\<lambda>t. Ok (Some t)))"

text \<open>\<open>TypeResolver.ResolveType\<close>: the stack holds booleans, and an error ends the wrapping.\<close>

fun ResolveType_descend :: "token list \<Rightarrow> bool list \<Rightarrow> token_ref ast_type \<Rightarrow> bool list \<times> string" where
  "ResolveType_descend toks wrapTypes (ListType t) = ResolveType_descend toks (wrapTypes @ [True]) t"
| "ResolveType_descend toks wrapTypes (NamedType name) = (wrapTypes, name_Value toks name)"
| "ResolveType_descend toks wrapTypes (NonNullType t) = ResolveType_descend toks (wrapTypes @ [False]) t"

fun ResolveType_wrap :: "bool list \<Rightarrow> gtype \<Rightarrow> gtype option" where
  "ResolveType_wrap [] t = Some t"
| "ResolveType_wrap (isList # wrapTypes) t =
     (if isList then ResolveType_wrap wrapTypes (ListOf t)
      else case NewNonNullOfType t of None \<Rightarrow> None | Some t \<Rightarrow> ResolveType_wrap wrapTypes t)"

definition ResolveType :: "'v schema \<Rightarrow> token list \<Rightarrow> token_ref ast_type \<Rightarrow> gtype option" where
  "ResolveType schema toks t =
     (case ResolveType_descend toks [] t of (wrapTypes, name) \<Rightarrow>
        case TypeMap_Lookup (schema_typeMap schema) name of
          None \<Rightarrow> None
        | Some n \<Rightarrow> ResolveType_wrap (rev wrapTypes) (Named n))"

section \<open>Comparison\<close>

function (sequential) IsTypeSubTypeOf :: "'v type_env \<Rightarrow> 'v schema \<Rightarrow> gtype \<Rightarrow> gtype \<Rightarrow> bool" where
  "IsTypeSubTypeOf env schema maybeSubType superType =
     (if maybeSubType = superType then True
      else case superType of
        NonNullOf super \<Rightarrow> (case maybeSubType of NonNullOf sub \<Rightarrow> IsTypeSubTypeOf env schema sub super | _ \<Rightarrow> False)
      | ListOf super \<Rightarrow> (case maybeSubType of ListOf sub \<Rightarrow> IsTypeSubTypeOf env schema sub super | _ \<Rightarrow> False)
      | Named n \<Rightarrow>
          if IsAbstractDef (env ! n) then
            (case maybeSubType of Named o' \<Rightarrow> IsObjectDef (env ! o') \<and> o' \<in> set (PossibleTypes schema n) | _ \<Rightarrow> False)
          else (case maybeSubType of NonNullOf sub \<Rightarrow> IsTypeSubTypeOf env schema sub superType | _ \<Rightarrow> False))"
  by pat_completeness auto
termination
  by (relation "measure (\<lambda>(env, schema, sub, super). size sub)") auto

declare IsTypeSubTypeOf.simps [simp del]

end
