(* ===== verification/TypesSpec.thy ===== *)
theory TypesSpec
  imports Types
begin

text \<open>
  The type map of a schema holds exactly the reachable types, the sets of possible types are those that the
  definitions say, a subtype has no values that its super type lacks, and types are read from their syntax as written.
\<close>

section \<open>Reachable types\<close>

definition target :: "'v type_env \<Rightarrow> gtype \<Rightarrow> type_ref" where
  "target env t = dealias env (NamedTypeOf t)"

text \<open>The types that the definition of a type mentions.\<close>

inductive mentions :: "'v type_def \<Rightarrow> gtype \<Rightarrow> bool" where
  mention_object_field: "f \<in> set flds \<Longrightarrow> mentions (ObjectDef name flds interfaces) (field_Type f)"
| mention_object_arg: "f \<in> set flds \<Longrightarrow> a \<in> set (field_Args f) \<Longrightarrow> mentions (ObjectDef name flds interfaces) (input_Type a)"
| mention_object_interface: "i \<in> set interfaces \<Longrightarrow> mentions (ObjectDef name flds interfaces) (Named i)"
| mention_interface_field: "f \<in> set flds \<Longrightarrow> mentions (InterfaceDef name flds) (field_Type f)"
| mention_interface_arg: "f \<in> set flds \<Longrightarrow> a \<in> set (field_Args f) \<Longrightarrow> mentions (InterfaceDef name flds) (input_Type a)"
| mention_union_member: "i \<in> set members \<Longrightarrow> mentions (UnionDef name members) (Named i)"
| mention_input_field: "f \<in> set inputs \<Longrightarrow> mentions (InputObjectDef name inputs) (input_Type f)"

inductive_simps mentions_simps [simp]:
  "mentions (ScalarDef name) t" "mentions (ScalarAliasDef name n) t" "mentions (ObjectDef name flds interfaces) t"
  "mentions (InterfaceDef name flds) t" "mentions (UnionDef name members) t" "mentions (EnumDef name vs) t"
  "mentions (InputObjectDef name inputs) t"

lemma mentions_iff: "mentions d t \<longleftrightarrow> t \<in> set (def_refs d)"
  by (cases d) (auto simp: field_refs_def)

inductive reach :: "'v type_env \<Rightarrow> gtype set \<Rightarrow> type_ref \<Rightarrow> bool" for env R where
  reach_root: "t \<in> R \<Longrightarrow> reach env R (target env t)"
| reach_mention: "reach env R n \<Longrightarrow> n < length env \<Longrightarrow> mentions (env ! n) t \<Longrightarrow> reach env R (target env t)"

lemma reach_ref: "reach env R n \<Longrightarrow> n < length env \<Longrightarrow> t \<in> set (def_refs (env ! n)) \<Longrightarrow> reach env R (target env t)"
  by (simp add: reach_mention mentions_iff)

lemma target_simps [simp]:
  "target env (ListOf t) = target env t" "target env (NonNullOf t) = target env t" "target env (Named n) = dealias env n"
  by (simp_all add: target_def)

lemma reach_mono: "reach env R n \<Longrightarrow> R \<subseteq> R' \<Longrightarrow> reach env R' n"
  by (induction rule: reach.induct) (auto intro: reach.intros)

definition known :: "'v type_env \<Rightarrow> type_map \<Rightarrow> type_ref \<Rightarrow> bool" where
  "known env m n \<longleftrightarrow> (type_Name env n, n) \<in> set m"

definition typemap_ok :: "'v type_env \<Rightarrow> gtype set \<Rightarrow> type_map \<Rightarrow> bool" where
  "typemap_ok env R m \<longleftrightarrow> distinct (map fst m) \<and>
     (\<forall>(name, n) \<in> set m. n < length env \<and> type_Name env n = name \<and> reach env R n)"

text \<open>Every reference from a type of the map leads to a type of the map or to one on the stack.\<close>

definition closed_upto :: "'v type_env \<Rightarrow> type_map \<Rightarrow> gtype option list \<Rightarrow> bool" where
  "closed_upto env m stack \<longleftrightarrow> (\<forall>n. known env m n \<longrightarrow> (\<forall>t \<in> set (def_refs (env ! n)).
     known env m (target env t) \<or> (\<exists>u. Some u \<in> set stack \<and> target env u = target env t)))"

lemma known_map_of: "typemap_ok env R m \<Longrightarrow> known env m n \<longleftrightarrow> map_of m (type_Name env n) = Some n"
  by (auto simp: typemap_ok_def known_def dest: map_of_SomeD)

lemma known_add: "known env m n \<Longrightarrow> known env (m @ k) n"
  by (simp add: known_def)

lemma typemap_ok_add:
  assumes "typemap_ok env R m" "n < length env" "reach env R n" "map_of m (type_Name env n) = None"
  shows "typemap_ok env R (m @ [(type_Name env n, n)])"
  using assms by (auto simp: typemap_ok_def map_of_eq_None_iff image_iff)

definition conflict :: "'v type_env \<Rightarrow> gtype set \<Rightarrow> bool" where
  "conflict env R \<longleftrightarrow> (\<exists>n k. reach env R n \<and> reach env R k \<and> n \<noteq> k \<and> type_Name env n = type_Name env k)"

text \<open>What \<open>add\<close> did to the map \<open>m\<close>, with the types \<open>ts\<close> to add, all of them from \<open>R\<close>.\<close>

definition added :: "'v type_env \<Rightarrow> gtype set \<Rightarrow> type_map \<Rightarrow> gtype set \<Rightarrow> (string, type_map) outcome \<Rightarrow> bool" where
  "added env R m ts r \<longleftrightarrow>
     (case r of
        Ok m' \<Rightarrow> typemap_ok env R m' \<and> closed_upto env m' [] \<and> (\<forall>t \<in> ts. known env m' (target env t)) \<and> (\<exists>k. m' = m @ k)
      | Error _ \<Rightarrow> conflict env R
      | Panic \<Rightarrow> \<exists>n. reach env R n \<and> length env \<le> n
      | OutOfFuel \<Rightarrow> False)"


lemma TypeMap_add_loop_added:
  assumes "typemap_ok env R m" "closed_upto env m stack" "\<And>t. Some t \<in> set stack \<Longrightarrow> reach env R (target env t)"
  shows "added env R m {t. Some t \<in> set stack} (TypeMap_add_loop env m stack)"
  using assms
proof (induction env m stack rule: TypeMap_add_loop.induct)
  case (1 env m)
  then show ?case by (simp add: added_def)
next
  case (2 env m stack)
  then have "closed_upto env m stack" by (auto simp: closed_upto_def)
  then show ?case using 2 by simp
next
  case (3 env m t stack)
  have "closed_upto env m (Some t # stack)" using 3(3) unfolding closed_upto_def by (metis list.set_intros set_ConsD option.inject target_simps(1))
  then have "added env R m {t'. Some t' \<in> set (Some t # stack)} (TypeMap_add_loop env m (Some t # stack))"
    using 3 by (metis list.set_intros set_ConsD option.inject target_simps(1))
  then show ?case by (auto simp: added_def split: outcome.splits)
next
  case (4 env m t stack)
  have "closed_upto env m (Some t # stack)" using 4(3) unfolding closed_upto_def by (metis list.set_intros set_ConsD option.inject target_simps(2))
  then have "added env R m {t'. Some t' \<in> set (Some t # stack)} (TypeMap_add_loop env m (Some t # stack))"
    using 4 by (metis list.set_intros set_ConsD option.inject target_simps(2))
  then show ?case by (auto simp: added_def split: outcome.splits)
next
  case (5 env m n0 stack)
  define n where "n = dealias env n0"
  define name where "name = type_Name env n"
  have reach_n: "reach env R n" using 5(5) [of "Named n0"] by (simp add: n_def)
  show ?case
  proof (cases "length env \<le> n")
    case True
    then show ?thesis using reach_n by (auto simp: added_def n_def [symmetric])
  next
    case bound: False
    show ?thesis
    proof (cases "map_of m name")
      case None
      let ?m = "m @ [(name, n)]" and ?stack = "rev (map Some (def_refs (env ! n))) @ stack"
      have eq: "TypeMap_add_loop env m (Some (Named n0) # stack) = TypeMap_add_loop env ?m ?stack"
        using bound None by (simp add: n_def [symmetric] name_def [symmetric] Let_def)
      have ok: "typemap_ok env R ?m" using typemap_ok_add [OF 5(3) _ reach_n] bound None by (simp add: name_def)
      have kn: "known env ?m n" by (simp add: known_def name_def)
      have "closed_upto env ?m ?stack"
        unfolding closed_upto_def
      proof (intro allI impI ballI)
        fix k t assume k: "known env ?m k" "t \<in> set (def_refs (env ! k))"
        show "known env ?m (target env t) \<or> (\<exists>u. Some u \<in> set ?stack \<and> target env u = target env t)"
        proof (cases "k = n")
          case True
          then show ?thesis using k(2) by auto
        next
          case False
          then have "known env m k" using k(1) by (auto simp: known_def)
          then consider "known env m (target env t)" | u where "Some u \<in> set (Some (Named n0) # stack)" "target env u = target env t"
            using 5(4) k(2) by (auto simp: closed_upto_def)
          then show ?thesis
          proof cases
            case 2
            then show ?thesis using kn by (auto simp: n_def)
          qed (auto intro: known_add)
        qed
      qed
      moreover have "reach env R (target env t)" if "Some t \<in> set ?stack" for t
        using that 5(5) reach_ref [OF reach_n, of t] bound by auto
      ultimately have "added env R ?m {t. Some t \<in> set ?stack} (TypeMap_add_loop env ?m ?stack)"
        using 5(1) [OF n_def name_def] bound None ok by auto
      then show ?thesis unfolding eq using kn
        by (auto simp: added_def n_def [symmetric] known_def split: outcome.splits)
    next
      case (Some prev)
      show ?thesis
      proof (cases "prev = n")
        case True
        have kn: "known env m n" using Some True by (auto simp: known_def name_def dest: map_of_SomeD)
        have "closed_upto env m stack" 
          using 5(4) kn unfolding closed_upto_def n_def by (metis target_simps(3) set_ConsD option.inject)
        then have "added env R m {t. Some t \<in> set stack} (TypeMap_add_loop env m stack)"
          using 5(2) [OF n_def name_def] bound Some True 5(3,5) by auto
        then show ?thesis using bound Some True kn
          by (auto simp: added_def n_def [symmetric] name_def [symmetric] Let_def intro: known_add split: outcome.splits)
      next
        case False
        have "reach env R prev" "type_Name env prev = name"
          using 5(3) map_of_SomeD [OF Some] by (auto simp: typemap_ok_def)
        then have "conflict env R" using False reach_n unfolding conflict_def name_def by blast
        then show ?thesis using False bound Some by (simp add: added_def n_def [symmetric] name_def [symmetric] Let_def)
      qed
    qed
  qed
qed


text \<open>The types that \<open>NewSchema\<close> adds, in order.\<close>

definition schema_roots :: "type_ref \<Rightarrow> 'v directive_def list \<Rightarrow> 'v schema_config \<Rightarrow> gtype option list" where
  "schema_roots introspectionSchema standardDirectives config =
     [map_option Named (config_Query config), map_option Named (config_Mutation config),
      map_option Named (config_Subscription config), Some (Named introspectionSchema)] @
     config_Types config @
     map (\<lambda>a. Some (input_Type a)) (concat (map directive_def_Args
       (config_Directives config @ (if config_ExcludeStandardDirectives config then [] else standardDirectives))))"

lemma bind_outcome_assoc: "bind_outcome (bind_outcome r f) g = bind_outcome r (\<lambda>a. bind_outcome (f a) g)"
  by (cases r) simp_all

lemma TypeMap_add_all_append: "TypeMap_add_all env (xs @ ys) m = bind_outcome (TypeMap_add_all env xs m) (TypeMap_add_all env ys)"
  by (induction xs arbitrary: m) (simp_all add: bind_outcome_assoc bind_outcome_def split: outcome.splits)

lemma NewSchema_eq:
  "NewSchema env introspectionSchema standardDirectives config =
     bind_outcome (TypeMap_add_all env (schema_roots introspectionSchema standardDirectives config) []) (\<lambda>m.
       Ok \<lparr>schema_query = config_Query config, schema_mutation = config_Mutation config,
          schema_subscription = config_Subscription config, schema_typeMap = m,
          schema_directives = config_Directives config @ (if config_ExcludeStandardDirectives config then [] else standardDirectives),
          schema_possibleTypeSets = fold (collectPossible env \<circ> snd) m Map.empty\<rparr>)"
  by (simp only: NewSchema_def schema_roots_def Let_def TypeMap_add_all_append TypeMap_add_all.simps append_Cons append_Nil
      bind_outcome_assoc)

lemma TypeMap_add_all_added:
  assumes "typemap_ok env R m" "closed_upto env m []" "\<And>t. Some t \<in> set ts \<Longrightarrow> t \<in> R"
  shows "added env R m {t. Some t \<in> set ts} (TypeMap_add_all env ts m)"
  using assms
proof (induction ts arbitrary: m)
  case (Cons t ts)
  have "added env R m {u. Some u \<in> set [t]} (TypeMap_add env t m)"
    unfolding TypeMap_add_def
    using Cons.prems by (intro TypeMap_add_loop_added) (auto simp: closed_upto_def intro: reach_root)
  then show ?case
  proof (cases "TypeMap_add env t m")
    case (Ok m1)
    then have m1: "typemap_ok env R m1" "closed_upto env m1 []" "\<And>u. t = Some u \<Longrightarrow> known env m1 (target env u)" "\<exists>k. m1 = m @ k"
      using \<open>added env R m _ _\<close> by (auto simp: added_def)
    have "added env R m1 {u. Some u \<in> set ts} (TypeMap_add_all env ts m1)"
      using Cons.IH [OF m1(1,2)] Cons.prems(3) by simp
    then show ?thesis using Ok m1 by (auto simp: added_def known_def split: outcome.splits)
  qed (auto simp: added_def)
qed (simp add: added_def)

definition root_types :: "type_ref \<Rightarrow> 'v directive_def list \<Rightarrow> 'v schema_config \<Rightarrow> gtype set" where
  "root_types introspectionSchema standardDirectives config = {t. Some t \<in> set (schema_roots introspectionSchema standardDirectives config)}"

lemma NewSchema_added:
  "added env (root_types introspectionSchema standardDirectives config) [] (root_types introspectionSchema standardDirectives config)
     (TypeMap_add_all env (schema_roots introspectionSchema standardDirectives config) [])"
  using TypeMap_add_all_added [of env "root_types introspectionSchema standardDirectives config" "[]"
      "schema_roots introspectionSchema standardDirectives config"]
  by (simp add: root_types_def typemap_ok_def closed_upto_def known_def)

lemma closed_reach:
  assumes "closed_upto env m []" "\<And>t. t \<in> R \<Longrightarrow> known env m (target env t)" "reach env R n"
  shows "known env m n"
  using assms(3) by (induction rule: reach.induct) (use assms(1,2) in \<open>auto simp: closed_upto_def mentions_iff\<close>)

text \<open>
  C22: the type map of a schema. When \<open>NewSchema\<close> succeeds, looking up a name in the type map gives a type exactly if it is reachable
  from the roots (the operation types, the introspection types, the additional types and the arguments of directives) through fields,
  arguments, interfaces, members and wrappers, and has that name. In particular every type that a type of the schema refers to is
  in the schema.
\<close>

theorem schema_typeMap_reachable:
  assumes "NewSchema env introspectionSchema standardDirectives config = Ok schema"
  shows "TypeMap_Lookup (schema_typeMap schema) name = Some n \<longleftrightarrow>
    reach env (root_types introspectionSchema standardDirectives config) n \<and> type_Name env n = name"
proof -
  let ?R = "root_types introspectionSchema standardDirectives config" and ?m = "schema_typeMap schema"
  have m: "TypeMap_add_all env (schema_roots introspectionSchema standardDirectives config) [] = Ok ?m"
    using assms unfolding NewSchema_eq by (auto elim!: bind_outcome_OkE)
  then have ok: "typemap_ok env ?R ?m" "closed_upto env ?m []" "\<And>t. t \<in> ?R \<Longrightarrow> known env ?m (target env t)"
    using NewSchema_added [of env introspectionSchema standardDirectives config] by (auto simp: added_def)
  show ?thesis
  proof
    assume "TypeMap_Lookup ?m name = Some n"
    then show "reach env ?R n \<and> type_Name env n = name"
      using ok(1) by (auto simp: TypeMap_Lookup_def typemap_ok_def dest!: map_of_SomeD)
  next
    assume "reach env ?R n \<and> type_Name env n = name"
    then show "TypeMap_Lookup ?m name = Some n"
      using closed_reach [OF ok(2,3)] known_map_of [OF ok(1)] by (auto simp: TypeMap_Lookup_def)
  qed
qed

text \<open>A schema whose query type has a field of a scalar type.\<close>

definition sample_env :: "unit type_env" where
  "sample_env = [ObjectDef ''Query'' [\<lparr>field_Name = ''f'', field_Type = NonNullOf (Named 1), field_Args = []\<rparr>] [3], ScalarDef ''ID'',
     ObjectDef ''__Schema'' [] [], InterfaceDef ''Node'' []]"

definition sample_config :: "unit schema_config" where
  "sample_config = \<lparr>config_Query = Some 0, config_Mutation = None, config_Subscription = None, config_Types = [],
     config_Directives = [], config_ExcludeStandardDirectives = True\<rparr>"

definition sample_schema :: "unit schema" where
  "sample_schema = (case NewSchema sample_env 2 [] sample_config of Ok schema \<Rightarrow> schema)"

lemma sample_schema_new: "NewSchema sample_env 2 [] sample_config = Ok sample_schema"
  by (simp add: sample_schema_def NewSchema_def sample_config_def sample_env_def TypeMap_add_def dealias_def type_Name_def Let_def field_refs_def)

lemma sample_schema_map: "schema_typeMap sample_schema = [(''Query'', 0), (''ID'', 1), (''Node'', 3), (''__Schema'', 2)]"
  by (simp add: sample_schema_def NewSchema_def sample_config_def sample_env_def TypeMap_add_def dealias_def type_Name_def Let_def
      field_refs_def)

theorem schema_typeMap_reachable_witness: "reach sample_env (root_types 2 [] sample_config) 1"
proof -
  have "TypeMap_Lookup (schema_typeMap sample_schema) ''ID'' = Some 1" by (simp add: sample_schema_map TypeMap_Lookup_def)
  then show ?thesis using schema_typeMap_reachable [OF sample_schema_new] by blast
qed

text \<open>
  C23: \<open>NewSchema\<close> returns, and it fails exactly if two different reachable types have the same name. The hypothesis is that there are
  no dangling references.
\<close>

theorem NewSchema_unique_names:
  assumes "\<And>n. reach env (root_types introspectionSchema standardDirectives config) n \<Longrightarrow> n < length env"
  shows "if conflict env (root_types introspectionSchema standardDirectives config)
    then \<exists>message. NewSchema env introspectionSchema standardDirectives config = Error message
    else \<exists>schema. NewSchema env introspectionSchema standardDirectives config = Ok schema"
proof -
  let ?R = "root_types introspectionSchema standardDirectives config"
  let ?r = "TypeMap_add_all env (schema_roots introspectionSchema standardDirectives config) []"
  note a = NewSchema_added [of env introspectionSchema standardDirectives config]
  show ?thesis
  proof (cases ?r)
    case (Ok m)
    then have "typemap_ok env ?R m" "\<And>n. reach env ?R n \<Longrightarrow> known env m n" using a closed_reach [of env m ?R] by (auto simp: added_def)
    then have "\<not> conflict env ?R" unfolding conflict_def using known_map_of by (metis option.inject)
    then show ?thesis using Ok by (simp add: NewSchema_eq)
  next
    case (Error e)
    then show ?thesis using a by (simp add: NewSchema_eq added_def)
  next
    case Panic
    then show ?thesis using a assms by (auto simp: added_def dest: leD)
  next
    case OutOfFuel
    then show ?thesis using a by (simp add: added_def)
  qed
qed


lemma sample_reach: "reach sample_env (root_types 2 [] sample_config) n \<Longrightarrow> n < length sample_env"
  by (induction rule: reach.induct)
     (auto simp: root_types_def schema_roots_def sample_config_def sample_env_def target_def dealias_def field_refs_def
       nth_Cons split: nat.splits)

theorem NewSchema_unique_names_witness:
  "\<not> conflict sample_env (root_types 2 [] sample_config) \<and> (\<exists>schema. NewSchema sample_env 2 [] sample_config = Ok schema)"
  using NewSchema_unique_names [of sample_env 2 "[]" sample_config, OF sample_reach] sample_schema_new by (auto split: if_splits)

section \<open>Possible types\<close>

fun def_Interfaces :: "'v type_def \<Rightarrow> type_ref list" where
  "def_Interfaces (ObjectDef _ _ interfaces) = interfaces"
| "def_Interfaces _ = []"

definition members_of :: "(type_ref \<rightharpoonup> type_ref list) \<Rightarrow> type_ref \<Rightarrow> type_ref list" where
  "members_of sets a = (case sets a of None \<Rightarrow> [] | Some s \<Rightarrow> s)"

lemma members_of_upd [simp]: "members_of (sets(b \<mapsto> s)) a = (if a = b then s else members_of sets a)"
  by (simp add: members_of_def)

lemma addPossible_members:
  "set (members_of (fold (addPossible t) ifaces sets) a) = set (members_of sets a) \<union> (if a \<in> set ifaces then {t} else {})"
  by (induction ifaces arbitrary: sets)
     (auto simp: addPossible_def set_Add_def Let_def members_of_def [symmetric])

lemma addPossible_other: "a \<notin> set ifaces \<Longrightarrow> fold (addPossible t) ifaces sets a = sets a"
  by (induction ifaces arbitrary: sets) (auto simp: addPossible_def Let_def)

lemma collectPossible_interface:
  assumes "env ! a = InterfaceDef name flds"
  shows "set (members_of (fold (collectPossible env) ns sets) a) =
    set (members_of sets a) \<union> {o' \<in> set ns. a \<in> set (def_Interfaces (env ! o'))}"
proof (induction ns arbitrary: sets)
  case (Cons n ns)
  have "set (members_of (collectPossible env n sets) a) =
      set (members_of sets a) \<union> (if a \<in> set (def_Interfaces (env ! n)) then {n} else {})"
    using assms by (cases "env ! n") (auto simp: collectPossible_def addPossible_members)
  then show ?case using Cons by auto
qed simp

lemma collectPossible_union:
  assumes "env ! a = UnionDef name members" "\<And>n. n \<in> set ns \<Longrightarrow> a \<notin> set (def_Interfaces (env ! n))"
  shows "fold (collectPossible env) ns sets a = (if a \<in> set ns then Some members else sets a)"
  using assms(2)
proof (induction ns arbitrary: sets)
  case (Cons n ns)
  have "collectPossible env n sets a = (if n = a then Some members else sets a)"
    using assms(1) Cons.prems [of n] by (cases "env ! n") (auto simp: collectPossible_def addPossible_other)
  then show ?case using Cons by auto
qed simp

text \<open>
  C24: \<open>PossibleTypes\<close>, whatever the order of the iteration over the type map: for an interface the object types of the
  schema that declare it, and for a union of the schema its members. The hypothesis on unions is that only interfaces are implemented.
\<close>

theorem PossibleTypes_correct:
  assumes "NewSchema env introspectionSchema standardDirectives config = Ok schema"
    and "\<And>n i. n \<in> snd ` set (schema_typeMap schema) \<Longrightarrow> i \<in> set (def_Interfaces (env ! n)) \<Longrightarrow> \<exists>name flds. env ! i = InterfaceDef name flds"
  shows "(\<forall>name flds. env ! a = InterfaceDef name flds \<longrightarrow>
      set (PossibleTypes schema a) = {o'. o' \<in> snd ` set (schema_typeMap schema) \<and> a \<in> set (def_Interfaces (env ! o'))}) \<and>
    (\<forall>name members. env ! a = UnionDef name members \<longrightarrow> a \<in> snd ` set (schema_typeMap schema) \<longrightarrow> PossibleTypes schema a = members)"
proof -
  have sets: "schema_possibleTypeSets schema = fold (collectPossible env) (map snd (schema_typeMap schema)) Map.empty"
    using assms(1) unfolding NewSchema_eq by (auto elim!: bind_outcome_OkE simp: fold_map)
  have "set (PossibleTypes schema a) = {o' \<in> snd ` set (schema_typeMap schema). a \<in> set (def_Interfaces (env ! o'))}"
    if "env ! a = InterfaceDef name flds" for name flds
    using collectPossible_interface [OF that, of "map snd (schema_typeMap schema)" Map.empty] by (simp add: PossibleTypes_def members_of_def sets)
  moreover have "PossibleTypes schema a = members" if "env ! a = UnionDef name members" "a \<in> snd ` set (schema_typeMap schema)" for name members
  proof -
    have "a \<notin> set (def_Interfaces (env ! n))" if "n \<in> snd ` set (schema_typeMap schema)" for n
      using assms(2) [OF that, of a] \<open>env ! a = UnionDef name members\<close> by auto
    then show ?thesis
      using collectPossible_union [OF that(1), where ns = "map snd (schema_typeMap schema)" and sets = Map.empty] that(2) by (simp add: PossibleTypes_def sets)
  qed
  ultimately show ?thesis by blast
qed

theorem PossibleTypes_correct_witness:
  "set (PossibleTypes sample_schema 3) = {o'. o' \<in> snd ` set (schema_typeMap sample_schema) \<and> 3 \<in> set (def_Interfaces (sample_env ! o'))}"
proof -
  have sample: "sample_env ! 3 = InterfaceDef ''Node'' []" by (simp add: sample_env_def)
  have "\<exists>name flds. sample_env ! i = InterfaceDef name flds" if "n \<in> snd ` set (schema_typeMap sample_schema)" "i \<in> set (def_Interfaces (sample_env ! n))" for n i
    using that sample sample_schema_map by (auto simp: sample_env_def)
  then show ?thesis using PossibleTypes_correct [OF sample_schema_new, of 3] sample by blast
qed

section \<open>Subtypes\<close>

text \<open>The shapes of the results of a type; a leaf is known by its type only.\<close>

datatype result = ResultNull | ResultLeaf type_ref | ResultObject type_ref | ResultList "result list"

fun inhabits :: "'v type_env \<Rightarrow> 'v schema \<Rightarrow> gtype \<Rightarrow> result \<Rightarrow> bool" where
  "inhabits env schema (Named n) r \<longleftrightarrow>
     r = ResultNull \<or>
     (if IsAbstractDef (env ! n) then \<exists>o'. r = ResultObject o' \<and> o' \<in> set (PossibleTypes schema n)
      else if IsObjectDef (env ! n) then r = ResultObject n
      else r = ResultLeaf n)"
| "inhabits env schema (ListOf t) r \<longleftrightarrow>
     r = ResultNull \<or> (\<exists>rs. r = ResultList rs \<and> (\<forall>x \<in> set rs. inhabits env schema t x))"
| "inhabits env schema (NonNullOf t) r \<longleftrightarrow> r \<noteq> ResultNull \<and> inhabits env schema t r"

lemma IsTypeSubTypeOf_cases:
  assumes "IsTypeSubTypeOf env schema sub super"
  obtains (same) "sub = super"
  | (non_null) a b where "sub = NonNullOf a" "super = NonNullOf b" "IsTypeSubTypeOf env schema a b"
  | (list) a b where "sub = ListOf a" "super = ListOf b" "IsTypeSubTypeOf env schema a b"
  | (object) a n where "sub = Named a" "super = Named n" "IsAbstractDef (env ! n)" "IsObjectDef (env ! a)" "a \<in> set (PossibleTypes schema n)"
  | (drop) a n where "sub = NonNullOf a" "super = Named n" "\<not> IsAbstractDef (env ! n)" "IsTypeSubTypeOf env schema a (Named n)"
  using assms IsTypeSubTypeOf.simps [of env schema sub super]
  by (cases "sub = super"; cases super; cases sub) (auto split: if_splits)

lemma object_not_abstract: "IsObjectDef d \<Longrightarrow> \<not> IsAbstractDef d"
  by (cases d) auto

text \<open>
  C25: \<open>IsTypeSubTypeOf\<close> is sound: when it accepts, every result of the first type is a result of the second one.
\<close>

theorem IsTypeSubTypeOf_sound:
  assumes "IsTypeSubTypeOf env schema sub super" and "inhabits env schema sub r"
  shows "inhabits env schema super r"
  using assms
proof (induction sub arbitrary: super r)
  case (Named n)
  then show ?case by (cases rule: IsTypeSubTypeOf_cases) (auto simp: object_not_abstract split: if_splits)
next
  case (ListOf t)
  from ListOf.prems(1) show ?case by (cases rule: IsTypeSubTypeOf_cases) (use ListOf in auto)
next
  case (NonNullOf t)
  from NonNullOf.prems(1) show ?case
  proof (cases rule: IsTypeSubTypeOf_cases)
    case (drop a n)
    then show ?thesis using NonNullOf.IH [of "Named n" r] NonNullOf.prems(2) by simp
  qed (use NonNullOf in auto)
qed

theorem IsTypeSubTypeOf_sound_witness:
  "inhabits sample_env sample_schema (Named 3) (ResultObject 0)"
proof -
  have "IsTypeSubTypeOf sample_env sample_schema (Named 0) (Named 3)"
    by (simp add: IsTypeSubTypeOf.simps PossibleTypes_def sample_schema_def NewSchema_def sample_config_def sample_env_def TypeMap_add_def
        dealias_def type_Name_def Let_def field_refs_def collectPossible_def addPossible_def set_Add_def)
  moreover have "inhabits sample_env sample_schema (Named 0) (ResultObject 0)" by (simp add: sample_env_def)
  ultimately show ?thesis by (rule IsTypeSubTypeOf_sound)
qed

text \<open>
  \<open>IsTypeSubTypeOf\<close> is not complete: a list or an abstract type is nullable, but a non-null list is not accepted
  as a subtype of the list, and a non-null object type is not accepted where the object type itself is. The
  relation is therefore not transitive.
\<close>

theorem IsTypeSubTypeOf_non_null:
  "\<not> IsTypeSubTypeOf env schema (NonNullOf (ListOf t)) (ListOf t) \<and>
   (IsAbstractDef (env ! n) \<longrightarrow> \<not> IsTypeSubTypeOf env schema (NonNullOf t) (Named n)) \<and>
   (\<not> IsAbstractDef (env ! n) \<longrightarrow> IsTypeSubTypeOf env schema (NonNullOf (Named n)) (Named n))"
  by (simp add: IsTypeSubTypeOf.simps)

theorem IsTypeSubTypeOf_non_null_witness:
  "\<not> IsTypeSubTypeOf sample_env sample_schema (NonNullOf (Named 0)) (Named 3) \<and> IsTypeSubTypeOf sample_env sample_schema (NonNullOf (Named 1)) (Named 1)"
  using IsTypeSubTypeOf_non_null [of sample_env sample_schema "Named 0" 3] IsTypeSubTypeOf_non_null [of sample_env sample_schema "Named 0" 1]
  by (simp add: sample_env_def)

section \<open>Types and their syntax\<close>

fun type_text :: "'v type_env \<Rightarrow> gtype \<Rightarrow> string" where
  "type_text env (Named n) = type_Name env n"
| "type_text env (ListOf t) = ''['' @ type_text env t @ '']''"
| "type_text env (NonNullOf t) = type_text env t @ ''!''"

lemma InspectType_text: "InspectType env t = type_text env t"
proof -
  have "inspectTypeTo env out ws t = out @ type_text env t @ rev ws" for out ws
    by (induction env out ws t rule: inspectTypeTo.induct) auto
  then show ?thesis by (simp add: InspectType_def)
qed


fun type_of_syntax :: "'v schema \<Rightarrow> token list \<Rightarrow> token_ref ast_type \<Rightarrow> gtype option" where
  "type_of_syntax schema toks (NamedType name) = map_option Named (TypeMap_Lookup (schema_typeMap schema) (name_Value toks name))"
| "type_of_syntax schema toks (ListType t) = map_option ListOf (type_of_syntax schema toks t)"
| "type_of_syntax schema toks (NonNullType t) = map_option NonNullOf (type_of_syntax schema toks t)"


text \<open>The wrappers of a type, the outermost first: true for a list.\<close>

fun wrappers :: "'t ast_type \<Rightarrow> bool list" where
  "wrappers (NamedType name) = []"
| "wrappers (ListType t) = True # wrappers t"
| "wrappers (NonNullType t) = False # wrappers t"

fun base_name :: "token list \<Rightarrow> token_ref ast_type \<Rightarrow> string" where
  "base_name toks (NamedType name) = name_Value toks name"
| "base_name toks (ListType t) = base_name toks t"
| "base_name toks (NonNullType t) = base_name toks t"

fun no_double_non_null :: "'t ast_type \<Rightarrow> bool" where
  "no_double_non_null (NamedType name) \<longleftrightarrow> True"
| "no_double_non_null (ListType t) \<longleftrightarrow> no_double_non_null t"
| "no_double_non_null (NonNullType t) \<longleftrightarrow> (\<forall>u. t \<noteq> NonNullType u) \<and> no_double_non_null t"

lemma ResolveType_descend_eq: "ResolveType_descend toks ws t = (ws @ wrappers t, base_name toks t)"
  by (induction toks ws t rule: ResolveType_descend.induct) auto

lemma ResolveType_wrap_append:
  "ResolveType_wrap (ws @ vs) t = (case ResolveType_wrap ws t of None \<Rightarrow> None | Some t \<Rightarrow> ResolveType_wrap vs t)"
  by (induction ws t rule: ResolveType_wrap.induct) (auto split: option.splits)

lemma type_of_syntax_non_null: "type_of_syntax schema toks t = Some (NonNullOf u) \<Longrightarrow> \<exists>u. t = NonNullType u"
  by (cases t) auto

lemma ResolveType_wrap_syntax:
  "no_double_non_null t \<Longrightarrow>
   (case TypeMap_Lookup (schema_typeMap schema) (base_name toks t) of None \<Rightarrow> None | Some n \<Rightarrow> ResolveType_wrap (rev (wrappers t)) (Named n)) =
     type_of_syntax schema toks t"
proof (induction t)
  case (ListType t)
  then show ?case by (cases "type_of_syntax schema toks t") (auto simp: ResolveType_wrap_append split: option.splits)
next
  case (NonNullType t)
  then have "IsNonNullType u \<Longrightarrow> type_of_syntax schema toks t \<noteq> Some u" for u
    using type_of_syntax_non_null [of schema toks t] by (cases u) auto
  note non_null = this
  show ?case
  proof (cases "type_of_syntax schema toks t")
    case (Some u)
    then show ?thesis using NonNullType non_null [of u]
      by (auto simp: ResolveType_wrap_append NewNonNullOfType_def split: option.splits)
  next
    case None
    then show ?thesis using NonNullType by (auto simp: ResolveType_wrap_append split: option.splits)
  qed
qed (auto simp: ResolveType_wrap_append split: option.splits)

lemma ast_wrap_eq:
  "TypeFromAST_wrap path t =
     (case ResolveType_wrap (map (\<lambda>w. case w of ListType _ \<Rightarrow> True | _ \<Rightarrow> False) path) t of None \<Rightarrow> Panic | Some t \<Rightarrow> Ok t)"
  by (induction path t rule: TypeFromAST_wrap.induct) (auto split: ast_type.splits option.splits)

lemma TypeFromAST_descend_eq:
  "\<exists>path. TypeFromAST_descend toks p t = (p @ path, base_name toks t) \<and>
     map (\<lambda>w. case w of ListType _ \<Rightarrow> True | _ \<Rightarrow> False) path = wrappers t"
  by (induction toks p t rule: TypeFromAST_descend.induct) force+

text \<open>
  C26: types are read from their syntax as written. For a type with a name and no \<open>!!\<close>, both \<open>Schema.TypeFromAST\<close>
  and \<open>TypeResolver.ResolveType\<close>, which unwind a stack of wrappers, give the type that the structure of the syntax says, and
  nil exactly if the schema has no type of that name. Neither of them panics, and the loop of the first one ends.
\<close>

theorem type_from_syntax:
  assumes "no_double_non_null t" and "base_name toks t \<noteq> []"
  shows "TypeFromAST schema toks t = Ok (type_of_syntax schema toks t) \<and>
    ResolveType schema toks t = type_of_syntax schema toks t"
proof -
  obtain path where p: "TypeFromAST_descend toks [] t = (path, base_name toks t)"
      "map (\<lambda>w. case w of ListType _ \<Rightarrow> True | _ \<Rightarrow> False) path = wrappers t"
    using TypeFromAST_descend_eq [of toks "[]" t] by auto
  note s = ResolveType_wrap_syntax [OF assms(1), of schema toks]
  have "type_of_syntax schema toks t = None \<longleftrightarrow> TypeMap_Lookup (schema_typeMap schema) (base_name toks t) = None"
    by (induction t) auto
  then show ?thesis
    using assms(2) s by (auto simp: TypeFromAST_def ResolveType_def ResolveType_descend_eq p ast_wrap_eq rev_map [symmetric] split: option.splits)
qed


definition sample_type_tokens :: "token list" where
  "sample_type_tokens = [\<lparr>token_Kind = KindName, token_Location = 1, token_Length = 2, token_Value = ''ID'', token_Prev = None, token_Next = None\<rparr>]"

theorem type_from_syntax_witness:
  "TypeFromAST sample_schema sample_type_tokens (NonNullType (NamedType (Name 0))) = Ok (Some (NonNullOf (Named 1)))"
proof -
  have "type_of_syntax sample_schema sample_type_tokens (NonNullType (NamedType (Name 0))) = Some (NonNullOf (Named 1))"
    by (simp add: sample_schema_map TypeMap_Lookup_def sample_type_tokens_def name_Value_def)
  then show ?thesis
    using type_from_syntax [of "NonNullType (NamedType (Name 0))" sample_type_tokens sample_schema]
    by (simp add: sample_type_tokens_def name_Value_def)
qed

end
