(* ===== verification/Util.thy ===== *)
theory Util
  imports GoLib "HOL-Library.Multiset"
begin

text \<open>
  \<open>internal/util\<close>: the lists of alternatives and of suggestions in error messages, and the conversions of names and of
  indented text. \<open>strings.ToLower\<close> and \<open>strings.ToUpper\<close> (Unicode tables) and \<open>sort.Sort\<close> (whose order
  of equal elements is not specified) are parameters.
\<close>

section \<open>Alternatives\<close>

definition quote_item :: "bool \<Rightarrow> string \<Rightarrow> string" where
  "quote_item quoted s = (if quoted then [QUOTE] @ s @ [QUOTE] else s)"

fun OrList_loop :: "nat \<Rightarrow> bool \<Rightarrow> nat \<Rightarrow> string list \<Rightarrow> string \<Rightarrow> string" where
  "OrList_loop numItems quoted i [] out = out"
| "OrList_loop numItems quoted i (x # xs) out =
     OrList_loop numItems quoted (Suc i) xs
       (out @ (if numItems > 2 then '', '' else '' '') @ (if i = numItems - 1 then ''or '' else []) @ quote_item quoted x)"

definition OrList :: "string \<Rightarrow> string list \<Rightarrow> int \<Rightarrow> bool \<Rightarrow> string" where
  "OrList out items limit quoted =
     (if items = [] then out
      else let items = (if limit > 0 \<and> int (length items) > limit then take (nat limit) items else items)
        in OrList_loop (length items) quoted 1 (tl items) (out @ quote_item quoted (hd items)))"

section \<open>Suggestions\<close>

text \<open>The table \<open>d\<close> of the distances of prefixes.\<close>

definition initTable :: "nat \<Rightarrow> nat \<Rightarrow> nat list list" where
  "initTable aLength bLength =
     (map (\<lambda>i. i # replicate bLength 0) [0..<Suc aLength])[0 := [0..<Suc bLength]]"

definition distanceCell :: "string \<Rightarrow> string \<Rightarrow> nat list list \<Rightarrow> nat \<Rightarrow> nat \<Rightarrow> nat" where
  "distanceCell a b d i j =
     (let cost = (if a ! (i - 1) \<noteq> b ! (j - 1) then 1 else 0);
          x = d ! (i - 1) ! j + 1;
          y = d ! i ! (j - 1) + 1;
          z = d ! (i - 1) ! (j - 1) + cost;
          m = x;
          m = (if y < m then y else m);
          m = (if z < m then z else m)
      in if i > 1 \<and> j > 1 \<and> a ! (i - 1) = b ! (j - 2) \<and> a ! (i - 2) = b ! (j - 1)
         then let w = d ! (i - 2) ! (j - 2) + cost in if w < m then w else m
         else m)"

definition distanceRow :: "string \<Rightarrow> string \<Rightarrow> nat \<Rightarrow> nat list list \<Rightarrow> nat list list" where
  "distanceRow a b i d = fold (\<lambda>j d. d[i := (d ! i)[j := distanceCell a b d i j]]) [1..<Suc (length b)] d"

definition lexicalDistance :: "(string \<Rightarrow> string) \<Rightarrow> string \<Rightarrow> string \<Rightarrow> nat" where
  "lexicalDistance ToLower aStr bStr =
     (if aStr = bStr then 0
      else let a = ToLower aStr; b = ToLower bStr in
        if a = b then 1
        else fold (distanceRow a b) [1..<Suc (length a)] (initTable (length a) (length b)) ! length a ! length b)"

text \<open>
  The threshold is \<open>max(len(input) / 2, len(option) / 2, 1)\<close> in floating point; the comparison is exact
  and is doubled here. \<open>Sort\<close> sorts the options and their distances together.
\<close>

definition withinThreshold :: "string \<Rightarrow> string \<Rightarrow> nat \<Rightarrow> bool" where
  "withinThreshold input option distance \<longleftrightarrow> 2 * distance \<le> max (max (length input) (length option)) 2"

definition SuggestionList ::
  "(string \<Rightarrow> string) \<Rightarrow> ((string \<times> nat) list \<Rightarrow> (string \<times> nat) list) \<Rightarrow> string \<Rightarrow> string list \<Rightarrow> string list" where
  "SuggestionList ToLower Sort input options =
     (if options = [] then []
      else map fst (Sort (filter (\<lambda>(option, distance). withinThreshold input option distance)
             (map (\<lambda>option. (option, lexicalDistance ToLower input option)) options))))"

section \<open>Names\<close>

definition ascii_upper :: "char \<Rightarrow> bool" where
  "ascii_upper b \<longleftrightarrow> CHR ''A'' \<le> b \<and> b \<le> CHR ''Z''"

definition isSnakeCaseLower :: "char \<Rightarrow> bool" where
  "isSnakeCaseLower b \<longleftrightarrow> CHR ''a'' \<le> b \<and> b \<le> CHR ''z''"

definition toSnakeCaseLower :: "char \<Rightarrow> char" where
  "toSnakeCaseLower b = (if ascii_upper b then byte (byte_of b - byte_of (CHR ''A'') + byte_of (CHR ''a'')) else b)"

definition toCamelCaseUpper :: "char \<Rightarrow> char" where
  "toCamelCaseUpper b = (if isSnakeCaseLower b then byte (byte_of b - byte_of (CHR ''a'') + byte_of (CHR ''A'')) else b)"

text \<open>The loop over the characters but the first; the last one has no \<open>next\<close>.\<close>

fun SnakeCase_loop :: "char \<Rightarrow> string \<Rightarrow> string" where
  "SnakeCase_loop prev [] = []"
| "SnakeCase_loop prev [cur] =
     (let lower = toSnakeCaseLower cur in
      (if lower \<noteq> cur \<and> prev \<noteq> CHR ''_'' \<and> isSnakeCaseLower prev then ''_'' else []) @ [lower])"
| "SnakeCase_loop prev (cur # nxt # s) =
     (let lower = toSnakeCaseLower cur in
      (if lower \<noteq> cur \<and> prev \<noteq> CHR ''_'' \<and> (isSnakeCaseLower prev \<or> isSnakeCaseLower nxt) then ''_'' else []) @ [lower] @
      SnakeCase_loop cur (nxt # s))"

definition SnakeCase :: "(string \<Rightarrow> string) \<Rightarrow> string \<Rightarrow> string" where
  "SnakeCase ToLower s =
     (case s of [] \<Rightarrow> s | [_] \<Rightarrow> ToLower s | prev # cur # s' \<Rightarrow> toSnakeCaseLower prev # SnakeCase_loop prev (cur # s'))"

text \<open>
  Underscores are skipped and the next character is put in upper case; \<open>first\<close> says that one was just skipped
  or that no character has been written.
\<close>

fun CamelCase_loop :: "bool \<Rightarrow> string \<Rightarrow> string" where
  "CamelCase_loop first [] = []"
| "CamelCase_loop first (c # s) =
     (if c = CHR ''_'' then CamelCase_loop True s
      else (if first then toCamelCaseUpper c else c) # CamelCase_loop False s)"

definition CamelCase :: "(string \<Rightarrow> string) \<Rightarrow> string \<Rightarrow> string" where
  "CamelCase ToUpper s = (case s of [] \<Rightarrow> s | [_] \<Rightarrow> ToUpper s | _ \<Rightarrow> CamelCase_loop True s)"

section \<open>Indented text\<close>

definition is_blank :: "char \<Rightarrow> bool" where
  "is_blank c \<longleftrightarrow> c = TAB \<or> c = SPACE"

definition Dedent :: "string \<Rightarrow> string" where
  "Dedent s =
     (let s = dropWhile (\<lambda>c. c = LF) s;
          s = rev (dropWhile is_blank (rev s));
          indent = takeWhile is_blank s
      in if indent \<noteq> [] then strings_Replace (drop (length indent) s) ([LF] @ indent) [LF] else s)"


section \<open>Optimal alignments\<close>

text \<open>
  \<open>aligned a b n\<close>: \<open>n\<close> edits turn \<open>a\<close> into \<open>b\<close>; an edit deletes, inserts or substitutes a character or swaps two adjacent
  ones, and no part is edited twice.
\<close>

inductive aligned :: "string \<Rightarrow> string \<Rightarrow> nat \<Rightarrow> bool" where
  aligned_Nil: "aligned [] [] 0"
| aligned_delete: "aligned a b n \<Longrightarrow> aligned (a @ [x]) b (Suc n)"
| aligned_insert: "aligned a b n \<Longrightarrow> aligned a (b @ [y]) (Suc n)"
| aligned_keep: "aligned a b n \<Longrightarrow> aligned (a @ [x]) (b @ [x]) n"
| aligned_substitute: "aligned a b n \<Longrightarrow> aligned (a @ [x]) (b @ [y]) (Suc n)"
| aligned_swap: "aligned a b n \<Longrightarrow> aligned (a @ [x, y]) (b @ [y, x]) (Suc n)"

inductive_cases aligned_snocE: "aligned (a @ [x]) (b @ [y]) n"

definition optimal :: "string \<Rightarrow> string \<Rightarrow> nat \<Rightarrow> bool" where
  "optimal a b n \<longleftrightarrow> aligned a b n \<and> (\<forall>m. aligned a b m \<longrightarrow> n \<le> m)"

lemma aligned_length: "aligned a b n \<Longrightarrow> length a \<le> length b + n \<and> length b \<le> length a + n"
  by (induction rule: aligned.induct) auto

lemma optimal_Nil:
  "optimal a [] (length a)" "optimal [] b (length b)"
proof -
  have "aligned a [] (length a)" by (induction a rule: rev_induct) (auto intro: aligned.intros)
  then show "optimal a [] (length a)" by (auto simp: optimal_def dest: aligned_length)
  have "aligned [] b (length b)" by (induction b rule: rev_induct) (auto intro: aligned.intros)
  then show "optimal [] b (length b)" by (auto simp: optimal_def dest: aligned_length)
qed

lemma aligned_snoc_cases:
  assumes "aligned (a @ [x]) (b @ [y]) n"
  shows "(\<exists>m. n = Suc m \<and> aligned a (b @ [y]) m) \<or> (\<exists>m. n = Suc m \<and> aligned (a @ [x]) b m) \<or>
    (x = y \<and> aligned a b n) \<or> (\<exists>m. n = Suc m \<and> aligned a b m) \<or>
    (\<exists>a' b' m. n = Suc m \<and> a = a' @ [y] \<and> b = b' @ [x] \<and> aligned a' b' m)"
  using assms by (cases rule: aligned_snocE) (auto simp: append_eq_Cons_conv append_eq_append_conv2 Cons_eq_append_conv)

text \<open>The step of the table: an optimal alignment of longer strings from those of shorter ones.\<close>

lemma optimal_step:
  assumes x: "optimal a (b @ [d]) x" and y: "optimal (a @ [c]) b y" and z: "optimal a b z"
    and cost: "cost = (if c \<noteq> d then 1 else 0)"
    and m: "m = min x y + 1" "m' = min m (z + cost)"
    and w: "\<And>a' b'. a = a' @ [d] \<Longrightarrow> b = b' @ [c] \<Longrightarrow> optimal a' b' w"
    and r: "r = (if (\<exists>a'. a = a' @ [d]) \<and> (\<exists>b'. b = b' @ [c]) then min m' (w + cost) else m')"
  shows "optimal (a @ [c]) (b @ [d]) r"
  unfolding optimal_def
proof (intro conjI allI impI)
  have del: "aligned (a @ [c]) (b @ [d]) (Suc x)" "aligned (a @ [c]) (b @ [d]) (Suc y)"
    using x y by (auto simp: optimal_def intro: aligned_delete aligned_insert)
  have sub: "aligned (a @ [c]) (b @ [d]) (z + cost)"
    using z cost aligned_keep [of a b z c] aligned_substitute [of a b z c d] by (auto simp: optimal_def)
  have swap: "aligned (a @ [c]) (b @ [d]) (w + cost)" if "a = a' @ [d]" "b = b' @ [c]" for a' b'
    using w [OF that] that cost aligned_swap [of a' b' w d c] aligned_keep [OF aligned_keep, of a' b' w c c]
    by (auto simp: optimal_def)
  show "aligned (a @ [c]) (b @ [d]) r"
    using del sub swap m r by (auto simp: min_def split: if_splits)
next
  fix n assume "aligned (a @ [c]) (b @ [d]) n"
  then show "r \<le> n"
  proof (rule aligned_snoc_cases [THEN disjE], goal_cases)
    case 1
    then obtain k where "n = Suc k" "x \<le> k" using x by (auto simp: optimal_def)
    then show ?case using r m by auto
  next
    case 2
    have "r \<le> m'" using r by simp
    from 2 consider (y) k where "n = Suc k" "aligned (a @ [c]) b k" | (keep) "c = d" "aligned a b n"
      | (sub) k where "n = Suc k" "aligned a b k"
      | (swap) a' b' k where "n = Suc k" "a = a' @ [d]" "b = b' @ [c]" "aligned a' b' k" by blast
    then show ?case
    proof cases
      case (y k)
      then have "y \<le> k" using assms(2) by (auto simp: optimal_def)
      then show ?thesis using y(1) \<open>r \<le> m'\<close> m by linarith
    next
      case keep
      then have "z \<le> n" using z by (auto simp: optimal_def)
      then show ?thesis using keep \<open>r \<le> m'\<close> m cost by simp
    next
      case (sub k)
      then have "z \<le> k" using z by (auto simp: optimal_def)
      then show ?thesis using sub \<open>r \<le> m'\<close> m cost by (simp split: if_splits)
    next
      case (swap a' b' k)
      then have "w \<le> k" using w by (auto simp: optimal_def)
      then show ?thesis using swap r cost by (auto split: if_splits)
    qed
  qed
qed

lemma if_less_min: "(if y < x then y else x) = min x (y :: nat)"
  by simp

lemma distanceCell_eq:
  "distanceCell a b d i j =
     (let cost = (if a ! (i - 1) \<noteq> b ! (j - 1) then 1 else 0);
          m = min (min (d ! (i - 1) ! j) (d ! i ! (j - 1)) + 1) (d ! (i - 1) ! (j - 1) + cost)
      in if (1 < i \<and> a ! (i - 2) = b ! (j - 1)) \<and> 1 < j \<and> b ! (j - 2) = a ! (i - 1) then min m (d ! (i - 2) ! (j - 2) + cost) else m)"
proof -
  have "(1 < i \<and> 1 < j \<and> a ! (i - 1) = b ! (j - 2) \<and> a ! (i - 2) = b ! (j - 1)) =
      ((1 < i \<and> a ! (i - 2) = b ! (j - 1)) \<and> 1 < j \<and> b ! (j - 2) = a ! (i - 1))" by auto
  then show ?thesis unfolding distanceCell_def Let_def if_less_min by (simp only: min_add_distrib_left)
qed

lemma distanceCell_optimal:
  assumes i: "0 < i" "i \<le> length a" and j: "0 < j" "j \<le> length b"
    and d: "optimal (take (i - 1) a) (take j b) (d ! (i - 1) ! j)" "optimal (take i a) (take (j - 1) b) (d ! i ! (j - 1))"
      "optimal (take (i - 1) a) (take (j - 1) b) (d ! (i - 1) ! (j - 1))"
      "1 < i \<Longrightarrow> 1 < j \<Longrightarrow> optimal (take (i - 2) a) (take (j - 2) b) (d ! (i - 2) ! (j - 2))"
  shows "optimal (take i a) (take j b) (distanceCell a b d i j)"
proof -
  have snoc: "take n xs = take (n - 1) xs @ [xs ! (n - 1)]" if "0 < n" "n \<le> length xs" for n and xs :: string
    using that take_Suc_conv_app_nth [of "n - 1" xs] by simp
  note a = snoc [OF i] and b = snoc [OF j]
  let ?cost = "if a ! (i - 1) \<noteq> b ! (j - 1) then 1 else 0 :: nat"
  have last2: "(\<exists>p. take (n - 1) xs = p @ [c]) \<longleftrightarrow> 1 < n \<and> xs ! (n - 2) = c" if "n \<le> length xs" for n c and xs :: string
  proof (cases "1 < n")
    case True
    then show ?thesis using snoc [of "n - 1" xs] that by (auto simp: numeral_2_eq_2)
  qed (use that in auto)
  have w: "optimal a' b' (d ! (i - 2) ! (j - 2))" if "take (i - 1) a = a' @ [b ! (j - 1)]" "take (j - 1) b = b' @ [a ! (i - 1)]" for a' b'
  proof -
    have gt: "1 < i" "1 < j" using last2 [OF i(2)] last2 [OF j(2)] that by blast+
    then have "a' = take (i - 2) a" "b' = take (j - 2) b"
      using snoc [of "i - 1" a] snoc [of "j - 1" b] that i j by (auto simp: numeral_2_eq_2)
    then show ?thesis using d(4) gt by simp
  qed
  have "optimal (take (i - 1) a @ [a ! (i - 1)]) (take (j - 1) b @ [b ! (j - 1)]) (distanceCell a b d i j)"
  proof (rule optimal_step [OF _ _ d(3) refl refl refl w])
    show "optimal (take (i - 1) a) (take (j - 1) b @ [b ! (j - 1)]) (d ! (i - 1) ! j)" using d(1) b by simp
    show "optimal (take (i - 1) a @ [a ! (i - 1)]) (take (j - 1) b) (d ! i ! (j - 1))" using d(2) a by simp
  qed (simp_all only: distanceCell_eq Let_def last2 [OF i(2)] last2 [OF j(2)])
  then show ?thesis using a b by simp
qed


text \<open>The table of \<open>lexicalDistance\<close>: its shape, and optimal distances where \<open>P\<close> says so.\<close>

definition table_ok :: "string \<Rightarrow> string \<Rightarrow> (nat \<Rightarrow> nat \<Rightarrow> bool) \<Rightarrow> nat list list \<Rightarrow> bool" where
  "table_ok a b P d \<longleftrightarrow> length d = Suc (length a) \<and> (\<forall>i \<le> length a. length (d ! i) = Suc (length b)) \<and>
     (\<forall>i j. i \<le> length a \<longrightarrow> j \<le> length b \<longrightarrow> P i j \<longrightarrow> optimal (take i a) (take j b) (d ! i ! j))"

definition filled :: "nat \<Rightarrow> nat \<Rightarrow> nat \<Rightarrow> nat \<Rightarrow> bool" where
  "filled i j i' j' \<longleftrightarrow> i' < i \<or> j' = 0 \<or> (i' = i \<and> j' < j)"

lemma table_okD: "table_ok a b P d \<Longrightarrow> i \<le> length a \<Longrightarrow> j \<le> length b \<Longrightarrow> P i j \<Longrightarrow> optimal (take i a) (take j b) (d ! i ! j)"
  by (simp add: table_ok_def)

lemma table_ok_mono: "table_ok a b P d \<Longrightarrow> (\<And>i j. j \<le> length b \<Longrightarrow> Q i j \<Longrightarrow> P i j) \<Longrightarrow> table_ok a b Q d"
  by (auto simp: table_ok_def)

lemma table_init: "table_ok a b (filled 1 1) (initTable (length a) (length b))"
proof -
  let ?d = "initTable (length a) (length b)"
  have d0: "?d ! 0 = [0..<Suc (length b)]" by (simp add: initTable_def del: upt_Suc)
  have di: "?d ! i = i # replicate (length b) 0" if "0 < i" "i \<le> length a" for i
    using that by (simp add: initTable_def nth_append del: upt_Suc)
  have "optimal (take i a) (take j b) (?d ! i ! j)" if "i \<le> length a" "j \<le> length b" "filled 1 1 i j" for i j
  proof (cases "i = 0")
    case True
    then show ?thesis using that d0 optimal_Nil(2) [of "take j b"] by (simp add: min_absorb2 del: upt_Suc)
  next
    case False
    then have "j = 0" using that by (auto simp: filled_def)
    then show ?thesis using that di [of i] False optimal_Nil(1) [of "take i a"] by (simp add: min_absorb2)
  qed
  moreover have "length (?d ! i) = Suc (length b)" if "i \<le> length a" for i
    using d0 di [of i] that by (cases "i = 0") auto
  ultimately show ?thesis by (simp add: table_ok_def initTable_def del: upt_Suc)
qed

lemma table_cell:
  assumes "table_ok a b (filled i j) d" "0 < i" "i \<le> length a" "0 < j" "j \<le> length b"
  shows "table_ok a b (filled i (Suc j)) (d[i := (d ! i)[j := distanceCell a b d i j]])"
proof -
  have shape: "length d = Suc (length a)" "\<And>i. i \<le> length a \<Longrightarrow> length (d ! i) = Suc (length b)"
    using assms(1) by (auto simp: table_ok_def)
  have opt: "optimal (take i' a) (take j' b) (d ! i' ! j')" if "i' \<le> length a" "j' \<le> length b" "filled i j i' j'" for i' j'
    using assms(1) that by (auto simp: table_ok_def)
  have cell: "optimal (take i a) (take j b) (distanceCell a b d i j)"
    by (rule distanceCell_optimal) (use assms(2-5) in \<open>auto intro!: opt simp: filled_def\<close>)
  let ?d = "d[i := (d ! i)[j := distanceCell a b d i j]]"
  have "optimal (take i' a) (take j' b) (?d ! i' ! j')" if h: "i' \<le> length a" "j' \<le> length b" "filled i (Suc j) i' j'" for i' j'
  proof (cases "i' = i \<and> j' = j")
    case True
    then show ?thesis using cell shape assms by simp
  next
    case False
    then have "?d ! i' ! j' = d ! i' ! j'" using shape h assms(3) by (cases "i' = i") auto
    moreover have "filled i j i' j'" using h(3) False by (auto simp: filled_def)
    ultimately show ?thesis using opt h by simp
  qed
  moreover have "length (?d ! i') = Suc (length b)" if "i' \<le> length a" for i'
    using shape that by (cases "i' = i") auto
  ultimately show ?thesis using shape by (simp add: table_ok_def)
qed

lemma table_row:
  assumes "table_ok a b (filled i 1) d" "0 < i" "i \<le> length a"
  shows "table_ok a b (filled (Suc i) 1) (distanceRow a b i d)"
proof -
  have "j \<le> length b \<Longrightarrow> table_ok a b (filled i (Suc j)) (fold (\<lambda>j d. d[i := (d ! i)[j := distanceCell a b d i j]]) [1..<Suc j] d)" for j
  proof (induction j)
    case (Suc j)
    then show ?case using table_cell [of a b i "Suc j" _] assms by simp
  qed (use assms(1) in simp)
  then have "table_ok a b (filled i (Suc (length b))) (distanceRow a b i d)" by (simp add: distanceRow_def)
  then show ?thesis by (rule table_ok_mono) (auto simp: filled_def)
qed

lemma table_rows: "n \<le> length a \<Longrightarrow> table_ok a b (filled (Suc n) 1) (fold (distanceRow a b) [1..<Suc n] (initTable (length a) (length b)))"
proof (induction n)
  case (Suc n)
  then show ?case using table_row [of a b "Suc n"] by simp
qed (simp add: table_init [simplified])

lemma table_distance:
  "optimal a b (fold (distanceRow a b) [1..<Suc (length a)] (initTable (length a) (length b)) ! length a ! length b)"
proof -
  have "optimal (take (length a) a) (take (length b) b)
      (fold (distanceRow a b) [1..<Suc (length a)] (initTable (length a) (length b)) ! length a ! length b)"
    by (rule table_okD [OF table_rows [OF order_refl]]) (simp_all add: filled_def)
  then show ?thesis by (simp del: upt_Suc)
qed






section \<open>Sentences and names\<close>

text \<open>The alternatives of a sentence.\<close>

definition alternatives :: "string list \<Rightarrow> string" where
  "alternatives xs =
     (if length xs \<le> 1 then concat xs
      else if length xs = 2 then hd xs @ '' or '' @ last xs
      else strings_Join (butlast xs) '', '' @ '', or '' @ last xs)"

lemma OrList_loop_many:
  "2 < n \<Longrightarrow> xs \<noteq> [] \<Longrightarrow> i + length xs = n \<Longrightarrow>
   OrList_loop n quoted i xs out =
     out @ concat (map (\<lambda>x. '', '' @ quote_item quoted x) (butlast xs)) @ '', or '' @ quote_item quoted (last xs)"
proof (induction n quoted i xs out rule: OrList_loop.induct)
  case (2 n quoted i x xs out)
  then show ?case by (cases xs) auto
qed simp

lemma strings_Join_Cons: "strings_Join (x # xs) sep = x @ concat (map (\<lambda>x. sep @ x) xs)"
  by (induction xs arbitrary: x) auto

text \<open>
  \<open>OrList\<close> appends the first \<open>limit\<close> items (all of them when the limit is not positive), quoted when asked, as \<open>A\<close>, \<open>A or B\<close>
  or \<open>A, B, or C\<close>.
\<close>

theorem OrList_alternatives:
  "OrList out items limit quoted =
     out @ alternatives (map (quote_item quoted) (if limit > 0 then take (nat limit) items else items))"
proof -
  let ?items = "if limit > 0 then take (nat limit) items else items"
  have lim: "(if limit > 0 \<and> int (length items) > limit then take (nat limit) items else items) = ?items" by auto
  show ?thesis
  proof (cases "items = []")
    case False
    then obtain x xs where xs: "?items = x # xs" by (cases ?items) (auto split: if_splits)
    have eq: "OrList out items limit quoted = OrList_loop (Suc (length xs)) quoted 1 xs (out @ quote_item quoted x)"
      using False by (simp only: OrList_def lim Let_def if_False xs) simp
    consider "xs = []" | y where "xs = [y]" | "2 < Suc (length xs)" "xs \<noteq> []" by (cases xs; cases "tl xs") auto
    then show ?thesis
    proof cases
      case 3
      then show ?thesis unfolding eq xs
        by (simp add: OrList_loop_many alternatives_def strings_Join_Cons last_map map_butlast [symmetric] comp_def)
    qed (simp_all add: eq xs alternatives_def)
  qed (simp add: OrList_def alternatives_def)
qed


lemma toSnakeCaseLower_byte: "byte_of (toSnakeCaseLower c) = (if ascii_upper c then byte_of c + 32 else byte_of c)"
proof (cases "ascii_upper c")
  case True
  then have "65 \<le> byte_of c" "byte_of c \<le> 90" by (auto simp: ascii_upper_def less_eq_char_byte_of byte_of_def)
  then show ?thesis using True by (simp add: toSnakeCaseLower_def byte_of_def [of "CHR ''A''"] byte_of_def [of "CHR ''a''"])
qed (simp add: toSnakeCaseLower_def)

lemma toCamelCaseUpper_byte: "byte_of (toCamelCaseUpper c) = (if isSnakeCaseLower c then byte_of c - 32 else byte_of c)"
proof (cases "isSnakeCaseLower c")
  case True
  then have "97 \<le> byte_of c" "byte_of c \<le> 122" by (auto simp: isSnakeCaseLower_def less_eq_char_byte_of byte_of_def)
  then show ?thesis using True by (simp add: toCamelCaseUpper_def byte_of_def [of "CHR ''A''"] byte_of_def [of "CHR ''a''"])
qed (simp add: toCamelCaseUpper_def)

lemma letter_bytes:
  "ascii_upper c \<longleftrightarrow> 65 \<le> byte_of c \<and> byte_of c \<le> 90" "isSnakeCaseLower c \<longleftrightarrow> 97 \<le> byte_of c \<and> byte_of c \<le> 122"
  "c = CHR ''_'' \<longleftrightarrow> byte_of c = 95"
  by (simp_all add: ascii_upper_def isSnakeCaseLower_def less_eq_char_byte_of byte_of_def of_char_eq_iff [symmetric, where ?'a = nat] del: of_char_eq_iff)

lemma byte_of_underscore: "byte_of (CHR ''_'') = 95" "\<not> ascii_upper (CHR ''_'')"
  by (simp_all add: ascii_upper_def less_eq_char_byte_of byte_of_def)

lemma lower_letters:
  "\<not> ascii_upper (toSnakeCaseLower c)" "toSnakeCaseLower c = CHR ''_'' \<longleftrightarrow> c = CHR ''_''"
  "toSnakeCaseLower (toCamelCaseUpper c) = toSnakeCaseLower c" "toCamelCaseUpper c = CHR ''_'' \<longleftrightarrow> c = CHR ''_''"
  by (auto simp: letter_bytes toSnakeCaseLower_byte toCamelCaseUpper_byte byte_of_underscore byte_of_inject [symmetric] simp del: byte_of_inject)

lemma SnakeCase_loop_letters:
  "filter (\<lambda>c. c \<noteq> CHR ''_'') (SnakeCase_loop prev s) = map toSnakeCaseLower (filter (\<lambda>c. c \<noteq> CHR ''_'') s) \<and>
   (\<forall>c \<in> set (SnakeCase_loop prev s). \<not> ascii_upper c)"
  by (induction prev s rule: SnakeCase_loop.induct) (auto simp: Let_def lower_letters byte_of_underscore)

lemma CamelCase_loop_letters:
  "map toSnakeCaseLower (CamelCase_loop first s) = map toSnakeCaseLower (filter (\<lambda>c. c \<noteq> CHR ''_'') s) \<and>
   CHR ''_'' \<notin> set (CamelCase_loop first s)"
  by (induction first s rule: CamelCase_loop.induct) (auto simp: lower_letters dest: sym)

text \<open>
  \<open>SnakeCase\<close> and \<open>CamelCase\<close> change only case and underscores. On a name of two characters or more, \<open>SnakeCase\<close>
  gives a string without upper-case letters that has, apart from underscores, the same letters; \<open>CamelCase\<close> gives a string
  without underscores that has the same letters up to case.
\<close>

theorem name_conversions:
  assumes "2 \<le> length s"
  shows "filter (\<lambda>c. c \<noteq> CHR ''_'') (SnakeCase ToLower s) = map toSnakeCaseLower (filter (\<lambda>c. c \<noteq> CHR ''_'') s) \<and>
    (\<forall>c \<in> set (SnakeCase ToLower s). \<not> ascii_upper c) \<and>
    map toSnakeCaseLower (CamelCase ToUpper s) = map toSnakeCaseLower (filter (\<lambda>c. c \<noteq> CHR ''_'') s) \<and>
    CHR ''_'' \<notin> set (CamelCase ToUpper s)"
proof -
  obtain a b r where s: "s = a # b # r" using assms by (cases s; cases "tl s") auto
  show ?thesis
    using SnakeCase_loop_letters [of a "b # r"] CamelCase_loop_letters [of True s]
    by (auto simp: s SnakeCase_def CamelCase_def lower_letters simp del: CamelCase_loop.simps SnakeCase_loop.simps)
qed

theorem name_conversions_witness:
  "filter (\<lambda>c. c \<noteq> CHR ''_'') (SnakeCase (\<lambda>s. s) ''aBc'') = ''abc'' \<and> CHR ''_'' \<notin> set (CamelCase (\<lambda>s. s) ''a_b'')"
proof -
  have "map toSnakeCaseLower (filter (\<lambda>c. c \<noteq> CHR ''_'') ''aBc'') = ''abc''" by code_simp
  then show ?thesis using name_conversions [of "''aBc''" "\<lambda>s. s"] name_conversions [of "''a_b''" _ "\<lambda>s. s"] by simp
qed

end
