(* ===== verification/Values.thy ===== *)
theory Values
  imports TypesSpec Errors Util
begin

text \<open>
  \<open>graphql/internal/value\<close>: coercion of literals, of the values of variables and of arguments.

  A Go \<open>interface{}\<close> is a \<open>goval\<close>: nil, a \<open>[]interface{}\<close> (or another slice or array), a \<open>map[string]interface{}\<close>, or any other
  value, of which nothing is known (\<open>GoLeaf\<close>). The methods of scalars, which applications supply, and the texts that
  \<open>fmt\<close> and \<open>Inspect\<close> print are parameters in the record \<open>value_ops\<close>; the locations of nodes are arguments.
\<close>

section \<open>Values\<close>

datatype 'v goval =
    GoNil
  | GoLeaf 'v
  | GoSlice "'v goval list"
  | GoMap "(string \<times> 'v goval) list"

text \<open>What reflection tells of a value where a string is expected.\<close>

datatype string_view = IsString string | IsNilPointer | NotString

record ('v, 'x) value_ops =
  op_CoerceLiteralValue :: "type_ref \<Rightarrow> token_ref ast_value \<Rightarrow> 'x go_error + 'v goval"
  op_CoerceVariableValue :: "type_ref \<Rightarrow> 'v goval \<Rightarrow> 'x go_error + 'v goval"
  op_string_view :: "'v \<Rightarrow> string_view"
  op_InspectValue :: "'v goval \<Rightarrow> string"
  op_InspectLiteral :: "token_ref ast_value \<Rightarrow> string"
  op_fmt_literal_type :: "token_ref ast_value \<Rightarrow> string"
  op_fmt_value :: "'v goval \<Rightarrow> string"
  op_fmt_type :: "'v goval \<Rightarrow> string"
  op_ToLower :: "string \<Rightarrow> string"
  op_Sort :: "(string \<times> nat) list \<Rightarrow> (string \<times> nat) list"

type_synonym 'v env = "'v goval type_env"
type_synonym 'v vars = "string \<rightharpoonup> 'v goval"
type_synonym ('v, 'x) coerced = "('x go_error, 'v goval) outcome"

definition plain_error :: "string \<Rightarrow> 'x go_error" where
  "plain_error message = ForeignError message None None None"

definition quoted :: "string \<Rightarrow> string" where
  "quoted s = [QUOTE] @ s @ [QUOTE]"

fun sum_outcome :: "'e + 'a \<Rightarrow> ('e, 'a) outcome" where
  "sum_outcome (Inl e) = Error e"
| "sum_outcome (Inr a) = Ok a"

section \<open>Enums\<close>

definition enum_Lookup :: "(string \<times> 'v goval) list \<Rightarrow> string \<Rightarrow> 'x go_error + 'v goval" where
  "enum_Lookup enumValues name =
     (case map_of enumValues name of Some v \<Rightarrow> Inr v | None \<Rightarrow> Inl (plain_error ''not a value for the type''))"

definition coerceEnumVariableValue :: "('v, 'x) value_ops \<Rightarrow> (string \<times> 'v goval) list \<Rightarrow> 'v goval \<Rightarrow> 'x go_error + 'v goval" where
  "coerceEnumVariableValue ops enumValues v =
     (case v of
        GoLeaf x \<Rightarrow>
          (case op_string_view ops x of
             IsString name \<Rightarrow> enum_Lookup enumValues name
           | IsNilPointer \<Rightarrow> Inl (plain_error ''enum value is not provided'')
           | NotString \<Rightarrow> Inl (plain_error ''invalid enum value''))
      | _ \<Rightarrow> Inl (plain_error ''invalid enum value''))"

definition coreceEnumLiteralValue :: "token list \<Rightarrow> (string \<times> 'v goval) list \<Rightarrow> token_ref ast_value \<Rightarrow> 'x go_error + 'v goval" where
  "coreceEnumLiteralValue toks enumValues v =
     (case v of
        EnumValue t \<Rightarrow> enum_Lookup enumValues (token_Value (toks ! t))
      | _ \<Rightarrow> Inl (plain_error ''invalid enum value''))"

section \<open>Literals\<close>

fun is_null_literal :: "'t ast_value \<Rightarrow> bool" where
  "is_null_literal (NullValue _) \<longleftrightarrow> True"
| "is_null_literal _ \<longleftrightarrow> False"

fun variable_name :: "token list \<Rightarrow> token_ref ast_value \<Rightarrow> string option" where
  "variable_name toks (Variable name) = Some (name_Value toks name)"
| "variable_name toks _ = None"

definition isMissingVariable :: "token list \<Rightarrow> token_ref ast_value \<Rightarrow> 'v vars \<Rightarrow> bool" where
  "isMissingVariable toks v variables \<longleftrightarrow> (case variable_name toks v of None \<Rightarrow> False | Some name \<Rightarrow> variables name = None)"

fun list_literal :: "'t ast_value \<Rightarrow> 't ast_value list option" where
  "list_literal (ListValue vs) = Some vs"
| "list_literal (EmptyListValue _) = Some []"
| "list_literal _ = None"

fun object_literal :: "'t ast_value \<Rightarrow> 't object_field list option" where
  "object_literal (ObjectValue fs) = Some fs"
| "object_literal (EmptyObjectValue _) = Some []"
| "object_literal _ = None"

text \<open>\<open>astFieldMap\<close>: the last field of a name wins.\<close>

definition find_field :: "token list \<Rightarrow> token_ref object_field list \<Rightarrow> string \<Rightarrow> token_ref object_field option" where
  "find_field toks fs name = find (\<lambda>f. name_Value toks (objectField_Name f) = name) (rev fs)"

lemma find_field_size: "find_field toks fs name = Some f \<Longrightarrow> size (objectField_Value f) < size_list size fs"
proof -
  assume "find_field toks fs name = Some f"
  then have f: "f \<in> set fs" by (auto simp: find_field_def find_Some_iff) (metis nth_mem length_rev set_rev)
  have "size (objectField_Value f) < size f" by (cases f) simp
  also have "size f \<le> size_list size fs" using f by (simp add: size_list_estimation')
  finally show ?thesis .
qed

lemma literal_size:
  "list_literal v = Some vs \<Longrightarrow> size_list size vs < size v" "object_literal v = Some fs \<Longrightarrow> size_list size fs < size v"
  by (cases v; auto)+

text \<open>The value of a variable, when the literal is one.\<close>

definition applyVariable :: "token list \<Rightarrow> 'v vars \<Rightarrow> token_ref ast_value \<Rightarrow> gtype \<Rightarrow> ('v, 'x) coerced option" where
  "applyVariable toks variables v t =
     (case variable_name toks v of
        None \<Rightarrow> None
      | Some varName \<Rightarrow> Some (case variables varName of
            None \<Rightarrow> Error (plain_error (''value of variable '' @ quoted (''$'' @ varName) @ '' is undefined''))
          | Some varValue \<Rightarrow>
              if varValue = GoNil \<and> IsNonNullType t
              then Error (plain_error (''variable '' @ quoted (''$'' @ varName) @ '' does not accept null value''))
              else Ok varValue))"

function coerceFromAST :: "('v, 'x) value_ops \<Rightarrow> 'v env \<Rightarrow> token list \<Rightarrow> 'v vars \<Rightarrow> token_ref ast_value \<Rightarrow> gtype \<Rightarrow> ('v, 'x) coerced"
  and coerceElements :: "('v, 'x) value_ops \<Rightarrow> 'v env \<Rightarrow> token list \<Rightarrow> 'v vars \<Rightarrow> token_ref ast_value list \<Rightarrow> gtype \<Rightarrow>
    ('x go_error, 'v goval list) outcome"
  and coerceFields :: "('v, 'x) value_ops \<Rightarrow> 'v env \<Rightarrow> token list \<Rightarrow> 'v vars \<Rightarrow> token_ref object_field list \<Rightarrow> 'v goval input_def list \<Rightarrow>
    ('x go_error, (string \<times> 'v goval) list) outcome"
where
  "coerceFromAST ops env toks variables v t =
     (case t of
        NonNullOf inner \<Rightarrow>
          if is_null_literal v then Error (plain_error ''null cannot be assigned to non-null type'')
          else coerceFromAST ops env toks variables v inner
      | ListOf elementType \<Rightarrow>
          if is_null_literal v then Ok GoNil
          else (case applyVariable toks variables v t of
             Some r \<Rightarrow> r
           | None \<Rightarrow>
               (case list_literal v of
                  Some vs \<Rightarrow> bind_outcome (coerceElements ops env toks variables vs elementType) (\<lambda>xs. Ok (GoSlice xs))
                | None \<Rightarrow> bind_outcome (coerceFromAST ops env toks variables v elementType) (\<lambda>x. Ok (GoSlice [x]))))
      | Named n \<Rightarrow>
          if is_null_literal v then Ok GoNil
          else (case applyVariable toks variables v t of
             Some r \<Rightarrow> r
           | None \<Rightarrow>
               (case env ! n of
                  InputObjectDef _ flds \<Rightarrow>
                    (case object_literal v of
                       None \<Rightarrow> Error (plain_error (''expected an object value, but got: '' @ op_fmt_literal_type ops v))
                     | Some fs \<Rightarrow> bind_outcome (coerceFields ops env toks variables fs flds) (\<lambda>m. Ok (GoMap m)))
                | ScalarDef _ \<Rightarrow> sum_outcome (op_CoerceLiteralValue ops n v)
                | ScalarAliasDef _ _ \<Rightarrow> sum_outcome (op_CoerceLiteralValue ops n v)
                | EnumDef _ enumValues \<Rightarrow> sum_outcome (coreceEnumLiteralValue toks enumValues v)
                | _ \<Rightarrow> Error (plain_error (quoted (InspectType env t) @ '' is not a valid input type'')))))"
| "coerceElements ops env toks variables [] elementType = Ok []"
| "coerceElements ops env toks variables (v # vs) elementType =
     (if isMissingVariable toks v variables then
        (if IsNonNullType elementType then Error (plain_error ''list does not accept null element value'')
         else bind_outcome (coerceElements ops env toks variables vs elementType) (\<lambda>xs. Ok (GoNil # xs)))
      else bind_outcome (coerceFromAST ops env toks variables v elementType) (\<lambda>x.
        bind_outcome (coerceElements ops env toks variables vs elementType) (\<lambda>xs. Ok (x # xs))))"
| "coerceFields ops env toks variables fs [] = Ok []"
| "coerceFields ops env toks variables fs (field # flds) =
     (case find_field toks fs (input_Name field) of
        None \<Rightarrow>
          (case input_Default field of
             Some d \<Rightarrow> bind_outcome (coerceFields ops env toks variables fs flds) (\<lambda>m. Ok ((input_Name field, d) # m))
           | None \<Rightarrow>
               if IsNonNullType (input_Type field)
               then Error (plain_error (''field '' @ quoted (input_Name field) @ '' must be assigned with a non-null value''))
               else coerceFields ops env toks variables fs flds)
      | Some f \<Rightarrow>
          if isMissingVariable toks (objectField_Value f) variables then
            (case input_Default field of
               Some d \<Rightarrow> bind_outcome (coerceFields ops env toks variables fs flds) (\<lambda>m. Ok ((input_Name field, d) # m))
             | None \<Rightarrow>
                 if IsNonNullType (input_Type field)
                 then Error (plain_error (''field '' @ quoted (input_Name field) @ '' must be assigned with a non-null value''))
                 else coerceFields ops env toks variables fs flds)
          else bind_outcome (coerceFromAST ops env toks variables (objectField_Value f) (input_Type field)) (\<lambda>x.
            bind_outcome (coerceFields ops env toks variables fs flds) (\<lambda>m. Ok ((input_Name field, x) # m))))"
  by pat_completeness auto

termination
proof (relation "measures [\<lambda>x. case x of Inl (ops, env, toks, variables, v, t) \<Rightarrow> 2 * size v + 1
      | Inr (Inl (ops, env, toks, variables, vs, t)) \<Rightarrow> 2 * size_list size vs
      | Inr (Inr (ops, env, toks, variables, fs, flds)) \<Rightarrow> 2 * size_list size fs,
    \<lambda>x. case x of Inl (ops, env, toks, variables, v, t) \<Rightarrow> size t
      | Inr (Inl (ops, env, toks, variables, vs, t)) \<Rightarrow> 0
      | Inr (Inr (ops, env, toks, variables, fs, flds)) \<Rightarrow> length flds]", goal_cases)
qed (auto dest: literal_size find_field_size)

declare coerceFromAST.simps [simp del]

text \<open>A nil node has no value.\<close>

definition CoerceFromAST :: "('v, 'x) value_ops \<Rightarrow> 'v env \<Rightarrow> token list \<Rightarrow> 'v vars \<Rightarrow> token_ref ast_value option \<Rightarrow> gtype \<Rightarrow> ('v, 'x) coerced" where
  "CoerceFromAST ops env toks variables v t =
     (case v of None \<Rightarrow> Error (plain_error ''undefined value'') | Some v \<Rightarrow> coerceFromAST ops env toks variables v t)"


section \<open>Values of variables\<close>

text \<open>A \<open>valuePath\<close> as the list of its keys, the innermost first.\<close>

type_synonym value_path = "path_key list"

fun valuePath_loop :: "value_path \<Rightarrow> string \<Rightarrow> string" where
  "valuePath_loop [] s = s"
| "valuePath_loop (FieldName key # path) s = valuePath_loop path (''.'' @ key @ s)"
| "valuePath_loop (Index key # path) s = valuePath_loop path (''['' @ FormatInt key @ '']'' @ s)"

definition valuePath_String :: "value_path \<Rightarrow> string" where
  "valuePath_String path = (let s = valuePath_loop path [] in if length s > 0 then ''value'' @ s else s)"

definition newCoercionError :: "string \<Rightarrow> locations \<Rightarrow> value_path \<Rightarrow> string \<Rightarrow> 'x go_error option \<Rightarrow> 'x go_error" where
  "newCoercionError message blame path subMessage originalError =
     NewError
       (message @ (if path \<noteq> [] then '' at '' @ valuePath_String path else []) @
        (if length subMessage > 0 then ''; '' @ subMessage else ''.''))
       (ArgLocations blame # (case originalError of None \<Rightarrow> [] | Some e \<Rightarrow> [ArgError e]))"

definition didYouMean :: "('v, 'x) value_ops \<Rightarrow> string \<Rightarrow> string list \<Rightarrow> string" where
  "didYouMean ops input names =
     (let suggestions = SuggestionList (op_ToLower ops) (op_Sort ops) input names in
      if suggestions \<noteq> [] then OrList ''did you mean '' suggestions 5 False @ ''?'' else [])"

definition coercion_subMessage :: "'x go_error \<Rightarrow> string" where
  "coercion_subMessage e =
     (case e of GraphQLError m _ _ _ _ _ kind \<Rightarrow> (if kind = ErrKindCoercion then m else []) | ForeignError _ _ _ _ \<Rightarrow> [])"

definition coerceScalar :: "('v, 'x) value_ops \<Rightarrow> 'v env \<Rightarrow> locations \<Rightarrow> 'v goval \<Rightarrow> type_ref \<Rightarrow> value_path \<Rightarrow> 'v goval \<times> 'x go_error list" where
  "coerceScalar ops env blame v n path =
     (case op_CoerceVariableValue ops n v of
        Inr coerced \<Rightarrow> (coerced, [])
      | Inl err \<Rightarrow>
          (GoNil, [newCoercionError (''Expected type '' @ InspectType env (Named n)) blame path (coercion_subMessage err) (Some err)]))"

text \<open>Fields of the object value that the type does not define.\<close>

definition undefinedFields ::
  "('v, 'x) value_ops \<Rightarrow> 'v env \<Rightarrow> locations \<Rightarrow> value_path \<Rightarrow> gtype \<Rightarrow> 'v goval input_def list \<Rightarrow> (string \<times> 'v goval) list \<Rightarrow> 'x go_error list" where
  "undefinedFields ops env blame path t flds objectValue =
     concat (map (\<lambda>(name, _).
       if name \<in> input_Name ` set flds then []
       else [newCoercionError (''Field '' @ quoted name @ '' is not defined by type '' @ InspectType env t) blame path
               (didYouMean ops name (map input_Name flds)) None]) objectValue)"

lemma map_of_size: "map_of kvs name = Some x \<Longrightarrow> size x < size_list (size_prod (\<lambda>_. 0) size) kvs"
proof -
  assume "map_of kvs name = Some x"
  then have "(name, x) \<in> set kvs" by (rule map_of_SomeD)
  then have "size_prod (\<lambda>_. 0) size (name, x) \<le> size_list (size_prod (\<lambda>_. 0) size) kvs" by (rule size_list_estimation') simp
  then show ?thesis by simp
qed

function coerceValueImpl ::
    "('v, 'x) value_ops \<Rightarrow> 'v env \<Rightarrow> locations \<Rightarrow> 'v goval \<Rightarrow> gtype \<Rightarrow> value_path \<Rightarrow> 'v goval \<times> 'x go_error list"
  and coerceSlice ::
    "('v, 'x) value_ops \<Rightarrow> 'v env \<Rightarrow> locations \<Rightarrow> 'v goval list \<Rightarrow> gtype \<Rightarrow> value_path \<Rightarrow> int \<Rightarrow> 'x go_error list \<Rightarrow> 'v goval list \<Rightarrow>
      'v goval list \<times> 'x go_error list"
  and coerceInputFields ::
    "('v, 'x) value_ops \<Rightarrow> 'v env \<Rightarrow> locations \<Rightarrow> (string \<times> 'v goval) list \<Rightarrow> 'v goval input_def list \<Rightarrow> value_path \<Rightarrow> 'x go_error list \<Rightarrow>
      (string \<times> 'v goval) list \<Rightarrow> (string \<times> 'v goval) list \<times> 'x go_error list"
where
  "coerceValueImpl ops env blame v t path =
     (case t of
        NonNullOf inner \<Rightarrow>
          if v = GoNil then
            (GoNil, [newCoercionError (''Expected non-nullable type '' @ InspectType env t @ '' not to be null'') blame path [] None])
          else coerceValueImpl ops env blame v inner path
      | ListOf elementType \<Rightarrow>
          if v = GoNil then (GoNil, [])
          else (case v of
             GoSlice xs \<Rightarrow>
               (case coerceSlice ops env blame xs elementType path 0 [] [] of (coercedValues, errs) \<Rightarrow>
                  if HaveOccurred errs then (GoNil, errs) else (GoSlice coercedValues, []))
           | _ \<Rightarrow>
               (case coerceValueImpl ops env blame v elementType path of (coercedValue, errs) \<Rightarrow>
                  if HaveOccurred errs then (GoNil, errs) else (GoSlice [coercedValue], [])))
      | Named n \<Rightarrow>
          if v = GoNil then (GoNil, [])
          else (case env ! n of
             InputObjectDef _ flds \<Rightarrow>
               (case v of
                  GoMap objectValue \<Rightarrow>
                    (case coerceInputFields ops env blame objectValue flds path [] [] of (coercedValue, errs) \<Rightarrow>
                       let errs = errs @ undefinedFields ops env blame path t flds objectValue in
                       if HaveOccurred errs then (GoNil, errs) else (GoMap coercedValue, []))
                | _ \<Rightarrow>
                    (GoNil, [newCoercionError (''Expected type '' @ InspectType env t @ '' to be an object'') blame path []
                       (Some (NewError (''value for InputObject should be given in a map[string]interface{}, but got: '' @ op_fmt_type ops v) []))]))
           | EnumDef _ enumValues \<Rightarrow>
               (case coerceEnumVariableValue ops enumValues v of
                  Inr coerced \<Rightarrow> (coerced, [])
                | Inl err \<Rightarrow>
                    (GoNil, [newCoercionError (''Expected type '' @ InspectType env t) blame path
                       (didYouMean ops (op_fmt_value ops v) (map fst enumValues)) (Some err)]))
           | ScalarDef _ \<Rightarrow> coerceScalar ops env blame v n path
           | ScalarAliasDef _ _ \<Rightarrow> coerceScalar ops env blame v n path
           | _ \<Rightarrow> (GoNil, [newCoercionError (InspectType env t @ '' is not a valid input type'') blame path [] None])))"
| "coerceSlice ops env blame [] elementType path i errs acc = (acc, errs)"
| "coerceSlice ops env blame (x # xs) elementType path i errs acc =
     (case coerceValueImpl ops env blame x elementType (Index i # path) of (coercedValue, elementErrs) \<Rightarrow>
        if HaveOccurred elementErrs then coerceSlice ops env blame xs elementType path (i + 1) (errs @ elementErrs) acc
        else coerceSlice ops env blame xs elementType path (i + 1) errs (if HaveOccurred errs then acc else acc @ [coercedValue]))"
| "coerceInputFields ops env blame objectValue [] path errs acc = (acc, errs)"
| "coerceInputFields ops env blame objectValue (field # flds) path errs acc =
     (let name = input_Name field in
      case map_of objectValue name of
        None \<Rightarrow>
          (case input_Default field of
             Some d \<Rightarrow> coerceInputFields ops env blame objectValue flds path errs (acc @ [(name, d)])
           | None \<Rightarrow>
               if IsNonNullType (input_Type field) then
                 coerceInputFields ops env blame objectValue flds path
                   (errs @ [newCoercionError (''Field '' @ valuePath_String (FieldName name # path) @ '' of required type '' @
                      InspectType env (input_Type field) @ '' was not provided'') blame [] [] None]) acc
               else coerceInputFields ops env blame objectValue flds path errs acc)
      | Some fieldValue \<Rightarrow>
          (case coerceValueImpl ops env blame fieldValue (input_Type field) (FieldName name # path) of (coercedField, fieldErrs) \<Rightarrow>
             if HaveOccurred fieldErrs then coerceInputFields ops env blame objectValue flds path (errs @ fieldErrs) acc
             else coerceInputFields ops env blame objectValue flds path errs (if HaveOccurred errs then acc else acc @ [(name, coercedField)])))"
  by pat_completeness auto
termination
proof (relation "measures [\<lambda>x. case x of Inl (ops, env, blame, v, t, path) \<Rightarrow> 2 * size v + 1
      | Inr (Inl (ops, env, blame, xs, t, path, i, errs, acc)) \<Rightarrow> 2 * size_list size xs
      | Inr (Inr (ops, env, blame, kvs, flds, path, errs, acc)) \<Rightarrow> 2 * size_list (size_prod (\<lambda>_. 0) size) kvs,
    \<lambda>x. case x of Inl (ops, env, blame, v, t, path) \<Rightarrow> size t
      | Inr (Inl (ops, env, blame, xs, t, path, i, errs, acc)) \<Rightarrow> 0
      | Inr (Inr (ops, env, blame, kvs, flds, path, errs, acc)) \<Rightarrow> length flds]", goal_cases)
qed (auto dest: map_of_size)

declare coerceValueImpl.simps [simp del]

definition CoerceValue :: "('v, 'x) value_ops \<Rightarrow> 'v env \<Rightarrow> locations \<Rightarrow> 'v goval \<Rightarrow> gtype \<Rightarrow> 'v goval \<times> 'x go_error list" where
  "CoerceValue ops env blame v t = coerceValueImpl ops env blame v t []"


text \<open>
  \<open>locate\<close> is \<open>ErrorLocationOfASTNode\<close>. The loop adds an entry for a variable or reports errors.
\<close>

definition coerceVariable ::
  "('v, 'x) value_ops \<Rightarrow> 'v env \<Rightarrow> token list \<Rightarrow> (token_ref variable_definition \<Rightarrow> error_location) \<Rightarrow> 'v vars \<Rightarrow>
   token_ref variable_definition \<Rightarrow> gtype option \<Rightarrow> 'v goval option \<times> 'x go_error list" where
  "coerceVariable ops env toks locate inputValues varDefNode varType =
     (let varName = name_Value toks (variableDefinition_Variable varDefNode);
          hasValue = (inputValues varName \<noteq> None);
          v = (case inputValues varName of None \<Rightarrow> GoNil | Some v \<Rightarrow> v) in
      case (if IsInputType env varType then varType else None) of
        None \<Rightarrow>
          (None, [NewError (''Variable '' @ quoted (''$'' @ varName) @ '' expected value of type '' @
             quoted (case varType of None \<Rightarrow> ''null'' | Some t \<Rightarrow> InspectType env t) @ '' which cannot be used as an input type.'')
             [ArgLocation (locate varDefNode)]])
      | Some t \<Rightarrow>
          if \<not> hasValue \<and> variableDefinition_DefaultValue varDefNode \<noteq> None then
            (case CoerceFromAST ops env toks Map.empty (variableDefinition_DefaultValue varDefNode) t of
               Ok coerced \<Rightarrow> (Some coerced, []) | _ \<Rightarrow> (None, []))
          else if (\<not> hasValue \<or> v = GoNil) \<and> IsNonNullType t then
            (None, [NewError
               (if hasValue then ''Variable '' @ quoted (''$'' @ varName) @ '' of non-null type '' @ quoted (InspectType env t) @ '' must not be null.''
                else ''Variable '' @ quoted (''$'' @ varName) @ '' of required type '' @ quoted (InspectType env t) @ '' was not provided.'')
               [ArgLocation (locate varDefNode)]])
          else if v = GoNil then (Some GoNil, [])
          else
            (case CoerceValue ops env (Some [locate varDefNode]) v t of (coerced, coercionErrs) \<Rightarrow>
               if \<not> HaveOccurred coercionErrs then (Some coerced, [])
               else (None, map (\<lambda>err. NewError
                 (''Variable '' @ quoted (''$'' @ varName) @ '' got invalid value '' @ op_InspectValue ops v @
                    (if err_Kind err = ErrKindCoercion then ''; '' @ err_Message err else ''.''))
                 [ArgError err]) coercionErrs)))"

fun coerceVariables_loop ::
  "('v, 'x) value_ops \<Rightarrow> 'v env \<Rightarrow> 'v goval schema \<Rightarrow> token list \<Rightarrow> (token_ref variable_definition \<Rightarrow> error_location) \<Rightarrow> 'v vars \<Rightarrow>
   token_ref variable_definition list \<Rightarrow> 'v vars \<Rightarrow> 'x go_error list \<Rightarrow> (string, 'v vars \<times> 'x go_error list) outcome" where
  "coerceVariables_loop ops env schema toks locate inputValues [] coercedValues errs = Ok (coercedValues, errs)"
| "coerceVariables_loop ops env schema toks locate inputValues (varDefNode # nodes) coercedValues errs =
     bind_outcome (TypeFromAST schema toks (variableDefinition_Type varDefNode)) (\<lambda>varType.
     case coerceVariable ops env toks locate inputValues varDefNode varType of (entry, es) \<Rightarrow>
       coerceVariables_loop ops env schema toks locate inputValues nodes
         (case entry of None \<Rightarrow> coercedValues
          | Some v \<Rightarrow> coercedValues(name_Value toks (variableDefinition_Variable varDefNode) \<mapsto> v))
         (errs @ es))"

definition CoerceVariableValues ::
  "('v, 'x) value_ops \<Rightarrow> 'v env \<Rightarrow> 'v goval schema \<Rightarrow> token list \<Rightarrow> (token_ref variable_definition \<Rightarrow> error_location) \<Rightarrow>
   token_ref variable_definition list \<Rightarrow> 'v vars \<Rightarrow> (string, 'v vars \<times> 'x go_error list) outcome" where
  "CoerceVariableValues ops env schema toks locate variableDefinitions inputValues =
     bind_outcome (coerceVariables_loop ops env schema toks locate inputValues variableDefinitions Map.empty []) (\<lambda>(coercedValues, errs).
       Ok (if HaveOccurred errs then Map.empty else coercedValues, errs))"

section \<open>Arguments\<close>

definition find_argument :: "token list \<Rightarrow> token_ref argument list \<Rightarrow> string \<Rightarrow> token_ref argument option" where
  "find_argument toks argNodes name = find (\<lambda>a. name_Value toks (argument_Name a) = name) (rev argNodes)"

text \<open>
  The entry of one argument: nothing, a value or an error. The locations of the argument, of its value
  and of the node are arguments.
\<close>

definition argumentValue ::
  "('v, 'x) value_ops \<Rightarrow> 'v env \<Rightarrow> token list \<Rightarrow> (token_ref argument \<Rightarrow> error_location) \<Rightarrow> (token_ref ast_value \<Rightarrow> error_location) \<Rightarrow>
   error_location \<Rightarrow> 'v vars \<Rightarrow> token_ref argument option \<Rightarrow> 'v goval input_def \<Rightarrow> ('x go_error, 'v goval option) outcome" where
  "argumentValue ops env toks locArgument locValue locNode variableValues argNode argDef =
     (let argName = input_Name argDef; argType = input_Type argDef;
          argVariable = (case argNode of None \<Rightarrow> None | Some a \<Rightarrow> variable_name toks (argument_Value a));
          argVariableValue = (case argVariable of None \<Rightarrow> None | Some name \<Rightarrow> variableValues name);
          hasValue = (argNode \<noteq> None \<and> (argVariable \<noteq> None \<longrightarrow> argVariableValue \<noteq> None));
          isNil = (case argNode of None \<Rightarrow> False
                   | Some a \<Rightarrow> (if argVariable \<noteq> None then argVariableValue = Some GoNil else is_null_literal (argument_Value a)))
      in if \<not> hasValue \<and> input_Default argDef \<noteq> None then Ok (input_Default argDef)
         else if (\<not> hasValue \<or> isNil) \<and> IsNonNullType argType then
           (case argNode of
              None \<Rightarrow>
                Error (NewError (''Argument '' @ quoted argName @ '' of required type '' @ quoted (InspectType env argType) @ '' was provided.'')
                  [ArgLocation locNode])
            | Some a \<Rightarrow>
                if isNil then
                  Error (NewError (''Argument '' @ quoted argName @ '' of non-null type '' @ quoted (InspectType env argType) @ '' must not be null.'')
                    [ArgLocation (locArgument a)])
                else
                  Error (NewError (''Argument '' @ quoted argName @ '' of required type '' @ quoted (InspectType env argType) @
                      '' was provided the variable '' @ quoted (''$'' @ (case argVariable of None \<Rightarrow> [] | Some name \<Rightarrow> name)) @
                      '' which was not provided a runtime value.'')
                    [ArgLocation (locArgument a)]))
         else if hasValue then
           (case argNode of
              None \<Rightarrow> Panic
            | Some a \<Rightarrow>
                if argVariable \<noteq> None then Ok argVariableValue
                else if isNil then Ok (Some GoNil)
                else
                  (case CoerceFromAST ops env toks variableValues (Some (argument_Value a)) argType of
                     Ok x \<Rightarrow> Ok (Some x)
                   | Error err \<Rightarrow>
                       Error (NewError (''Argument '' @ quoted argName @ '' has invalid value '' @ op_InspectLiteral ops (argument_Value a) @ ''.'')
                         [ArgLocation (locValue (argument_Value a)), ArgError err])
                   | Panic \<Rightarrow> Panic
                   | OutOfFuel \<Rightarrow> OutOfFuel))
         else Ok None)"

fun argumentValues_loop ::
  "('v, 'x) value_ops \<Rightarrow> 'v env \<Rightarrow> token list \<Rightarrow> (token_ref argument \<Rightarrow> error_location) \<Rightarrow> (token_ref ast_value \<Rightarrow> error_location) \<Rightarrow>
   error_location \<Rightarrow> 'v vars \<Rightarrow> token_ref argument list \<Rightarrow> 'v goval input_def list \<Rightarrow> 'v vars \<Rightarrow> ('x go_error, 'v vars) outcome" where
  "argumentValues_loop ops env toks locArgument locValue locNode variableValues argNodes [] coercedValues = Ok coercedValues"
| "argumentValues_loop ops env toks locArgument locValue locNode variableValues argNodes (argDef # argDefs) coercedValues =
     bind_outcome (argumentValue ops env toks locArgument locValue locNode variableValues
         (find_argument toks argNodes (input_Name argDef)) argDef) (\<lambda>entry.
       argumentValues_loop ops env toks locArgument locValue locNode variableValues argNodes argDefs
         (case entry of None \<Rightarrow> coercedValues | Some x \<Rightarrow> coercedValues(input_Name argDef \<mapsto> x)))"

definition ArgumentValues ::
  "('v, 'x) value_ops \<Rightarrow> 'v env \<Rightarrow> token list \<Rightarrow> (token_ref argument \<Rightarrow> error_location) \<Rightarrow> (token_ref ast_value \<Rightarrow> error_location) \<Rightarrow>
   error_location \<Rightarrow> 'v goval input_def list \<Rightarrow> token_ref argument list \<Rightarrow> 'v vars \<Rightarrow> ('x go_error, 'v vars) outcome" where
  "ArgumentValues ops env toks locArgument locValue locNode argDefs argNodes variableValues =
     (if argDefs = [] \<and> argNodes = [] then Ok Map.empty
      else argumentValues_loop ops env toks locArgument locValue locNode variableValues argNodes argDefs Map.empty)"

definition DirectiveValues ::
  "('v, 'x) value_ops \<Rightarrow> 'v env \<Rightarrow> token list \<Rightarrow> (token_ref argument \<Rightarrow> error_location) \<Rightarrow> (token_ref ast_value \<Rightarrow> error_location) \<Rightarrow>
   (token_ref directive \<Rightarrow> error_location) \<Rightarrow> 'v goval directive_def \<Rightarrow> token_ref directive list \<Rightarrow> 'v vars \<Rightarrow> ('x go_error, 'v vars) outcome" where
  "DirectiveValues ops env toks locArgument locValue locDirective directiveDef nodeDirectives variableValues =
     (case find (\<lambda>d. name_Value toks (directive_Name d) = directive_def_Name directiveDef) nodeDirectives of
        None \<Rightarrow> Ok Map.empty
      | Some d \<Rightarrow>
          ArgumentValues ops env toks locArgument locValue (locDirective d) (directive_def_Args directiveDef) (directive_Arguments d) variableValues)"

end
