(* ===== verification/Validator.thy ===== *)
theory Validator
  imports Values Printer "HOL-Library.AList"
begin

text \<open>
  \<open>graphql/validator\<close>: \<open>walk.go\<close>, \<open>rule.go\<close>, \<open>validation_context.go\<close> and \<open>validate.go\<close>: the walk over a document that runs the
  checks of a list of rules on its nodes.

  A \<open>ValidationContext\<close> is split in three. What does not change during a validation is the record \<open>validation\<close>, an
  argument of every function. What rules can change, through the exported methods, is the record \<open>vctx\<close>. What only
  the walk can change is the record \<open>walker\<close> around it. The rules in use (\<open>ctx.rules\<close>) are an argument, since the walk replaces them
  for the body of a fragment only.

  A pointer to a \<open>FragmentInfo\<close> is the name under which it stands in the map; nil is \<open>None\<close>. A pointer to a \<open>VariableInfo\<close> is a name
  too, or an object that is not in the map. Nodes are compared by their structure, which is what
  \<open>reflect.DeepEqual\<close> does; nodes point to different tokens unless they are the same node.
\<close>

section \<open>Loops\<close>

fun for_each :: "('a \<Rightarrow> ('s, 'e, unit) action) \<Rightarrow> 'a list \<Rightarrow> ('s, 'e, unit) action" where
  "for_each f [] = ret ()"
| "for_each f (x # xs) = andThen (f x) (\<lambda>_. for_each f xs)"

lemma for_each_cong [fundef_cong]:
  "xs = ys \<Longrightarrow> (\<And>x. x \<in> set ys \<Longrightarrow> f x = g x) \<Longrightarrow> for_each f xs = for_each g ys"
proof (induction xs arbitrary: ys)
  case (Cons x xs)
  then show ?case by (cases ys) auto
qed simp

section \<open>Locations of nodes\<close>

definition node_TokenRange :: "token list \<Rightarrow> node \<Rightarrow> (unit, token_range) outcome" where
  "node_TokenRange toks node =
     (case node of
        ArgumentNode n \<Rightarrow> argument_TokenRange toks n
      | ArgumentsNode ns \<Rightarrow> arguments_TokenRange toks ns
      | DefinitionsNode ns \<Rightarrow> definitions_TokenRange toks ns
      | DirectiveNode n \<Rightarrow> directive_TokenRange toks n
      | DirectivesNode ns \<Rightarrow> directives_TokenRange toks ns
      | DocumentNode n \<Rightarrow> document_TokenRange toks n
      | NameNode n \<Rightarrow> name_TokenRange n
      | ObjectFieldNode n \<Rightarrow> object_field_TokenRange toks n
      | SelectionSetNode ns \<Rightarrow> selection_set_TokenRange toks ns
      | VariableDefinitionNode n \<Rightarrow> variable_definition_TokenRange toks n
      | VariableDefinitionsNode ns \<Rightarrow> variable_definitions_TokenRange toks ns
      | TypeNode n \<Rightarrow> type_TokenRange toks n
      | ValueNode n \<Rightarrow> value_TokenRange toks n
      | DefinitionNode n \<Rightarrow> definition_TokenRange toks n
      | SelectionNode n \<Rightarrow> selection_TokenRange toks n)"

text \<open>\<open>ErrorLocationOfASTNode\<close> of \<open>graphql/error.go\<close>: a nil token panics.\<close>

definition ErrorLocationOfASTNode :: "token_store \<Rightarrow> node \<Rightarrow> (unit, error_location) outcome" where
  "ErrorLocationOfASTNode h node =
     bind_outcome (node_TokenRange (store_tokens h) node) (\<lambda>r.
       case range_First r of
         None \<Rightarrow> Panic
       | Some tok \<Rightarrow>
           (case token_LocationInfo h tok of
              None \<Rightarrow> Panic
            | Some info \<Rightarrow> Ok \<lparr>loc_Line = info_Line info, loc_Column = info_Column info\<rparr>))"

section \<open>The context\<close>

record variable_info =
  variableInfo_node :: "token_ref variable_definition"
  variableInfo_typeDef :: "gtype option"
  variableInfo_used :: bool

record fragment_info =
  fragmentInfo_def :: "token_ref definition_node"
  fragmentInfo_typeCondition :: "gtype option"
  fragmentInfo_used :: bool
  fragmentInfo_CycleChecked :: bool

record ('v, 'x) validation =
  v_schema :: "'v goval schema"
  v_types :: "'v env"
  v_ops :: "('v, 'x) value_ops"
  v_store :: token_store
  v_document :: "token_ref document"
  v_SchemaType :: type_ref
  v_TypeType :: type_ref
  v_StringType :: type_ref
  v_fmt_extensions :: "'x extensions \<Rightarrow> string"

record 'x vctx =
  ctx_variableInfos :: "string \<rightharpoonup> variable_info"
  ctx_fragmentInfos :: "(string \<times> fragment_info) list"
  ctx_errs :: "'x go_error list"
  ctx_currentOperation :: "token_ref definition_node option"
  ctx_KnownOperationNames :: "string \<rightharpoonup> token_ref name"
  ctx_KnownFragmentNames :: "string \<rightharpoonup> token_ref name"

definition v_toks :: "('v, 'x) validation \<Rightarrow> token list" where
  "v_toks env = store_tokens (v_store env)"

definition v_name :: "('v, 'x) validation \<Rightarrow> token_ref name \<Rightarrow> string" where
  "v_name env n = name_Value (v_toks env) n"

definition v_ResolveType :: "('v, 'x) validation \<Rightarrow> token_ref ast_type \<Rightarrow> gtype option" where
  "v_ResolveType env t = ResolveType (v_schema env) (v_toks env) t"

fun is_fragment :: "'t definition_node \<Rightarrow> bool" where
  "is_fragment (FragmentDefinition _ _ _ _ _) \<longleftrightarrow> True"
| "is_fragment (OperationDefinition _ _ _ _ _) \<longleftrightarrow> False"

text \<open>The map that the first call of \<open>FragmentInfo\<close> builds: a later definition replaces an earlier one of the same name.\<close>

definition newFragmentInfo :: "('v, 'x) validation \<Rightarrow> token_ref definition_node \<Rightarrow> fragment_info" where
  "newFragmentInfo env f =
     \<lparr>fragmentInfo_def = f, fragmentInfo_typeCondition = v_ResolveType env (NamedType (fragment_TypeCondition f)),
      fragmentInfo_used = False, fragmentInfo_CycleChecked = False\<rparr>"

definition fragmentInfoMap :: "('v, 'x) validation \<Rightarrow> (string \<times> fragment_info) list" where
  "fragmentInfoMap env =
     fold (\<lambda>f m. if is_fragment f then AList.update (v_name env (fragment_Name f)) (newFragmentInfo env f) m else m)
       (document_Definitions (v_document env)) []"

definition newValidationContext :: "('v, 'x) validation \<Rightarrow> 'x vctx" where
  "newValidationContext env =
     \<lparr>ctx_variableInfos = Map.empty, ctx_fragmentInfos = fragmentInfoMap env, ctx_errs = [], ctx_currentOperation = None,
      ctx_KnownOperationNames = Map.empty, ctx_KnownFragmentNames = Map.empty\<rparr>"

type_synonym fragment_ref = string

definition FragmentInfo :: "'x vctx \<Rightarrow> string \<Rightarrow> fragment_ref option" where
  "FragmentInfo ctx name = (case map_of (ctx_fragmentInfos ctx) name of None \<Rightarrow> None | Some _ \<Rightarrow> Some name)"

definition fragment_of :: "'x vctx \<Rightarrow> fragment_ref \<Rightarrow> fragment_info" where
  "fragment_of ctx r = the (map_of (ctx_fragmentInfos ctx) r)"

definition fragment_update :: "fragment_ref \<Rightarrow> (fragment_info \<Rightarrow> fragment_info) \<Rightarrow> 'x vctx \<Rightarrow> 'x vctx" where
  "fragment_update r f ctx = ctx\<lparr>ctx_fragmentInfos := AList.update r (f (fragment_of ctx r)) (ctx_fragmentInfos ctx)\<rparr>"

text \<open>\<open>info.TypeCondition()\<close> on a pointer that may be nil.\<close>

definition TypeCondition :: "fragment_ref option \<Rightarrow> ('x vctx, unit, gtype option) action" where
  "TypeCondition r = (\<lambda>ctx. case r of None \<Rightarrow> (Panic, ctx) | Some r \<Rightarrow> (Ok (fragmentInfo_typeCondition (fragment_of ctx r)), ctx))"

datatype variable_ref = VariableEntry string | OtherVariable variable_info

definition VariableInfo :: "'x vctx \<Rightarrow> string \<Rightarrow> variable_ref option" where
  "VariableInfo ctx name = (case ctx_variableInfos ctx name of None \<Rightarrow> None | Some _ \<Rightarrow> Some (VariableEntry name))"

definition variable_of :: "'x vctx \<Rightarrow> variable_ref \<Rightarrow> variable_info" where
  "variable_of ctx r = (case r of VariableEntry name \<Rightarrow> the (ctx_variableInfos ctx name) | OtherVariable info \<Rightarrow> info)"

definition MarkUsed :: "variable_ref \<Rightarrow> 'x vctx \<Rightarrow> 'x vctx" where
  "MarkUsed r ctx =
     (case r of
        VariableEntry name \<Rightarrow>
          ctx\<lparr>ctx_variableInfos := (ctx_variableInfos ctx)(name \<mapsto> (variable_of ctx r)\<lparr>variableInfo_used := True\<rparr>)\<rparr>
      | OtherVariable _ \<Rightarrow> ctx)"

definition ReportError :: "string \<Rightarrow> 'x error_arg list \<Rightarrow> ('x vctx, unit, unit) action" where
  "ReportError message args = (\<lambda>ctx.
     case errors_Emplace (ctx_errs ctx) message args of
       Ok errs \<Rightarrow> (Ok (), ctx\<lparr>ctx_errs := errs\<rparr>)
     | Error e \<Rightarrow> (Error e, ctx)
     | Panic \<Rightarrow> (Panic, ctx)
     | OutOfFuel \<Rightarrow> (OutOfFuel, ctx))"

definition ExistingTypeNames :: "('v, 'x) validation \<Rightarrow> string list" where
  "ExistingTypeNames env = map fst (schema_typeMap (v_schema env))"

section \<open>Fields of types\<close>

definition fields_of :: "'v type_def \<Rightarrow> 'v field_def list option" where
  "fields_of d = (case d of ObjectDef _ flds _ \<Rightarrow> Some flds | InterfaceDef _ flds \<Rightarrow> Some flds | _ \<Rightarrow> None)"

definition find_field_def :: "string \<Rightarrow> 'v field_def list \<Rightarrow> 'v field_def option" where
  "find_field_def name flds = find (\<lambda>f. field_Name f = name) flds"

definition find_input_def :: "string \<Rightarrow> 'v input_def list \<Rightarrow> 'v input_def option" where
  "find_input_def name args = find (\<lambda>a. input_Name a = name) args"

definition SchemaMetaFieldDef :: "('v, 'x) validation \<Rightarrow> 'v goval field_def" where
  "SchemaMetaFieldDef env = \<lparr>field_Name = ''__schema'', field_Type = NonNullOf (Named (v_SchemaType env)), field_Args = []\<rparr>"

definition TypeMetaFieldDef :: "('v, 'x) validation \<Rightarrow> 'v goval field_def" where
  "TypeMetaFieldDef env =
     \<lparr>field_Name = ''__type'', field_Type = Named (v_TypeType env),
      field_Args = [\<lparr>input_Name = ''name'', input_Type = NonNullOf (Named (v_StringType env)), input_Default = None\<rparr>]\<rparr>"

definition TypenameMetaFieldDef :: "('v, 'x) validation \<Rightarrow> 'v goval field_def" where
  "TypenameMetaFieldDef env = \<lparr>field_Name = ''__typename'', field_Type = NonNullOf (Named (v_StringType env)), field_Args = []\<rparr>"

definition ResolveField :: "('v, 'x) validation \<Rightarrow> gtype option \<Rightarrow> string \<Rightarrow> 'v goval field_def option" where
  "ResolveField env parentType name =
     (case parentType of
        None \<Rightarrow> None
      | Some t \<Rightarrow>
          if schema_query (v_schema env) \<noteq> None \<and> t = Named (the (schema_query (v_schema env))) \<and> name = ''__schema'' then Some (SchemaMetaFieldDef env)
          else if schema_query (v_schema env) \<noteq> None \<and> t = Named (the (schema_query (v_schema env))) \<and> name = ''__type'' then Some (TypeMetaFieldDef env)
          else if name = ''__typename'' \<and> IsCompositeType (v_types env) t then Some (TypenameMetaFieldDef env)
          else (case t of
                  Named n \<Rightarrow> (case fields_of (v_types env ! n) of None \<Rightarrow> None | Some flds \<Rightarrow> find_field_def name flds)
                | _ \<Rightarrow> None))"

section \<open>Rules\<close>

datatype next_check_action = ContinueCheck | SkipCheckForChildNodes | StopCheck

type_synonym 'x check = "('x vctx, unit, next_check_action) action"

text \<open>The caches of \<open>KnownArgNames\<close> in \<open>FieldInfo\<close> and \<open>DirectiveInfo\<close> are left out.\<close>

record 'v field_info =
  fieldInfo_parentType :: "gtype option"
  fieldInfo_def :: "'v goval field_def option"
  fieldInfo_node :: "token_ref selection"

record 'v directive_info =
  directiveInfo_def :: "'v goval directive_def option"
  directiveInfo_node :: "token_ref directive"
  directiveInfo_location :: string

definition fieldInfo_Type :: "'v field_info \<Rightarrow> gtype option" where
  "fieldInfo_Type info = map_option field_Type (fieldInfo_def info)"

definition fieldInfo_KnownArgNames :: "'v field_info \<Rightarrow> string list" where
  "fieldInfo_KnownArgNames info = (case fieldInfo_def info of None \<Rightarrow> [] | Some d \<Rightarrow> map input_Name (field_Args d))"

definition directiveInfo_KnownArgNames :: "'v directive_info \<Rightarrow> string list" where
  "directiveInfo_KnownArgNames info = (case directiveInfo_def info of None \<Rightarrow> [] | Some d \<Rightarrow> map input_Name (directive_def_Args d))"

text \<open>The interfaces that a rule may implement: a method that it does not have is \<open>None\<close>.\<close>

type_synonym ('v, 'x) operation_check = "('v, 'x) validation \<Rightarrow> token_ref definition_node \<Rightarrow> 'x check"
type_synonym ('v, 'x) variable_check = "('v, 'x) validation \<Rightarrow> variable_ref \<Rightarrow> 'x check"
type_synonym ('v, 'x) fragment_check = "('v, 'x) validation \<Rightarrow> fragment_ref option \<Rightarrow> token_ref definition_node \<Rightarrow> 'x check"
type_synonym ('v, 'x) selection_set_check = "('v, 'x) validation \<Rightarrow> gtype option \<Rightarrow> token_ref selection list \<Rightarrow> 'x check"
type_synonym ('v, 'x) field_check = "('v, 'x) validation \<Rightarrow> 'v field_info \<Rightarrow> 'x check"
type_synonym ('v, 'x) field_argument_check =
  "('v, 'x) validation \<Rightarrow> 'v field_info \<Rightarrow> 'v goval input_def option \<Rightarrow> token_ref argument \<Rightarrow> 'x check"
type_synonym ('v, 'x) inline_fragment_check =
  "('v, 'x) validation \<Rightarrow> gtype option \<Rightarrow> gtype option \<Rightarrow> token_ref selection \<Rightarrow> 'x check"
type_synonym ('v, 'x) fragment_spread_check =
  "('v, 'x) validation \<Rightarrow> gtype option \<Rightarrow> fragment_ref option \<Rightarrow> token_ref selection \<Rightarrow> 'x check"
type_synonym ('v, 'x) value_check = "('v, 'x) validation \<Rightarrow> gtype option \<Rightarrow> token_ref ast_value \<Rightarrow> 'x check"
type_synonym ('v, 'x) variable_usage_check =
  "('v, 'x) validation \<Rightarrow> gtype option \<Rightarrow> token_ref name \<Rightarrow> bool \<Rightarrow> variable_ref option \<Rightarrow> 'x check"
type_synonym ('v, 'x) directives_check = "('v, 'x) validation \<Rightarrow> token_ref directive list \<Rightarrow> string \<Rightarrow> 'x check"
type_synonym ('v, 'x) directive_check = "('v, 'x) validation \<Rightarrow> 'v directive_info \<Rightarrow> 'x check"
type_synonym ('v, 'x) directive_argument_check =
  "('v, 'x) validation \<Rightarrow> 'v directive_info \<Rightarrow> 'v goval input_def option \<Rightarrow> token_ref argument \<Rightarrow> 'x check"

record ('v, 'x) validation_rule =
  CheckOperation :: "('v, 'x) operation_check option"
  CheckVariable :: "('v, 'x) variable_check option"
  CheckFragment :: "('v, 'x) fragment_check option"
  CheckSelectionSet :: "('v, 'x) selection_set_check option"
  CheckField :: "('v, 'x) field_check option"
  CheckFieldArgument :: "('v, 'x) field_argument_check option"
  CheckInlineFragment :: "('v, 'x) inline_fragment_check option"
  CheckFragmentSpread :: "('v, 'x) fragment_spread_check option"
  CheckValue :: "('v, 'x) value_check option"
  CheckVariableUsage :: "('v, 'x) variable_usage_check option"
  CheckDirectives :: "('v, 'x) directives_check option"
  CheckDirective :: "('v, 'x) directive_check option"
  CheckDirectiveArgument :: "('v, 'x) directive_argument_check option"

definition no_checks :: "('v, 'x) validation_rule" where
  "no_checks = \<lparr>CheckOperation = None, CheckVariable = None, CheckFragment = None, CheckSelectionSet = None, CheckField = None,
     CheckFieldArgument = None, CheckInlineFragment = None, CheckFragmentSpread = None, CheckValue = None, CheckVariableUsage = None,
     CheckDirectives = None, CheckDirective = None, CheckDirectiveArgument = None\<rparr>"

text \<open>The checks by the interface that they implement, each with the index of its rule.\<close>

record ('v, 'x) rule_set =
  operationRules :: "(nat \<times> ('v, 'x) operation_check) list"
  variableRules :: "(nat \<times> ('v, 'x) variable_check) list"
  fragmentRules :: "(nat \<times> ('v, 'x) fragment_check) list"
  selectionSetRules :: "(nat \<times> ('v, 'x) selection_set_check) list"
  fieldRules :: "(nat \<times> ('v, 'x) field_check) list"
  fieldArgumentRules :: "(nat \<times> ('v, 'x) field_argument_check) list"
  inlineFragmentRules :: "(nat \<times> ('v, 'x) inline_fragment_check) list"
  fragmentSpreadRules :: "(nat \<times> ('v, 'x) fragment_spread_check) list"
  valueRules :: "(nat \<times> ('v, 'x) value_check) list"
  variableUsageRules :: "(nat \<times> ('v, 'x) variable_usage_check) list"
  directivesRules :: "(nat \<times> ('v, 'x) directives_check) list"
  directiveRules :: "(nat \<times> ('v, 'x) directive_check) list"
  directiveArgumentRules :: "(nat \<times> ('v, 'x) directive_argument_check) list"

definition emptyRules :: "('v, 'x) rule_set" where
  "emptyRules = \<lparr>operationRules = [], variableRules = [], fragmentRules = [], selectionSetRules = [], fieldRules = [],
     fieldArgumentRules = [], inlineFragmentRules = [], fragmentSpreadRules = [], valueRules = [], variableUsageRules = [],
     directivesRules = [], directiveRules = [], directiveArgumentRules = []\<rparr>"

fun indexed :: "nat \<Rightarrow> 'a option \<Rightarrow> (nat \<times> 'a) list" where
  "indexed i None = []"
| "indexed i (Some check) = [(i, check)]"

definition isRule :: "('v, 'x) validation_rule \<Rightarrow> bool" where
  "isRule r \<longleftrightarrow> CheckOperation r \<noteq> None \<or> CheckVariable r \<noteq> None \<or> CheckFragment r \<noteq> None \<or> CheckSelectionSet r \<noteq> None \<or>
     CheckField r \<noteq> None \<or> CheckFieldArgument r \<noteq> None \<or> CheckInlineFragment r \<noteq> None \<or> CheckFragmentSpread r \<noteq> None \<or>
     CheckValue r \<noteq> None \<or> CheckVariableUsage r \<noteq> None \<or> CheckDirectives r \<noteq> None \<or> CheckDirective r \<noteq> None \<or>
     CheckDirectiveArgument r \<noteq> None"

definition add_rule :: "nat \<Rightarrow> ('v, 'x) validation_rule \<Rightarrow> ('v, 'x) rule_set \<Rightarrow> ('v, 'x) rule_set" where
  "add_rule i r rs =
     \<lparr>operationRules = operationRules rs @ indexed i (CheckOperation r),
      variableRules = variableRules rs @ indexed i (CheckVariable r),
      fragmentRules = fragmentRules rs @ indexed i (CheckFragment r),
      selectionSetRules = selectionSetRules rs @ indexed i (CheckSelectionSet r),
      fieldRules = fieldRules rs @ indexed i (CheckField r),
      fieldArgumentRules = fieldArgumentRules rs @ indexed i (CheckFieldArgument r),
      inlineFragmentRules = inlineFragmentRules rs @ indexed i (CheckInlineFragment r),
      fragmentSpreadRules = fragmentSpreadRules rs @ indexed i (CheckFragmentSpread r),
      valueRules = valueRules rs @ indexed i (CheckValue r),
      variableUsageRules = variableUsageRules rs @ indexed i (CheckVariableUsage r),
      directivesRules = directivesRules rs @ indexed i (CheckDirectives r),
      directiveRules = directiveRules rs @ indexed i (CheckDirective r),
      directiveArgumentRules = directiveArgumentRules rs @ indexed i (CheckDirectiveArgument r)\<rparr>"

fun buildRules_loop :: "nat \<Rightarrow> ('v, 'x) validation_rule list \<Rightarrow> ('v, 'x) rule_set \<Rightarrow> (unit, ('v, 'x) rule_set) outcome" where
  "buildRules_loop i [] rs = Ok rs"
| "buildRules_loop i (r # rules) rs = (if isRule r then buildRules_loop (Suc i) rules (add_rule i r rs) else Panic)"

definition buildRules :: "('v, 'x) validation_rule list \<Rightarrow> (unit, ('v, 'x) rule_set) outcome" where
  "buildRules rules = buildRules_loop 0 rules emptyRules"

definition rulesForFragmentSpreads :: "('v, 'x) rule_set \<Rightarrow> ('v, 'x) rule_set" where
  "rulesForFragmentSpreads rs = emptyRules\<lparr>variableUsageRules := variableUsageRules rs\<rparr>"

section \<open>Running rules\<close>

datatype skipping = SkippingNode node | SkippingStop

record 'x walker =
  w_ctx :: "'x vctx"
  w_skippingRules :: "skipping option list"
  w_validatedFragments :: "string list"

type_synonym 'x walk_action = "('x walker, unit, unit) action"

definition shouldSkipRule :: "'x walker \<Rightarrow> nat \<Rightarrow> bool" where
  "shouldSkipRule w i \<longleftrightarrow> w_skippingRules w ! i \<noteq> None"

definition setSkipping :: "nat \<Rightarrow> node \<Rightarrow> next_check_action \<Rightarrow> 'x walker \<Rightarrow> 'x walker" where
  "setSkipping i node next w =
     (case next of
        ContinueCheck \<Rightarrow> w
      | SkipCheckForChildNodes \<Rightarrow> w\<lparr>w_skippingRules := (w_skippingRules w)[i := Some (SkippingNode node)]\<rparr>
      | StopCheck \<Rightarrow> w\<lparr>w_skippingRules := (w_skippingRules w)[i := Some SkippingStop]\<rparr>)"

definition run_rule :: "node \<Rightarrow> nat \<Rightarrow> 'x check \<Rightarrow> 'x walk_action" where
  "run_rule node i check = (\<lambda>w.
     if shouldSkipRule w i then (Ok (), w)
     else case check (w_ctx w) of
       (Ok next, ctx) \<Rightarrow> (Ok (), setSkipping i node next (w\<lparr>w_ctx := ctx\<rparr>))
     | (Error e, ctx) \<Rightarrow> (Error e, w\<lparr>w_ctx := ctx\<rparr>)
     | (Panic, ctx) \<Rightarrow> (Panic, w\<lparr>w_ctx := ctx\<rparr>)
     | (OutOfFuel, ctx) \<Rightarrow> (OutOfFuel, w\<lparr>w_ctx := ctx\<rparr>))"

definition run_rules :: "node \<Rightarrow> (nat \<times> 'c) list \<Rightarrow> ('c \<Rightarrow> 'x check) \<Rightarrow> 'x walk_action" where
  "run_rules node rules apply_check = for_each (\<lambda>(i, c). run_rule node i (apply_check c)) rules"

text \<open>The \<open>Run\<close> methods.\<close>

definition operationRules_Run :: "('v, 'x) validation \<Rightarrow> ('v, 'x) rule_set \<Rightarrow> token_ref definition_node \<Rightarrow> 'x walk_action" where
  "operationRules_Run env rs operation = run_rules (DefinitionNode operation) (operationRules rs) (\<lambda>c. c env operation)"

definition variableRules_Run :: "('v, 'x) validation \<Rightarrow> ('v, 'x) rule_set \<Rightarrow> variable_ref \<Rightarrow> token_ref variable_definition \<Rightarrow> 'x walk_action" where
  "variableRules_Run env rs info node = run_rules (VariableDefinitionNode node) (variableRules rs) (\<lambda>c. c env info)"

definition fragmentRules_Run ::
  "('v, 'x) validation \<Rightarrow> ('v, 'x) rule_set \<Rightarrow> fragment_ref option \<Rightarrow> token_ref definition_node \<Rightarrow> 'x walk_action" where
  "fragmentRules_Run env rs fragmentInfo fragment = run_rules (DefinitionNode fragment) (fragmentRules rs) (\<lambda>c. c env fragmentInfo fragment)"

definition selectionSetRules_Run ::
  "('v, 'x) validation \<Rightarrow> ('v, 'x) rule_set \<Rightarrow> gtype option \<Rightarrow> token_ref selection list \<Rightarrow> 'x walk_action" where
  "selectionSetRules_Run env rs ttype selectionSet = run_rules (SelectionSetNode selectionSet) (selectionSetRules rs) (\<lambda>c. c env ttype selectionSet)"

definition fieldRules_Run :: "('v, 'x) validation \<Rightarrow> ('v, 'x) rule_set \<Rightarrow> 'v field_info \<Rightarrow> 'x walk_action" where
  "fieldRules_Run env rs field = run_rules (SelectionNode (fieldInfo_node field)) (fieldRules rs) (\<lambda>c. c env field)"

definition fieldArgumentRules_Run ::
  "('v, 'x) validation \<Rightarrow> ('v, 'x) rule_set \<Rightarrow> 'v field_info \<Rightarrow> 'v goval input_def option \<Rightarrow> token_ref argument \<Rightarrow> 'x walk_action" where
  "fieldArgumentRules_Run env rs field argDef arg = run_rules (ArgumentNode arg) (fieldArgumentRules rs) (\<lambda>c. c env field argDef arg)"

definition inlineFragmentRules_Run ::
  "('v, 'x) validation \<Rightarrow> ('v, 'x) rule_set \<Rightarrow> gtype option \<Rightarrow> gtype option \<Rightarrow> token_ref selection \<Rightarrow> 'x walk_action" where
  "inlineFragmentRules_Run env rs parentType typeCondition fragment =
     run_rules (SelectionNode fragment) (inlineFragmentRules rs) (\<lambda>c. c env parentType typeCondition fragment)"

definition fragmentSpreadRules_Run ::
  "('v, 'x) validation \<Rightarrow> ('v, 'x) rule_set \<Rightarrow> gtype option \<Rightarrow> fragment_ref option \<Rightarrow> token_ref selection \<Rightarrow> 'x walk_action" where
  "fragmentSpreadRules_Run env rs parentType fragmentInfo fragmentSpread =
     run_rules (SelectionNode fragmentSpread) (fragmentSpreadRules rs) (\<lambda>c. c env parentType fragmentInfo fragmentSpread)"

definition valueRules_Run :: "('v, 'x) validation \<Rightarrow> ('v, 'x) rule_set \<Rightarrow> gtype option \<Rightarrow> token_ref ast_value \<Rightarrow> 'x walk_action" where
  "valueRules_Run env rs valueType v = run_rules (ValueNode v) (valueRules rs) (\<lambda>c. c env valueType v)"

definition variableUsageRules_Run ::
  "('v, 'x) validation \<Rightarrow> ('v, 'x) rule_set \<Rightarrow> gtype option \<Rightarrow> token_ref name \<Rightarrow> bool \<Rightarrow> variable_ref option \<Rightarrow> 'x walk_action" where
  "variableUsageRules_Run env rs ttype variable hasLocationDefaultValue info =
     run_rules (ValueNode (Variable variable)) (variableUsageRules rs) (\<lambda>c. c env ttype variable hasLocationDefaultValue info)"

definition directivesRules_Run :: "('v, 'x) validation \<Rightarrow> ('v, 'x) rule_set \<Rightarrow> token_ref directive list \<Rightarrow> string \<Rightarrow> 'x walk_action" where
  "directivesRules_Run env rs directives location =
     run_rules (DirectivesNode directives) (directivesRules rs) (\<lambda>c. c env directives location)"

definition directiveRules_Run :: "('v, 'x) validation \<Rightarrow> ('v, 'x) rule_set \<Rightarrow> 'v directive_info \<Rightarrow> 'x walk_action" where
  "directiveRules_Run env rs directive = run_rules (DirectiveNode (directiveInfo_node directive)) (directiveRules rs) (\<lambda>c. c env directive)"

definition directiveArgumentRules_Run ::
  "('v, 'x) validation \<Rightarrow> ('v, 'x) rule_set \<Rightarrow> 'v directive_info \<Rightarrow> 'v goval input_def option \<Rightarrow> token_ref argument \<Rightarrow> 'x walk_action" where
  "directiveArgumentRules_Run env rs directive argDef arg =
     run_rules (ArgumentNode arg) (directiveArgumentRules rs) (\<lambda>c. c env directive argDef arg)"

lemmas Run_defs = operationRules_Run_def variableRules_Run_def fragmentRules_Run_def selectionSetRules_Run_def fieldRules_Run_def
  fieldArgumentRules_Run_def inlineFragmentRules_Run_def fragmentSpreadRules_Run_def valueRules_Run_def variableUsageRules_Run_def
  directivesRules_Run_def directiveRules_Run_def directiveArgumentRules_Run_def

text \<open>Rules that skip the children of a node run again when the walk leaves it.\<close>

definition leaveNode :: "node \<Rightarrow> 'x walk_action" where
  "leaveNode node = (\<lambda>w.
     (Ok (), w\<lparr>w_skippingRules := map (\<lambda>s. if s = Some (SkippingNode node) then None else s) (w_skippingRules w)\<rparr>))"

section \<open>The walk\<close>

definition on_operation :: "'x walk_action \<Rightarrow> 'x walk_action" where
  "on_operation a = (\<lambda>w. if ctx_currentOperation (w_ctx w) = None then (Ok (), w) else a w)"

definition list_element_type :: "('v, 'x) validation \<Rightarrow> gtype option \<Rightarrow> gtype option" where
  "list_element_type env valueType =
     (case map_option NullableTypeOf valueType of
        Some (ListOf t) \<Rightarrow> if IsInputType (v_types env) (Some t) then Some t else None
      | _ \<Rightarrow> None)"

text \<open>The type of an input field, and whether it has a default.\<close>

definition object_field_type :: "('v, 'x) validation \<Rightarrow> gtype option \<Rightarrow> string \<Rightarrow> gtype option \<times> bool" where
  "object_field_type env valueType name =
     (case valueType of
        None \<Rightarrow> (None, False)
      | Some t \<Rightarrow>
          (case v_types env ! NamedTypeOf t of
             InputObjectDef _ flds \<Rightarrow>
               (case find_input_def name flds of
                  Some d \<Rightarrow> if IsInputType (v_types env) (Some (input_Type d)) then (Some (input_Type d), input_Default d \<noteq> None) else (None, False)
                | None \<Rightarrow> (None, False))
           | _ \<Rightarrow> (None, False)))"

function (sequential) walkValue ::
  "('v, 'x) validation \<Rightarrow> ('v, 'x) rule_set \<Rightarrow> gtype option \<Rightarrow> token_ref ast_value \<Rightarrow> bool \<Rightarrow> 'x walk_action" where
  "walkValue env rs valueType v hasLocationDefaultValue =
     andThen (valueRules_Run env rs valueType v) (\<lambda>_.
     andThen (case v of
         Variable n \<Rightarrow>
           on_operation (\<lambda>w. variableUsageRules_Run env rs valueType n hasLocationDefaultValue (VariableInfo (w_ctx w) (v_name env n)) w)
       | ListValue vs \<Rightarrow> for_each (\<lambda>v. walkValue env rs (list_element_type env valueType) v False) vs
       | ObjectValue fs \<Rightarrow>
           for_each (\<lambda>f. let (fieldType, fieldHasDefaultValue) = object_field_type env valueType (v_name env (objectField_Name f)) in
             walkValue env rs fieldType (objectField_Value f) fieldHasDefaultValue) fs
       | _ \<Rightarrow> ret ()) (\<lambda>_.
     leaveNode (ValueNode v)))"
  by pat_completeness auto
termination
  by (relation "measure (\<lambda>(env, rs, t, v, b). size v)") (auto simp: less_Suc_eq_le size_list_estimation' dest: size_objectField_Value)

text \<open>The definition of an argument: its type, and whether it has a default.\<close>

definition argument_type :: "'v goval input_def option \<Rightarrow> gtype option \<times> bool" where
  "argument_type argDef = (case argDef of None \<Rightarrow> (None, False) | Some d \<Rightarrow> (Some (input_Type d), input_Default d \<noteq> None))"

definition walkFieldArguments :: "('v, 'x) validation \<Rightarrow> ('v, 'x) rule_set \<Rightarrow> 'v field_info \<Rightarrow> token_ref argument list \<Rightarrow> 'x walk_action" where
  "walkFieldArguments env rs field arguments =
     for_each (\<lambda>arg.
       let argDef = (case fieldInfo_def field of None \<Rightarrow> None | Some d \<Rightarrow> find_input_def (v_name env (argument_Name arg)) (field_Args d));
           (argType, argHasDefaultValue) = argument_type argDef
       in andThen (fieldArgumentRules_Run env rs field argDef arg) (\<lambda>_. walkValue env rs argType (argument_Value arg) argHasDefaultValue)) arguments"

definition walkDirectiveArguments :: "('v, 'x) validation \<Rightarrow> ('v, 'x) rule_set \<Rightarrow> 'v directive_info \<Rightarrow> 'x walk_action" where
  "walkDirectiveArguments env rs directive =
     for_each (\<lambda>arg.
       let argDef = (case directiveInfo_def directive of None \<Rightarrow> None
                     | Some d \<Rightarrow> find_input_def (v_name env (argument_Name arg)) (directive_def_Args d));
           (argType, argHasDefaultValue) = argument_type argDef
       in andThen (directiveArgumentRules_Run env rs directive argDef arg) (\<lambda>_. walkValue env rs argType (argument_Value arg) argHasDefaultValue))
       (directive_Arguments (directiveInfo_node directive))"

definition walkDirective :: "('v, 'x) validation \<Rightarrow> ('v, 'x) rule_set \<Rightarrow> string \<Rightarrow> token_ref directive \<Rightarrow> 'x walk_action" where
  "walkDirective env rs location directive =
     (let info = \<lparr>directiveInfo_def = DirectiveList_Lookup (schema_directives (v_schema env)) (v_name env (directive_Name directive)),
                  directiveInfo_node = directive, directiveInfo_location = location\<rparr>
      in andThen (directiveRules_Run env rs info) (\<lambda>_.
         andThen (walkDirectiveArguments env rs info) (\<lambda>_.
         leaveNode (DirectiveNode directive))))"

definition walkDirectives :: "('v, 'x) validation \<Rightarrow> ('v, 'x) rule_set \<Rightarrow> token_ref directive list \<Rightarrow> string \<Rightarrow> 'x walk_action" where
  "walkDirectives env rs directives location =
     (if directives = [] then ret ()
      else andThen (directivesRules_Run env rs directives location) (\<lambda>_.
           andThen (for_each (walkDirective env rs location) directives) (\<lambda>_.
           leaveNode (DirectivesNode directives))))"

text \<open>
  Selections. A fragment that is spread in an operation is followed, with the rules about the usage of variables only and once for each
  operation. \<open>fuel\<close> counts the fragments that may still be entered.
\<close>

definition markValidated :: "string \<Rightarrow> 'x walk_action" where
  "markValidated name = (\<lambda>w. (Ok (), w\<lparr>w_validatedFragments := name # w_validatedFragments w\<rparr>))"

function (sequential) walkSelection ::
  "nat \<Rightarrow> ('v, 'x) validation \<Rightarrow> ('v, 'x) rule_set \<Rightarrow> gtype option \<Rightarrow> token_ref selection \<Rightarrow> 'x walk_action"
and walkSelectionSet ::
  "nat \<Rightarrow> ('v, 'x) validation \<Rightarrow> ('v, 'x) rule_set \<Rightarrow> gtype option \<Rightarrow> token_ref selection list \<Rightarrow> 'x walk_action" where
  "walkSelection fuel env rs parentType (FieldNode alias' name arguments directives selectionSet) =
     (let field = FieldNode alias' name arguments directives selectionSet;
          info = \<lparr>fieldInfo_parentType = parentType, fieldInfo_def = ResolveField env parentType (v_name env name), fieldInfo_node = field\<rparr>
      in andThen (fieldRules_Run env rs info) (\<lambda>_.
         andThen (walkFieldArguments env rs info arguments) (\<lambda>_.
         andThen (walkDirectives env rs directives ''FIELD'') (\<lambda>_.
         andThen (walkSelectionSet fuel env rs (fieldInfo_Type info) selectionSet) (\<lambda>_.
         leaveNode (SelectionNode field))))))"
| "walkSelection fuel env rs parentType (InlineFragment typeCondition directives selectionSet) =
     (let fragment = InlineFragment typeCondition directives selectionSet;
          condition = (case typeCondition of None \<Rightarrow> None | Some n \<Rightarrow> v_ResolveType env (NamedType n));
          nextParentType = (if typeCondition = None then parentType else condition)
      in andThen (inlineFragmentRules_Run env rs parentType condition fragment) (\<lambda>_.
         andThen (walkDirectives env rs directives ''INLINE_FRAGMENT'') (\<lambda>_.
         andThen (walkSelectionSet fuel env rs nextParentType selectionSet) (\<lambda>_.
         leaveNode (SelectionNode fragment)))))"
| "walkSelection fuel env rs parentType (FragmentSpread name directives) = (\<lambda>w.
     let spread = FragmentSpread name directives; fragmentInfo = FragmentInfo (w_ctx w) (v_name env name)
     in andThen (fragmentSpreadRules_Run env rs parentType fragmentInfo spread) (\<lambda>_.
        andThen (walkDirectives env rs directives ''FRAGMENT_SPREAD'') (\<lambda>_.
        andThen (\<lambda>w.
          case fragmentInfo of
            None \<Rightarrow> (Ok (), w)
          | Some fragmentName \<Rightarrow>
              if ctx_currentOperation (w_ctx w) = None \<or> fragmentName \<in> set (w_validatedFragments w) then (Ok (), w)
              else case fuel of
                0 \<Rightarrow> (OutOfFuel, w)
              | Suc fuel' \<Rightarrow>
                  (let info = fragment_of (w_ctx w) fragmentName in
                   andThen (markValidated fragmentName) (\<lambda>_.
                     walkSelectionSet fuel' env (rulesForFragmentSpreads rs) (fragmentInfo_typeCondition info)
                       (definition_GetSelectionSet (fragmentInfo_def info))) w)) (\<lambda>_.
        leaveNode (SelectionNode spread)))) w)"
| "walkSelectionSet fuel env rs ttype selectionSet =
     (let ttype = map_option (\<lambda>t. Named (NamedTypeOf t)) ttype in
      andThen (selectionSetRules_Run env rs ttype selectionSet) (\<lambda>_.
      andThen (for_each (walkSelection fuel env rs ttype) selectionSet) (\<lambda>_.
      leaveNode (SelectionSetNode selectionSet))))"
  by pat_completeness auto
termination
  by (relation "measures [\<lambda>x. case x of Inl (fuel, _) \<Rightarrow> fuel | Inr (fuel, _) \<Rightarrow> fuel,
       \<lambda>x. case x of Inl (_, _, _, _, s) \<Rightarrow> 2 * size s | Inr (_, _, _, _, ss) \<Rightarrow> Suc (2 * size_list size ss)]")
     (auto simp: less_Suc_eq_le size_list_estimation')

declare walkValue.simps [simp del] walkSelection.simps [simp del] walkSelectionSet.simps [simp del]

definition newVariableInfo :: "('v, 'x) validation \<Rightarrow> token_ref variable_definition \<Rightarrow> variable_info" where
  "newVariableInfo env varDef =
     \<lparr>variableInfo_node = varDef, variableInfo_typeDef = v_ResolveType env (variableDefinition_Type varDef), variableInfo_used = False\<rparr>"

text \<open>The object for a definition in \<open>walkVariables\<close>: the entry of the map if it is of this definition.\<close>

definition variableInfo_for :: "('v, 'x) validation \<Rightarrow> token_ref variable_definition \<Rightarrow> 'x vctx \<Rightarrow> variable_ref" where
  "variableInfo_for env variable ctx =
     (let name = v_name env (variableDefinition_Variable variable) in
      case ctx_variableInfos ctx name of
        Some i \<Rightarrow> if variableInfo_node i = variable then VariableEntry name else OtherVariable (newVariableInfo env variable)
      | None \<Rightarrow> OtherVariable (newVariableInfo env variable))"

definition walkVariable :: "('v, 'x) validation \<Rightarrow> ('v, 'x) rule_set \<Rightarrow> token_ref variable_definition \<Rightarrow> 'x walk_action" where
  "walkVariable env rs variable = (\<lambda>w.
     let info = variableInfo_for env variable (w_ctx w) in
     andThen (case variableDefinition_DefaultValue variable of
                None \<Rightarrow> ret ()
              | Some v \<Rightarrow> walkValue env rs (variableInfo_typeDef (variable_of (w_ctx w) info)) v False) (\<lambda>_.
     andThen (walkDirectives env rs (variableDefinition_Directives variable) ''VARIABLE_DEFINITION'') (\<lambda>_.
     andThen (variableRules_Run env rs info variable) (\<lambda>_.
     leaveNode (VariableDefinitionNode variable)))) w)"

definition walkVariables :: "('v, 'x) validation \<Rightarrow> ('v, 'x) rule_set \<Rightarrow> token_ref variable_definition list \<Rightarrow> 'x walk_action" where
  "walkVariables env rs variables = for_each (walkVariable env rs) variables"

definition variableInfoMap :: "('v, 'x) validation \<Rightarrow> token_ref variable_definition list \<Rightarrow> string \<rightharpoonup> variable_info" where
  "variableInfoMap env varDefs =
     fold (\<lambda>d m. m(v_name env (variableDefinition_Variable d) \<mapsto> newVariableInfo env d)) varDefs Map.empty"

definition operation_root :: "('v, 'x) validation \<Rightarrow> token_ref definition_node \<Rightarrow> type_ref option \<times> string" where
  "operation_root env operation =
     (let t = OperationType (v_toks env) operation in
      if t = ''query'' then (schema_query (v_schema env), ''QUERY'')
      else if t = ''mutation'' then (schema_mutation (v_schema env), ''MUTATION'')
      else if t = ''subscription'' then (schema_subscription (v_schema env), ''SUBSCRIPTION'')
      else (None, []))"

definition enterOperation :: "('v, 'x) validation \<Rightarrow> token_ref definition_node \<Rightarrow> 'x walk_action" where
  "enterOperation env operation = (\<lambda>w.
     let varDefs = definition_VariableDefinitions operation in
     (Ok (), w\<lparr>w_ctx := (w_ctx w)\<lparr>ctx_currentOperation := Some operation,
                 ctx_variableInfos := (if varDefs = [] then ctx_variableInfos (w_ctx w) else variableInfoMap env varDefs)\<rparr>,
               w_validatedFragments := []\<rparr>))"

definition leaveOperation :: "'x walk_action" where
  "leaveOperation = (\<lambda>w.
     (Ok (), w\<lparr>w_ctx := (w_ctx w)\<lparr>ctx_currentOperation := None, ctx_variableInfos := Map.empty\<rparr>, w_validatedFragments := []\<rparr>))"

definition fragment_fuel :: "('v, 'x) validation \<Rightarrow> nat" where
  "fragment_fuel env = length (document_Definitions (v_document env))"

definition walkOperationDefinition :: "('v, 'x) validation \<Rightarrow> ('v, 'x) rule_set \<Rightarrow> token_ref definition_node \<Rightarrow> 'x walk_action" where
  "walkOperationDefinition env rs operation =
     (let (object, location) = operation_root env operation in
      andThen (enterOperation env operation) (\<lambda>_.
      andThen (operationRules_Run env rs operation) (\<lambda>_.
      andThen (walkDirectives env rs (definition_GetDirectives operation) location) (\<lambda>_.
      andThen (walkSelectionSet (fragment_fuel env) env rs (map_option Named object) (definition_GetSelectionSet operation)) (\<lambda>_.
      andThen (walkVariables env rs (definition_VariableDefinitions operation)) (\<lambda>_.
      andThen (leaveNode (DefinitionNode operation)) (\<lambda>_.
      leaveOperation)))))))"

definition walkFragmentDefinition :: "('v, 'x) validation \<Rightarrow> ('v, 'x) rule_set \<Rightarrow> token_ref definition_node \<Rightarrow> 'x walk_action" where
  "walkFragmentDefinition env rs fragment = (\<lambda>w.
     let fragmentInfo = FragmentInfo (w_ctx w) (v_name env (fragment_Name fragment)) in
     andThen (fragmentRules_Run env rs fragmentInfo fragment) (\<lambda>_.
     andThen (walkDirectives env rs (definition_GetDirectives fragment) ''FRAGMENT_DEFINITION'') (\<lambda>_.
     andThen (\<lambda>w. case fragmentInfo of
                None \<Rightarrow> (Panic, w)
              | Some r \<Rightarrow> walkSelectionSet (fragment_fuel env) env rs (fragmentInfo_typeCondition (fragment_of (w_ctx w) r))
                           (definition_GetSelectionSet fragment) w) (\<lambda>_.
     leaveNode (DefinitionNode fragment)))) w)"

definition walk :: "('v, 'x) validation \<Rightarrow> ('v, 'x) rule_set \<Rightarrow> 'x walk_action" where
  "walk env rs =
     andThen (for_each (walkOperationDefinition env rs) (filter (\<lambda>d. \<not> is_fragment d) (document_Definitions (v_document env)))) (\<lambda>_.
     for_each (walkFragmentDefinition env rs) (filter is_fragment (document_Definitions (v_document env))))"

definition newWalker :: "('v, 'x) validation \<Rightarrow> nat \<Rightarrow> 'x walker" where
  "newWalker env size' = \<lparr>w_ctx = newValidationContext env, w_skippingRules = replicate size' None, w_validatedFragments = []\<rparr>"

definition validate_with :: "('v, 'x) validation \<Rightarrow> nat \<Rightarrow> ('v, 'x) rule_set \<Rightarrow> (unit, 'x go_error list) outcome" where
  "validate_with env size' rs =
     (case walk env rs (newWalker env size') of
        (Ok _, w) \<Rightarrow> Ok (ctx_errs (w_ctx w)) | (Error e, w) \<Rightarrow> Error e | (Panic, w) \<Rightarrow> Panic | (OutOfFuel, w) \<Rightarrow> OutOfFuel)"

definition ValidateWithRules :: "('v, 'x) validation \<Rightarrow> ('v, 'x) validation_rule list \<Rightarrow> (unit, 'x go_error list) outcome" where
  "ValidateWithRules env rules =
     (if rules = [] then Ok []
      else bind_outcome (buildRules rules) (validate_with env (length rules)))"

end
