(* ===== verification/ValidatorMessages.thy ===== *)
theory ValidatorMessages
  imports Values
begin

text \<open>
  \<open>graphql/internal/validator/messages.go\<close>: the messages of the validation rules. A builder is the string that has been written.
\<close>

definition DuplicateOperationNameMessage :: "string \<Rightarrow> string" where
  "DuplicateOperationNameMessage operationName =
     ''There can be only one operation named '' @ quoted operationName @ ''.''"

definition AnonOperationNotAloneMessage :: string where
  "AnonOperationNotAloneMessage = ''This anonymous operation must be the only defined operation.''"

definition SingleFieldOnlyMessage :: "string \<Rightarrow> string" where
  "SingleFieldOnlyMessage name =
     (if name = [] then ''Anonymous Subscription must select only one top level field.''
      else ''Subscription '' @ quoted name @ '' must select only one top level field.'')"

text \<open>The suggestions at the end of a message.\<close>

definition did_you_mean :: "string \<Rightarrow> string list \<Rightarrow> bool \<Rightarrow> string \<Rightarrow> string" where
  "did_you_mean intro suggestions quoted_items message =
     (if suggestions = [] then message else OrList (message @ intro) suggestions 5 quoted_items @ ''?'')"

definition UndefinedFieldMessage :: "string \<Rightarrow> string \<Rightarrow> string list \<Rightarrow> string list \<Rightarrow> string" where
  "UndefinedFieldMessage fieldName parentTypeName suggestedTypeNames suggestedFieldNames =
     (let message = ''Cannot query field '' @ quoted fieldName @ '' on type '' @ quoted parentTypeName @ ''.'' in
      if suggestedTypeNames \<noteq> [] then did_you_mean '' Did you mean to use an inline fragment on '' suggestedTypeNames True message
      else did_you_mean '' Did you mean '' suggestedFieldNames True message)"

text \<open>Why two fields are in conflict: a text or the conflicts of their subfields.\<close>

datatype conflict_reason = ConflictReason (reason_ResponseKey: string) (reason_Message: "string + conflict_reason list")

lemma size_reason_Message: "r \<in> set rs \<Longrightarrow> size_sum (\<lambda>_. 0) (size_list size) (reason_Message r) < size_list size rs"
proof (induction rs)
  case (Cons a rs)
  then show ?case by (cases a; cases "reason_Message a") auto
qed simp

function subReasonMessage :: "string + conflict_reason list \<Rightarrow> string" where
  "subReasonMessage (Inl reason) = reason"
| "subReasonMessage (Inr reasons) =
     concat (map (\<lambda>(i, r). (if i \<noteq> 0 then '' and '' else []) @ ''subfields '' @ quoted (reason_ResponseKey r) @ '' conflict because '' @
       subReasonMessage (reason_Message r)) (enumerate 0 reasons))"
  by pat_completeness auto
termination
  by (relation "measure (size_sum (\<lambda>_. 0) (size_list size))")
     (auto simp: enumerate_eq_zip dest!: set_zip_rightD dest: size_reason_Message intro: less_SucI)

definition FieldsConflictMessage :: "conflict_reason \<Rightarrow> string" where
  "FieldsConflictMessage reason =
     ''Fields '' @ quoted (reason_ResponseKey reason) @ '' conflict because '' @ subReasonMessage (reason_Message reason) @
     ''. Use different aliases on the fields to fetch both if this was intentional.''"

definition NoSubselectionAllowedMessage :: "string \<Rightarrow> string \<Rightarrow> string" where
  "NoSubselectionAllowedMessage fieldName typeName =
     ''Field '' @ quoted fieldName @ '' must not have a selection since type '' @ quoted typeName @ '' has no subfields.''"

definition RequiredSubselectionMessage :: "string \<Rightarrow> string \<Rightarrow> string" where
  "RequiredSubselectionMessage fieldName typeName =
     ''Field '' @ quoted fieldName @ '' of type '' @ quoted typeName @ '' must have a selection of subfields. Did you mean '' @
     quoted (fieldName @ '' { ... }'') @ ''?''"

definition UnknownArgMessage :: "string \<Rightarrow> string \<Rightarrow> string \<Rightarrow> string list \<Rightarrow> string" where
  "UnknownArgMessage argName fieldName typeName suggestedArgs =
     did_you_mean '' Did you mean '' suggestedArgs True
       (''Unknown argument '' @ quoted argName @ '' on field '' @ quoted fieldName @ '' of type '' @ quoted typeName @ ''.'')"

definition UnknownDirectiveArgMessage :: "string \<Rightarrow> string \<Rightarrow> string list \<Rightarrow> string" where
  "UnknownDirectiveArgMessage argName directiveName suggestedArgs =
     did_you_mean '' Did you mean '' suggestedArgs True
       (''Unknown argument '' @ quoted argName @ '' on directive @'' @ quoted directiveName @ ''.'')"

definition DuplicateArgMessage :: "string \<Rightarrow> string" where
  "DuplicateArgMessage argName =
     ''There can be only one argument named '' @ quoted argName @ ''.''"

definition MissingFieldArgMessage :: "string \<Rightarrow> string \<Rightarrow> string \<Rightarrow> string" where
  "MissingFieldArgMessage argName fieldName typeName =
     ''Field '' @ quoted fieldName @ '' argument '' @ quoted argName @ '' of type '' @ quoted typeName @ '' is required, but it was not provided.''"

definition MissingDirectiveArgMessage :: "string \<Rightarrow> string \<Rightarrow> string \<Rightarrow> string" where
  "MissingDirectiveArgMessage argName directiveName typeName =
     ''Directive '' @ quoted (''@'' @ directiveName) @ '' argument '' @ quoted argName @ '' of type '' @ quoted typeName @ '' is required, but it was not provided.''"

definition DuplicateFragmentNameMessage :: "string \<Rightarrow> string" where
  "DuplicateFragmentNameMessage fragmentName =
     ''There can be only one fragment named '' @ quoted fragmentName @ ''.''"

definition UnknownTypeMessage :: "string \<Rightarrow> string list \<Rightarrow> string" where
  "UnknownTypeMessage typeName suggestedTypes =
     did_you_mean '' Did you mean '' suggestedTypes True (''Unknown type '' @ quoted typeName @ ''.'')"

definition FragmentOnNonCompositeErrorMessage :: "string \<Rightarrow> string \<Rightarrow> string" where
  "FragmentOnNonCompositeErrorMessage fragmentName typeCondition =
     ''Fragment '' @ quoted fragmentName @ '' cannot condition on non composite type '' @ quoted typeCondition @ ''.''"

definition InlineFragmentOnNonCompositeErrorMessage :: "string \<Rightarrow> string" where
  "InlineFragmentOnNonCompositeErrorMessage typeCondition =
     ''Fragment cannot condition on non composite type '' @ quoted typeCondition @ ''.''"

definition UnusedFragMessage :: "string \<Rightarrow> string" where
  "UnusedFragMessage fragName =
     ''Fragment '' @ quoted fragName @ '' is never used.''"

definition UnknownFragmentMessage :: "string \<Rightarrow> string" where
  "UnknownFragmentMessage fragName =
     ''Unknown fragment '' @ quoted fragName @ ''.''"

definition CycleErrorMessage :: "string \<Rightarrow> string list \<Rightarrow> string" where
  "CycleErrorMessage fragName spreadNames =
     ''Cannot spread fragment '' @ quoted fragName @ '' within itself'' @
     (case spreadNames of [] \<Rightarrow> [] | n # ns \<Rightarrow> '' via '' @ n @ concat (map (\<lambda>name. '', '' @ name) ns)) @ ''.''"

definition TypeIncompatibleAnonSpreadMessage :: "string \<Rightarrow> string \<Rightarrow> string" where
  "TypeIncompatibleAnonSpreadMessage parentType fragType =
     ''Fragment cannot be spread here as objects of type '' @ quoted parentType @ '' can never be of type '' @ quoted fragType"

definition TypeIncompatibleSpreadMessage :: "string \<Rightarrow> string \<Rightarrow> string \<Rightarrow> string" where
  "TypeIncompatibleSpreadMessage fragName parentType fragType =
     ''Fragment '' @ quoted fragName @ '' cannot be spread here as objects of type '' @ quoted parentType @ '' can never be of type '' @ quoted fragType @ ''.''"

definition BadValueMessage :: "string \<Rightarrow> string \<Rightarrow> string list \<Rightarrow> string" where
  "BadValueMessage typeName valueName suggestedNames =
     (let message = ''Expected type '' @ typeName @ '', found '' @ valueName in
      if suggestedNames = [] then message @ ''.'' else did_you_mean ''; Did you mean the enum value '' suggestedNames False message)"

definition BadScalarValueMessage :: "string \<Rightarrow> string \<Rightarrow> string \<Rightarrow> string" where
  "BadScalarValueMessage typeName valueName errMessage =
     ''Expected type '' @ typeName @ '', found '' @ valueName @ ''; '' @ errMessage"

definition RequiredFieldMessage :: "string \<Rightarrow> string \<Rightarrow> string \<Rightarrow> string" where
  "RequiredFieldMessage typeName fieldName fieldTypeName =
     ''Field '' @ typeName @ ''.'' @ fieldName @ '' of required type '' @ fieldTypeName @ '' was not provided.''"

definition UnknownFieldMessage :: "string \<Rightarrow> string \<Rightarrow> string list \<Rightarrow> string" where
  "UnknownFieldMessage typeName fieldName suggestedFields =
     (let message = ''Field '' @ quoted fieldName @ '' is not defined by type '' @ typeName in
      if suggestedFields = [] then message @ ''.'' else did_you_mean ''; Did you mean '' suggestedFields False message)"

definition DuplicateInputFieldMessage :: "string \<Rightarrow> string" where
  "DuplicateInputFieldMessage fieldName =
     ''There can be only one input field named '' @ quoted fieldName @ ''.''"

definition UnknownDirectiveMessage :: "string \<Rightarrow> string" where
  "UnknownDirectiveMessage directiveName =
     ''Unknown directive '' @ quoted directiveName @ ''.''"

definition MisplacedDirectiveMessage :: "string \<Rightarrow> string \<Rightarrow> string" where
  "MisplacedDirectiveMessage directiveName location =
     ''Directive '' @ quoted directiveName @ '' may not be used on '' @ location @ ''.''"

definition DuplicateDirectiveMessage :: "string \<Rightarrow> string" where
  "DuplicateDirectiveMessage directiveName =
     ''The directive '' @ quoted directiveName @ '' can only be used once at this location.''"

definition DuplicateVariableMessage :: "string \<Rightarrow> string" where
  "DuplicateVariableMessage variableName =
     ''There can be only one variable named '' @ quoted variableName @ ''.''"

definition NonInputTypeOnVarMessage :: "string \<Rightarrow> string \<Rightarrow> string" where
  "NonInputTypeOnVarMessage variableName typeName =
     ''Variable '' @ quoted (''$'' @ variableName) @ '' cannot be non-input type '' @ quoted typeName @ ''.''"

definition UndefinedVarMessage :: "string \<Rightarrow> string \<Rightarrow> string" where
  "UndefinedVarMessage variableName operationName =
     (if operationName = [] then ''Variable '' @ quoted (''$'' @ variableName) @ '' is not defined.''
      else ''Variable '' @ quoted (''$'' @ variableName) @ '' is not defined by operation '' @ quoted operationName @ ''.'')"

definition UnusedVariableMessage :: "string \<Rightarrow> string \<Rightarrow> string" where
  "UnusedVariableMessage variableName operationName =
     (if operationName = [] then ''Variable '' @ quoted (''$'' @ variableName) @ '' is never used.''
      else ''Variable '' @ quoted (''$'' @ variableName) @ '' is never used in operation '' @ quoted operationName @ ''.'')"

definition BadVarPosMessage :: "string \<Rightarrow> string \<Rightarrow> string \<Rightarrow> string" where
  "BadVarPosMessage variableName variableType expectedType =
     ''Variable '' @ quoted (''$'' @ variableName) @ '' of type '' @ quoted variableType @ '' used in position expecting type '' @ quoted expectedType @ ''.''"

end
