(* ===== verification/Rules.thy ===== *)
theory Rules
  imports Validator ValidatorMessages
begin

text \<open>
  \<open>graphql/validator/rules\<close>: the standard validation rules, apart from \<open>OverlappingFieldsCanBeMerged\<close>. A rule is the record of the
  checks that it implements.
\<close>

section \<open>Reports\<close>

definition location_of :: "('v, 'x) validation \<Rightarrow> node \<Rightarrow> ('x vctx, unit, error_location) action" where
  "location_of env node = lift_outcome (ErrorLocationOfASTNode (v_store env) node)"

fun locations_of :: "('v, 'x) validation \<Rightarrow> node list \<Rightarrow> ('x vctx, unit, error_location list) action" where
  "locations_of env [] = ret []"
| "locations_of env (node # nodes) = andThen (location_of env node) (\<lambda>l. andThen (locations_of env nodes) (\<lambda>ls. ret (l # ls)))"

text \<open>A report at a node, and one with a list of locations.\<close>

definition report_at :: "('v, 'x) validation \<Rightarrow> string \<Rightarrow> node \<Rightarrow> ('x vctx, unit, unit) action" where
  "report_at env message node = andThen (location_of env node) (\<lambda>l. ReportError message [ArgLocation l])"

definition report_nodes :: "('v, 'x) validation \<Rightarrow> string \<Rightarrow> node list \<Rightarrow> ('x vctx, unit, unit) action" where
  "report_nodes env message nodes = andThen (locations_of env nodes) (\<lambda>ls. ReportError message [ArgLocations (Some ls)])"

definition and_then_continue :: "('x vctx, unit, unit) action \<Rightarrow> 'x check" where
  "and_then_continue a = andThen a (\<lambda>_. ret ContinueCheck)"

definition and_then_skip :: "('x vctx, unit, unit) action \<Rightarrow> 'x check" where
  "and_then_skip a = andThen a (\<lambda>_. ret SkipCheckForChildNodes)"

definition report_when :: "bool \<Rightarrow> ('x vctx, unit, unit) action \<Rightarrow> ('x vctx, unit, unit) action" where
  "report_when b a = (if b then a else ret ())"

definition v_Inspect :: "('v, 'x) validation \<Rightarrow> gtype \<Rightarrow> string" where
  "v_Inspect env t = InspectType (v_types env) t"

definition v_SuggestionList :: "('v, 'x) validation \<Rightarrow> string \<Rightarrow> string list \<Rightarrow> string list" where
  "v_SuggestionList env input options = SuggestionList (op_ToLower (v_ops env)) (op_Sort (v_ops env)) input options"

text \<open>The loop of the rules about unique names: items with a name that has occurred are reported together with the first one.\<close>

fun check_unique :: "('v, 'x) validation \<Rightarrow> (string \<Rightarrow> string) \<Rightarrow> ('a \<Rightarrow> string) \<Rightarrow> ('a \<Rightarrow> node) \<Rightarrow> (string \<rightharpoonup> 'a) \<Rightarrow> 'a list \<Rightarrow>
    ('x vctx, unit, unit) action" where
  "check_unique env message name_of node_of seen [] = ret ()"
| "check_unique env message name_of node_of seen (x # xs) =
     (case seen (name_of x) of
        Some prev \<Rightarrow>
          andThen (report_nodes env (message (name_of x)) [node_of prev, node_of x]) (\<lambda>_. check_unique env message name_of node_of seen xs)
      | None \<Rightarrow> check_unique env message name_of node_of (seen(name_of x \<mapsto> x)) xs)"

section \<open>Operations\<close>

definition UniqueOperationNames_CheckOperation :: "('v, 'x) operation_check" where
  "UniqueOperationNames_CheckOperation env operation = and_then_skip (\<lambda>ctx.
     case operation_Name operation of
       None \<Rightarrow> (Ok (), ctx)
     | Some n \<Rightarrow>
         (case ctx_KnownOperationNames ctx (v_name env n) of
            Some prevName \<Rightarrow> report_nodes env (DuplicateOperationNameMessage (v_name env n)) [NameNode prevName, NameNode n] ctx
          | None \<Rightarrow> (Ok (), ctx\<lparr>ctx_KnownOperationNames := (ctx_KnownOperationNames ctx)(v_name env n \<mapsto> n)\<rparr>)))"

definition UniqueOperationNames :: "('v, 'x) validation_rule" where
  "UniqueOperationNames = no_checks\<lparr>CheckOperation := Some UniqueOperationNames_CheckOperation\<rparr>"

definition LoneAnonymousOperation_CheckOperation :: "('v, 'x) operation_check" where
  "LoneAnonymousOperation_CheckOperation env operation = and_then_skip (
     if operation_Name operation = None
     then for_each (\<lambda>op. report_when (\<not> is_fragment op \<and> op \<noteq> operation) (report_at env AnonOperationNotAloneMessage (DefinitionNode operation)))
            (document_Definitions (v_document env))
     else ret ())"

definition LoneAnonymousOperation :: "('v, 'x) validation_rule" where
  "LoneAnonymousOperation = no_checks\<lparr>CheckOperation := Some LoneAnonymousOperation_CheckOperation\<rparr>"

definition operation_name :: "('v, 'x) validation \<Rightarrow> token_ref definition_node \<Rightarrow> string" where
  "operation_name env operation = (case operation_Name operation of None \<Rightarrow> [] | Some n \<Rightarrow> v_name env n)"

text \<open>With no selections the locations stay nil.\<close>

definition SingleFieldSubscriptions_CheckOperation :: "('v, 'x) operation_check" where
  "SingleFieldSubscriptions_CheckOperation env operation = and_then_skip (
     let selectionSet = definition_GetSelectionSet operation; message = SingleFieldOnlyMessage (operation_name env operation) in
     if OperationType (v_toks env) operation = ''subscription'' \<and> length selectionSet \<noteq> 1
     then if length selectionSet > 1 then report_nodes env message (map SelectionNode (tl selectionSet))
          else ReportError message [ArgLocations None]
     else ret ())"

definition SingleFieldSubscriptions :: "('v, 'x) validation_rule" where
  "SingleFieldSubscriptions = no_checks\<lparr>CheckOperation := Some SingleFieldSubscriptions_CheckOperation\<rparr>"

section \<open>Types\<close>

fun named_type_name :: "'t ast_type \<Rightarrow> 't name" where
  "named_type_name (NamedType n) = n"
| "named_type_name (ListType t) = named_type_name t"
| "named_type_name (NonNullType t) = named_type_name t"

definition checkType :: "('v, 'x) validation \<Rightarrow> token_ref ast_type \<Rightarrow> ('x vctx, unit, unit) action" where
  "checkType env typeNode =
     (let n = named_type_name typeNode; typeName = v_name env n in
      report_when (TypeMap_Lookup (schema_typeMap (v_schema env)) typeName = None)
        (report_at env (UnknownTypeMessage typeName (v_SuggestionList env typeName (ExistingTypeNames env))) (TypeNode (NamedType n))))"

fun inline_type_condition :: "'t selection \<Rightarrow> 't name option" where
  "inline_type_condition (InlineFragment typeCondition _ _) = typeCondition"
| "inline_type_condition _ = None"

definition KnownTypeNames_CheckOperation :: "('v, 'x) operation_check" where
  "KnownTypeNames_CheckOperation env operation =
     and_then_continue (for_each (\<lambda>varDef. checkType env (variableDefinition_Type varDef)) (definition_VariableDefinitions operation))"

definition KnownTypeNames_CheckFragment :: "('v, 'x) fragment_check" where
  "KnownTypeNames_CheckFragment env fragmentInfo fragment = and_then_continue (checkType env (NamedType (fragment_TypeCondition fragment)))"

definition KnownTypeNames_CheckInlineFragment :: "('v, 'x) inline_fragment_check" where
  "KnownTypeNames_CheckInlineFragment env parentType typeCondition fragment =
     and_then_continue (case inline_type_condition fragment of None \<Rightarrow> ret () | Some n \<Rightarrow> checkType env (NamedType n))"

definition KnownTypeNames :: "('v, 'x) validation_rule" where
  "KnownTypeNames = no_checks\<lparr>CheckOperation := Some KnownTypeNames_CheckOperation, CheckFragment := Some KnownTypeNames_CheckFragment,
     CheckInlineFragment := Some KnownTypeNames_CheckInlineFragment\<rparr>"

definition v_IsCompositeType :: "('v, 'x) validation \<Rightarrow> gtype option \<Rightarrow> bool" where
  "v_IsCompositeType env t \<longleftrightarrow> (case t of None \<Rightarrow> False | Some t \<Rightarrow> IsCompositeType (v_types env) t)"

text \<open>\<open>ast.Print\<close> returns a string or panics.\<close>

definition v_Print :: "('v, 'x) validation \<Rightarrow> node \<Rightarrow> ('x vctx, unit, string) action" where
  "v_Print env node = lift_outcome (Print (v_toks env) node)"

definition FragmentsOnCompositeTypes_CheckFragment :: "('v, 'x) fragment_check" where
  "FragmentsOnCompositeTypes_CheckFragment env fragmentInfo fragment = and_then_continue (
     andThen (TypeCondition fragmentInfo) (\<lambda>typeCondition.
     report_when (typeCondition \<noteq> None \<and> \<not> v_IsCompositeType env typeCondition)
       (let node = TypeNode (NamedType (fragment_TypeCondition fragment)) in
        andThen (v_Print env node) (\<lambda>s.
        report_at env (FragmentOnNonCompositeErrorMessage (v_name env (fragment_Name fragment)) s) node))))"

definition FragmentsOnCompositeTypes_CheckInlineFragment :: "('v, 'x) inline_fragment_check" where
  "FragmentsOnCompositeTypes_CheckInlineFragment env parentType typeCondition fragment = and_then_continue (
     case inline_type_condition fragment of
       None \<Rightarrow> ret ()
     | Some n \<Rightarrow>
         report_when (typeCondition \<noteq> None \<and> \<not> v_IsCompositeType env typeCondition)
           (andThen (v_Print env (TypeNode (NamedType n))) (\<lambda>s.
            report_at env (InlineFragmentOnNonCompositeErrorMessage s) (TypeNode (NamedType n)))))"

definition FragmentsOnCompositeTypes :: "('v, 'x) validation_rule" where
  "FragmentsOnCompositeTypes = no_checks\<lparr>CheckFragment := Some FragmentsOnCompositeTypes_CheckFragment,
     CheckInlineFragment := Some FragmentsOnCompositeTypes_CheckInlineFragment\<rparr>"

definition variable_Name :: "('v, 'x) validation \<Rightarrow> variable_info \<Rightarrow> string" where
  "variable_Name env info = v_name env (variableDefinition_Variable (variableInfo_node info))"

definition VariablesAreInputTypes_CheckVariable :: "('v, 'x) variable_check" where
  "VariablesAreInputTypes_CheckVariable env r = and_then_continue (\<lambda>ctx.
     let info = variable_of ctx r; varType = variableDefinition_Type (variableInfo_node info) in
     report_when (variableInfo_typeDef info \<noteq> None \<and> \<not> IsInputType (v_types env) (variableInfo_typeDef info))
       (andThen (v_Print env (TypeNode varType)) (\<lambda>s.
        report_at env (NonInputTypeOnVarMessage (variable_Name env info) s) (TypeNode varType))) ctx)"

definition VariablesAreInputTypes :: "('v, 'x) validation_rule" where
  "VariablesAreInputTypes = no_checks\<lparr>CheckVariable := Some VariablesAreInputTypes_CheckVariable\<rparr>"

section \<open>Fields\<close>

fun field_selection_set :: "'t selection \<Rightarrow> 't selection list" where
  "field_selection_set (FieldNode _ _ _ _ ss) = ss"
| "field_selection_set _ = []"

fun field_name_node :: "'t selection \<Rightarrow> 't name" where
  "field_name_node (FieldNode _ n _ _ _) = n"
| "field_name_node (FragmentSpread n _) = n"
| "field_name_node (InlineFragment n _ _) = the n"

fun field_arguments :: "'t selection \<Rightarrow> 't argument list" where
  "field_arguments (FieldNode _ _ args _ _) = args"
| "field_arguments _ = []"

definition fieldInfo_Name :: "('v, 'x) validation \<Rightarrow> 'v field_info \<Rightarrow> string" where
  "fieldInfo_Name env info = v_name env (field_name_node (fieldInfo_node info))"

fun IsLeafDef :: "'v type_def \<Rightarrow> bool" where
  "IsLeafDef (ScalarDef _) \<longleftrightarrow> True"
| "IsLeafDef (ScalarAliasDef _ _) \<longleftrightarrow> True"
| "IsLeafDef (EnumDef _ _) \<longleftrightarrow> True"
| "IsLeafDef _ \<longleftrightarrow> False"

definition ScalarLeafs_CheckField :: "('v, 'x) field_check" where
  "ScalarLeafs_CheckField env field = and_then_continue (
     case fieldInfo_def field of
       None \<Rightarrow> ret ()
     | Some fieldDef \<Rightarrow>
         (let fieldType = field_Type fieldDef; selectionSet = field_selection_set (fieldInfo_node field) in
          if IsLeafDef (v_types env ! NamedTypeOf fieldType) then
            report_when (selectionSet \<noteq> [])
              (report_at env (NoSubselectionAllowedMessage (fieldInfo_Name env field) (v_Inspect env fieldType)) (SelectionSetNode selectionSet))
          else
            report_when (selectionSet = [])
              (report_at env (RequiredSubselectionMessage (fieldInfo_Name env field) (v_Inspect env fieldType)) (SelectionNode (fieldInfo_node field)))))"

definition ScalarLeafs :: "('v, 'x) validation_rule" where
  "ScalarLeafs = no_checks\<lparr>CheckField := Some ScalarLeafs_CheckField\<rparr>"

text \<open>For \<open>getSuggestedTypeNames\<close>: the interfaces in the order of their first use, with the number of uses.\<close>

definition has_field :: "string \<Rightarrow> 'v type_def \<Rightarrow> bool" where
  "has_field name d \<longleftrightarrow> (case fields_of d of None \<Rightarrow> False | Some flds \<Rightarrow> find_field_def name flds \<noteq> None)"

fun def_interfaces :: "'v type_def \<Rightarrow> type_ref list" where
  "def_interfaces (ObjectDef _ _ interfaces) = interfaces"
| "def_interfaces _ = []"

definition count_interface :: "string \<Rightarrow> (string \<times> nat) list \<Rightarrow> (string \<times> nat) list" where
  "count_interface name counts = AList.update name (case map_of counts name of None \<Rightarrow> 1 | Some n \<Rightarrow> n + 1) counts"

definition getSuggestedTypeNames :: "('v, 'x) validation \<Rightarrow> gtype \<Rightarrow> string \<Rightarrow> string list" where
  "getSuggestedTypeNames env parentType fieldName =
     (case parentType of
        Named n \<Rightarrow>
          if IsAbstractDef (v_types env ! n) then
            (let objects = filter (\<lambda>t. has_field fieldName (v_types env ! t)) (PossibleTypes (v_schema env) n);
                 interfaces = filter (\<lambda>i. has_field fieldName (v_types env ! i)) (concat (map (\<lambda>t. def_interfaces (v_types env ! t)) objects));
                 counts = fold (\<lambda>i. count_interface (type_Name (v_types env) i)) interfaces []
             in map fst (sort_key (\<lambda>(_, count). - int count) counts) @ map (type_Name (v_types env)) objects)
          else []
      | _ \<Rightarrow> [])"

definition getSuggestedFieldNames :: "('v, 'x) validation \<Rightarrow> gtype \<Rightarrow> string \<Rightarrow> string list" where
  "getSuggestedFieldNames env parentType fieldName =
     (case parentType of
        Named n \<Rightarrow> (case fields_of (v_types env ! n) of None \<Rightarrow> [] | Some flds \<Rightarrow> v_SuggestionList env fieldName (map field_Name flds))
      | _ \<Rightarrow> [])"

definition FieldsOnCorrectType_CheckField :: "('v, 'x) field_check" where
  "FieldsOnCorrectType_CheckField env field = and_then_continue (
     case fieldInfo_parentType field of
       None \<Rightarrow> ret ()
     | Some parentType \<Rightarrow>
         report_when (fieldInfo_def field = None)
           (let fieldName = fieldInfo_Name env field;
                suggestedTypeNames = getSuggestedTypeNames env parentType fieldName;
                suggestedFieldNames = (if suggestedTypeNames = [] then getSuggestedFieldNames env parentType fieldName else [])
            in report_at env (UndefinedFieldMessage fieldName (v_Inspect env parentType) suggestedTypeNames suggestedFieldNames)
                 (SelectionNode (fieldInfo_node field))))"

definition FieldsOnCorrectType :: "('v, 'x) validation_rule" where
  "FieldsOnCorrectType = no_checks\<lparr>CheckField := Some FieldsOnCorrectType_CheckField\<rparr>"

section \<open>Variables\<close>

definition UniqueVariableNames_CheckOperation :: "('v, 'x) operation_check" where
  "UniqueVariableNames_CheckOperation env operation = and_then_continue (
     check_unique env DuplicateVariableMessage (v_name env) NameNode Map.empty
       (map variableDefinition_Variable (definition_VariableDefinitions operation)))"

definition UniqueVariableNames :: "('v, 'x) validation_rule" where
  "UniqueVariableNames = no_checks\<lparr>CheckOperation := Some UniqueVariableNames_CheckOperation\<rparr>"

text \<open>The checks of variable usages run inside of an operation only; without one \<open>operation.Name\<close> panics.\<close>

definition NoUndefinedVariables_CheckVariableUsage :: "('v, 'x) variable_usage_check" where
  "NoUndefinedVariables_CheckVariableUsage env ttype variable hasLocationDefaultValue info = and_then_continue (\<lambda>ctx.
     case info of
       Some _ \<Rightarrow> (Ok (), ctx)
     | None \<Rightarrow>
         (case ctx_currentOperation ctx of
            None \<Rightarrow> (Panic, ctx)
          | Some operation \<Rightarrow>
              report_nodes env (UndefinedVarMessage (v_name env variable) (operation_name env operation))
                [ValueNode (Variable variable), DefinitionNode operation] ctx))"

definition NoUndefinedVariables :: "('v, 'x) validation_rule" where
  "NoUndefinedVariables = no_checks\<lparr>CheckVariableUsage := Some NoUndefinedVariables_CheckVariableUsage\<rparr>"

definition NoUnusedVariables_CheckVariableUsage :: "('v, 'x) variable_usage_check" where
  "NoUnusedVariables_CheckVariableUsage env ttype variable hasLocationDefaultValue info = and_then_continue (\<lambda>ctx.
     case info of None \<Rightarrow> (Ok (), ctx) | Some r \<Rightarrow> (Ok (), MarkUsed r ctx))"

definition NoUnusedVariables_CheckVariable :: "('v, 'x) variable_check" where
  "NoUnusedVariables_CheckVariable env r = and_then_continue (\<lambda>ctx.
     let info = variable_of ctx r in
     if variableInfo_used info then (Ok (), ctx)
     else case ctx_currentOperation ctx of
       None \<Rightarrow> (Panic, ctx)
     | Some operation \<Rightarrow>
         report_at env (UnusedVariableMessage (variable_Name env info) (operation_name env operation))
           (VariableDefinitionNode (variableInfo_node info)) ctx)"

definition NoUnusedVariables :: "('v, 'x) validation_rule" where
  "NoUnusedVariables = no_checks\<lparr>CheckVariable := Some NoUnusedVariables_CheckVariable, CheckVariableUsage := Some NoUnusedVariables_CheckVariableUsage\<rparr>"

definition allowedVariableUsage :: "('v, 'x) validation \<Rightarrow> gtype \<Rightarrow> token_ref ast_value option \<Rightarrow> gtype \<Rightarrow> bool \<Rightarrow> bool" where
  "allowedVariableUsage env varType varDefaultValue locationType hasLocationDefaultValue =
     (case locationType of
        NonNullOf innerType \<Rightarrow>
          if \<not> IsNonNullType varType then
            (let hasNonNullVariableDefaultValue = (case varDefaultValue of None \<Rightarrow> False | Some v \<Rightarrow> \<not> is_null_literal v) in
             if \<not> hasNonNullVariableDefaultValue \<and> \<not> hasLocationDefaultValue then False
             else IsTypeSubTypeOf (v_types env) (v_schema env) varType innerType)
          else IsTypeSubTypeOf (v_types env) (v_schema env) varType locationType
      | _ \<Rightarrow> IsTypeSubTypeOf (v_types env) (v_schema env) varType locationType)"

definition VariablesInAllowedPosition_CheckVariableUsage :: "('v, 'x) variable_usage_check" where
  "VariablesInAllowedPosition_CheckVariableUsage env ttype variable hasLocationDefaultValue info = and_then_continue (\<lambda>ctx.
     case (info, ttype) of
       (Some r, Some t) \<Rightarrow>
         (let i = variable_of ctx r; varDef = variableInfo_node i in
          case variableInfo_typeDef i of
            None \<Rightarrow> (Ok (), ctx)
          | Some varType \<Rightarrow>
              report_when (\<not> allowedVariableUsage env varType (variableDefinition_DefaultValue varDef) t hasLocationDefaultValue)
                (report_nodes env (BadVarPosMessage (variable_Name env i) (v_Inspect env varType) (v_Inspect env t))
                   [VariableDefinitionNode varDef, ValueNode (Variable variable)]) ctx)
     | _ \<Rightarrow> (Ok (), ctx))"

definition VariablesInAllowedPosition :: "('v, 'x) validation_rule" where
  "VariablesInAllowedPosition = no_checks\<lparr>CheckVariableUsage := Some VariablesInAllowedPosition_CheckVariableUsage\<rparr>"

section \<open>Directives and arguments\<close>

definition directiveInfo_Name :: "('v, 'x) validation \<Rightarrow> 'v directive_info \<Rightarrow> string" where
  "directiveInfo_Name env info = v_name env (directive_Name (directiveInfo_node info))"

definition KnownDirectives_CheckDirective :: "('v, 'x) directive_check" where
  "KnownDirectives_CheckDirective env directive = and_then_continue (
     report_when (directiveInfo_def directive = None)
       (report_at env (UnknownDirectiveMessage (directiveInfo_Name env directive)) (DirectiveNode (directiveInfo_node directive))))"

definition KnownDirectives :: "('v, 'x) validation_rule" where
  "KnownDirectives = no_checks\<lparr>CheckDirective := Some KnownDirectives_CheckDirective\<rparr>"

definition DirectivesInValidLocations_CheckDirective :: "('v, 'x) directive_check" where
  "DirectivesInValidLocations_CheckDirective env directive = and_then_continue (
     case directiveInfo_def directive of
       None \<Rightarrow> ret ()
     | Some directiveDef \<Rightarrow>
         report_when (directiveInfo_location directive \<notin> set (directive_def_Locations directiveDef))
           (report_at env (MisplacedDirectiveMessage (directiveInfo_Name env directive) (directiveInfo_location directive))
              (DirectiveNode (directiveInfo_node directive))))"

definition DirectivesInValidLocations :: "('v, 'x) validation_rule" where
  "DirectivesInValidLocations = no_checks\<lparr>CheckDirective := Some DirectivesInValidLocations_CheckDirective\<rparr>"

definition UniqueDirectivesPerLocation_CheckDirectives :: "('v, 'x) directives_check" where
  "UniqueDirectivesPerLocation_CheckDirectives env directives location = and_then_continue (
     check_unique env DuplicateDirectiveMessage (\<lambda>d. v_name env (directive_Name d)) DirectiveNode Map.empty directives)"

definition UniqueDirectivesPerLocation :: "('v, 'x) validation_rule" where
  "UniqueDirectivesPerLocation = no_checks\<lparr>CheckDirectives := Some UniqueDirectivesPerLocation_CheckDirectives\<rparr>"

text \<open>A field has a parent type with a name whenever it has a definition.\<close>

definition KnownArgumentNames_CheckFieldArgument :: "('v, 'x) field_argument_check" where
  "KnownArgumentNames_CheckFieldArgument env field argDef arg = and_then_continue (
     case (argDef, fieldInfo_def field, fieldInfo_parentType field) of
       (None, Some fieldDef, Some parentType) \<Rightarrow>
         (case parentType of
            Named n \<Rightarrow>
              (let argName = v_name env (argument_Name arg) in
               report_at env (UnknownArgMessage argName (field_Name fieldDef) (type_Name (v_types env) n)
                   (v_SuggestionList env argName (fieldInfo_KnownArgNames field))) (ArgumentNode arg))
          | _ \<Rightarrow> panic)
     | _ \<Rightarrow> ret ())"

definition KnownArgumentNames_CheckDirectiveArgument :: "('v, 'x) directive_argument_check" where
  "KnownArgumentNames_CheckDirectiveArgument env directive argDef arg = and_then_continue (
     report_when (argDef = None \<and> directiveInfo_def directive \<noteq> None)
       (let argName = v_name env (argument_Name arg) in
        report_at env (UnknownDirectiveArgMessage argName (directiveInfo_Name env directive)
            (v_SuggestionList env argName (directiveInfo_KnownArgNames directive))) (ArgumentNode arg)))"

definition KnownArgumentNames :: "('v, 'x) validation_rule" where
  "KnownArgumentNames = no_checks\<lparr>CheckFieldArgument := Some KnownArgumentNames_CheckFieldArgument,
     CheckDirectiveArgument := Some KnownArgumentNames_CheckDirectiveArgument\<rparr>"

text \<open>\<open>KnownArgumentNamesOnDirectives\<close> and \<open>ProvidedRequiredArgumentsOnDirectives\<close> have no methods: the checks are declared on the rules that embed them.\<close>

definition KnownArgumentNamesOnDirectives :: "('v, 'x) validation_rule" where
  "KnownArgumentNamesOnDirectives = no_checks"

definition ProvidedRequiredArgumentsOnDirectives :: "('v, 'x) validation_rule" where
  "ProvidedRequiredArgumentsOnDirectives = no_checks"

definition checkUniqueArgNames :: "('v, 'x) validation \<Rightarrow> token_ref argument list \<Rightarrow> ('x vctx, unit, unit) action" where
  "checkUniqueArgNames env args = check_unique env DuplicateArgMessage (v_name env) NameNode Map.empty (map argument_Name args)"

definition UniqueArgumentNames_CheckField :: "('v, 'x) field_check" where
  "UniqueArgumentNames_CheckField env field = and_then_continue (checkUniqueArgNames env (field_arguments (fieldInfo_node field)))"

definition UniqueArgumentNames_CheckDirective :: "('v, 'x) directive_check" where
  "UniqueArgumentNames_CheckDirective env directive =
     and_then_continue (checkUniqueArgNames env (directive_Arguments (directiveInfo_node directive)))"

definition UniqueArgumentNames :: "('v, 'x) validation_rule" where
  "UniqueArgumentNames = no_checks\<lparr>CheckField := Some UniqueArgumentNames_CheckField, CheckDirective := Some UniqueArgumentNames_CheckDirective\<rparr>"

definition IsRequiredArgument :: "'v input_def \<Rightarrow> bool" where
  "IsRequiredArgument arg \<longleftrightarrow> IsNonNullType (input_Type arg) \<and> input_Default arg = None"

definition missing_argument :: "('v, 'x) validation \<Rightarrow> token_ref argument list \<Rightarrow> 'v goval input_def \<Rightarrow> bool" where
  "missing_argument env argNodes argDef \<longleftrightarrow>
     IsRequiredArgument argDef \<and> (\<forall>argNode \<in> set argNodes. v_name env (argument_Name argNode) \<noteq> input_Name argDef)"

definition ProvidedRequiredArguments_CheckField :: "('v, 'x) field_check" where
  "ProvidedRequiredArguments_CheckField env field = and_then_continue (
     case fieldInfo_def field of
       None \<Rightarrow> ret ()
     | Some fieldDef \<Rightarrow>
         for_each (\<lambda>argDef. report_when (missing_argument env (field_arguments (fieldInfo_node field)) argDef)
             (report_at env (MissingFieldArgMessage (input_Name argDef) (field_Name fieldDef) (v_Inspect env (input_Type argDef)))
                (SelectionNode (fieldInfo_node field)))) (field_Args fieldDef))"

definition ProvidedRequiredArguments_CheckDirective :: "('v, 'x) directive_check" where
  "ProvidedRequiredArguments_CheckDirective env directive = and_then_continue (
     case directiveInfo_def directive of
       None \<Rightarrow> ret ()
     | Some directiveDef \<Rightarrow>
         for_each (\<lambda>argDef. report_when (missing_argument env (directive_Arguments (directiveInfo_node directive)) argDef)
             (report_at env (MissingDirectiveArgMessage (input_Name argDef) (directive_def_Name directiveDef) (v_Inspect env (input_Type argDef)))
                (DirectiveNode (directiveInfo_node directive)))) (directive_def_Args directiveDef))"

definition ProvidedRequiredArguments :: "('v, 'x) validation_rule" where
  "ProvidedRequiredArguments = no_checks\<lparr>CheckField := Some ProvidedRequiredArguments_CheckField,
     CheckDirective := Some ProvidedRequiredArguments_CheckDirective\<rparr>"

section \<open>Values\<close>

definition UniqueInputFieldNames_CheckValue :: "('v, 'x) value_check" where
  "UniqueInputFieldNames_CheckValue env valueType v = and_then_continue (
     check_unique env DuplicateInputFieldMessage (v_name env) NameNode Map.empty (map objectField_Name (object_Fields v)))"

definition UniqueInputFieldNames :: "('v, 'x) validation_rule" where
  "UniqueInputFieldNames = no_checks\<lparr>CheckValue := Some UniqueInputFieldNames_CheckValue\<rparr>"

definition enumTypeSuggestion :: "('v, 'x) validation \<Rightarrow> string \<Rightarrow> type_ref \<Rightarrow> string list" where
  "enumTypeSuggestion env valueName n =
     (case v_types env ! n of EnumDef _ enumValues \<Rightarrow> v_SuggestionList env valueName (map fst enumValues) | _ \<Rightarrow> [])"

fun IsScalarDef :: "'v type_def \<Rightarrow> bool" where
  "IsScalarDef (ScalarDef _) \<longleftrightarrow> True"
| "IsScalarDef (ScalarAliasDef _ _) \<longleftrightarrow> True"
| "IsScalarDef _ \<longleftrightarrow> False"

definition report_bad_value :: "('v, 'x) validation \<Rightarrow> gtype \<Rightarrow> token_ref ast_value \<Rightarrow> (string \<Rightarrow> string list) \<Rightarrow> ('x vctx, unit, unit) action" where
  "report_bad_value env t v suggestions =
     andThen (v_Print env (ValueNode v)) (\<lambda>valueName.
     report_at env (BadValueMessage (v_Inspect env t) valueName (suggestions valueName)) (ValueNode v))"

text \<open>The error of a coercion is reported by its text, unless its kind is a coercion error.\<close>

definition isValidScalar :: "('v, 'x) validation \<Rightarrow> gtype option \<Rightarrow> token_ref ast_value \<Rightarrow> ('x vctx, unit, unit) action" where
  "isValidScalar env valueType v =
     (case valueType of
        None \<Rightarrow> ret ()
      | Some t \<Rightarrow>
          if \<not> IsInputType (v_types env) (Some t) then ret ()
          else let n = NamedTypeOf t in
            if \<not> IsScalarDef (v_types env ! n) then report_bad_value env t v (\<lambda>valueName. enumTypeSuggestion env valueName n)
            else case op_CoerceLiteralValue (v_ops env) n v of
              Inr _ \<Rightarrow> ret ()
            | Inl err \<Rightarrow>
                if is_graphql_error err \<and> err_Kind err = ErrKindCoercion then report_bad_value env t v (\<lambda>_. [])
                else andThen (v_Print env (ValueNode v)) (\<lambda>valueName.
                     andThen (location_of env (ValueNode v)) (\<lambda>l.
                     ReportError (BadScalarValueMessage (v_Inspect env t) valueName (error_Error (v_fmt_extensions env) err)) [ArgLocation l, ArgError err])))"

definition check_object_fields :: "('v, 'x) validation \<Rightarrow> string \<Rightarrow> 'v goval input_def list \<Rightarrow> token_ref ast_value \<Rightarrow> ('x vctx, unit, unit) action" where
  "check_object_fields env typeName fieldDefs v =
     (let fieldNodes = object_Fields v in
      andThen (for_each (\<lambda>fieldDef.
          report_when (IsRequiredInputField fieldDef \<and> (\<forall>node \<in> set fieldNodes. v_name env (objectField_Name node) \<noteq> input_Name fieldDef))
            (report_at env (RequiredFieldMessage typeName (input_Name fieldDef) (v_Inspect env (input_Type fieldDef))) (ValueNode v))) fieldDefs) (\<lambda>_.
      for_each (\<lambda>fieldNode.
          let fieldName = v_name env (objectField_Name fieldNode) in
          report_when (case find_input_def fieldName fieldDefs of
                         None \<Rightarrow> True | Some d \<Rightarrow> \<not> IsInputType (v_types env) (Some (input_Type d)))
            (report_at env (UnknownFieldMessage typeName fieldName (v_SuggestionList env fieldName (map input_Name fieldDefs)))
               (ObjectFieldNode fieldNode))) fieldNodes))"

definition ValuesOfCorrectType_CheckValue :: "('v, 'x) value_check" where
  "ValuesOfCorrectType_CheckValue env valueType v =
     (case v of
        NullValue _ \<Rightarrow>
          and_then_continue (case valueType of
              Some t \<Rightarrow> report_when (IsNonNullType t) (report_bad_value env t v (\<lambda>_. []))
            | None \<Rightarrow> ret ())
      | EnumValue tok \<Rightarrow>
          and_then_continue (case valueType of
              None \<Rightarrow> isValidScalar env valueType v
            | Some t \<Rightarrow>
                (case v_types env ! NamedTypeOf t of
                   EnumDef _ enumValues \<Rightarrow>
                     report_when (map_of enumValues (token_Value (v_toks env ! tok)) = None)
                       (report_bad_value env (Named (NamedTypeOf t)) v (\<lambda>valueName. enumTypeSuggestion env valueName (NamedTypeOf t)))
                 | _ \<Rightarrow> isValidScalar env valueType v))
      | Variable _ \<Rightarrow> ret ContinueCheck
      | _ \<Rightarrow>
          (case list_literal v of
             Some _ \<Rightarrow>
               (case map_option NullableTypeOf valueType of
                  Some (ListOf _) \<Rightarrow> ret ContinueCheck
                | _ \<Rightarrow> and_then_skip (isValidScalar env valueType v))
           | None \<Rightarrow>
               (case object_literal v of
                  Some _ \<Rightarrow>
                    (case valueType of
                       None \<Rightarrow> and_then_skip (isValidScalar env valueType v)
                     | Some t \<Rightarrow>
                         (case v_types env ! NamedTypeOf t of
                            InputObjectDef typeName fieldDefs \<Rightarrow> and_then_continue (check_object_fields env typeName fieldDefs v)
                          | _ \<Rightarrow> and_then_skip (isValidScalar env valueType v)))
                | None \<Rightarrow> and_then_continue (isValidScalar env valueType v))))"

definition ValuesOfCorrectType :: "('v, 'x) validation_rule" where
  "ValuesOfCorrectType = no_checks\<lparr>CheckValue := Some ValuesOfCorrectType_CheckValue\<rparr>"

end
