(* ===== verification/FragmentRules.thy ===== *)
theory FragmentRules
  imports Rules
begin

text \<open>
  \<open>graphql/validator/rules\<close>: the rules about fragments, and \<open>RecursivelyMarkUsed\<close> of \<open>validation_context.go\<close>.
\<close>

section \<open>Names\<close>

definition UniqueFragmentNames_CheckFragment :: "('v, 'x) fragment_check" where
  "UniqueFragmentNames_CheckFragment env fragmentInfo fragment = and_then_skip (\<lambda>ctx.
     let n = fragment_Name fragment in
     case ctx_KnownFragmentNames ctx (v_name env n) of
       Some prevName \<Rightarrow> report_nodes env (DuplicateFragmentNameMessage (v_name env n)) [NameNode prevName, NameNode n] ctx
     | None \<Rightarrow> (Ok (), ctx\<lparr>ctx_KnownFragmentNames := (ctx_KnownFragmentNames ctx)(v_name env n \<mapsto> n)\<rparr>))"

definition UniqueFragmentNames :: "('v, 'x) validation_rule" where
  "UniqueFragmentNames = no_checks\<lparr>CheckFragment := Some UniqueFragmentNames_CheckFragment\<rparr>"

definition KnownFragmentNames_CheckFragmentSpread :: "('v, 'x) fragment_spread_check" where
  "KnownFragmentNames_CheckFragmentSpread env parentType fragmentInfo fragmentSpread = and_then_continue (
     let n = field_name_node fragmentSpread in
     report_when (fragmentInfo = None) (report_at env (UnknownFragmentMessage (v_name env n)) (NameNode n)))"

definition KnownFragmentNames :: "('v, 'x) validation_rule" where
  "KnownFragmentNames = no_checks\<lparr>CheckFragmentSpread := Some KnownFragmentNames_CheckFragmentSpread\<rparr>"

section \<open>Unused fragments\<close>

definition markFragmentUsed :: "fragment_ref \<Rightarrow> 'x vctx \<Rightarrow> 'x vctx" where
  "markFragmentUsed r ctx = fragment_update r (\<lambda>i. i\<lparr>fragmentInfo_used := True\<rparr>) ctx"

text \<open>The scan of one selection set: sets to be scanned are pushed; the head of the list is the top of the stack.\<close>

fun markUsed_scan :: "('v, 'x) validation \<Rightarrow> token_ref selection list \<Rightarrow> 'x vctx \<times> token_ref selection list list \<Rightarrow>
    'x vctx \<times> token_ref selection list list" where
  "markUsed_scan env [] (ctx, stack) = (ctx, stack)"
| "markUsed_scan env (FieldNode _ _ _ _ ss # selections) (ctx, stack) =
     markUsed_scan env selections (ctx, if ss \<noteq> [] then ss # stack else stack)"
| "markUsed_scan env (InlineFragment _ _ ss # selections) (ctx, stack) =
     markUsed_scan env selections (ctx, if ss \<noteq> [] then ss # stack else stack)"
| "markUsed_scan env (FragmentSpread n _ # selections) (ctx, stack) =
     (case FragmentInfo ctx (v_name env n) of
        Some fragment \<Rightarrow>
          if \<not> fragmentInfo_used (fragment_of ctx fragment)
          then markUsed_scan env selections (markFragmentUsed fragment ctx,
                 definition_GetSelectionSet (fragmentInfo_def (fragment_of ctx fragment)) # stack)
          else markUsed_scan env selections (ctx, stack)
      | None \<Rightarrow> markUsed_scan env selections (ctx, stack))"

text \<open>For the termination of the loop: the fragments that are not marked.\<close>

definition flagged :: "(fragment_info \<Rightarrow> bool) \<Rightarrow> 'x vctx \<Rightarrow> string set" where
  "flagged P ctx = {n. \<exists>i. map_of (ctx_fragmentInfos ctx) n = Some i \<and> P i}"

lemma finite_flagged [simp]: "finite (flagged P ctx)"
  by (rule finite_subset [of _ "fst ` set (ctx_fragmentInfos ctx)"]) (auto simp: flagged_def dest: map_of_SomeD intro: rev_image_eqI)

lemma FragmentInfo_Some: "FragmentInfo ctx name = Some r \<longleftrightarrow> r = name \<and> (\<exists>i. map_of (ctx_fragmentInfos ctx) name = Some i)"
  by (auto simp: FragmentInfo_def split: option.splits)

lemma map_of_fragment_update:
  "map_of (ctx_fragmentInfos (fragment_update r f ctx)) = (map_of (ctx_fragmentInfos ctx))(r \<mapsto> f (fragment_of ctx r))"
  by (simp add: fragment_update_def update_conv')

lemma fragment_update_keeps [simp]:
  "ctx_variableInfos (fragment_update r f ctx) = ctx_variableInfos ctx" "ctx_errs (fragment_update r f ctx) = ctx_errs ctx"
  "ctx_currentOperation (fragment_update r f ctx) = ctx_currentOperation ctx"
  "ctx_KnownOperationNames (fragment_update r f ctx) = ctx_KnownOperationNames ctx"
  "ctx_KnownFragmentNames (fragment_update r f ctx) = ctx_KnownFragmentNames ctx"
  by (simp_all add: fragment_update_def)

definition unused :: "'x vctx \<Rightarrow> string set" where
  "unused ctx = flagged (\<lambda>i. \<not> fragmentInfo_used i) ctx"

lemma unused_markFragmentUsed:
  "map_of (ctx_fragmentInfos ctx) r = Some i \<Longrightarrow> unused (markFragmentUsed r ctx) = unused ctx - {r}"
  by (auto simp: unused_def flagged_def markFragmentUsed_def map_of_fragment_update split: if_splits)

lemma finite_unused [simp]: "finite (unused ctx)"
  by (simp add: unused_def)

lemma markUsed_scan_measure:
  "markUsed_scan env ss (ctx, stack) = (ctx', stack') \<Longrightarrow>
   card (unused ctx') < card (unused ctx) \<or>
   unused ctx' = unused ctx \<and> sum_list (map (\<lambda>s. Suc (size_list size s)) stack') \<le> size_list size ss + sum_list (map (\<lambda>s. Suc (size_list size s)) stack)"
proof (induction env ss "(ctx, stack)" arbitrary: ctx stack rule: markUsed_scan.induct)
  case (4 env n d selections ctx stack)
  show ?case
  proof (cases "FragmentInfo ctx (v_name env n)")
    case None
    then show ?thesis using 4 by fastforce
  next
    case (Some r)
    then obtain i where i: "r = v_name env n" "map_of (ctx_fragmentInfos ctx) r = Some i" by (auto simp: FragmentInfo_Some)
    show ?thesis
    proof (cases "fragmentInfo_used (fragment_of ctx r)")
      case True
      then show ?thesis using 4 Some by fastforce
    next
      case False
      then have "r \<in> unused ctx" using i by (auto simp: unused_def flagged_def fragment_of_def)
      then have "card (unused (markFragmentUsed r ctx)) < card (unused ctx)"
        using unused_markFragmentUsed [OF i(2)] card_Diff1_less [OF finite_unused] by metis
      moreover have "card (unused ctx') \<le> card (unused (markFragmentUsed r ctx))"
        using 4(2) [OF Some False] 4(4) Some False by fastforce
      ultimately show ?thesis by linarith
    qed
  qed
qed (fastforce split: if_splits)+

function markUsed_loop :: "('v, 'x) validation \<Rightarrow> 'x vctx \<Rightarrow> token_ref selection list list \<Rightarrow> 'x vctx" where
  "markUsed_loop env ctx [] = ctx"
| "markUsed_loop env ctx (selectionSet # stack) =
     (case markUsed_scan env selectionSet (ctx, stack) of (ctx', stack') \<Rightarrow> markUsed_loop env ctx' stack')"
  by pat_completeness auto
termination
proof (relation "measures [\<lambda>(env, ctx, stack). card (unused ctx), \<lambda>(env, ctx, stack). sum_list (map (\<lambda>s. Suc (size_list size s)) stack)]", goal_cases)
  case (2 env ctx ss stack ctx' stack')
  show ?case using markUsed_scan_measure [OF 2 [symmetric]] 2 [symmetric] by auto
qed auto

definition RecursivelyMarkUsed :: "('v, 'x) validation \<Rightarrow> fragment_ref \<Rightarrow> 'x vctx \<Rightarrow> 'x vctx" where
  "RecursivelyMarkUsed env r ctx =
     (if fragmentInfo_used (fragment_of ctx r) then ctx
      else markUsed_loop env (markFragmentUsed r ctx) [definition_GetSelectionSet (fragmentInfo_def (fragment_of ctx r))])"

definition NoUnusedFragments_CheckFragmentSpread :: "('v, 'x) fragment_spread_check" where
  "NoUnusedFragments_CheckFragmentSpread env parentType fragmentInfo fragmentSpread = and_then_continue (\<lambda>ctx.
     case fragmentInfo of None \<Rightarrow> (Ok (), ctx) | Some r \<Rightarrow> (Ok (), RecursivelyMarkUsed env r ctx))"

definition NoUnusedFragments_CheckFragment :: "('v, 'x) fragment_check" where
  "NoUnusedFragments_CheckFragment env fragmentInfo fragment = and_then_skip (\<lambda>ctx.
     case fragmentInfo of
       None \<Rightarrow> (Panic, ctx)
     | Some r \<Rightarrow>
         report_when (\<not> fragmentInfo_used (fragment_of ctx r))
           (report_at env (UnusedFragMessage (v_name env (fragment_Name fragment))) (DefinitionNode fragment)) ctx)"

definition NoUnusedFragments :: "('v, 'x) validation_rule" where
  "NoUnusedFragments = no_checks\<lparr>CheckFragment := Some NoUnusedFragments_CheckFragment,
     CheckFragmentSpread := Some NoUnusedFragments_CheckFragmentSpread\<rparr>"

section \<open>Possible fragment spreads\<close>

text \<open>The type assertions to \<open>graphql.Object\<close> panic on other types.\<close>

definition doTypesOverlap :: "('v, 'x) validation \<Rightarrow> gtype \<Rightarrow> gtype \<Rightarrow> (unit, bool) outcome" where
  "doTypesOverlap env typeA typeB =
     (let abstract = (\<lambda>t. case t of Named n \<Rightarrow> IsAbstractDef (v_types env ! n) | _ \<Rightarrow> False);
          contains = (\<lambda>t o'. case (t, o') of
              (Named n, Named m) \<Rightarrow> if IsObjectDef (v_types env ! m) then Ok (m \<in> set (PossibleTypes (v_schema env) n)) else Panic
            | _ \<Rightarrow> Panic)
      in if typeA = typeB then Ok True
         else if abstract typeA then
           if abstract typeB then
             Ok (DoesIntersect (PossibleTypes (v_schema env) (NamedTypeOf typeA)) (PossibleTypes (v_schema env) (NamedTypeOf typeB)))
           else contains typeA typeB
         else if abstract typeB then contains typeB typeA
         else Ok False)"

definition PossibleFragmentSpreads_CheckInlineFragment :: "('v, 'x) inline_fragment_check" where
  "PossibleFragmentSpreads_CheckInlineFragment env parentType typeCondition fragment = and_then_continue (
     case (parentType, typeCondition) of
       (Some p, Some t) \<Rightarrow>
         if IsCompositeType (v_types env) p \<and> IsCompositeType (v_types env) t then
           andThen (lift_outcome (doTypesOverlap env t p)) (\<lambda>overlap.
             report_when (\<not> overlap) (report_at env (TypeIncompatibleAnonSpreadMessage (v_Inspect env p) (v_Inspect env t)) (SelectionNode fragment)))
         else ret ()
     | _ \<Rightarrow> ret ())"

definition PossibleFragmentSpreads_CheckFragmentSpread :: "('v, 'x) fragment_spread_check" where
  "PossibleFragmentSpreads_CheckFragmentSpread env parentType fragmentInfo fragmentSpread = and_then_continue (
     andThen (TypeCondition fragmentInfo) (\<lambda>fragType.
     case (parentType, fragType) of
       (Some p, Some t) \<Rightarrow>
         if IsCompositeType (v_types env) t then
           andThen (lift_outcome (doTypesOverlap env t p)) (\<lambda>overlap.
             report_when (\<not> overlap)
               (report_at env (TypeIncompatibleSpreadMessage (v_name env (field_name_node fragmentSpread)) (v_Inspect env p) (v_Inspect env t))
                  (SelectionNode fragmentSpread)))
         else ret ()
     | _ \<Rightarrow> ret ()))"

definition PossibleFragmentSpreads :: "('v, 'x) validation_rule" where
  "PossibleFragmentSpreads = no_checks\<lparr>CheckInlineFragment := Some PossibleFragmentSpreads_CheckInlineFragment,
     CheckFragmentSpread := Some PossibleFragmentSpreads_CheckFragmentSpread\<rparr>"

section \<open>Cycles\<close>

text \<open>Reports change the list of errors only.\<close>

lemma ReportError_ctx: "ReportError message args ctx = (r, ctx') \<Longrightarrow> \<exists>errs. ctx' = ctx\<lparr>ctx_errs := errs\<rparr>"
  by (auto simp: ReportError_def split: outcome.splits intro: exI [of _ "ctx_errs ctx"])

lemma locations_of_ctx: "locations_of env nodes ctx = (r, ctx') \<Longrightarrow> ctx' = ctx"
proof (induction nodes arbitrary: r ctx')
  case (Cons node nodes)
  obtain r1 c1 where l: "locations_of env nodes ctx = (r1, c1)" by fastforce
  then have "c1 = ctx" using Cons.IH by blast
  then show ?case using Cons.prems l by (auto simp: andThen_def location_of_def split: outcome.splits)
qed simp

lemma report_nodes_ctx: "report_nodes env message nodes ctx = (r, ctx') \<Longrightarrow> \<exists>errs. ctx' = ctx\<lparr>ctx_errs := errs\<rparr>"
proof -
  assume a: "report_nodes env message nodes ctx = (r, ctx')"
  obtain r1 c1 where l: "locations_of env nodes ctx = (r1, c1)" by fastforce
  then have "c1 = ctx" using locations_of_ctx by blast
  moreover have "\<exists>errs. ctx = ctx\<lparr>ctx_errs := errs\<rparr>" by (rule exI [of _ "ctx_errs ctx"]) simp
  ultimately show ?thesis using a l by (cases r1) (auto simp: report_nodes_def andThen_def dest: ReportError_ctx)
qed

text \<open>The fragment spreads of a body, in the order in which the scan finds them: from the last selection to the first, with nested sets later.\<close>

fun spreads_of :: "'t selection list \<Rightarrow> 't selection list" where
  "spreads_of [] = []"
| "spreads_of (FragmentSpread n d # ss) = FragmentSpread n d # spreads_of ss"
| "spreads_of (_ # ss) = spreads_of ss"

fun subsets_of :: "'t selection list \<Rightarrow> 't selection list list" where
  "subsets_of [] = []"
| "subsets_of (FieldNode _ _ _ _ ss' # ss) = ss' # subsets_of ss"
| "subsets_of (InlineFragment _ _ ss' # ss) = ss' # subsets_of ss"
| "subsets_of (FragmentSpread _ _ # ss) = subsets_of ss"

lemma subsets_of_append: "subsets_of (xs @ ys) = subsets_of xs @ subsets_of ys"
  by (induction xs rule: subsets_of.induct) auto

lemma subsets_of_size: "sum_list (map (\<lambda>s. Suc (size_list size s)) (subsets_of ss)) \<le> size_list size ss"
  by (induction ss rule: subsets_of.induct) auto

lemma size_list_rev: "size_list f (rev xs) = size_list f xs"
  by (induction xs) (simp_all add: size_list_append)

function scan_spreads :: "'t selection list list \<Rightarrow> 't selection list" where
  "scan_spreads [] = []"
| "scan_spreads (selectionSet # selectionSets) =
     spreads_of (rev selectionSet) @ scan_spreads (rev (subsets_of (rev selectionSet)) @ selectionSets)"
  by pat_completeness auto
termination
proof (relation "measure (\<lambda>sets. sum_list (map (\<lambda>s. Suc (size_list size s)) sets))", goal_cases)
  case (2 ss stack)
  have "sum_list (map (\<lambda>s. Suc (size_list size s)) (rev (subsets_of (rev ss)))) \<le> size_list size ss"
    using subsets_of_size [of "rev ss"] by (simp add: rev_map [symmetric] sum_list_rev size_list_rev)
  then show ?case by simp
qed simp

type_synonym stack_data = "nat \<times> fragment_ref \<times> token_ref selection"

definition spread_name :: "('v, 'x) validation \<Rightarrow> token_ref selection \<Rightarrow> string" where
  "spread_name env spread = v_name env (field_name_node spread)"

definition fragmentInfo_Name :: "('v, 'x) validation \<Rightarrow> fragment_info \<Rightarrow> string" where
  "fragmentInfo_Name env info = v_name env (fragment_Name (fragmentInfo_def info))"

definition cycle_spread :: "('v, 'x) validation \<Rightarrow> token_ref selection list \<Rightarrow> (string \<rightharpoonup> nat) \<Rightarrow> token_ref selection \<Rightarrow>
    ('x vctx \<times> stack_data list, unit, unit) action" where
  "cycle_spread env spreadPath spreadPathIndexByName spread = (\<lambda>(ctx, stack).
     case FragmentInfo ctx (spread_name env spread) of
       None \<Rightarrow> (Ok (), ctx, stack)
     | Some f \<Rightarrow>
         (let name = fragmentInfo_Name env (fragment_of ctx f) in
          case spreadPathIndexByName name of
            None \<Rightarrow>
              (Ok (), ctx, if fragmentInfo_CycleChecked (fragment_of ctx f) then stack else (length spreadPath, f, spread) # stack)
          | Some i \<Rightarrow>
              if length spreadPath < i then (Panic, ctx, stack)
              else let cyclePath = drop i spreadPath in
                case report_nodes env (CycleErrorMessage name (map (spread_name env) cyclePath)) (map SelectionNode (cyclePath @ [spread])) ctx of
                  (r, ctx) \<Rightarrow> (r, ctx, stack)))"

definition markCycleChecked :: "fragment_ref \<Rightarrow> 'x vctx \<Rightarrow> 'x vctx" where
  "markCycleChecked r ctx = fragment_update r (\<lambda>i. i\<lparr>fragmentInfo_CycleChecked := True\<rparr>) ctx"

definition unvisited :: "'x vctx \<Rightarrow> string set" where
  "unvisited ctx = flagged (\<lambda>i. \<not> fragmentInfo_CycleChecked i) ctx"

lemma unvisited_markCycleChecked: "unvisited (markCycleChecked r ctx) = unvisited ctx - {r}"
  by (auto simp: unvisited_def flagged_def markCycleChecked_def map_of_fragment_update split: if_splits)

lemma unvisited_errs [simp]: "unvisited (ctx\<lparr>ctx_errs := errs\<rparr>) = unvisited ctx"
  by (simp add: unvisited_def flagged_def)

lemma cycle_spread_state:
  assumes "cycle_spread env path index spread (ctx, stack) = (r, ctx', stack')"
  shows "(\<exists>errs. ctx' = ctx\<lparr>ctx_errs := errs\<rparr>) \<and> (\<exists>new. stack' = new @ stack \<and> (\<forall>(d, f, s) \<in> set new. f \<in> unvisited ctx))"
proof -
  have refl: "\<exists>errs. ctx = ctx\<lparr>ctx_errs := errs\<rparr>" by (rule exI [of _ "ctx_errs ctx"]) simp
  show ?thesis
  proof (cases "FragmentInfo ctx (spread_name env spread)")
    case None
    then show ?thesis using assms refl by (auto simp: cycle_spread_def)
  next
    case (Some f)
    show ?thesis
    proof (cases "index (fragmentInfo_Name env (fragment_of ctx f))")
      case None
      then show ?thesis using assms refl Some
        by (auto simp: cycle_spread_def Let_def FragmentInfo_Some unvisited_def flagged_def fragment_of_def split: if_splits)
    next
      case (Some i)
      then show ?thesis using assms refl \<open>FragmentInfo ctx (spread_name env spread) = Some f\<close>
        by (auto simp: cycle_spread_def Let_def split: if_splits prod.splits dest: report_nodes_ctx)
    qed
  qed
qed

lemma cycle_spreads_state:
  "for_each (cycle_spread env path index) spreads (ctx, stack) = (r, ctx', stack') \<Longrightarrow>
   (\<exists>errs. ctx' = ctx\<lparr>ctx_errs := errs\<rparr>) \<and> (\<exists>new. stack' = new @ stack \<and> (\<forall>(d, f, s) \<in> set new. f \<in> unvisited ctx))"
proof (induction spreads arbitrary: ctx stack)
  case Nil
  then show ?case by (auto intro: exI [of _ "ctx_errs ctx"])
next
  case (Cons spread spreads)
  obtain r1 c1 s1 where h: "cycle_spread env path index spread (ctx, stack) = (r1, c1, s1)" by (metis prod.exhaust)
  note st = cycle_spread_state [OF h]
  show ?case
  proof (cases r1)
    case (Ok u)
    then have "for_each (cycle_spread env path index) spreads (c1, s1) = (r, ctx', stack')" using Cons.prems h by (simp add: andThen_def)
    from Cons.IH [OF this] st show ?thesis by fastforce
  qed (use Cons.prems h st in \<open>auto simp: andThen_def\<close>)
qed

text \<open>
  The search. The head of the list is the top of the stack; the body of a fragment that has been visited since it was pushed is scanned again.
\<close>

function cycles_loop :: "('v, 'x) validation \<Rightarrow> fragment_ref \<Rightarrow> token_ref selection list \<Rightarrow> (string \<rightharpoonup> nat) \<Rightarrow> stack_data list \<Rightarrow>
    ('x vctx, unit, unit) action" where
  "cycles_loop env fragmentInfo spreadPath spreadPathIndexByName stack ctx =
     (case for_each (cycle_spread env spreadPath spreadPathIndexByName)
             (scan_spreads [definition_GetSelectionSet (fragmentInfo_def (fragment_of ctx fragmentInfo))])
             (markCycleChecked fragmentInfo ctx, stack) of
        (Ok _, ctx', stack') \<Rightarrow>
          (case stack' of
             [] \<Rightarrow> (Ok (), ctx')
           | (depth, f, spread) # rest \<Rightarrow>
               if length spreadPath < depth then (Panic, ctx')
               else let index' = fold (\<lambda>s m. m(spread_name env s := None)) (drop depth spreadPath) spreadPathIndexByName;
                        path' = take depth spreadPath @ [spread]
                    in cycles_loop env f path' (index'(fragmentInfo_Name env (fragment_of ctx' f) \<mapsto> length path')) rest ctx')
      | (Error e, ctx', stack') \<Rightarrow> (Error e, ctx')
      | (Panic, ctx', stack') \<Rightarrow> (Panic, ctx')
      | (OutOfFuel, ctx', stack') \<Rightarrow> (OutOfFuel, ctx'))"
  by pat_completeness auto
termination
proof (relation "measures [\<lambda>(env, f, path, index, stack, ctx). card (unvisited ctx),
    \<lambda>(env, f, path, index, stack, ctx). if f \<in> unvisited ctx then 0 else Suc (length stack)]", goal_cases)
  case (2 env f path index stack ctx p r q ctx' stack' d rest depth q2 f' spread index' path')
  have h: "for_each (cycle_spread env path index) (scan_spreads [definition_GetSelectionSet (fragmentInfo_def (fragment_of ctx f))])
      (markCycleChecked f ctx, stack) = (Ok q, ctx', stack')" using 2 by simp
  obtain new where ctx': "unvisited ctx' = unvisited ctx - {f}" and st: "(depth, f', spread) # rest = new @ stack"
    and new: "\<forall>(d, g, s) \<in> set new. g \<in> unvisited ctx - {f}"
    using cycle_spreads_state [OF h] 2 by (auto simp: unvisited_markCycleChecked)
  show ?case
  proof (cases "f \<in> unvisited ctx")
    case True
    then have "card (unvisited ctx') < card (unvisited ctx)"
      using ctx' card_Diff1_less [of "unvisited ctx" f] by (simp add: unvisited_def)
    then show ?thesis by simp
  next
    case False
    then have eq: "unvisited ctx' = unvisited ctx" using ctx' by simp
    show ?thesis
    proof (cases new)
      case Nil
      then have "Suc (length rest) = length stack" using arg_cong [OF st, of length] by simp
      then show ?thesis using False eq by simp
    next
      case (Cons x xs)
      then have "f' \<in> unvisited ctx'" using st new eq by auto
      then show ?thesis using False eq by simp
    qed
  qed
qed auto

declare cycles_loop.simps [simp del]

definition NoFragmentCycles_CheckFragment :: "('v, 'x) fragment_check" where
  "NoFragmentCycles_CheckFragment env fragmentInfo fragment = and_then_skip (\<lambda>ctx.
     case fragmentInfo of
       None \<Rightarrow> (Panic, ctx)
     | Some r \<Rightarrow>
         if fragmentInfo_CycleChecked (fragment_of ctx r) then (Ok (), ctx)
         else cycles_loop env r [] [v_name env (fragment_Name fragment) \<mapsto> 0] [] ctx)"

definition NoFragmentCycles :: "('v, 'x) validation_rule" where
  "NoFragmentCycles = no_checks\<lparr>CheckFragment := Some NoFragmentCycles_CheckFragment\<rparr>"

end
