(* ===== verification/ValidatorSpec.thy ===== *)
theory ValidatorSpec
  imports FragmentRules
begin

text \<open>
  What the walk visits. The locale \<open>operation_walk\<close> is the contract between the walk of an operation and a rule that looks at variable usages and
  fragment spreads: the checks of the rule have an effect that is determined by the names they have seen, and the walk shows them the
  spreads of the operation and the usages in the operation and in every fragment that is reachable from it.
\<close>

section \<open>Names in a document\<close>

fun value_uses :: "'t ast_value \<Rightarrow> 't name list" where
  "value_uses (Variable n) = [n]"
| "value_uses (ListValue vs) = concat (map value_uses vs)"
| "value_uses (ObjectValue fs) = concat (map (\<lambda>f. value_uses (objectField_Value f)) fs)"
| "value_uses _ = []"

definition argument_uses :: "'t argument list \<Rightarrow> 't name list" where
  "argument_uses args = concat (map (\<lambda>a. value_uses (argument_Value a)) args)"

definition directive_uses :: "'t directive list \<Rightarrow> 't name list" where
  "directive_uses ds = concat (map (\<lambda>d. argument_uses (directive_Arguments d)) ds)"

fun selection_uses :: "'t selection \<Rightarrow> 't name list" where
  "selection_uses (FieldNode _ _ args ds ss) = argument_uses args @ directive_uses ds @ concat (map selection_uses ss)"
| "selection_uses (InlineFragment _ ds ss) = directive_uses ds @ concat (map selection_uses ss)"
| "selection_uses (FragmentSpread _ ds) = directive_uses ds"

fun selection_spreads :: "'t selection \<Rightarrow> 't name list" where
  "selection_spreads (FieldNode _ _ args ds ss) = concat (map selection_spreads ss)"
| "selection_spreads (InlineFragment _ ds ss) = concat (map selection_spreads ss)"
| "selection_spreads (FragmentSpread n ds) = [n]"

definition names :: "('v, 'x) validation \<Rightarrow> token_ref name list \<Rightarrow> string set" where
  "names env ns = v_name env ` set ns"

lemma names_simps [simp]: "names env [] = {}" "names env [n] = {v_name env n}" "names env (xs @ ys) = names env xs \<union> names env ys"
  "names env (concat xss) = (\<Union>xs \<in> set xss. names env xs)"
  by (auto simp: names_def)

definition uses_of :: "('v, 'x) validation \<Rightarrow> token_ref selection list \<Rightarrow> string set" where
  "uses_of env ss = (\<Union>s \<in> set ss. names env (selection_uses s))"

definition spreads_in :: "('v, 'x) validation \<Rightarrow> token_ref selection list \<Rightarrow> string set" where
  "spreads_in env ss = (\<Union>s \<in> set ss. names env (selection_spreads s))"

section \<open>Fragments\<close>

definition known_fragments :: "('v, 'x) validation \<Rightarrow> string set" where
  "known_fragments env = dom (map_of (fragmentInfoMap env))"

definition body :: "('v, 'x) validation \<Rightarrow> string \<Rightarrow> token_ref selection list" where
  "body env name = definition_GetSelectionSet (fragmentInfo_def (the (map_of (fragmentInfoMap env) name)))"

text \<open>The fragments that a fragment spreads.\<close>

definition successors :: "('v, 'x) validation \<Rightarrow> string \<Rightarrow> string set" where
  "successors env name = spreads_in env (body env name) \<inter> known_fragments env"

inductive spreads_to :: "('v, 'x) validation \<Rightarrow> string set \<Rightarrow> string \<Rightarrow> bool" for env N where
  spreads_to_spread: "name \<in> N \<Longrightarrow> name \<in> known_fragments env \<Longrightarrow> spreads_to env N name"
| spreads_to_body: "spreads_to env N m \<Longrightarrow> name \<in> successors env m \<Longrightarrow> spreads_to env N name"

lemma spreads_to_known: "spreads_to env N name \<Longrightarrow> name \<in> known_fragments env"
  by (induction rule: spreads_to.induct) (auto simp: successors_def)

lemma spreads_to_mono: "spreads_to env N name \<Longrightarrow> N \<subseteq> M \<Longrightarrow> spreads_to env M name"
  by (induction rule: spreads_to.induct) (auto intro: spreads_to.intros)

lemma spreads_to_from_body: "spreads_to env (spreads_in env (body env m)) name \<Longrightarrow> spreads_to env N m \<Longrightarrow> spreads_to env N name"
  by (induction rule: spreads_to.induct) (auto simp: successors_def intro: spreads_to_body)

lemma spreads_to_closed: "spreads_to env N name \<Longrightarrow> N \<inter> known_fragments env \<subseteq> V \<Longrightarrow> (\<And>m. m \<in> V \<Longrightarrow> successors env m \<subseteq> V) \<Longrightarrow> name \<in> V"
  by (induction rule: spreads_to.induct) auto

lemma spreads_to_Un: "spreads_to env (N \<union> M) name \<longleftrightarrow> spreads_to env N name \<or> spreads_to env M name"
proof
  show "spreads_to env (N \<union> M) name \<Longrightarrow> spreads_to env N name \<or> spreads_to env M name"
    by (induction rule: spreads_to.induct) (auto intro: spreads_to.intros)
qed (auto intro: spreads_to_mono)

definition body_uses :: "('v, 'x) validation \<Rightarrow> string set \<Rightarrow> string set" where
  "body_uses env F = (\<Union>m \<in> F. uses_of env (body env m))"

lemma body_uses_Un: "body_uses env (F \<union> G) = body_uses env F \<union> body_uses env G"
  by (auto simp: body_uses_def)

lemma body_uses_empty [simp]: "body_uses env {} = {}"
  by (simp add: body_uses_def)

text \<open>The variables that an operation uses with the fragments it spreads.\<close>

definition all_uses :: "('v, 'x) validation \<Rightarrow> token_ref selection list \<Rightarrow> string set" where
  "all_uses env ss = uses_of env ss \<union> body_uses env {m. spreads_to env (spreads_in env ss) m}"

section \<open>Frames\<close>

definition same_fragments :: "'x vctx \<Rightarrow> 'x vctx \<Rightarrow> bool" where
  "same_fragments c c' \<longleftrightarrow>
     (\<forall>name. map_option (\<lambda>i. (fragmentInfo_def i, fragmentInfo_typeCondition i)) (map_of (ctx_fragmentInfos c) name) =
             map_option (\<lambda>i. (fragmentInfo_def i, fragmentInfo_typeCondition i)) (map_of (ctx_fragmentInfos c') name))"

definition frame :: "'x vctx \<Rightarrow> 'x vctx \<Rightarrow> bool" where
  "frame c c' \<longleftrightarrow> same_fragments c c' \<and> ctx_currentOperation c' = ctx_currentOperation c \<and>
     dom (ctx_variableInfos c') = dom (ctx_variableInfos c)"

lemma same_fragments_refl [simp]: "same_fragments c c"
  by (simp add: same_fragments_def)

lemma same_fragments_trans: "same_fragments c c' \<Longrightarrow> same_fragments c' c'' \<Longrightarrow> same_fragments c c''"
  by (simp add: same_fragments_def)

lemma frame_refl [simp]: "frame c c"
  by (simp add: frame_def)

lemma frame_trans: "frame c c' \<Longrightarrow> frame c' c'' \<Longrightarrow> frame c c''"
  by (auto simp: frame_def intro: same_fragments_trans)

text \<open>The context still has the fragments of the document.\<close>

definition of_document :: "('v, 'x) validation \<Rightarrow> 'x vctx \<Rightarrow> bool" where
  "of_document env c \<longleftrightarrow> same_fragments (newValidationContext env) c"

lemma of_document_new [simp]: "of_document env (newValidationContext env)"
  by (simp add: of_document_def)

lemma of_document_frame: "of_document env c \<Longrightarrow> same_fragments c c' \<Longrightarrow> of_document env c'"
  by (auto simp: of_document_def intro: same_fragments_trans)

lemma of_document_FragmentInfo:
  assumes "of_document env c"
  shows "FragmentInfo c name = (if name \<in> known_fragments env then Some name else None)"
    and "name \<in> known_fragments env \<Longrightarrow> definition_GetSelectionSet (fragmentInfo_def (fragment_of c name)) = body env name"
proof -
  have *: "map_option (\<lambda>i. (fragmentInfo_def i, fragmentInfo_typeCondition i)) (map_of (ctx_fragmentInfos c) name) =
     map_option (\<lambda>i. (fragmentInfo_def i, fragmentInfo_typeCondition i)) (map_of (fragmentInfoMap env) name)"
    using assms by (simp add: of_document_def same_fragments_def newValidationContext_def)
  show "FragmentInfo c name = (if name \<in> known_fragments env then Some name else None)"
    using * by (cases "map_of (fragmentInfoMap env) name") (auto simp: FragmentInfo_def known_fragments_def split: option.splits)
  show "name \<in> known_fragments env \<Longrightarrow> definition_GetSelectionSet (fragmentInfo_def (fragment_of c name)) = body env name"
    using * by (auto simp: fragment_of_def body_def known_fragments_def)
qed

section \<open>The walk of an operation\<close>

text \<open>Rules with checks of operations, fragments, variables, spreads and usages only.\<close>

definition silent :: "('v, 'x) rule_set \<Rightarrow> bool" where
  "silent rs \<longleftrightarrow> selectionSetRules rs = [] \<and> fieldRules rs = [] \<and> fieldArgumentRules rs = [] \<and> inlineFragmentRules rs = [] \<and>
     valueRules rs = [] \<and> directivesRules rs = [] \<and> directiveRules rs = [] \<and> directiveArgumentRules rs = []"

definition rules_at :: "bool \<Rightarrow> ('v, 'x) rule_set \<Rightarrow> ('v, 'x) rule_set" where
  "rules_at b rs = (if b then rs else rulesForFragmentSpreads rs)"

lemma rules_at_simps [simp]:
  "silent rs \<Longrightarrow> silent (rules_at b rs)" "variableUsageRules (rules_at b rs) = variableUsageRules rs"
  "fragmentSpreadRules (rules_at False rs) = []" "rules_at True rs = rs" "rulesForFragmentSpreads (rules_at b rs) = rules_at False rs"
  by (simp_all add: rules_at_def silent_def rulesForFragmentSpreads_def emptyRules_def)

definition good :: "nat \<Rightarrow> 'x walker \<Rightarrow> bool" where
  "good n w \<longleftrightarrow> w_skippingRules w = replicate n None \<and> ctx_currentOperation (w_ctx w) \<noteq> None"

text \<open>The effect of an action: it succeeds with the effect of what has been seen, or it has seen a name that fails.\<close>

definition ends :: "('x vctx \<Rightarrow> string set \<Rightarrow> string set \<Rightarrow> 'x vctx \<Rightarrow> bool) \<Rightarrow> ('x vctx \<Rightarrow> string \<Rightarrow> bool) \<Rightarrow> 'x walker \<Rightarrow>
    (unit, unit) outcome \<Rightarrow> 'x walker \<Rightarrow> string set \<Rightarrow> string set \<Rightarrow> bool" where
  "ends E fails w r w' S U \<longleftrightarrow>
     (if r = Ok () then \<exists>c'. w' = w\<lparr>w_ctx := c'\<rparr> \<and> E (w_ctx w) S U c' else \<exists>x \<in> U. fails (w_ctx w) x)"

definition acts :: "nat \<Rightarrow> ('x vctx \<Rightarrow> string set \<Rightarrow> string set \<Rightarrow> 'x vctx \<Rightarrow> bool) \<Rightarrow> ('x vctx \<Rightarrow> string \<Rightarrow> bool) \<Rightarrow> 'x walk_action \<Rightarrow>
    string set \<Rightarrow> string set \<Rightarrow> bool" where
  "acts n E fails a S U \<longleftrightarrow> (\<forall>w r w'. good n w \<longrightarrow> a w = (r, w') \<longrightarrow> ends E fails w r w' S U)"

definition validated :: "'x walker \<Rightarrow> string set" where
  "validated w = set (w_validatedFragments w)"

text \<open>
  The same for actions that may enter fragments: \<open>N\<close> are the spreads and \<open>U\<close> the usages in what is visited itself, \<open>S\<close> are the spreads that
  the rules are shown.
\<close>

definition visits :: "('v, 'x) validation \<Rightarrow> ('x vctx \<Rightarrow> string set \<Rightarrow> string set \<Rightarrow> 'x vctx \<Rightarrow> bool) \<Rightarrow> ('x vctx \<Rightarrow> string \<Rightarrow> bool) \<Rightarrow>
    'x walker \<Rightarrow> (unit, unit) outcome \<Rightarrow> 'x walker \<Rightarrow> string set \<Rightarrow> string set \<Rightarrow> string set \<Rightarrow> bool" where
  "visits env E fails w r w' S N U \<longleftrightarrow>
     (if r = Ok () then
        w_skippingRules w' = w_skippingRules w \<and>
        E (w_ctx w) S (U \<union> body_uses env (validated w' - validated w)) (w_ctx w') \<and>
        validated w \<subseteq> validated w' \<and> N \<inter> known_fragments env \<subseteq> validated w' \<and>
        (\<forall>m \<in> validated w' - validated w. successors env m \<subseteq> validated w') \<and>
        validated w' - validated w \<subseteq> {m. spreads_to env N m}
      else \<exists>x \<in> U \<union> body_uses env {m. spreads_to env N m}. fails (w_ctx w) x)"

locale operation_walk =
  fixes env :: "('v, 'x) validation" and rs :: "('v, 'x) rule_set" and n :: nat
    and E :: "'x vctx \<Rightarrow> string set \<Rightarrow> string set \<Rightarrow> 'x vctx \<Rightarrow> bool" and fails :: "'x vctx \<Rightarrow> string \<Rightarrow> bool"
  assumes silent: "silent rs"
    and E_refl: "E c {} {} c"
    and E_trans: "E c S U c' \<Longrightarrow> E c' S' U' c'' \<Longrightarrow> E c (S \<union> S') (U \<union> U') c''"
    and E_frame: "E c S U c' \<Longrightarrow> frame c c'"
    and fails_frame: "frame c c' \<Longrightarrow> fails c' x \<Longrightarrow> fails c x"
    and usage: "acts n E fails (\<lambda>w. variableUsageRules_Run env rs t v d (VariableInfo (w_ctx w) (v_name env v)) w) {} {v_name env v}"
    and spread: "acts n E fails (\<lambda>w. fragmentSpreadRules_Run env rs p (FragmentInfo (w_ctx w) (v_name env m)) (FragmentSpread m ds) w) {v_name env m} {}"
begin

lemma good_E: "good n w \<Longrightarrow> E (w_ctx w) S U c \<Longrightarrow> good n (w\<lparr>w_ctx := c\<rparr>)"
  using E_frame by (fastforce simp: good_def frame_def)

lemma acts_same: "(\<And>w. good n w \<Longrightarrow> a w = (Ok (), w)) \<Longrightarrow> acts n E fails a {} {}"
  unfolding acts_def
proof (intro allI impI)
  fix w r w'
  assume "\<And>w. good n w \<Longrightarrow> a w = (Ok (), w)" "good n w" "a w = (r, w')"
  then have "r = Ok ()" "w' = w\<lparr>w_ctx := w_ctx w\<rparr>" by auto
  then show "ends E fails w r w' {} {}" using E_refl unfolding ends_def by metis
qed

lemma acts_ret: "acts n E fails (ret ()) {} {}"
  by (rule acts_same) simp

lemma acts_leaveNode: "acts n E fails (leaveNode node) {} {}"
  by (rule acts_same) (simp add: leaveNode_def good_def)

lemma acts_andThen:
  assumes a: "acts n E fails a S U" and b: "acts n E fails b S' U'"
  shows "acts n E fails (andThen a (\<lambda>_. b)) (S \<union> S') (U \<union> U')"
  unfolding acts_def
proof (intro allI impI)
  fix w r w'
  assume w: "good n w" and run: "andThen a (\<lambda>_. b) w = (r, w')"
  obtain r1 w1 where a1: "a w = (r1, w1)" by fastforce
  then have e1: "ends E fails w r1 w1 S U" using a w by (simp add: acts_def)
  show "ends E fails w r w' (S \<union> S') (U \<union> U')"
  proof (cases "r1 = Ok ()")
    case True
    then obtain c where c: "w1 = w\<lparr>w_ctx := c\<rparr>" "E (w_ctx w) S U c" using e1 by (auto simp: ends_def)
    have "b w1 = (r, w')" using True run a1 by (simp add: andThen_def)
    then have e2: "ends E fails w1 r w' S' U'" using b good_E [OF w c(2)] c(1) by (simp add: acts_def)
    show ?thesis
    proof (cases "r = Ok ()")
      case True
      then obtain c' where "w' = w1\<lparr>w_ctx := c'\<rparr>" "E c S' U' c'" using e2 c(1) by (auto simp: ends_def)
      then show ?thesis using True c E_trans [OF c(2)] by (auto simp: ends_def)
    next
      case False
      then show ?thesis using e2 c fails_frame [OF E_frame [OF c(2)]] by (auto simp: ends_def)
    qed
  next
    case False
    then have "r = r1" using run a1 by (cases r1) (auto simp: andThen_def)
    then show ?thesis using False e1 by (auto simp: ends_def)
  qed
qed

lemma acts_for_each:
  assumes "\<And>x. x \<in> set xs \<Longrightarrow> acts n E fails (f x) {} (U x)"
  shows "acts n E fails (for_each f xs) {} (\<Union>x \<in> set xs. U x)"
  using assms
proof (induction xs)
  case (Cons x xs)
  then have "acts n E fails (f x) {} (U x)" "acts n E fails (for_each f xs) {} (\<Union>x \<in> set xs. U x)" by auto
  from acts_andThen [OF this] show ?case by simp
qed (simp add: acts_ret)

lemma acts_on_operation: "acts n E fails a S U \<Longrightarrow> acts n E fails (on_operation a) S U"
  by (auto simp: acts_def on_operation_def good_def)

lemma silent_Run [simp]:
  "valueRules_Run env (rules_at b rs) t v = ret ()" "directivesRules_Run env (rules_at b rs) ds l = ret ()"
  "directiveRules_Run env (rules_at b rs) di = ret ()" "directiveArgumentRules_Run env (rules_at b rs) di ad a = ret ()"
  "fieldArgumentRules_Run env (rules_at b rs) fi ad a = ret ()" "fieldRules_Run env (rules_at b rs) fi = ret ()"
  "selectionSetRules_Run env (rules_at b rs) t ss = ret ()" "inlineFragmentRules_Run env (rules_at b rs) t t' s = ret ()"
  using rules_at_simps(1) [OF silent, of b] by (simp_all add: Run_defs run_rules_def silent_def fun_eq_iff)

lemma usage_at: "acts n E fails (\<lambda>w. variableUsageRules_Run env (rules_at b rs) t v d (VariableInfo (w_ctx w) (v_name env v)) w) {} {v_name env v}"
  using usage by (simp add: variableUsageRules_Run_def)

lemma acts_walkValue: "acts n E fails (walkValue env (rules_at b rs) t v d) {} (names env (value_uses v))"
proof (induction v arbitrary: t d rule: value_uses.induct)
  case (1 m)
  from acts_andThen [OF acts_on_operation [OF usage_at] acts_leaveNode]
  show ?case by (simp add: walkValue.simps [of _ _ _ "Variable m"])
next
  case (2 vs)
  have "acts n E fails (for_each (\<lambda>v. walkValue env (rules_at b rs) (list_element_type env t) v False) vs) {}
      (\<Union>v \<in> set vs. names env (value_uses v))"
    using 2 by (intro acts_for_each) auto
  from acts_andThen [OF this acts_leaveNode] show ?case by (simp add: walkValue.simps [of _ _ _ "ListValue vs"])
next
  case (3 fs)
  have "acts n E fails (for_each (\<lambda>f. let (fieldType, fieldHasDefaultValue) = object_field_type env t (v_name env (objectField_Name f)) in
             walkValue env (rules_at b rs) fieldType (objectField_Value f) fieldHasDefaultValue) fs) {}
      (\<Union>f \<in> set fs. names env (value_uses (objectField_Value f)))"
    using 3 by (intro acts_for_each) (auto split: prod.splits)
  from acts_andThen [OF this acts_leaveNode] show ?case by (simp add: walkValue.simps [of _ _ _ "ObjectValue fs"])
qed (use acts_leaveNode in \<open>simp_all add: walkValue.simps\<close>)

lemma acts_arguments:
  "acts n E fails (walkFieldArguments env (rules_at b rs) info args) {} (names env (argument_uses args))"
  "acts n E fails (walkDirectiveArguments env (rules_at b rs) di) {} (names env (argument_uses (directive_Arguments (directiveInfo_node di))))"
  unfolding walkFieldArguments_def walkDirectiveArguments_def argument_uses_def names_simps
  by (simp_all, (rule acts_for_each, simp add: Let_def acts_walkValue split: prod.splits)+)

lemma acts_directives: "acts n E fails (walkDirectives env (rules_at b rs) ds l) {} (names env (directive_uses ds))"
proof (cases ds)
  case (Cons d ds')
  have "acts n E fails (walkDirective env (rules_at b rs) l d) {} (names env (argument_uses (directive_Arguments d)))" for d
    unfolding walkDirective_def Let_def
    using acts_andThen [OF acts_arguments(2) acts_leaveNode, of b "\<lparr>directiveInfo_def = _, directiveInfo_node = d, directiveInfo_location = l\<rparr>"] by simp
  then have "acts n E fails (for_each (walkDirective env (rules_at b rs) l) ds) {} (\<Union>d \<in> set ds. names env (argument_uses (directive_Arguments d)))"
    by (intro acts_for_each) auto
  from acts_andThen [OF this acts_leaveNode] show ?thesis using Cons by (simp add: walkDirectives_def directive_uses_def)
qed (simp add: walkDirectives_def directive_uses_def acts_ret)

text \<open>Visits compose.\<close>

lemma visits_of_acts:
  assumes "acts n E fails a S U" "good n w" "a w = (r, w')"
  shows "visits env E fails w r w' S {} U"
proof -
  have "ends E fails w r w' S U" using assms by (simp add: acts_def)
  then show ?thesis by (auto simp: ends_def visits_def validated_def split: if_splits)
qed

lemma visits_good: "visits env E fails w (Ok ()) w' S N U \<Longrightarrow> good n w \<Longrightarrow> good n w'"
  using E_frame by (fastforce simp: visits_def good_def frame_def)

lemma visits_document: "visits env E fails w (Ok ()) w' S N U \<Longrightarrow> of_document env (w_ctx w) \<Longrightarrow> of_document env (w_ctx w')"
  using E_frame by (fastforce simp: visits_def frame_def intro: of_document_frame)

lemma visits_compose:
  assumes v1: "visits env E fails w (Ok ()) w1 S N U" and v2: "visits env E fails w1 r w' S' N' U'"
  shows "visits env E fails w r w' (S \<union> S') (N \<union> N') (U \<union> U')"
proof -
  have f: "frame (w_ctx w) (w_ctx w1)" using v1 E_frame by (auto simp: visits_def)
  show ?thesis
  proof (cases "r = Ok ()")
    case True
    have d: "validated w' - validated w = (validated w' - validated w1) \<union> (validated w1 - validated w)"
      using v1 v2 True by (auto simp: visits_def)
    have "E (w_ctx w) (S \<union> S')
        ((U \<union> body_uses env (validated w1 - validated w)) \<union> (U' \<union> body_uses env (validated w' - validated w1))) (w_ctx w')"
      using v1 v2 True by (intro E_trans) (auto simp: visits_def)
    then have E': "E (w_ctx w) (S \<union> S') (U \<union> U' \<union> body_uses env (validated w' - validated w)) (w_ctx w')"
      by (simp add: d body_uses_Un Un_ac)
    have s: "validated w \<subseteq> validated w1" "validated w1 \<subseteq> validated w'" "N \<inter> known_fragments env \<subseteq> validated w1" "N' \<inter> known_fragments env \<subseteq> validated w'"
      and c: "\<forall>m \<in> validated w1 - validated w. successors env m \<subseteq> validated w1" "\<forall>m \<in> validated w' - validated w1. successors env m \<subseteq> validated w'"
      and r: "validated w1 - validated w \<subseteq> {m. spreads_to env N m}" "validated w' - validated w1 \<subseteq> {m. spreads_to env N' m}"
      using v1 v2 True by (auto simp: visits_def)
    have "validated w \<subseteq> validated w'" "(N \<union> N') \<inter> known_fragments env \<subseteq> validated w'" using s by blast+
    moreover have "\<forall>m \<in> validated w' - validated w. successors env m \<subseteq> validated w'" unfolding d using c s by blast
    moreover have "validated w' - validated w \<subseteq> {m. spreads_to env (N \<union> N') m}" unfolding d spreads_to_Un using r by blast
    moreover have "w_skippingRules w' = w_skippingRules w" using v1 v2 True by (simp add: visits_def)
    ultimately show ?thesis using True E' by (simp add: visits_def)
  next
    case False
    then obtain x where "x \<in> U' \<union> body_uses env {m. spreads_to env N' m}" "fails (w_ctx w1) x" using v2 by (auto simp: visits_def)
    then have "x \<in> (U \<union> U') \<union> body_uses env {m. spreads_to env (N \<union> N') m}" "fails (w_ctx w) x"
      using fails_frame [OF f] by (auto simp: spreads_to_Un body_uses_def)
    then show ?thesis using False unfolding visits_def by auto
  qed
qed

lemma visits_stop:
  assumes "visits env E fails w r w' S N U" "r \<noteq> Ok ()"
  shows "visits env E fails w r w'' S'' (N \<union> N') (U \<union> U')"
proof -
  obtain x where "x \<in> U \<union> body_uses env {m. spreads_to env N m}" "fails (w_ctx w) x" using assms by (auto simp: visits_def)
  then have "x \<in> (U \<union> U') \<union> body_uses env {m. spreads_to env (N \<union> N') m}" by (auto simp: spreads_to_Un body_uses_def)
  then show ?thesis using \<open>fails (w_ctx w) x\<close> assms(2) unfolding visits_def by auto
qed

text \<open>States in which the fragments that have not been entered may all be entered.\<close>

definition ready :: "nat \<Rightarrow> 'x walker \<Rightarrow> bool" where
  "ready fuel w \<longleftrightarrow> good n w \<and> of_document env (w_ctx w) \<and> card (known_fragments env - validated w) \<le> fuel"

lemma finite_known: "finite (known_fragments env)"
  by (simp add: known_fragments_def finite_dom_map_of)

lemma ready_visits:
  assumes "ready fuel w" "visits env E fails w (Ok ()) w' S N U"
  shows "ready fuel w'"
proof -
  have "card (known_fragments env - validated w') \<le> card (known_fragments env - validated w)"
    using assms(2) finite_known by (intro card_mono) (auto simp: visits_def)
  then show ?thesis using assms visits_good visits_document unfolding ready_def by (metis order_trans)
qed

lemma visits_andThen:
  assumes w: "ready fuel w" and v: "\<And>r1 w1. a w = (r1, w1) \<Longrightarrow> visits env E fails w r1 w1 S N U"
    and k: "\<And>w1. ready fuel w1 \<Longrightarrow> k () w1 = (r, w') \<Longrightarrow> visits env E fails w1 r w' S' N' U'"
    and run: "andThen a k w = (r, w')"
  shows "visits env E fails w r w' (S \<union> S') (N \<union> N') (U \<union> U')"
proof -
  obtain r1 w1 where a1: "a w = (r1, w1)" by fastforce
  note v1 = v [OF this]
  show ?thesis
  proof (cases "r1 = Ok ()")
    case True
    have "k () w1 = (r, w')" using True run a1 by (simp add: andThen_def)
    then have "visits env E fails w1 r w' S' N' U'" using k ready_visits [OF w] v1 True by blast
    then show ?thesis using v1 True visits_compose by blast
  next
    case False
    then have "r = r1" using run a1 by (cases r1) (auto simp: andThen_def)
    then show ?thesis using False v1 visits_stop by blast
  qed
qed

definition visitor :: "nat \<Rightarrow> 'x walk_action \<Rightarrow> string set \<Rightarrow> string set \<Rightarrow> string set \<Rightarrow> bool" where
  "visitor fuel a S N U \<longleftrightarrow> (\<forall>w r w'. ready fuel w \<longrightarrow> a w = (r, w') \<longrightarrow> visits env E fails w r w' S N U)"

lemma visitor_acts: "acts n E fails a S U \<Longrightarrow> visitor fuel a S {} U"
  by (auto simp: visitor_def ready_def intro: visits_of_acts)

lemma visitor_andThen:
  assumes a: "visitor fuel a S N U" and k: "visitor fuel k S' N' U'"
  shows "visitor fuel (andThen a (\<lambda>_. k)) (S \<union> S') (N \<union> N') (U \<union> U')"
  unfolding visitor_def
proof (intro allI impI)
  fix w r w'
  assume "ready fuel w" and run: "andThen a (\<lambda>_. k) w = (r, w')"
  then show "visits env E fails w r w' (S \<union> S') (N \<union> N') (U \<union> U')"
    using a k by (intro visits_andThen [OF _ _ _ run]) (auto simp: visitor_def)
qed

lemma visitor_for_each:
  assumes "\<And>x. x \<in> set xs \<Longrightarrow> visitor fuel (f x) (S x) (N x) (U x)"
  shows "visitor fuel (for_each f xs) (\<Union>x \<in> set xs. S x) (\<Union>x \<in> set xs. N x) (\<Union>x \<in> set xs. U x)"
  using assms
proof (induction xs)
  case (Cons x xs)
  then have "visitor fuel (f x) (S x) (N x) (U x)"
    "visitor fuel (for_each f xs) (\<Union>x \<in> set xs. S x) (\<Union>x \<in> set xs. N x) (\<Union>x \<in> set xs. U x)" by auto
  from visitor_andThen [OF this] show ?case by simp
qed (simp add: visitor_acts acts_ret)

definition shown :: "bool \<Rightarrow> string set \<Rightarrow> string set" where
  "shown b N = (if b then N else {})"

lemma visitor_set:
  assumes "\<And>s t. s \<in> set ss \<Longrightarrow> visitor fuel (walkSelection fuel env (rules_at b rs) t s)
      (shown b (names env (selection_spreads s))) (names env (selection_spreads s)) (names env (selection_uses s))"
  shows "visitor fuel (walkSelectionSet fuel env (rules_at b rs) t ss) (shown b (spreads_in env ss)) (spreads_in env ss) (uses_of env ss)"
proof -
  have s: "(\<Union>s \<in> set ss. shown b (names env (selection_spreads s))) = shown b (spreads_in env ss)"
    by (auto simp: shown_def spreads_in_def)
  have "visitor fuel (for_each (walkSelection fuel env (rules_at b rs) t') ss) (shown b (spreads_in env ss)) (spreads_in env ss) (uses_of env ss)" for t'
    using visitor_for_each [of ss fuel "walkSelection fuel env (rules_at b rs) t'", OF assms] by (simp add: s spreads_in_def uses_of_def)
  from visitor_andThen [OF this visitor_acts [OF acts_leaveNode]] show ?thesis
    by (simp add: walkSelectionSet.simps Let_def)
qed

text \<open>What is known of smaller fuel, in the case of a fragment spread.\<close>

definition smaller :: "nat \<Rightarrow> bool" where
  "smaller fuel \<longleftrightarrow> (\<forall>fuel' < fuel. \<forall>t ss. visitor fuel' (walkSelectionSet fuel' env (rules_at False rs) t ss) {} (spreads_in env ss) (uses_of env ss))"

lemma visits_entered:
  assumes w: "ready fuel w" "m \<in> known_fragments env" "m \<notin> validated w"
    and v: "visits env E fails (w\<lparr>w_validatedFragments := m # w_validatedFragments w\<rparr>) r w' {} (spreads_in env (body env m)) (uses_of env (body env m))"
  shows "visits env E fails w r w' {} {m} {}"
proof -
  let ?w = "w\<lparr>w_validatedFragments := m # w_validatedFragments w\<rparr>"
  have val: "validated ?w = insert m (validated w)" by (simp add: validated_def)
  have m: "spreads_to env {m} m" using w(2) by (auto intro: spreads_to_spread)
  have r: "spreads_to env (spreads_in env (body env m)) x \<Longrightarrow> spreads_to env {m} x" for x using spreads_to_from_body m by blast
  show ?thesis
  proof (cases "r = Ok ()")
    case True
    have s: "insert m (validated w) \<subseteq> validated w'" "spreads_in env (body env m) \<inter> known_fragments env \<subseteq> validated w'"
      and c: "\<forall>x \<in> validated w' - insert m (validated w). successors env x \<subseteq> validated w'"
      and q: "validated w' - insert m (validated w) \<subseteq> {x. spreads_to env (spreads_in env (body env m)) x}"
      and E': "E (w_ctx w) {} (uses_of env (body env m) \<union> body_uses env (validated w' - insert m (validated w))) (w_ctx w')"
      using v True val by (auto simp: visits_def)
    have d: "validated w' - validated w = insert m (validated w' - insert m (validated w))" using s(1) w(3) by blast
    have "body_uses env (validated w' - validated w) = uses_of env (body env m) \<union> body_uses env (validated w' - insert m (validated w))"
      unfolding d by (simp add: body_uses_def)
    moreover have "\<forall>x \<in> validated w' - validated w. successors env x \<subseteq> validated w'" unfolding d using c s(2) by (auto simp: successors_def)
    moreover have "validated w' - validated w \<subseteq> {x. spreads_to env {m} x}" unfolding d using q r m by blast
    ultimately show ?thesis using E' s True v by (auto simp: visits_def)
  next
    case False
    then obtain x where x: "x \<in> uses_of env (body env m) \<union> body_uses env {y. spreads_to env (spreads_in env (body env m)) y}" "fails (w_ctx w) x"
      using v by (auto simp: visits_def)
    then have "x \<in> body_uses env {y. spreads_to env {m} y}" using r m by (auto simp: body_uses_def)
    then show ?thesis using x(2) False unfolding visits_def by auto
  qed
qed

lemma visits_spread:
  assumes fuel: "smaller fuel" and w: "ready fuel w" and run: "walkSelection fuel env (rules_at b rs) p (FragmentSpread m ds) w = (r, w')"
  shows "visits env E fails w r w' (shown b {v_name env m}) {v_name env m} (names env (directive_uses ds))"
proof -
  let ?m = "v_name env m"
  let ?info = "FragmentInfo (w_ctx w) ?m"
  let ?enter = "\<lambda>w. case ?info of None \<Rightarrow> (Ok (), w)
          | Some fragmentName \<Rightarrow>
              if ctx_currentOperation (w_ctx w) = None \<or> fragmentName \<in> set (w_validatedFragments w) then (Ok (), w)
              else case fuel of 0 \<Rightarrow> (OutOfFuel, w)
              | Suc fuel' \<Rightarrow>
                  (let info = fragment_of (w_ctx w) fragmentName in
                   andThen (markValidated fragmentName) (\<lambda>_.
                     walkSelectionSet fuel' env (rules_at False rs) (fragmentInfo_typeCondition info)
                       (definition_GetSelectionSet (fragmentInfo_def info))) w)"
  have info: "?info = (if ?m \<in> known_fragments env then Some ?m else None)"
    using of_document_FragmentInfo(1) [of env "w_ctx w" ?m] w by (simp add: ready_def)
  have check: "visits env E fails w r1 w1 (shown b {?m}) {} {}"
    if "fragmentSpreadRules_Run env (rules_at b rs) p ?info (FragmentSpread m ds) w = (r1, w1)" for r1 w1
  proof (cases b)
    case True
    then show ?thesis using visits_of_acts [OF spread, of w p m ds r1 w1] that w by (simp add: shown_def ready_def)
  next
    case False
    then have "(r1, w1) = (Ok (), w)" using that by (simp add: fragmentSpreadRules_Run_def run_rules_def)
    then show ?thesis using False visits_of_acts [OF acts_ret, of w r1 w1] w by (simp add: shown_def ready_def)
  qed
  have enter: "visits env E fails w2 r2 w3 {} {?m} {}" if w2: "ready fuel w2" and r2: "?enter w2 = (r2, w3)" for w2 r2 w3
  proof -
    have same: "visits env E fails w2 (Ok ()) w2 {} {?m} {}" if "?m \<notin> known_fragments env \<or> ?m \<in> validated w2"
      using that E_refl by (auto simp: visits_def)
    show ?thesis
    proof (cases "?m \<in> known_fragments env \<and> ?m \<notin> validated w2")
      case False
      then have "(r2, w3) = (Ok (), w2)" using r2 info by (auto simp: validated_def split: if_splits)
      then show ?thesis using same False by auto
    next
      case True
      then have "known_fragments env - validated w2 \<noteq> {}" by blast
      then have "0 < fuel" using w2 finite_known card_gt_0_iff [of "known_fragments env - validated w2"] by (auto simp: ready_def)
      then obtain fuel' where f: "fuel = Suc fuel'" by (cases fuel) auto
      let ?w3 = "w2\<lparr>w_validatedFragments := ?m # w_validatedFragments w2\<rparr>"
      have op: "ctx_currentOperation (w_ctx w2) \<noteq> None" using w2 by (simp add: ready_def good_def)
      have b: "definition_GetSelectionSet (fragmentInfo_def (fragment_of (w_ctx w2) ?m)) = body env ?m"
        using of_document_FragmentInfo(2) [of env "w_ctx w2" ?m] w2 True by (simp add: ready_def)
      have run3: "walkSelectionSet fuel' env (rules_at False rs) (fragmentInfo_typeCondition (fragment_of (w_ctx w2) ?m)) (body env ?m) ?w3 = (r2, w3)"
        using r2 info True op f b by (simp add: Let_def markValidated_def andThen_def validated_def)
      have d: "known_fragments env - validated ?w3 = (known_fragments env - validated w2) - {?m}" by (auto simp: validated_def)
      have c: "card (known_fragments env - validated w2) \<le> Suc fuel'" using w2 f by (simp add: ready_def)
      have "card (known_fragments env - validated ?w3) = card (known_fragments env - validated w2) - 1"
        unfolding d using True by (intro card_Diff_singleton) simp
      then have "card (known_fragments env - validated ?w3) \<le> fuel'" using c by linarith
      then have "ready fuel' ?w3" using w2 by (simp add: ready_def good_def)
      then have "visits env E fails ?w3 r2 w3 {} (spreads_in env (body env ?m)) (uses_of env (body env ?m))"
        using fuel f run3 unfolding smaller_def visitor_def by (metis lessI)
      then show ?thesis using visits_entered [OF w2] True by blast
    qed
  qed
  have leave: "visits env E fails w3 r3 w4 {} {} {}" if "ready fuel w3" "leaveNode nd w3 = (r3, w4)" for w3 r3 w4 nd
    using visits_of_acts [OF acts_leaveNode] that by (simp add: ready_def)
  have dirs: "visits env E fails w1 r2 w2 {} {} (names env (directive_uses ds))"
    if "ready fuel w1" "walkDirectives env (rules_at b rs) ds l w1 = (r2, w2)" for w1 r2 w2 l
    using visits_of_acts [OF acts_directives] that by (simp add: ready_def)
  define k2 where "k2 = andThen ?enter (\<lambda>_. leaveNode (SelectionNode (FragmentSpread m ds)))"
  define k1 where "k1 = andThen (walkDirectives env (rules_at b rs) ds ''FRAGMENT_SPREAD'') (\<lambda>_. k2)"
  have s2: "visits env E fails w2 r w' ({} \<union> {}) ({?m} \<union> {}) ({} \<union> {})" if "ready fuel w2" "k2 w2 = (r, w')" for w2
    using that enter leave unfolding k2_def by (intro visits_andThen [of fuel w2 ?enter "{}" "{?m}" "{}" "\<lambda>_. leaveNode (SelectionNode (FragmentSpread m ds))"])
  have s1: "visits env E fails w1 r w' ({} \<union> {}) ({} \<union> {?m}) (names env (directive_uses ds) \<union> {})" if "ready fuel w1" "k1 w1 = (r, w')" for w1
    using that dirs s2 unfolding k1_def by (intro visits_andThen [of fuel w1 "walkDirectives env (rules_at b rs) ds ''FRAGMENT_SPREAD''" "{}" "{}" _ "\<lambda>_. k2"]) auto
  have run1: "andThen (fragmentSpreadRules_Run env (rules_at b rs) p ?info (FragmentSpread m ds)) (\<lambda>_. k1) w = (r, w')"
    using run unfolding k1_def k2_def walkSelection.simps(3) Let_def rules_at_simps .
  have "visits env E fails w r w' (shown b {?m} \<union> {}) ({} \<union> {?m}) ({} \<union> names env (directive_uses ds))"
    by (rule visits_andThen [OF w check _ run1]) (use s1 in auto)
  then show ?thesis by simp
qed

lemma visitor_walkSelection:
  assumes "smaller fuel"
  shows "visitor fuel (walkSelection fuel env (rules_at b rs) p s)
     (shown b (names env (selection_spreads s))) (names env (selection_spreads s)) (names env (selection_uses s))"
proof (induction s arbitrary: p)
  case (FieldNode a nm args ds ss)
  let ?i = "\<lparr>fieldInfo_parentType = p, fieldInfo_def = ResolveField env p (v_name env nm), fieldInfo_node = FieldNode a nm args ds ss\<rparr>"
  have "visitor fuel (walkSelectionSet fuel env (rules_at b rs) t ss) (shown b (spreads_in env ss)) (spreads_in env ss) (uses_of env ss)" for t
    using FieldNode by (intro visitor_set)
  from visitor_andThen [OF visitor_acts [OF acts_arguments(1)] visitor_andThen [OF visitor_acts [OF acts_directives]
      visitor_andThen [OF this visitor_acts [OF acts_leaveNode]]]]
  show ?case by (simp add: walkSelection.simps(1) Let_def spreads_in_def uses_of_def Un_assoc)
next
  case (InlineFragment tc ds ss)
  have "visitor fuel (walkSelectionSet fuel env (rules_at b rs) t ss) (shown b (spreads_in env ss)) (spreads_in env ss) (uses_of env ss)" for t
    using InlineFragment by (intro visitor_set)
  from visitor_andThen [OF visitor_acts [OF acts_directives] visitor_andThen [OF this visitor_acts [OF acts_leaveNode]]]
  show ?case by (simp add: walkSelection.simps(2) Let_def spreads_in_def uses_of_def)
next
  case (FragmentSpread m ds)
  show ?case using visits_spread [OF assms] by (simp add: visitor_def)
qed

theorem visitor_walkSelectionSet:
  "visitor fuel (walkSelectionSet fuel env (rules_at b rs) t ss) (shown b (spreads_in env ss)) (spreads_in env ss) (uses_of env ss)"
proof (induction fuel arbitrary: b t ss rule: less_induct)
  case (less fuel)
  have "smaller fuel" unfolding smaller_def using less [of _ False] by (simp add: shown_def)
  from visitor_set [OF visitor_walkSelection [OF this]] show ?case .
qed

text \<open>An operation. Its rules about operations and variables are dealt with separately.\<close>

lemma fragment_fuel_enough: "card (known_fragments env) \<le> fragment_fuel env"
proof -
  have sub: "dom (map_of (fold (\<lambda>f m. if is_fragment f then AList.update (v_name env (fragment_Name f)) (newFragmentInfo env f) m else m) ds al))
      \<subseteq> dom (map_of al) \<union> (\<lambda>f. v_name env (fragment_Name f)) ` set ds" for ds :: "token_ref definition_node list" and al
    by (induction ds arbitrary: al) (fastforce simp: update_conv' split: if_splits)+
  have "known_fragments env \<subseteq> (\<lambda>f. v_name env (fragment_Name f)) ` set (document_Definitions (v_document env))"
    using sub [of "document_Definitions (v_document env)" "[]"] by (simp add: known_fragments_def fragmentInfoMap_def)
  then have "card (known_fragments env) \<le> card ((\<lambda>f. v_name env (fragment_Name f)) ` set (document_Definitions (v_document env)))"
    by (intro card_mono) auto
  also have "\<dots> \<le> fragment_fuel env" unfolding fragment_fuel_def by (rule order_trans [OF card_image_le card_length]) simp
  finally show ?thesis .
qed

lemma operation_body:
  assumes w: "good n w" "of_document env (w_ctx w)" "validated w = {}"
    and run: "andThen (walkDirectives env rs ds l) (\<lambda>_. walkSelectionSet (fragment_fuel env) env rs t ss) w = (r, w')"
  shows "if r = Ok () then w_skippingRules w' = w_skippingRules w \<and>
           E (w_ctx w) (spreads_in env ss) (names env (directive_uses ds) \<union> all_uses env ss) (w_ctx w')
         else \<exists>x \<in> names env (directive_uses ds) \<union> all_uses env ss. fails (w_ctx w) x"
proof -
  have "ready (fragment_fuel env) w" using w fragment_fuel_enough by (simp add: ready_def)
  moreover have "visitor (fragment_fuel env) (andThen (walkDirectives env rs ds l) (\<lambda>_. walkSelectionSet (fragment_fuel env) env rs t ss))
     ({} \<union> shown True (spreads_in env ss)) ({} \<union> spreads_in env ss) (names env (directive_uses ds) \<union> uses_of env ss)"
    using visitor_andThen [OF visitor_acts [OF acts_directives [of True]] visitor_walkSelectionSet [of _ True]] by simp
  ultimately have v: "visits env E fails w r w' (spreads_in env ss) (spreads_in env ss) (names env (directive_uses ds) \<union> uses_of env ss)"
    using run by (simp add: visitor_def shown_def)
  show ?thesis
  proof (cases "r = Ok ()")
    case True
    have "{m. spreads_to env (spreads_in env ss) m} \<subseteq> validated w'"
      using spreads_to_closed [of env "spreads_in env ss" _ "validated w'"] v True w(3) by (auto simp: visits_def)
    moreover have "validated w' \<subseteq> {m. spreads_to env (spreads_in env ss) m}" using v True w(3) by (simp add: visits_def)
    ultimately have "validated w' = {m. spreads_to env (spreads_in env ss) m}" by blast
    then show ?thesis using v True w(3) by (simp add: visits_def all_uses_def Un_assoc)
  next
    case False
    then show ?thesis using v by (simp add: visits_def all_uses_def Un_assoc)
  qed
qed

end

definition variable_uses :: "('v, 'x) validation \<Rightarrow> token_ref variable_definition \<Rightarrow> string set" where
  "variable_uses env d =
     (case variableDefinition_DefaultValue d of None \<Rightarrow> {} | Some v \<Rightarrow> names env (value_uses v)) \<union>
     names env (directive_uses (variableDefinition_Directives d))"

definition operation_uses :: "('v, 'x) validation \<Rightarrow> token_ref definition_node \<Rightarrow> string set" where
  "operation_uses env op = names env (directive_uses (definition_GetDirectives op)) \<union> all_uses env (definition_GetSelectionSet op)"

text \<open>With the usages in the defaults and directives of its variable definitions.\<close>

definition total_uses :: "('v, 'x) validation \<Rightarrow> token_ref definition_node \<Rightarrow> string set" where
  "total_uses env op = operation_uses env op \<union> (\<Union>d \<in> set (definition_VariableDefinitions op). variable_uses env d)"

definition defined_variables :: "('v, 'x) validation \<Rightarrow> token_ref definition_node \<Rightarrow> string set" where
  "defined_variables env op = (\<lambda>d. v_name env (variableDefinition_Variable d)) ` set (definition_VariableDefinitions op)"

definition entered :: "('v, 'x) validation \<Rightarrow> token_ref definition_node \<Rightarrow> 'x vctx \<Rightarrow> 'x vctx" where
  "entered env op c = c\<lparr>ctx_currentOperation := Some op,
     ctx_variableInfos := (if definition_VariableDefinitions op = [] then ctx_variableInfos c else variableInfoMap env (definition_VariableDefinitions op))\<rparr>"

definition left_operation :: "'x vctx \<Rightarrow> 'x vctx" where
  "left_operation c = c\<lparr>ctx_currentOperation := None, ctx_variableInfos := Map.empty\<rparr>"

lemma of_document_entered [simp]: "of_document env (entered env' op c) \<longleftrightarrow> of_document env c"
  "of_document env (left_operation c) \<longleftrightarrow> of_document env c"
  by (simp_all add: of_document_def same_fragments_def entered_def left_operation_def)

text \<open>Between the operations.\<close>

definition idle :: "('v, 'x) validation \<Rightarrow> nat \<Rightarrow> 'x walker \<Rightarrow> bool" where
  "idle env n w \<longleftrightarrow> w_skippingRules w = replicate n None \<and> of_document env (w_ctx w) \<and> ctx_currentOperation (w_ctx w) = None \<and>
     ctx_variableInfos (w_ctx w) = Map.empty \<and> w_validatedFragments w = []"

lemma idle_new: "idle env n (newWalker env n)"
  by (simp add: idle_def newWalker_def newValidationContext_def of_document_def)

context operation_walk
begin

text \<open>A definition of a variable, up to the rules about variables.\<close>

lemma acts_variable_definition:
  "acts n E fails (andThen (case variableDefinition_DefaultValue d of None \<Rightarrow> ret () | Some v \<Rightarrow> walkValue env rs t v False)
     (\<lambda>_. walkDirectives env rs (variableDefinition_Directives d) l)) {} (variable_uses env d)"
proof -
  have "acts n E fails (case variableDefinition_DefaultValue d of None \<Rightarrow> ret () | Some v \<Rightarrow> walkValue env rs t v False) {}
      (case variableDefinition_DefaultValue d of None \<Rightarrow> {} | Some v \<Rightarrow> names env (value_uses v))"
    using acts_walkValue [of True] by (simp add: acts_ret split: option.splits)
  from acts_andThen [OF this acts_directives [of True]] show ?thesis by (simp add: variable_uses_def)
qed

lemma acts_walkVariables:
  assumes "variableRules rs = []"
  shows "acts n E fails (walkVariables env rs ds) {} (\<Union>d \<in> set ds. variable_uses env d)"
  unfolding walkVariables_def
proof (rule acts_for_each)
  fix d
  have "acts n E fails (andThen (andThen (case variableDefinition_DefaultValue d of None \<Rightarrow> ret () | Some v \<Rightarrow> walkValue env rs t v False)
     (\<lambda>_. walkDirectives env rs (variableDefinition_Directives d) l)) (\<lambda>_. leaveNode nd)) {} (variable_uses env d)" for t l nd
    using acts_andThen [OF acts_variable_definition acts_leaveNode] by simp
  moreover have "variableRules_Run env rs info d = ret ()" for info using assms by (simp add: variableRules_Run_def run_rules_def)
  then have "walkVariable env rs d w =
      andThen (andThen (case variableDefinition_DefaultValue d of None \<Rightarrow> ret ()
         | Some v \<Rightarrow> walkValue env rs (variableInfo_typeDef (variable_of (w_ctx w) (variableInfo_for env d (w_ctx w)))) v False)
       (\<lambda>_. walkDirectives env rs (variableDefinition_Directives d) ''VARIABLE_DEFINITION'')) (\<lambda>_. leaveNode (VariableDefinitionNode d)) w" for w
    by (simp add: walkVariable_def Let_def andThen_assoc)
  ultimately show "acts n E fails (walkVariable env rs d) {} (variable_uses env d)" by (simp add: acts_def)
qed

lemma walkOperation:
  assumes r: "operationRules rs = []" "variableRules rs = []" and w: "idle env n w" and run: "walkOperationDefinition env rs op w = (r, w')"
  shows "if r = Ok () then \<exists>c. E (entered env op (w_ctx w)) (spreads_in env (definition_GetSelectionSet op))
             (operation_uses env op \<union> (\<Union>d \<in> set (definition_VariableDefinitions op). variable_uses env d)) c \<and>
             w_ctx w' = left_operation c \<and> idle env n w'
         else \<exists>x \<in> operation_uses env op \<union> (\<Union>d \<in> set (definition_VariableDefinitions op). variable_uses env d). fails (entered env op (w_ctx w)) x"
proof -
  obtain object location where root: "operation_root env op = (object, location)" by fastforce
  let ?w1 = "w\<lparr>w_ctx := entered env op (w_ctx w), w_validatedFragments := []\<rparr>"
  let ?body = "andThen (walkDirectives env rs (definition_GetDirectives op) location)
     (\<lambda>_. walkSelectionSet (fragment_fuel env) env rs (map_option Named object) (definition_GetSelectionSet op))"
  have w1: "good n ?w1" "of_document env (w_ctx ?w1)" "validated ?w1 = {}"
    using w by (auto simp: idle_def good_def entered_def validated_def of_document_def same_fragments_def)
  have run1: "andThen ?body (\<lambda>_. andThen (walkVariables env rs (definition_VariableDefinitions op)) (\<lambda>_.
      andThen (leaveNode (DefinitionNode op)) (\<lambda>_. leaveOperation))) ?w1 = (r, w')"
  proof -
    have enter: "enterOperation env op w = (Ok (), ?w1)" by (simp add: enterOperation_def entered_def Let_def)
    then have "andThen (enterOperation env op) k w = k () ?w1" for k :: "unit \<Rightarrow> 'x walk_action" by (simp add: andThen_def)
    moreover have "operationRules_Run env rs op = ret ()" using r by (simp add: operationRules_Run_def run_rules_def)
    ultimately show ?thesis using run root by (simp add: walkOperationDefinition_def andThen_assoc)
  qed
  obtain r2 w2 where b: "?body ?w1 = (r2, w2)" by fastforce
  note body = operation_body [OF w1 b]
  show ?thesis
  proof (cases "r2 = Ok ()")
    case True
    then have E2: "E (entered env op (w_ctx w)) (spreads_in env (definition_GetSelectionSet op)) (operation_uses env op) (w_ctx w2)"
      and w2: "good n w2" using body w1(1) E_frame by (fastforce simp: operation_uses_def good_def frame_def)+
    obtain r3 w3 where v: "walkVariables env rs (definition_VariableDefinitions op) w2 = (r3, w3)" by fastforce
    then have e3: "ends E fails w2 r3 w3 {} (\<Union>d \<in> set (definition_VariableDefinitions op). variable_uses env d)"
      using acts_walkVariables [OF r(2)] w2 by (simp add: acts_def)
    show ?thesis
    proof (cases "r3 = Ok ()")
      case t3: True
      then obtain c where c: "w3 = w2\<lparr>w_ctx := c\<rparr>" "E (w_ctx w2) {} (\<Union>d \<in> set (definition_VariableDefinitions op). variable_uses env d) c"
        using e3 by (auto simp: ends_def)
      have Ec: "E (entered env op (w_ctx w)) (spreads_in env (definition_GetSelectionSet op))
             (operation_uses env op \<union> (\<Union>d \<in> set (definition_VariableDefinitions op). variable_uses env d)) c"
        using E_trans [OF E2 c(2)] by simp
      have "w_skippingRules w3 = replicate n None" using w2 c by (simp add: good_def)
      then have "leaveNode (DefinitionNode op) w3 = (Ok (), w3)" by (simp add: leaveNode_def)
      then have fin: "r = Ok ()" "w' = w3\<lparr>w_ctx := left_operation c, w_validatedFragments := []\<rparr>"
        using run1 b True v t3 c by (auto simp: andThen_def leaveOperation_def left_operation_def)
      have "same_fragments (entered env op (w_ctx w)) c" using E_frame [OF Ec] by (simp add: frame_def)
      then have "of_document env c" using of_document_frame [of env "entered env op (w_ctx w)" c] w by (simp add: idle_def)
      then have "idle env n w'" using fin(2) \<open>w_skippingRules w3 = replicate n None\<close> by (simp add: idle_def) (simp add: left_operation_def)
      then show ?thesis using fin Ec by auto
    next
      case False
      then have "r = r3" using run1 b True v by (cases r3) (auto simp: andThen_def)
      then show ?thesis using False e3 fails_frame [OF E_frame [OF E2]] by (auto simp: ends_def)
    qed
  next
    case False
    then have "r = r2" using run1 b by (cases r2) (auto simp: andThen_def)
    then show ?thesis using False body by (auto simp: operation_uses_def)
  qed
qed

text \<open>The operations, one after the other.\<close>

primrec runs :: "token_ref definition_node list \<Rightarrow> 'x vctx \<Rightarrow> 'x vctx \<Rightarrow> bool" where
  "runs [] c c' \<longleftrightarrow> c' = c"
| "runs (op # ops) c c' \<longleftrightarrow> (\<exists>c1. E (entered env op c) (spreads_in env (definition_GetSelectionSet op)) (total_uses env op) c1 \<and>
     runs ops (left_operation c1) c')"

lemma walkOperations:
  assumes "operationRules rs = []" "variableRules rs = []" "idle env n w" "for_each (walkOperationDefinition env rs) ops w = (r, w')"
  shows "if r = Ok () then idle env n w' \<and> runs ops (w_ctx w) (w_ctx w')
         else \<exists>op \<in> set ops. \<exists>c. ctx_variableInfos c = Map.empty \<and> (\<exists>x \<in> total_uses env op. fails (entered env op c) x)"
  using assms(3,4)
proof (induction ops arbitrary: w)
  case (Cons op ops)
  obtain r1 w1 where one: "walkOperationDefinition env rs op w = (r1, w1)" by fastforce
  note step = walkOperation [OF assms(1,2) Cons.prems(1) one]
  show ?case
  proof (cases "r1 = Ok ()")
    case True
    then obtain c where c: "E (entered env op (w_ctx w)) (spreads_in env (definition_GetSelectionSet op)) (total_uses env op) c"
      "w_ctx w1 = left_operation c" and w1: "idle env n w1" using step by (auto simp: total_uses_def)
    have "for_each (walkOperationDefinition env rs) ops w1 = (r, w')" using Cons.prems(2) one True by (simp add: andThen_def)
    from Cons.IH [OF w1 this] show ?thesis using c by (auto split: if_splits)
  next
    case False
    then have "r = r1" using Cons.prems(2) one by (cases r1) (auto simp: andThen_def)
    moreover have "ctx_variableInfos (w_ctx w) = Map.empty" using Cons.prems(1) by (simp add: idle_def)
    ultimately show ?thesis using False step by (auto simp: total_uses_def)
  qed
qed simp

end

end
