(* ===== verification/ValidatorRules.thy ===== *)
theory ValidatorRules
  imports ValidatorSpec
begin

text \<open>
  The rules about variables and fragments: each accepts a document exactly if the document has the property that the rule is about.
\<close>

section \<open>Definitions of fragments\<close>

text \<open>Outside of operations, when no rule is active, the walk changes nothing.\<close>

definition quiet :: "('v, 'x) rule_set \<Rightarrow> 'x walker \<Rightarrow> bool" where
  "quiet rs w \<longleftrightarrow> ctx_currentOperation (w_ctx w) = None \<and>
     (\<forall>s \<in> set (w_skippingRules w). case s of Some (SkippingNode node) \<Rightarrow> \<exists>d. node = DefinitionNode d | _ \<Rightarrow> True) \<and>
     (\<forall>i. i \<in> fst ` (set (selectionSetRules rs)) \<union> fst ` (set (fieldRules rs)) \<union> fst ` (set (fieldArgumentRules rs)) \<union>
        fst ` (set (inlineFragmentRules rs)) \<union> fst ` (set (fragmentSpreadRules rs)) \<union> fst ` (set (valueRules rs)) \<union>
        fst ` (set (directivesRules rs)) \<union> fst ` (set (directiveRules rs)) \<union> fst ` (set (directiveArgumentRules rs)) \<longrightarrow> shouldSkipRule w i)"

lemma run_rules_skipped: "\<forall>i \<in> fst ` set L. shouldSkipRule w i \<Longrightarrow> run_rules node L f w = (Ok (), w)"
  unfolding run_rules_def by (induction L) (auto simp: andThen_def run_rule_def)

lemma for_each_same: "(\<And>x. x \<in> set xs \<Longrightarrow> f x w = (Ok (), w)) \<Longrightarrow> for_each f xs w = (Ok (), w)"
  by (induction xs) (auto simp: andThen_def)

lemma andThen_same: "a w = (Ok (), w) \<Longrightarrow> andThen a k w = k () w"
  by (simp add: andThen_def)

lemma leaveNode_quiet: "quiet rs w \<Longrightarrow> (\<And>d. node \<noteq> DefinitionNode d) \<Longrightarrow> leaveNode node w = (Ok (), w)"
proof -
  assume q: "quiet rs w" and n: "\<And>d. node \<noteq> DefinitionNode d"
  have "map (\<lambda>s. if s = Some (SkippingNode node) then None else s) (w_skippingRules w) = w_skippingRules w"
    using q n by (intro map_idI) (fastforce simp: quiet_def)
  then show ?thesis by (simp add: leaveNode_def)
qed

lemma quiet_Run:
  assumes "quiet rs w"
  shows "selectionSetRules_Run env rs t ss w = (Ok (), w)" "fieldRules_Run env rs fi w = (Ok (), w)" "fieldArgumentRules_Run env rs fi ad a w = (Ok (), w)"
    "inlineFragmentRules_Run env rs t t' s w = (Ok (), w)" "fragmentSpreadRules_Run env rs t fr s w = (Ok (), w)" "valueRules_Run env rs t v w = (Ok (), w)"
    "directivesRules_Run env rs ds l w = (Ok (), w)" "directiveRules_Run env rs di w = (Ok (), w)" "directiveArgumentRules_Run env rs di ad a w = (Ok (), w)"
  using assms by (auto simp: Run_defs quiet_def intro!: run_rules_skipped)

lemmas quiet_steps = quiet_Run andThen_same leaveNode_quiet

lemma walkValue_quiet: "quiet rs w \<Longrightarrow> walkValue env rs t v d w = (Ok (), w)"
proof (induction v arbitrary: t d rule: value_uses.induct)
  case (1 m)
  have "ctx_currentOperation (w_ctx w) = None" using 1 by (simp add: quiet_def)
  then show ?case using 1 by (simp add: walkValue.simps [of _ _ _ "Variable m"] quiet_steps on_operation_def)
next
  case (2 vs)
  then have "for_each (\<lambda>v. walkValue env rs (list_element_type env t) v False) vs w = (Ok (), w)" by (intro for_each_same) auto
  then show ?case using 2(2) by (simp add: walkValue.simps [of _ _ _ "ListValue vs"] quiet_steps)
next
  case (3 fs)
  then have "for_each (\<lambda>f. let (fieldType, fieldHasDefaultValue) = object_field_type env t (v_name env (objectField_Name f)) in
             walkValue env rs fieldType (objectField_Value f) fieldHasDefaultValue) fs w = (Ok (), w)"
    by (intro for_each_same) (auto split: prod.splits)
  then show ?case using 3(2) by (simp add: walkValue.simps [of _ _ _ "ObjectValue fs"] quiet_steps)
qed (simp_all add: walkValue.simps quiet_steps)

lemma arguments_quiet:
  assumes "quiet rs w"
  shows "walkFieldArguments env rs fi args w = (Ok (), w)" "walkDirectiveArguments env rs di w = (Ok (), w)"
  unfolding walkFieldArguments_def walkDirectiveArguments_def Let_def
  by (rule for_each_same, simp add: quiet_Run [OF assms] andThen_same walkValue_quiet [OF assms] split: prod.splits)+

lemma walkDirectives_quiet: "quiet rs w \<Longrightarrow> walkDirectives env rs ds l w = (Ok (), w)"
proof -
  assume q: "quiet rs w"
  have "walkDirective env rs l d w = (Ok (), w)" for d
    using q by (simp add: walkDirective_def Let_def quiet_steps arguments_quiet)
  then have "for_each (walkDirective env rs l) ds w = (Ok (), w)" by (intro for_each_same)
  then show ?thesis using q by (simp add: walkDirectives_def quiet_steps)
qed

lemma walkSelectionSet_quiet:
  assumes "quiet rs w"
    and "\<And>s t. s \<in> set ss \<Longrightarrow> walkSelection fuel env rs t s w = (Ok (), w)"
  shows "walkSelectionSet fuel env rs t ss w = (Ok (), w)"
proof -
  have "for_each (walkSelection fuel env rs t) ss w = (Ok (), w)" for t using assms(2) by (rule for_each_same)
  then show ?thesis using assms(1) by (simp add: walkSelectionSet.simps Let_def quiet_steps)
qed

lemma walkSelection_quiet:
  assumes q: "quiet rs w"
  shows "walkSelection fuel env rs t s w = (Ok (), w)"
proof (induction s arbitrary: t)
  case (FieldNode a n args ds ss)
  then have "walkSelectionSet fuel env rs t ss w = (Ok (), w)" for t using walkSelectionSet_quiet [OF q] by blast
  then show ?case using q by (simp add: walkSelection.simps(1) Let_def quiet_steps arguments_quiet walkDirectives_quiet)
next
  case (InlineFragment tc ds ss)
  then have "walkSelectionSet fuel env rs t ss w = (Ok (), w)" for t using walkSelectionSet_quiet [OF q] by blast
  then show ?case using q by (simp add: walkSelection.simps(2) Let_def quiet_steps walkDirectives_quiet)
next
  case (FragmentSpread m ds)
  have "ctx_currentOperation (w_ctx w) = None" using q by (simp add: quiet_def)
  then show ?case using q by (simp add: walkSelection.simps(3) Let_def quiet_steps walkDirectives_quiet andThen_def split: option.splits)
qed

lemma body_quiet: "quiet rs w \<Longrightarrow> walkSelectionSet fuel env rs t ss w = (Ok (), w)"
  by (rule walkSelectionSet_quiet) (simp_all add: walkSelection_quiet)

definition fragments :: "('v, 'x) validation \<Rightarrow> token_ref definition_node list" where
  "fragments env = filter is_fragment (document_Definitions (v_document env))"

definition operations :: "('v, 'x) validation \<Rightarrow> token_ref definition_node list" where
  "operations env = filter (\<lambda>d. \<not> is_fragment d) (document_Definitions (v_document env))"

lemma known_fragments_names: "known_fragments env = (\<lambda>f. v_name env (fragment_Name f)) ` set (fragments env)"
proof -
  have "dom (map_of (fold (\<lambda>f m. if is_fragment f then AList.update (v_name env (fragment_Name f)) (newFragmentInfo env f) m else m) ds al)) =
      dom (map_of al) \<union> (\<lambda>f. v_name env (fragment_Name f)) ` set (filter is_fragment ds)" for ds :: "token_ref definition_node list" and al
    by (induction ds arbitrary: al) (auto simp: update_conv')
  from this [of "document_Definitions (v_document env)" "[]"] show ?thesis by (simp add: known_fragments_def fragmentInfoMap_def fragments_def)
qed

text \<open>A fragment, without rules about fragments and with a rule that skips its children.\<close>

lemma walkFragment_no_rules:
  assumes "quiet rs w" "fragmentRules rs = []" "of_document env (w_ctx w)" "f \<in> set (fragments env)"
  shows "walkFragmentDefinition env rs f w = (Ok (), w\<lparr>w_skippingRules := map (\<lambda>s. if s = Some (SkippingNode (DefinitionNode f)) then None else s) (w_skippingRules w)\<rparr>)"
proof -
  have "FragmentInfo (w_ctx w) (v_name env (fragment_Name f)) = Some (v_name env (fragment_Name f))"
    using of_document_FragmentInfo(1) [OF assms(3)] assms(4) by (simp add: known_fragments_names)
  then show ?thesis using assms(1,2)
    by (simp add: walkFragmentDefinition_def Let_def fragmentRules_Run_def run_rules_def andThen_same walkDirectives_quiet body_quiet leaveNode_def)
qed

definition indices_0 :: "('v, 'x) rule_set \<Rightarrow> bool" where
  "indices_0 rs \<longleftrightarrow> fst ` (set (selectionSetRules rs) ) \<union> fst ` (set (fieldRules rs)) \<union> fst ` (set (fieldArgumentRules rs)) \<union>
        fst ` (set (inlineFragmentRules rs)) \<union> fst ` (set (fragmentSpreadRules rs)) \<union> fst ` (set (valueRules rs)) \<union>
        fst ` (set (directivesRules rs)) \<union> fst ` (set (directiveRules rs)) \<union> fst ` (set (directiveArgumentRules rs)) \<subseteq> {0}"

lemma walkFragment_skip:
  assumes rs: "fragmentRules rs = [(0, chk)]" "indices_0 rs" and w: "idle env 1 w" and f: "f \<in> set (fragments env)"
    and run: "chk env (Some (v_name env (fragment_Name f))) f (w_ctx w) = (r, c)"
  shows "r = Ok SkipCheckForChildNodes \<Longrightarrow> ctx_currentOperation c = None \<Longrightarrow> walkFragmentDefinition env rs f w = (Ok (), w\<lparr>w_ctx := c\<rparr>)"
    and "\<nexists>a. r = Ok a \<Longrightarrow> fst (walkFragmentDefinition env rs f w) \<noteq> Ok ()"
proof -
  have info: "FragmentInfo (w_ctx w) (v_name env (fragment_Name f)) = Some (v_name env (fragment_Name f))"
    using of_document_FragmentInfo(1) [of env "w_ctx w"] w f by (simp add: idle_def known_fragments_names)
  have skip: "w_skippingRules w = [None]" using w by (simp add: idle_def)
  then have "\<not> shouldSkipRule w 0" by (simp add: shouldSkipRule_def)
  then have fr: "fragmentRules_Run env rs (Some (v_name env (fragment_Name f))) f w =
      (case r of Ok next \<Rightarrow> (Ok (), setSkipping 0 (DefinitionNode f) next (w\<lparr>w_ctx := c\<rparr>)) | Error e \<Rightarrow> (Error e, w\<lparr>w_ctx := c\<rparr>)
       | Panic \<Rightarrow> (Panic, w\<lparr>w_ctx := c\<rparr>) | OutOfFuel \<Rightarrow> (OutOfFuel, w\<lparr>w_ctx := c\<rparr>))"
    using rs(1) run by (simp add: fragmentRules_Run_def run_rules_def andThen_def run_rule_def split: outcome.splits)
  show "fst (walkFragmentDefinition env rs f w) \<noteq> Ok ()" if "\<nexists>a. r = Ok a"
    using that fr info by (cases r) (simp_all add: walkFragmentDefinition_def Let_def andThen_def)
  assume r: "r = Ok SkipCheckForChildNodes" and op: "ctx_currentOperation c = None"
  let ?w = "w\<lparr>w_ctx := c, w_skippingRules := [Some (SkippingNode (DefinitionNode f))]\<rparr>"
  have "quiet rs ?w" using op rs(2) by (auto simp: quiet_def indices_0_def shouldSkipRule_def)
  then show "walkFragmentDefinition env rs f w = (Ok (), w\<lparr>w_ctx := c\<rparr>)"
    using fr info r skip
    by (simp add: walkFragmentDefinition_def Let_def andThen_def setSkipping_def walkDirectives_quiet body_quiet leaveNode_def)
qed

lemma quiet_idle: "idle env n w \<Longrightarrow> silent rs \<Longrightarrow> fragmentSpreadRules rs = [] \<Longrightarrow> quiet rs w"
  by (auto simp: quiet_def idle_def silent_def)

lemma walkFragments_no_rules:
  assumes "idle env n w" "silent rs" "fragmentSpreadRules rs = []" "fragmentRules rs = []" "set fs \<subseteq> set (fragments env)"
  shows "for_each (walkFragmentDefinition env rs) fs w = (Ok (), w)"
proof (rule for_each_same)
  fix f assume "f \<in> set fs"
  then show "walkFragmentDefinition env rs f w = (Ok (), w)"
    using walkFragment_no_rules [OF quiet_idle [OF assms(1-3)] assms(4), of env f] assms(1,5) by (auto simp: idle_def)
qed

section \<open>Undefined variables\<close>

text \<open>The rule set of a single rule.\<close>

definition single :: "('v, 'x) validation_rule \<Rightarrow> ('v, 'x) rule_set" where
  "single r = add_rule 0 r emptyRules"

lemma ValidateWithRules_single: "isRule r \<Longrightarrow> ValidateWithRules env [r] = validate_with env 1 (single r)"
  by (simp add: ValidateWithRules_def buildRules_def single_def)

lemma good_runs: "good 1 w \<Longrightarrow> run_rule node 0 check w =
    (case check (w_ctx w) of
       (Ok next, ctx) \<Rightarrow> (Ok (), setSkipping 0 node next (w\<lparr>w_ctx := ctx\<rparr>))
     | (Error e, ctx) \<Rightarrow> (Error e, w\<lparr>w_ctx := ctx\<rparr>)
     | (Panic, ctx) \<Rightarrow> (Panic, w\<lparr>w_ctx := ctx\<rparr>)
     | (OutOfFuel, ctx) \<Rightarrow> (OutOfFuel, w\<lparr>w_ctx := ctx\<rparr>))"
  by (simp add: run_rule_def shouldSkipRule_def good_def)

lemma VariableInfo_dom: "VariableInfo c x = (if x \<in> dom (ctx_variableInfos c) then Some (VariableEntry x) else None)"
  by (auto simp: VariableInfo_def split: option.splits)

lemma ReportError_adds: "ReportError message [ArgLocations ls] ctx = (Ok (), ctx\<lparr>ctx_errs := ctx_errs ctx @ [NewError message [ArgLocations ls]]\<rparr>)"
  "ReportError message [ArgLocation l] ctx = (Ok (), ctx\<lparr>ctx_errs := ctx_errs ctx @ [NewError message [ArgLocation l]]\<rparr>)"
  by (simp_all add: ReportError_def errors_Emplace_def NewError_def Let_def)

lemma report_nodes_adds: "report_nodes env message nodes c = (r, c') \<Longrightarrow> r = Ok () \<Longrightarrow> \<exists>e. c' = c\<lparr>ctx_errs := ctx_errs c @ [e]\<rparr>"
proof -
  assume "report_nodes env message nodes c = (r, c')" "r = Ok ()"
  then obtain ls s where ls: "locations_of env nodes c = (Ok ls, s)" and rep: "ReportError message [ArgLocations (Some ls)] s = (Ok (), c')"
    by (auto simp: report_nodes_def elim!: andThen_OkE)
  have "s = c" using locations_of_ctx [of env nodes c] ls by simp
  then show "\<exists>e. c' = c\<lparr>ctx_errs := ctx_errs c @ [e]\<rparr>" using rep by (auto simp: ReportError_adds)
qed

definition undefined_effect :: "'x vctx \<Rightarrow> string set \<Rightarrow> string set \<Rightarrow> 'x vctx \<Rightarrow> bool" where
  "undefined_effect c S U c' \<longleftrightarrow> (\<exists>es. c' = c\<lparr>ctx_errs := ctx_errs c @ es\<rparr> \<and> (es = [] \<longleftrightarrow> U \<subseteq> dom (ctx_variableInfos c)))"

lemma undefined_usage:
  "acts 1 undefined_effect (\<lambda>c x. x \<notin> dom (ctx_variableInfos c))
     (\<lambda>w. variableUsageRules_Run env (single NoUndefinedVariables) t v d (VariableInfo (w_ctx w) (v_name env v)) w) {} {v_name env v}"
  unfolding acts_def
proof (intro allI impI)
  fix w r w'
  assume w: "good 1 w"
    and run: "variableUsageRules_Run env (single NoUndefinedVariables) t v d (VariableInfo (w_ctx w) (v_name env v)) w = (r, w')"
  let ?x = "v_name env v"
  obtain op where op: "ctx_currentOperation (w_ctx w) = Some op" using w by (auto simp: good_def)
  let ?report = "report_nodes env (UndefinedVarMessage ?x (operation_name env op)) [ValueNode (Variable v), DefinitionNode op] (w_ctx w)"
  obtain r1 c1 where rep: "?report = (r1, c1)" by fastforce
  show "ends undefined_effect (\<lambda>c x. x \<notin> dom (ctx_variableInfos c)) w r w' {} {?x}"
  proof (cases "?x \<in> dom (ctx_variableInfos (w_ctx w))")
    case True
    then have "r = Ok ()" "w' = w" using run w
      by (simp_all add: variableUsageRules_Run_def run_rules_def single_def add_rule_def emptyRules_def NoUndefinedVariables_def no_checks_def
          good_runs NoUndefinedVariables_CheckVariableUsage_def and_then_continue_def VariableInfo_dom andThen_def setSkipping_def)
    then show ?thesis using True by (auto simp: ends_def undefined_effect_def intro!: exI [of _ "w_ctx w"])
  next
    case False
    then have run1: "(r, w') = (case r1 of Ok _ \<Rightarrow> (Ok (), w\<lparr>w_ctx := c1\<rparr>) | Error e \<Rightarrow> (Error e, w\<lparr>w_ctx := c1\<rparr>)
        | Panic \<Rightarrow> (Panic, w\<lparr>w_ctx := c1\<rparr>) | OutOfFuel \<Rightarrow> (OutOfFuel, w\<lparr>w_ctx := c1\<rparr>))"
      using run w op rep
      by (simp add: variableUsageRules_Run_def run_rules_def single_def add_rule_def emptyRules_def NoUndefinedVariables_def no_checks_def
          good_runs NoUndefinedVariables_CheckVariableUsage_def and_then_continue_def VariableInfo_dom andThen_def setSkipping_def split: outcome.splits)
    show ?thesis
    proof (cases "r1 = Ok ()")
      case True
      then show ?thesis using run1 report_nodes_adds [OF rep] False by (fastforce simp: ends_def undefined_effect_def)
    next
      case r1: False
      then have "r \<noteq> Ok ()" using run1 by (cases r1) auto
      then show ?thesis using False by (simp add: ends_def)
    qed
  qed
qed

interpretation undefined_walk: operation_walk env "single NoUndefinedVariables" 1 undefined_effect "\<lambda>c x. x \<notin> dom (ctx_variableInfos c)"
  for env
proof unfold_locales
  show "acts 1 undefined_effect (\<lambda>c x. x \<notin> dom (ctx_variableInfos c))
     (\<lambda>w. variableUsageRules_Run env (single NoUndefinedVariables) t v d (VariableInfo (w_ctx w) (v_name env v)) w) {} {v_name env v}" for t v d
    by (rule undefined_usage)
qed (auto simp: silent_def single_def add_rule_def emptyRules_def NoUndefinedVariables_def no_checks_def undefined_effect_def frame_def
    same_fragments_def acts_def ends_def fragmentSpreadRules_Run_def run_rules_def)

lemma variableInfoMap_dom: "dom (variableInfoMap env ds) = (\<lambda>d. v_name env (variableDefinition_Variable d)) ` set ds"
proof -
  have "dom (fold (\<lambda>d m. m(v_name env (variableDefinition_Variable d) \<mapsto> newVariableInfo env d)) ds m) =
      dom m \<union> (\<lambda>d. v_name env (variableDefinition_Variable d)) ` set ds" for m :: "string \<rightharpoonup> variable_info"
    by (induction ds arbitrary: m) auto
  from this [of Map.empty] show ?thesis by (simp add: variableInfoMap_def)
qed

lemma entered_dom: "ctx_variableInfos c = Map.empty \<Longrightarrow> dom (ctx_variableInfos (entered env op c)) = defined_variables env op"
  by (simp add: entered_def defined_variables_def variableInfoMap_dom)

lemma undefined_runs:
  "operation_walk.runs env undefined_effect ops c c' \<Longrightarrow> ctx_variableInfos c = Map.empty \<Longrightarrow>
    \<exists>es. ctx_errs c' = ctx_errs c @ es \<and> (es = [] \<longleftrightarrow> (\<forall>op \<in> set ops. total_uses env op \<subseteq> defined_variables env op))"
proof (induction ops arbitrary: c)
  case (Cons op ops)
  then obtain c1 where c1: "undefined_effect (entered env op c) (spreads_in env (definition_GetSelectionSet op)) (total_uses env op) c1"
    and rest: "operation_walk.runs env undefined_effect ops (left_operation c1) c'" by (auto simp: undefined_walk.runs.simps)
  from Cons.IH [OF rest] obtain es where es: "ctx_errs c' = ctx_errs c1 @ es"
    "es = [] \<longleftrightarrow> (\<forall>op \<in> set ops. total_uses env op \<subseteq> defined_variables env op)" by (auto simp: left_operation_def)
  from c1 obtain es' where e: "c1 = (entered env op c)\<lparr>ctx_errs := ctx_errs (entered env op c) @ es'\<rparr>"
    "es' = [] \<longleftrightarrow> total_uses env op \<subseteq> defined_variables env op"
    unfolding undefined_effect_def entered_dom [OF Cons.prems(2)] by blast
  have "ctx_errs c1 = ctx_errs c @ es'" unfolding e(1) by (simp add: entered_def)
  then show ?case using es e(2) by (intro exI [of _ "es' @ es"]) auto
qed (simp add: undefined_walk.runs.simps)

text \<open>
  C14: a document passes \<open>NoUndefinedVariables\<close> exactly if every operation defines the variables that are used in it, in the fragments
  reachable from it, and in its variable definitions.
\<close>

theorem NoUndefinedVariables_correct:
  fixes env :: "('v, 'x) validation"
  shows "ValidateWithRules env [NoUndefinedVariables] = Ok [] \<longleftrightarrow>
     list_all (\<lambda>op. total_uses env op \<subseteq> defined_variables env op) (operations env)"
proof -
  let ?rs = "single NoUndefinedVariables :: ('v, 'x) rule_set"
  have rs: "isRule (NoUndefinedVariables :: ('v, 'x) validation_rule)" "silent ?rs" "operationRules ?rs = []" "variableRules ?rs = []"
    "fragmentSpreadRules ?rs = []" "fragmentRules ?rs = []"
    by (simp_all add: isRule_def silent_def single_def add_rule_def emptyRules_def NoUndefinedVariables_def no_checks_def)
  obtain r w where ops: "for_each (walkOperationDefinition env ?rs) (operations env) (newWalker env 1) = (r, w)" by fastforce
  note phase = undefined_walk.walkOperations [OF rs(3,4) idle_new ops]
  show ?thesis
  proof (cases "r = Ok ()")
    case True
    then have w: "idle env 1 w" "operation_walk.runs env undefined_effect (operations env) (newValidationContext env) (w_ctx w)"
      using phase by (simp_all add: newWalker_def)
    from undefined_runs [OF w(2)] have "ctx_errs (w_ctx w) = [] \<longleftrightarrow> (\<forall>op \<in> set (operations env). total_uses env op \<subseteq> defined_variables env op)"
      by (auto simp: newValidationContext_def)
    moreover have "for_each (walkFragmentDefinition env ?rs) (fragments env) w = (Ok (), w)"
      using walkFragments_no_rules [OF w(1) rs(2,5,6)] by simp
    ultimately show ?thesis using ops True
      by (simp add: ValidateWithRules_single [OF rs(1)] validate_with_def walk_def andThen_def operations_def fragments_def list_all_iff)
  next
    case False
    then have "ValidateWithRules env [NoUndefinedVariables] \<noteq> Ok []" using ops
      by (cases r) (simp_all add: ValidateWithRules_single [OF rs(1)] validate_with_def walk_def andThen_def operations_def)
    then show ?thesis using phase False entered_dom by (auto simp: list_all_iff) blast
  qed
qed

section \<open>Unknown fragments\<close>


end
