(* ===== verification/UnusedFragments.thy ===== *)
theory UnusedFragments
  imports ValidatorRules
begin

text \<open>
  \<open>NoUnusedFragments\<close>: \<open>RecursivelyMarkUsed\<close>, which searches with an explicit stack, marks what is reachable, and the rule reports the
  fragments that no operation reaches.
\<close>

section \<open>Marking\<close>

definition used :: "'x vctx \<Rightarrow> string set" where
  "used c = flagged fragmentInfo_used c"

definition marks :: "'x vctx \<Rightarrow> 'x vctx \<Rightarrow> bool" where
  "marks c c' \<longleftrightarrow> (\<exists>infos. c' = c\<lparr>ctx_fragmentInfos := infos\<rparr>) \<and> same_fragments c c' \<and> used c \<subseteq> used c'"

lemma marks_refl [simp]: "marks c c"
  by (auto simp: marks_def intro: exI [of _ "ctx_fragmentInfos c"])

lemma marks_trans: "marks c c' \<Longrightarrow> marks c' c'' \<Longrightarrow> marks c c''"
  by (auto simp: marks_def intro: same_fragments_trans)

lemma markFragmentUsed_marks:
  assumes "FragmentInfo c name = Some r"
  shows "marks c (markFragmentUsed r c)" "used (markFragmentUsed r c) = insert r (used c)"
proof -
  obtain i where i: "r = name" "map_of (ctx_fragmentInfos c) r = Some i" using assms by (auto simp: FragmentInfo_Some)
  show u: "used (markFragmentUsed r c) = insert r (used c)"
    by (auto simp: used_def flagged_def markFragmentUsed_def map_of_fragment_update)
  have "same_fragments c (markFragmentUsed r c)"
    using i by (simp add: same_fragments_def markFragmentUsed_def map_of_fragment_update fragment_of_def)
  then show "marks c (markFragmentUsed r c)" using u by (auto simp: marks_def markFragmentUsed_def fragment_update_def)
qed

lemma markUsed_scan_marks: "markUsed_scan env ss (c, stack) = (c', stack') \<Longrightarrow> marks c c'"
proof (induction env ss "(c, stack)" arbitrary: c stack rule: markUsed_scan.induct)
  case (4 env n d selections c stack)
  then show ?case using marks_trans [OF markFragmentUsed_marks(1) [of c "v_name env n"]] by (fastforce split: option.splits if_splits)
qed (auto split: if_splits)

lemma markUsed_loop_marks: "marks c (markUsed_loop env c stack)"
proof (induction env c stack rule: markUsed_loop.induct)
  case (2 env c ss stack)
  obtain c' stack' where s: "markUsed_scan env ss (c, stack) = (c', stack')" by fastforce
  show ?case using s marks_trans [OF markUsed_scan_marks [OF s] "2.IH" [OF s [symmetric]]] by simp
qed simp

lemma RecursivelyMarkUsed_marks: "FragmentInfo c name = Some r \<Longrightarrow> marks c (RecursivelyMarkUsed env r c)"
  using marks_trans [OF markFragmentUsed_marks(1) markUsed_loop_marks, of c name r] by (auto simp: RecursivelyMarkUsed_def simp del: markUsed_loop.simps)

text \<open>What is still to be searched: the spreads in the sets on the stack.\<close>

definition pending_spreads :: "('v, 'x) validation \<Rightarrow> token_ref selection list list \<Rightarrow> string set" where
  "pending_spreads env stack = (\<Union>ss \<in> set stack. spreads_in env ss) \<inter> known_fragments env"

definition searching :: "('v, 'x) validation \<Rightarrow> string set \<Rightarrow> 'x vctx \<Rightarrow> token_ref selection list list \<Rightarrow> bool" where
  "searching env T c stack \<longleftrightarrow> of_document env c \<and> used c \<subseteq> T \<and> pending_spreads env stack \<subseteq> T \<and>
     (\<forall>m \<in> used c. successors env m \<subseteq> used c \<union> pending_spreads env stack)"

lemma spreads_in_simps [simp]: "spreads_in env [] = {}"
  "spreads_in env (FieldNode a m args ds ss' # ss) = spreads_in env ss' \<union> spreads_in env ss"
  "spreads_in env (InlineFragment tc ds ss' # ss) = spreads_in env ss' \<union> spreads_in env ss"
  "spreads_in env (FragmentSpread m ds # ss) = insert (v_name env m) (spreads_in env ss)"
  by (simp_all add: spreads_in_def)

lemma pending_spreads_simps [simp]: "pending_spreads env [] = {}"
  "pending_spreads env (ss # stack) = spreads_in env ss \<inter> known_fragments env \<union> pending_spreads env stack"
  by (auto simp: pending_spreads_def)

lemma used_fragment: "FragmentInfo c name = Some r \<Longrightarrow> fragmentInfo_used (fragment_of c r) \<longleftrightarrow> r \<in> used c"
  by (auto simp: FragmentInfo_Some used_def flagged_def fragment_of_def)

lemma markUsed_scan_searching:
  "markUsed_scan env ss (c, stack) = (c', stack') \<Longrightarrow> searching env T c (ss # stack) \<Longrightarrow>
    (\<And>m. m \<in> T \<Longrightarrow> successors env m \<subseteq> T) \<Longrightarrow> searching env T c' stack'"
proof (induction env ss "(c, stack)" arbitrary: c stack rule: markUsed_scan.induct)
  case (4 env n d selections c stack)
  note doc = of_document_FragmentInfo [of env c "v_name env n"]
  show ?case
  proof (cases "FragmentInfo c (v_name env n)")
    case None
    then have "searching env T c (selections # stack)" using "4.prems"(2) doc(1) by (auto simp: searching_def split: if_splits)
    then show ?thesis using "4.hyps"(1) [OF None] "4.prems" None by simp
  next
    case (Some r)
    then have r: "r = v_name env n" "r \<in> known_fragments env" using "4.prems"(2) doc(1) by (auto simp: searching_def split: if_splits)
    show ?thesis
    proof (cases "fragmentInfo_used (fragment_of c r)")
      case True
      then have "r \<in> used c" using used_fragment [OF Some] by simp
      then have "searching env T c (selections # stack)" using "4.prems"(2) r by (auto simp: searching_def)
      then show ?thesis using "4.hyps"(3) [OF Some] "4.prems" Some True by simp
    next
      case False
      note m = markFragmentUsed_marks [OF Some]
      have body: "definition_GetSelectionSet (fragmentInfo_def (fragment_of c r)) = body env r" using "4.prems"(2) doc(2) r by (simp add: searching_def)
      have "of_document env (markFragmentUsed r c)" using of_document_frame [of env c] m(1) "4.prems"(2) by (simp add: searching_def marks_def)
      moreover have "r \<in> T" using "4.prems"(2) r by (auto simp: searching_def)
      moreover have "successors env r \<subseteq> T" using "4.prems"(3) [OF \<open>r \<in> T\<close>] .
      ultimately have "searching env T (markFragmentUsed r c) (selections # body env r # stack)"
        using "4.prems"(2) m(2) r by (auto simp: searching_def successors_def)
      then show ?thesis using "4.hyps"(2) [OF Some False] "4.prems" Some False body by simp
    qed
  qed
next
  case (2 env a m args ds ss selections c stack)
  have "pending_spreads env (selections # (if ss \<noteq> [] then ss # stack else stack)) = pending_spreads env ((FieldNode a m args ds ss # selections) # stack)"
    by auto
  then show ?case using 2 by (simp add: searching_def)
next
  case (3 env tc ds ss selections c stack)
  have "pending_spreads env (selections # (if ss \<noteq> [] then ss # stack else stack)) = pending_spreads env ((InlineFragment tc ds ss # selections) # stack)"
    by auto
  then show ?case using 3 by (simp add: searching_def)
qed (simp add: searching_def)

lemma markUsed_loop_searching:
  "searching env T c stack \<Longrightarrow> (\<And>m. m \<in> T \<Longrightarrow> successors env m \<subseteq> T) \<Longrightarrow>
    searching env T (markUsed_loop env c stack) []"
proof (induction env c stack rule: markUsed_loop.induct)
  case (2 env c ss stack)
  obtain c' stack' where s: "markUsed_scan env ss (c, stack) = (c', stack')" by fastforce
  from "2.IH" [OF s [symmetric] markUsed_scan_searching [OF s "2.prems"] "2.prems"(2)] show ?case using s by simp
qed simp

text \<open>The used fragments are closed under spreads.\<close>

definition used_closed :: "('v, 'x) validation \<Rightarrow> 'x vctx \<Rightarrow> bool" where
  "used_closed env c \<longleftrightarrow> of_document env c \<and> (\<forall>m \<in> used c. successors env m \<subseteq> used c)"

lemma RecursivelyMarkUsed_reaches:
  assumes c: "used_closed env c" and r: "FragmentInfo c name = Some r"
  shows "used (RecursivelyMarkUsed env r c) = used c \<union> {m. spreads_to env {name} m}"
    "used_closed env (RecursivelyMarkUsed env r c)"
proof -
  let ?c = "RecursivelyMarkUsed env r c" and ?T = "used c \<union> {m. spreads_to env {name} m}"
  have r': "r = name" "r \<in> known_fragments env" using r c of_document_FragmentInfo(1) [of env c name] by (auto simp: used_closed_def split: if_splits)
  have self: "spreads_to env {name} r" using r' by (auto intro: spreads_to_spread)
  have "used ?c = ?T \<and> used_closed env ?c"
  proof (cases "fragmentInfo_used (fragment_of c r)")
    case True
    then have "r \<in> used c" using used_fragment [OF r] by simp
    then have "{m. spreads_to env {name} m} \<subseteq> used c" using spreads_to_closed [of env "{name}" _ "used c"] c r' by (auto simp: used_closed_def)
    then show ?thesis using True c by (auto simp: RecursivelyMarkUsed_def)
  next
    case False
    note m = markFragmentUsed_marks [OF r]
    have body: "definition_GetSelectionSet (fragmentInfo_def (fragment_of c r)) = body env r"
      using of_document_FragmentInfo(2) [of env c r] c r' by (simp add: used_closed_def)
    then have eq: "?c = markUsed_loop env (markFragmentUsed r c) [body env r]" using False by (simp add: RecursivelyMarkUsed_def)
    have T: "successors env m \<subseteq> ?T" if "m \<in> ?T" for m using that c by (auto simp: used_closed_def intro: spreads_to_body)
    have "of_document env (markFragmentUsed r c)" using of_document_frame [of env c] m(1) c by (simp add: used_closed_def marks_def)
    moreover have "successors env r \<subseteq> ?T" using T self by blast
    ultimately have "searching env ?T (markFragmentUsed r c) [body env r]"
      using c m(2) self by (auto simp: searching_def used_closed_def successors_def)
    from markUsed_loop_searching [OF this T] have s: "marks (markFragmentUsed r c) ?c" "searching env ?T ?c []" unfolding eq by (simp_all only: markUsed_loop_marks)
    have "r \<in> used ?c" using s(1) m(2) by (auto simp: marks_def)
    then have "{m. spreads_to env {name} m} \<subseteq> used ?c" using spreads_to_closed [of env "{name}" _ "used ?c"] s(2) r' by (auto simp: searching_def)
    moreover have "used c \<subseteq> used ?c" using s(1) m(2) by (auto simp: marks_def)
    moreover have "used ?c \<subseteq> ?T" using s(2) by (simp add: searching_def)
    ultimately have "used ?c = ?T" by auto
    then show ?thesis using s by (simp add: used_closed_def searching_def)
  qed
  then show "used ?c = ?T" "used_closed env ?c" by auto
qed

section \<open>The rule\<close>

definition used_effect :: "('v, 'x) validation \<Rightarrow> 'x vctx \<Rightarrow> string set \<Rightarrow> string set \<Rightarrow> 'x vctx \<Rightarrow> bool" where
  "used_effect env c S U c' \<longleftrightarrow> frame c c' \<and> ctx_errs c' = ctx_errs c \<and>
     (used_closed env c \<longrightarrow> used_closed env c' \<and> used c' = used c \<union> {m. spreads_to env S m})"

lemma spreads_to_empty [simp]: "\<not> spreads_to env {} m"
proof
  show "spreads_to env {} m \<Longrightarrow> False" by (induction rule: spreads_to.induct) auto
qed

lemma used_spread:
  "acts 1 (used_effect env) (\<lambda>_ _. False)
     (\<lambda>w. fragmentSpreadRules_Run env (single NoUnusedFragments) p (FragmentInfo (w_ctx w) (v_name env m)) (FragmentSpread m ds) w) {v_name env m} {}"
  unfolding acts_def
proof (intro allI impI)
  fix w r w'
  assume w: "good 1 w"
    and run: "fragmentSpreadRules_Run env (single NoUnusedFragments) p (FragmentInfo (w_ctx w) (v_name env m)) (FragmentSpread m ds) w = (r, w')"
  let ?c = "case FragmentInfo (w_ctx w) (v_name env m) of None \<Rightarrow> w_ctx w | Some f \<Rightarrow> RecursivelyMarkUsed env f (w_ctx w)"
  have "r = Ok ()" "w' = w\<lparr>w_ctx := ?c\<rparr>" using run w
    by (auto simp: fragmentSpreadRules_Run_def run_rules_def single_def add_rule_def emptyRules_def NoUnusedFragments_def no_checks_def
        good_runs NoUnusedFragments_CheckFragmentSpread_def and_then_continue_def andThen_def setSkipping_def split: option.splits)
  moreover have "used_effect env (w_ctx w) {v_name env m} {} ?c"
  proof (cases "FragmentInfo (w_ctx w) (v_name env m)")
    case None
    then have "v_name env m \<notin> known_fragments env" if "of_document env (w_ctx w)"
      using of_document_FragmentInfo(1) [OF that] by (auto split: if_splits)
    then have "\<not> spreads_to env {v_name env m} x" if "of_document env (w_ctx w)" for x
      using that spreads_to_closed [of env "{v_name env m}" x "{}"] by auto
    then show ?thesis using None by (auto simp: used_effect_def used_closed_def)
  next
    case (Some f)
    have "frame (w_ctx w) ?c" "ctx_errs ?c = ctx_errs (w_ctx w)"
      using RecursivelyMarkUsed_marks [OF Some, of env] Some by (auto simp: marks_def frame_def)
    then show ?thesis using Some RecursivelyMarkUsed_reaches [OF _ Some, of env] by (auto simp: used_effect_def)
  qed
  ultimately show "ends (used_effect env) (\<lambda>_ _. False) w r w' {v_name env m} {}" by (auto simp: ends_def)
qed

interpretation used_walk: operation_walk env "single NoUnusedFragments" 1 "used_effect env" "\<lambda>_ _. False"
  for env
proof unfold_locales
  show "acts 1 (used_effect env) (\<lambda>_ _. False)
     (\<lambda>w. fragmentSpreadRules_Run env (single NoUnusedFragments) p (FragmentInfo (w_ctx w) (v_name env m)) (FragmentSpread m ds) w) {v_name env m} {}" for p m ds
    by (rule used_spread)
  show "used_effect env c S U c' \<Longrightarrow> used_effect env c' S' U' c'' \<Longrightarrow> used_effect env c (S \<union> S') (U \<union> U') c''" for c S U c' S' U' c''
    by (auto simp: used_effect_def spreads_to_Un intro: frame_trans)
  show "acts 1 (used_effect env) (\<lambda>_ _. False)
     (\<lambda>w. variableUsageRules_Run env (single NoUnusedFragments) t v d (VariableInfo (w_ctx w) (v_name env v)) w) {} {v_name env v}" for t v d
    by (auto simp: acts_def ends_def variableUsageRules_Run_def run_rules_def single_def add_rule_def emptyRules_def NoUnusedFragments_def no_checks_def
        used_effect_def intro!: exI)
qed (auto simp: silent_def single_def add_rule_def emptyRules_def NoUnusedFragments_def no_checks_def used_effect_def)

lemma used_runs:
  "operation_walk.runs env (used_effect env) ops c c' \<Longrightarrow> used_closed env c \<Longrightarrow>
    ctx_errs c' = ctx_errs c \<and> used c' = used c \<union> {m. \<exists>op \<in> set ops. spreads_to env (spreads_in env (definition_GetSelectionSet op)) m}"
proof (induction ops arbitrary: c)
  case (Cons op ops)
  then obtain c1 where c1: "used_effect env (entered env op c) (spreads_in env (definition_GetSelectionSet op)) (total_uses env op) c1"
    and rest: "operation_walk.runs env (used_effect env) ops (left_operation c1) c'" by (auto simp: used_walk.runs.simps)
  have e: "used_closed env (entered env op c)" "used (entered env op c) = used c" "ctx_errs (entered env op c) = ctx_errs c"
    using Cons.prems(2) by (simp_all add: used_closed_def used_def flagged_def entered_def of_document_def same_fragments_def)
  then have c1': "used_closed env c1" "used c1 = used c \<union> {m. spreads_to env (spreads_in env (definition_GetSelectionSet op)) m}" "ctx_errs c1 = ctx_errs c"
    using c1 by (auto simp: used_effect_def)
  have "used (left_operation c1) = used c1" by (simp add: used_def flagged_def left_operation_def)
  moreover have "ctx_errs (left_operation c1) = ctx_errs c1" by (simp add: left_operation_def)
  moreover have "used_closed env (left_operation c1)" using c1'(1) \<open>used (left_operation c1) = used c1\<close> by (simp add: used_closed_def)
  ultimately show ?case using Cons.IH [OF rest] c1' by auto
qed (simp add: used_walk.runs.simps)

text \<open>The reports.\<close>

definition unused_report :: "('v, 'x) validation \<Rightarrow> token_ref definition_node \<Rightarrow> 'x go_error option" where
  "unused_report env f =
     (case ErrorLocationOfASTNode (v_store env) (DefinitionNode f) of
        Ok l \<Rightarrow> Some (NewError (UnusedFragMessage (v_name env (fragment_Name f))) [ArgLocation l]) | _ \<Rightarrow> None)"

definition used_fragments :: "('v, 'x) validation \<Rightarrow> string set" where
  "used_fragments env = {m. \<exists>op \<in> set (operations env). spreads_to env (spreads_in env (definition_GetSelectionSet op)) m}"

lemma used_new: "used (newValidationContext env) = {}"
proof -
  have "map_of (fold (\<lambda>f m. if is_fragment f then AList.update (v_name env (fragment_Name f)) (newFragmentInfo env f) m else m) ds al) n = Some i \<Longrightarrow>
      (\<And>n i. map_of al n = Some i \<Longrightarrow> \<not> fragmentInfo_used i) \<Longrightarrow> \<not> fragmentInfo_used i" for ds :: "token_ref definition_node list" and al n i
    by (induction ds arbitrary: al) (fastforce simp: update_conv' newFragmentInfo_def split: if_splits)+
  from this [of "document_Definitions (v_document env)" "[]"] show ?thesis
    by (auto simp: used_def flagged_def newValidationContext_def fragmentInfoMap_def)
qed

lemma NoUnusedFragments_check:
  assumes f: "FragmentInfo c (v_name env (fragment_Name f)) = Some (v_name env (fragment_Name f))"
    and run: "NoUnusedFragments_CheckFragment env (Some (v_name env (fragment_Name f))) f c = (r, c')"
  shows "if v_name env (fragment_Name f) \<in> used c then r = Ok SkipCheckForChildNodes \<and> c' = c
         else case unused_report env f of
           Some e \<Rightarrow> r = Ok SkipCheckForChildNodes \<and> c' = c\<lparr>ctx_errs := ctx_errs c @ [e]\<rparr>
         | None \<Rightarrow> (\<nexists>a. r = Ok a)"
  using run used_fragment [OF f]
  by (auto simp: NoUnusedFragments_CheckFragment_def and_then_skip_def report_when_def report_at_def location_of_def andThen_def lift_outcome_def
      ReportError_adds unused_report_def split: outcome.splits)

lemma idle_errs: "idle env n w \<Longrightarrow> idle env n (w\<lparr>w_ctx := (w_ctx w)\<lparr>ctx_errs := es\<rparr>\<rparr>)"
  by (simp add: idle_def of_document_def same_fragments_def)

lemma used_errs [simp]: "used (c\<lparr>ctx_errs := es\<rparr>) = used c"
  by (simp add: used_def flagged_def)

lemma walkFragments_unused:
  "for_each (walkFragmentDefinition env (single NoUnusedFragments)) fs w = (r, w') \<Longrightarrow> idle env 1 w \<Longrightarrow> set fs \<subseteq> set (fragments env) \<Longrightarrow>
   (if r = Ok () then Some (ctx_errs (w_ctx w')) else None) =
     map_option ((@) (ctx_errs (w_ctx w))) (those (map (unused_report env) (filter (\<lambda>f. v_name env (fragment_Name f) \<notin> used (w_ctx w)) fs)))"
proof (induction fs arbitrary: w)
  case (Cons f fs)
  let ?f = "v_name env (fragment_Name f)"
  have info: "FragmentInfo (w_ctx w) ?f = Some ?f"
    using of_document_FragmentInfo(1) [of env "w_ctx w"] Cons.prems(2,3) by (simp add: idle_def known_fragments_names)
  have rs: "fragmentRules (single NoUnusedFragments) = [(0, NoUnusedFragments_CheckFragment)]" "indices_0 (single NoUnusedFragments)"
    by (simp_all add: single_def add_rule_def emptyRules_def NoUnusedFragments_def no_checks_def indices_0_def)
  obtain r1 c1 where chk: "NoUnusedFragments_CheckFragment env (Some ?f) f (w_ctx w) = (r1, c1)" by fastforce
  have f: "f \<in> set (fragments env)" and fs: "set fs \<subseteq> set (fragments env)" using Cons.prems(3) by auto
  note check = NoUnusedFragments_check [OF info chk] and step = walkFragment_skip [OF rs Cons.prems(2) f chk]
  have op: "ctx_currentOperation (w_ctx w) = None" using Cons.prems(2) by (simp add: idle_def)
  show ?case
  proof (cases "?f \<in> used (w_ctx w)")
    case True
    then have "walkFragmentDefinition env (single NoUnusedFragments) f w = (Ok (), w)" using check step(1) op by simp
    then have "for_each (walkFragmentDefinition env (single NoUnusedFragments)) fs w = (r, w')" using Cons.prems(1) by (simp add: andThen_def)
    from Cons.IH [OF this Cons.prems(2) fs] show ?thesis using True by simp
  next
    case False
    show ?thesis
    proof (cases "unused_report env f")
      case None
      obtain r2 w2 where one: "walkFragmentDefinition env (single NoUnusedFragments) f w = (r2, w2)" by fastforce
      then have "r2 \<noteq> Ok ()" using step(2) check False None by simp
      then have "r \<noteq> Ok ()" using Cons.prems(1) one by (cases r2) (auto simp: andThen_def)
      then show ?thesis using False None by simp
    next
      case (Some e)
      let ?w = "w\<lparr>w_ctx := (w_ctx w)\<lparr>ctx_errs := ctx_errs (w_ctx w) @ [e]\<rparr>\<rparr>"
      have "walkFragmentDefinition env (single NoUnusedFragments) f w = (Ok (), ?w)" using check step(1) op False Some by simp
      then have "for_each (walkFragmentDefinition env (single NoUnusedFragments)) fs ?w = (r, w')" using Cons.prems(1) by (simp add: andThen_def)
      from Cons.IH [OF this idle_errs [OF Cons.prems(2)] fs] show ?thesis using False Some by (simp add: option.map_comp comp_def)
    qed
  qed
qed simp

text \<open>
  C13: \<open>NoUnusedFragments\<close> reports exactly the fragments that are not reachable from an operation through spreads, in the order of their
  definitions and at the locations of their definitions.
\<close>

theorem NoUnusedFragments_correct:
  fixes env :: "('v, 'x) validation"
  shows "ValidateWithRules env [NoUnusedFragments] = Ok errs \<longleftrightarrow>
     those (map (unused_report env) (filter (\<lambda>f. v_name env (fragment_Name f) \<notin> used_fragments env) (fragments env))) = Some errs"
proof -
  let ?rs = "single NoUnusedFragments :: ('v, 'x) rule_set"
  have rs: "isRule (NoUnusedFragments :: ('v, 'x) validation_rule)" "operationRules ?rs = []" "variableRules ?rs = []"
    by (simp_all add: isRule_def single_def add_rule_def emptyRules_def NoUnusedFragments_def no_checks_def)
  obtain r w where ops: "for_each (walkOperationDefinition env ?rs) (operations env) (newWalker env 1) = (r, w)" by fastforce
  note phase = used_walk.walkOperations [OF rs(2,3) idle_new ops]
  then have r: "r = Ok ()" by (auto split: if_splits)
  then have w: "idle env 1 w" "operation_walk.runs env (used_effect env) (operations env) (newValidationContext env) (w_ctx w)"
    using phase by (simp_all add: newWalker_def)
  have new: "used (newValidationContext env) = {}" "ctx_errs (newValidationContext env) = []" by (simp add: used_new) (simp add: newValidationContext_def)
  have "used_closed env (newValidationContext env)" by (simp add: used_closed_def new)
  from used_runs [OF w(2) this] have u: "used (w_ctx w) = used_fragments env" "ctx_errs (w_ctx w) = []" by (auto simp: new used_fragments_def)
  obtain r' w' where fr: "for_each (walkFragmentDefinition env ?rs) (fragments env) w = (r', w')" by fastforce
  have "ValidateWithRules env [NoUnusedFragments] = Ok errs \<longleftrightarrow> r' = Ok () \<and> ctx_errs (w_ctx w') = errs" using ops fr r
    by (cases r') (auto simp: ValidateWithRules_single [OF rs(1)] validate_with_def walk_def andThen_def operations_def fragments_def)
  moreover have "map_option ((@) []) x = x" for x :: "'x go_error list option" by (cases x) auto
  ultimately show ?thesis using walkFragments_unused [OF fr w(1) order_refl] by (auto simp: u split: if_splits)
qed

end
