(* ===== verification/FragmentCycles.thy ===== *)
theory FragmentCycles
  imports UnusedFragments
begin

text \<open>
  \<open>NoFragmentCycles\<close>: the depth-first search with its explicit stack of depths accepts exactly the documents whose fragments do not spread
  each other in a cycle.
\<close>

section \<open>The graph of the fragments\<close>

definition spread_graph :: "('v, 'x) validation \<Rightarrow> (string \<times> string) set" where
  "spread_graph env = {(m, n). m \<in> known_fragments env \<and> n \<in> successors env m}"

definition cyclic :: "('v, 'x) validation \<Rightarrow> bool" where
  "cyclic env \<longleftrightarrow> (\<exists>m. (m, m) \<in> (spread_graph env)\<^sup>+)"

text \<open>What has been searched: nothing leads out of it, and there are no cycles in it.\<close>

definition searched :: "('v, 'x) validation \<Rightarrow> string set \<Rightarrow> bool" where
  "searched env K \<longleftrightarrow> K \<subseteq> known_fragments env \<and> (\<forall>m \<in> K. successors env m \<subseteq> K \<and> (m, m) \<notin> (spread_graph env)\<^sup>+)"

lemma searched_empty [simp]: "searched env {}"
  by (simp add: searched_def)

lemma searched_reaches: "(m, n) \<in> (spread_graph env)\<^sup>+ \<Longrightarrow> searched env K \<Longrightarrow> m \<in> K \<Longrightarrow> n \<in> K"
  by (induction rule: trancl_induct) (auto simp: searched_def spread_graph_def)

lemma searched_insert:
  assumes K: "searched env K" and x: "x \<in> known_fragments env" "successors env x \<subseteq> K"
  shows "searched env (insert x K)"
proof (cases "x \<in> K")
  case True
  then show ?thesis using K by (simp add: insert_absorb)
next
  case False
  have "(x, x) \<notin> (spread_graph env)\<^sup>+"
  proof
    assume "(x, x) \<in> (spread_graph env)\<^sup>+"
    then obtain y where y: "(x, y) \<in> spread_graph env" "y = x \<or> (y, x) \<in> (spread_graph env)\<^sup>+" by (auto elim: converse_tranclE)
    then have "y \<in> K" using x by (auto simp: spread_graph_def)
    then show False using y(2) False searched_reaches [OF _ K] by auto
  qed
  then show ?thesis using K x by (auto simp: searched_def)
qed

text \<open>The end of a path is searched when its fragments lead to searched ones and to the next on the path only.\<close>

lemma searched_path:
  "searched env K \<Longrightarrow> set xs \<subseteq> known_fragments env \<Longrightarrow>
   (\<And>j. j < length xs \<Longrightarrow> successors env (xs ! j) \<subseteq> K \<union> (if Suc j < length xs then {xs ! Suc j} else {})) \<Longrightarrow> searched env (K \<union> set xs)"
proof (induction xs)
  case (Cons x xs)
  have "searched env (K \<union> set xs)"
  proof (rule Cons.IH)
    fix j assume "j < length xs"
    then show "successors env (xs ! j) \<subseteq> K \<union> (if Suc j < length xs then {xs ! Suc j} else {})" using Cons.prems(3) [of "Suc j"] by (auto split: if_splits)
  qed (use Cons.prems in auto)
  moreover have "successors env x \<subseteq> K \<union> set xs" using Cons.prems(3) [of 0] by (cases xs) auto
  ultimately show ?case using searched_insert [of env "K \<union> set xs" x] Cons.prems(2) by simp
qed simp

lemma path_reaches:
  "(\<And>i. Suc i < length anc \<Longrightarrow> (anc ! i, anc ! Suc i) \<in> R) \<Longrightarrow> i \<le> j \<Longrightarrow> j < length anc \<Longrightarrow> (anc ! i, anc ! j) \<in> R\<^sup>*"
proof (induction j)
  case (Suc j)
  show ?case
  proof (cases "i = Suc j")
    case False
    then have "(anc ! i, anc ! j) \<in> R\<^sup>*" using Suc by simp
    moreover have "(anc ! j, anc ! Suc j) \<in> R" using Suc.prems by simp
    ultimately show ?thesis by (rule rtrancl_into_rtrancl)
  qed simp
qed simp

section \<open>The scan of a body\<close>

lemma spreads_of_append: "spreads_of (xs @ ys) = spreads_of xs @ spreads_of ys"
  by (induction xs rule: spreads_of.induct) auto

lemma set_rev_scan: "set (spreads_of (rev ss)) = set (spreads_of ss)" "set (subsets_of (rev ss)) = set (subsets_of ss)"
proof (induction ss)
  case (Cons s ss)
  { case 1 show ?case using Cons by (cases s) (auto simp: spreads_of_append) }
  { case 2 show ?case using Cons by (cases s) (auto simp: subsets_of_append) }
qed simp_all

lemma spreads_in_scan: "spreads_in env ss = spread_name env ` set (spreads_of ss) \<union> (\<Union>ss' \<in> set (subsets_of ss). spreads_in env ss')"
proof (induction ss)
  case (Cons s ss)
  then show ?case by (cases s) (auto simp: spread_name_def)
qed simp

lemma scan_spreads_names: "spread_name env ` set (scan_spreads sets) = (\<Union>ss \<in> set sets. spreads_in env ss)"
proof (induction sets rule: scan_spreads.induct)
  case (2 ss sets)
  then show ?case using spreads_in_scan [of env ss] by (simp add: set_rev_scan image_Un) blast
qed simp

text \<open>The name of a fragment is the one under which it is found.\<close>

lemma fragmentInfo_Name_of_document:
  assumes "of_document env c" "name \<in> known_fragments env"
  shows "fragmentInfo_Name env (fragment_of c name) = name"
proof -
  have "map_of (fold (\<lambda>f m. if is_fragment f then AList.update (v_name env (fragment_Name f)) (newFragmentInfo env f) m else m) ds al) n = Some i \<Longrightarrow>
      (\<And>n i. map_of al n = Some i \<Longrightarrow> fragmentInfo_Name env i = n) \<Longrightarrow> fragmentInfo_Name env i = n" for ds :: "token_ref definition_node list" and al n i
    by (induction ds arbitrary: al) (fastforce simp: update_conv' newFragmentInfo_def fragmentInfo_Name_def split: if_splits)+
  from this [of "document_Definitions (v_document env)" "[]" name] obtain i
    where i: "map_of (fragmentInfoMap env) name = Some i" "fragmentInfo_Name env i = name"
    using assms(2) by (auto simp: known_fragments_def fragmentInfoMap_def)
  have "map_option (\<lambda>i. (fragmentInfo_def i, fragmentInfo_typeCondition i)) (map_of (fragmentInfoMap env) name) =
      map_option (\<lambda>i. (fragmentInfo_def i, fragmentInfo_typeCondition i)) (map_of (ctx_fragmentInfos c) name)"
    using assms(1) by (simp add: of_document_def same_fragments_def newValidationContext_def)
  then have "map_option (\<lambda>i. (fragmentInfo_def i, fragmentInfo_typeCondition i)) (map_of (ctx_fragmentInfos c) name) =
      Some (fragmentInfo_def i, fragmentInfo_typeCondition i)" using i(1) by simp
  then obtain i' where "map_of (ctx_fragmentInfos c) name = Some i'" "fragmentInfo_def i' = fragmentInfo_def i" by auto
  then show ?thesis using i(2) by (simp add: fragment_of_def fragmentInfo_Name_def)
qed

definition cycle_visited :: "'x vctx \<Rightarrow> string set" where
  "cycle_visited c = flagged fragmentInfo_CycleChecked c"

text \<open>\<open>spreadPathIndexByName\<close> has the ancestors with their positions.\<close>

definition positions :: "string list \<Rightarrow> (string \<rightharpoonup> nat) \<Rightarrow> bool" where
  "positions anc index \<longleftrightarrow> (\<forall>x i. index x = Some i \<longleftrightarrow> i < length anc \<and> anc ! i = x)"

lemma positions_None: "positions anc index \<Longrightarrow> index x = None \<longleftrightarrow> x \<notin> set anc"
  by (metis in_set_conv_nth not_None_eq positions_def)

lemma report_nodes_grows:
  assumes "report_nodes env message nodes c = (r, c')"
  shows "\<exists>es. c' = c\<lparr>ctx_errs := ctx_errs c @ es\<rparr> \<and> (r = Ok () \<longrightarrow> es \<noteq> [])"
proof (cases "r = Ok ()")
  case True
  then obtain e where "c' = c\<lparr>ctx_errs := ctx_errs c @ [e]\<rparr>" using report_nodes_adds [OF assms] by blast
  then show ?thesis by (intro exI [of _ "[e]"]) simp
next
  case False
  obtain r1 c1 where l: "locations_of env nodes c = (r1, c1)" by fastforce
  then have "c1 = c" by (rule locations_of_ctx)
  then have "c' = c" using assms False l by (cases r1) (auto simp: report_nodes_def andThen_def ReportError_adds)
  then show ?thesis using False by (intro exI [of _ "[]"]) simp
qed

text \<open>One spread: a fragment on the path is reported, one that has not been visited is pushed.\<close>

lemma cycle_spread_effect:
  assumes c: "of_document env c" and anc: "positions anc index" "length anc = Suc (length path)"
    and run: "cycle_spread env path index spread (c, stack) = (r, c', stack')"
  defines "x \<equiv> spread_name env spread"
  shows "x \<in> known_fragments env \<Longrightarrow> x \<in> set anc \<Longrightarrow>
      stack' = stack \<and> (\<exists>es. c' = c\<lparr>ctx_errs := ctx_errs c @ es\<rparr> \<and> (r = Ok () \<longrightarrow> es \<noteq> []))"
    and "x \<in> known_fragments env \<Longrightarrow> x \<notin> set anc \<Longrightarrow>
      r = Ok () \<and> c' = c \<and> stack' = (if x \<in> cycle_visited c then stack else (length path, x, spread) # stack)"
    and "x \<notin> known_fragments env \<Longrightarrow> r = Ok () \<and> c' = c \<and> stack' = stack"
proof -
  have info: "FragmentInfo c x = (if x \<in> known_fragments env then Some x else None)" using of_document_FragmentInfo(1) [OF c] .
  then show "x \<notin> known_fragments env \<Longrightarrow> r = Ok () \<and> c' = c \<and> stack' = stack" using run by (auto simp: cycle_spread_def x_def)
  assume x: "x \<in> known_fragments env"
  note name = fragmentInfo_Name_of_document [OF c x]
  show "r = Ok () \<and> c' = c \<and> stack' = (if x \<in> cycle_visited c then stack else (length path, x, spread) # stack)" if "x \<notin> set anc"
  proof -
    have "index x = None" using that positions_None [OF anc(1)] by simp
    moreover have "fragmentInfo_CycleChecked (fragment_of c x) \<longleftrightarrow> x \<in> cycle_visited c"
      using info x by (auto simp: cycle_visited_def flagged_def fragment_of_def FragmentInfo_Some)
    ultimately show ?thesis using run info x name by (auto simp: cycle_spread_def x_def Let_def)
  qed
  show "stack' = stack \<and> (\<exists>es. c' = c\<lparr>ctx_errs := ctx_errs c @ es\<rparr> \<and> (r = Ok () \<longrightarrow> es \<noteq> []))" if in_anc: "x \<in> set anc"
  proof -
    obtain i where i: "index x = Some i" using in_anc positions_None [OF anc(1), of x] by auto
    then have "\<not> length path < i" using anc by (auto simp: positions_def)
    then have "report_nodes env (CycleErrorMessage x (map (spread_name env) (drop i path))) (map SelectionNode (drop i path @ [spread])) c = (r, c')" "stack' = stack"
      using run info x name i by (auto simp: cycle_spread_def x_def Let_def split: prod.splits)
    then show ?thesis using report_nodes_grows by blast
  qed
qed

text \<open>Errors are only added.\<close>

definition grows :: "'x vctx \<Rightarrow> 'x vctx \<Rightarrow> bool" where
  "grows c c' \<longleftrightarrow> (\<exists>es. ctx_errs c' = ctx_errs c @ es)"

lemma grows_trans: "grows c c' \<Longrightarrow> grows c' c'' \<Longrightarrow> grows c c''"
  by (auto simp: grows_def)

lemma grows_refl [simp]: "grows c c"
  by (simp add: grows_def)

lemma grows_same: "grows c c' \<Longrightarrow> grows c' c'' \<Longrightarrow> ctx_errs c'' = ctx_errs c \<longleftrightarrow> ctx_errs c' = ctx_errs c \<and> ctx_errs c'' = ctx_errs c'"
  by (auto simp: grows_def)

lemma cycle_spread_grows: "cycle_spread env path index spread (c, stack) = (r, c', stack') \<Longrightarrow> grows c c'"
  by (auto simp: cycle_spread_def Let_def grows_def split: option.splits if_splits prod.splits dest!: report_nodes_grows)

lemma cycle_spreads_grows: "for_each (cycle_spread env path index) spreads (c, stack) = (r, c', stack') \<Longrightarrow> grows c c'"
proof (induction spreads arbitrary: c stack)
  case (Cons spread spreads)
  obtain r1 c1 s1 where one: "cycle_spread env path index spread (c, stack) = (r1, c1, s1)" by (metis prod.exhaust)
  note g = cycle_spread_grows [OF one]
  show ?case
  proof (cases "r1 = Ok ()")
    case True
    then show ?thesis using Cons one grows_trans [OF g] by (auto simp: andThen_def)
  next
    case False
    then show ?thesis using Cons.prems one g by (cases r1) (auto simp: andThen_def)
  qed
qed simp

lemma cycle_spreads_effect:
  assumes c: "of_document env c" and anc: "positions anc index" "length anc = Suc (length path)"
  shows "for_each (cycle_spread env path index) spreads (c, stack) = (r, c', stack') \<Longrightarrow>
    if r = Ok () \<and> ctx_errs c' = ctx_errs c
    then c' = c \<and> spread_name env ` set spreads \<inter> known_fragments env \<inter> set anc = {} \<and>
      (\<exists>new. stack' = new @ stack \<and>
         (\<forall>(d, g, s) \<in> set new. d = length path \<and> g = spread_name env s \<and> s \<in> set spreads \<and> g \<in> known_fragments env) \<and>
         spread_name env ` set spreads \<inter> known_fragments env \<subseteq> cycle_visited c \<union> (fst \<circ> snd) ` set new)
    else \<exists>x \<in> spread_name env ` set spreads \<inter> known_fragments env. x \<in> set anc"
proof (induction spreads arbitrary: stack)
  case (Cons spread spreads)
  let ?x = "spread_name env spread"
  obtain r1 c1 s1 where one: "cycle_spread env path index spread (c, stack) = (r1, c1, s1)" by (metis prod.exhaust)
  note eff = cycle_spread_effect [OF c anc one]
  show ?case
  proof (cases "?x \<in> known_fragments env \<and> ?x \<in> set anc")
    case True
    then have e1: "\<exists>es. c1 = c\<lparr>ctx_errs := ctx_errs c @ es\<rparr> \<and> (r1 = Ok () \<longrightarrow> es \<noteq> [])" using eff(1) by blast
    have "\<not> (r = Ok () \<and> ctx_errs c' = ctx_errs c)"
    proof (cases "r1 = Ok ()")
      case r1: True
      then have "for_each (cycle_spread env path index) spreads (c1, s1) = (r, c', stack')" using Cons.prems one by (simp add: andThen_def)
      then have "grows c1 c'" by (rule cycle_spreads_grows)
      then show ?thesis using e1 r1 by (auto simp: grows_def)
    next
      case False
      then show ?thesis using Cons.prems one by (cases r1) (auto simp: andThen_def)
    qed
    then show ?thesis using True by auto
  next
    case False
    define new1 where "new1 = (if ?x \<in> known_fragments env \<and> ?x \<notin> cycle_visited c then [(length path, ?x, spread)] else [])"
    have s1: "r1 = Ok ()" "c1 = c" "s1 = new1 @ stack" using eff(2,3) False
      by (cases "?x \<in> known_fragments env"; simp add: new1_def)+
    then have "for_each (cycle_spread env path index) spreads (c, new1 @ stack) = (r, c', stack')" using Cons.prems one by (simp add: andThen_def)
    note ih = Cons.IH [OF this]
    show ?thesis
    proof (cases "r = Ok () \<and> ctx_errs c' = ctx_errs c")
      case True
      then obtain new where new: "stack' = new @ new1 @ stack"
        "\<forall>(d, g, s) \<in> set new. d = length path \<and> g = spread_name env s \<and> s \<in> set spreads \<and> g \<in> known_fragments env"
        "spread_name env ` set spreads \<inter> known_fragments env \<subseteq> cycle_visited c \<union> (fst \<circ> snd) ` set new"
        "c' = c" "spread_name env ` set spreads \<inter> known_fragments env \<inter> set anc = {}" using ih by auto
      then show ?thesis using True False by (auto simp: new1_def intro!: exI [of _ "new @ new1"])
    next
      case dirty: False
      have "\<exists>x \<in> spread_name env ` set spreads \<inter> known_fragments env. x \<in> set anc" using ih unfolding if_not_P [OF dirty] .
      then show ?thesis unfolding if_not_P [OF dirty] by auto
    qed
  qed
qed simp

section \<open>The search\<close>

text \<open>
  The invariant at the start of an iteration: \<open>anc\<close> are the fragments on the path, \<open>K\<close> those whose search has ended. The spreads of a fragment on
  the path lead to \<open>K\<close>, to the next fragment on the path, or to a fragment on the stack at the depth of the former.
\<close>

definition search_path :: "('v, 'x) validation \<Rightarrow> string list \<Rightarrow> token_ref selection list \<Rightarrow> (string \<rightharpoonup> nat) \<Rightarrow> bool" where
  "search_path env anc path index \<longleftrightarrow> positions anc index \<and> anc \<noteq> [] \<and> tl anc = map (spread_name env) path \<and> set anc \<subseteq> known_fragments env \<and>
     (\<forall>i. Suc i < length anc \<longrightarrow> anc ! Suc i \<in> successors env (anc ! i))"

definition search_stack :: "('v, 'x) validation \<Rightarrow> string list \<Rightarrow> stack_data list \<Rightarrow> bool" where
  "search_stack env anc stack \<longleftrightarrow> sorted_wrt (\<lambda>(d, _) (d', _). d' \<le> d) stack \<and>
     (\<forall>(d, g, s) \<in> set stack. d < length anc \<and> g = spread_name env s \<and> g \<in> successors env (anc ! d) \<and> g \<notin> set (take (Suc d) anc))"

definition targets :: "stack_data list \<Rightarrow> nat \<Rightarrow> string set" where
  "targets stack i = {g. \<exists>s. (i, g, s) \<in> set stack}"

definition search_state :: "('v, 'x) validation \<Rightarrow> string set \<Rightarrow> string list \<Rightarrow> stack_data list \<Rightarrow> 'x vctx \<Rightarrow> bool" where
  "search_state env K anc stack c \<longleftrightarrow> of_document env c \<and> searched env K \<and> K \<subseteq> cycle_visited c \<and> cycle_visited c \<subseteq> K \<union> set anc \<and> set (butlast anc) \<subseteq> cycle_visited c \<and>
     (\<forall>i. Suc i < length anc \<longrightarrow> successors env (anc ! i) \<subseteq> K \<union> {anc ! Suc i} \<union> targets stack i)"

lemma search_path_length: "search_path env anc path index \<Longrightarrow> length anc = Suc (length path)"
  by (cases anc) (auto simp: search_path_def dest: arg_cong [of _ _ length])

text \<open>A spread to a fragment on the path closes a cycle.\<close>

lemma search_path_cyclic:
  assumes p: "search_path env anc path index" and x: "x \<in> successors env (last anc)" "x \<in> set anc"
  shows "cyclic env"
proof -
  obtain i where i: "i < length anc" "anc ! i = x" using x(2) by (auto simp: in_set_conv_nth)
  have ne: "anc \<noteq> []" and edge: "(anc ! j, anc ! Suc j) \<in> spread_graph env" if "Suc j < length anc" for j
    using p that nth_mem [of j anc] by (auto simp: search_path_def spread_graph_def)
  have "(anc ! i, anc ! (length anc - 1)) \<in> (spread_graph env)\<^sup>*" using path_reaches [of anc "spread_graph env"] edge i(1) by simp
  moreover have "anc ! (length anc - 1) = last anc" using i(1) by (cases anc rule: rev_cases) auto
  moreover have "(last anc, x) \<in> spread_graph env" using p x(1) i(1) last_in_set [of anc] by (auto simp: search_path_def spread_graph_def)
  ultimately have "(x, x) \<in> (spread_graph env)\<^sup>+" using i(2) by (simp add: rtrancl_into_trancl1)
  then show ?thesis by (auto simp: cyclic_def)
qed

text \<open>After a scan without reports.\<close>

lemma search_scanned:
  assumes p: "search_path env anc path index" and st: "search_stack env anc stack" and K: "search_state env K anc stack c"
    and scan: "\<forall>(d, g, s) \<in> set new. d = length path \<and> g = spread_name env s \<and> g \<in> successors env (last anc)"
      "successors env (last anc) \<inter> set anc = {}" "successors env (last anc) \<subseteq> cycle_visited c \<union> {last anc} \<union> (fst \<circ> snd) ` set new"
  shows "search_stack env anc (new @ stack)"
    "i < length anc \<Longrightarrow> successors env (anc ! i) \<subseteq> K \<union> (if Suc i < length anc then {anc ! Suc i} else {}) \<union> targets (new @ stack) i"
proof -
  have len: "length anc = Suc (length path)" by (rule search_path_length [OF p])
  then have last: "last anc = anc ! length path" using last_conv_nth [of anc] by fastforce
  have "sorted_wrt (\<lambda>(d, _) (d', _). d' \<le> d) new"
    using scan(1) by (induction new) auto
  moreover have "d' \<le> length path" if "(d', y) \<in> set stack" for d' y using st that len by (auto simp: search_stack_def)
  ultimately have "sorted_wrt (\<lambda>(d, _) (d', _). d' \<le> d) (new @ stack)" using st scan(1) by (fastforce simp: search_stack_def sorted_wrt_append)
  moreover have "\<forall>(d, g, s) \<in> set new. d < length anc \<and> g = spread_name env s \<and> g \<in> successors env (anc ! d) \<and> g \<notin> set (take (Suc d) anc)"
    using scan(1,2) len last by (fastforce simp: last)
  ultimately show "search_stack env anc (new @ stack)" using st by (auto simp: search_stack_def)
  assume i: "i < length anc"
  show "successors env (anc ! i) \<subseteq> K \<union> (if Suc i < length anc then {anc ! Suc i} else {}) \<union> targets (new @ stack) i"
  proof (cases "Suc i < length anc")
    case True
    then show ?thesis using K by (fastforce simp: search_state_def targets_def)
  next
    case False
    then have i': "i = length path" using i len by simp
    have "(fst \<circ> snd) ` set new \<subseteq> targets (new @ stack) i" using scan(1) by (fastforce simp: i' targets_def)
    moreover have "successors env (last anc) \<inter> cycle_visited c \<subseteq> K" using K scan(2) by (auto simp: search_state_def)
    moreover have "last anc \<notin> successors env (last anc)" 
    proof -
      have "last anc \<in> set anc" using len by (intro last_in_set) auto
      then show ?thesis using scan(2) by blast
    qed
    ultimately show ?thesis using scan(3) unfolding if_not_P [OF False] last i' by blast
  qed
qed

text \<open>When all fragments on the path have been scanned, the next on the stack is entered, or the search ends.\<close>

definition all_scanned :: "('v, 'x) validation \<Rightarrow> string set \<Rightarrow> string list \<Rightarrow> stack_data list \<Rightarrow> 'x vctx \<Rightarrow> bool" where
  "all_scanned env K anc stack c \<longleftrightarrow> of_document env c \<and> searched env K \<and> cycle_visited c = K \<union> set anc \<and>
     (\<forall>i < length anc. successors env (anc ! i) \<subseteq> K \<union> (if Suc i < length anc then {anc ! Suc i} else {}) \<union> targets stack i)"

lemma targets_simps [simp]: "targets [] i = {}" "targets ((d, g, s) # stack) i = (if i = d then {g} else {}) \<union> targets stack i"
  by (auto simp: targets_def)

lemma search_absorb:
  assumes p: "search_path env anc path index" and all: "all_scanned env K anc stack c" and d: "\<And>i. d \<le> i \<Longrightarrow> targets stack i = {}"
  shows "searched env (K \<union> set (drop d anc))"
proof (rule searched_path)
  show "searched env K" using all by (simp add: all_scanned_def)
  show "set (drop d anc) \<subseteq> known_fragments env" using p set_drop_subset [of d anc] by (auto simp: search_path_def)
  fix j assume j: "j < length (drop d anc)"
  then have "successors env (anc ! (d + j)) \<subseteq> K \<union> (if Suc (d + j) < length anc then {anc ! Suc (d + j)} else {}) \<union> targets stack (d + j)"
    using all by (simp add: all_scanned_def)
  then show "successors env (drop d anc ! j) \<subseteq> K \<union> (if Suc j < length (drop d anc) then {drop d anc ! Suc j} else {})"
    using j d [of "d + j"] by (auto split: if_splits)
qed

lemma fold_unset: "fold (\<lambda>s m. m(f s := None)) xs m x = (if x \<in> f ` set xs then None else m x)"
  by (induction xs arbitrary: m) auto

lemma positions_distinct: "positions anc index \<Longrightarrow> distinct anc"
  unfolding positions_def distinct_conv_nth by (metis option.inject)

lemma positions_push:
  assumes pos: "positions anc index" and d: "d < length anc" and g: "g \<notin> set (take (Suc d) anc)" and xs: "X = set (drop (Suc d) anc)"
  shows "positions (take (Suc d) anc @ [g]) ((\<lambda>x. if x \<in> X then None else index x)(g \<mapsto> Suc d))"
  unfolding positions_def
proof (intro allI)
  fix x i
  let ?anc = "take (Suc d) anc @ [g]"
  have len: "length ?anc = Suc (Suc d)" using d by simp
  have nth: "?anc ! i = (if i < Suc d then anc ! i else g)" if "i < Suc (Suc d)" using that d by (auto simp: nth_append less_Suc_eq)
  have dis: "distinct anc" by (rule positions_distinct [OF pos])
  show "((\<lambda>x. if x \<in> X then None else index x)(g \<mapsto> Suc d)) x = Some i \<longleftrightarrow> i < length ?anc \<and> ?anc ! i = x"
  proof (cases "x = g")
    case True
    have "anc ! i \<noteq> g" if "i < Suc d" using g that d by (auto simp: in_set_conv_nth)
    then show ?thesis using True nth len by (auto simp: less_Suc_eq)
  next
    case False
    show ?thesis
    proof (cases "x \<in> X")
      case True
      have "anc ! i \<noteq> x" if "i < Suc d"
      proof
        assume "anc ! i = x"
        then have "x \<in> set (take (Suc d) anc)" using that d by (auto simp: in_set_conv_nth)
        then show False using True dis xs set_take_disj_set_drop_if_distinct [OF dis, of "Suc d" "Suc d"] by auto
      qed
      then show ?thesis using True False nth len by auto
    next
      case notin: False
      have "i < Suc d" if "i < length anc" "anc ! i = x"
      proof (rule ccontr)
        assume "\<not> i < Suc d"
        then have "x \<in> X" using that xs by (auto simp: in_set_conv_nth intro!: exI [of _ "i - Suc d"])
        then show False using notin by simp
      qed
      then show ?thesis using pos notin False nth len d by (auto simp: positions_def split: if_splits)
    qed
  qed
qed

lemma search_push:
  assumes p: "search_path env anc path index" and st: "search_stack env anc ((d, g, s) # rest)" and all: "all_scanned env K anc ((d, g, s) # rest) c"
  defines "anc' \<equiv> take (Suc d) anc @ [g]"
  shows "search_path env anc' (take d path @ [s]) ((fold (\<lambda>s m. m(spread_name env s := None)) (drop d path) index)(g \<mapsto> Suc d))"
    "search_stack env anc' rest" "search_state env (K \<union> set (drop (Suc d) anc)) anc' rest c"
proof -
  have len: "length anc = Suc (length path)" by (rule search_path_length [OF p])
  have top: "d < length anc" "g = spread_name env s" "g \<in> successors env (anc ! d)" "g \<notin> set (take (Suc d) anc)" using st by (auto simp: search_stack_def)
  have tl: "tl anc = map (spread_name env) path" and edges: "\<And>i. Suc i < length anc \<Longrightarrow> anc ! Suc i \<in> successors env (anc ! i)"
    using p by (auto simp: search_path_def)
  have nth': "anc' ! i = anc ! i" if "i \<le> d" for i using that top(1) by (simp add: anc'_def nth_append)
  have nth_g: "anc' ! Suc d = g" "length anc' = Suc (Suc d)" using top(1) by (simp_all add: anc'_def nth_append)
  have drop': "set (drop (Suc d) anc) = spread_name env ` set (drop d path)"
    using tl by (metis drop_Suc drop_map list.set_map)
  have "anc \<noteq> []" using len by auto
  have depths: "d2 \<le> d" if "(d2, x) \<in> set rest" for d2 x using st that by (auto simp: search_stack_def)
  show "search_path env anc' (take d path @ [s]) ((fold (\<lambda>s m. m(spread_name env s := None)) (drop d path) index)(g \<mapsto> Suc d))"
    unfolding search_path_def
  proof (intro conjI allI impI)
    have "fold (\<lambda>s m. m(spread_name env s := None)) (drop d path) index = (\<lambda>x. if x \<in> set (drop (Suc d) anc) then None else index x)"
      by (rule ext) (simp add: fold_unset drop')
    then show "positions anc' ((fold (\<lambda>s m. m(spread_name env s := None)) (drop d path) index)(g \<mapsto> Suc d))"
      using positions_push [OF _ top(1,4) refl] p by (simp add: anc'_def search_path_def)
    show "tl anc' = map (spread_name env) (take d path @ [s])" using \<open>anc \<noteq> []\<close> tl top(2) by (cases anc) (simp_all add: anc'_def take_map)
    show "set anc' \<subseteq> known_fragments env"
      using p top(3) set_take_subset [of "Suc d" anc] by (auto simp: search_path_def anc'_def successors_def)
    fix i assume "Suc i < length anc'"
    then show "anc' ! Suc i \<in> successors env (anc' ! i)" using nth' nth_g top(1,3) edges [of i] by (cases "i = d") auto
  qed (simp add: anc'_def)
  have "take (Suc d2) anc' = take (Suc d2) anc" if "d2 \<le> d" for d2 using that top(1) by (simp add: anc'_def min_def)
  then show "search_stack env anc' rest" using st nth' depths nth_g(2) by (fastforce simp: search_stack_def)
  have no: "targets ((d, g, s) # rest) i = {}" if "Suc d \<le> i" for i using that depths by (fastforce simp: targets_def)
  show "search_state env (K \<union> set (drop (Suc d) anc)) anc' rest c"
    unfolding search_state_def
  proof (intro conjI allI impI)
    show "searched env (K \<union> set (drop (Suc d) anc))" using search_absorb [OF p all no] .
    have split: "set anc = set (take (Suc d) anc) \<union> set (drop (Suc d) anc)" by (metis append_take_drop_id set_append)
    show "K \<union> set (drop (Suc d) anc) \<subseteq> cycle_visited c" "cycle_visited c \<subseteq> K \<union> set (drop (Suc d) anc) \<union> set anc'" "set (butlast anc') \<subseteq> cycle_visited c"
      using all split by (auto simp: all_scanned_def anc'_def)
    show "of_document env c" using all by (simp add: all_scanned_def)
    fix i assume i: "Suc i < length anc'"
    then have "successors env (anc ! i) \<subseteq> K \<union> (if Suc i < length anc then {anc ! Suc i} else {}) \<union> targets ((d, g, s) # rest) i"
      using all top(1) nth_g(2) by (simp add: all_scanned_def)
    moreover have "anc ! Suc d \<in> set (drop (Suc d) anc)" if "Suc d < length anc" using that by (auto simp: in_set_conv_nth intro!: exI [of _ 0])
    ultimately show "successors env (anc' ! i) \<subseteq> K \<union> set (drop (Suc d) anc) \<union> {anc' ! Suc i} \<union> targets rest i"
      using i nth' nth_g top(1) by (cases "i = d") (auto split: if_splits)
  qed
qed

text \<open>Visiting a fragment.\<close>

definition kept :: "'x vctx \<Rightarrow> 'x vctx \<Rightarrow> bool" where
  "kept c c' \<longleftrightarrow> same_fragments c c' \<and> ctx_currentOperation c' = ctx_currentOperation c \<and> ctx_variableInfos c' = ctx_variableInfos c"

lemma kept_trans: "kept c c' \<Longrightarrow> kept c' c'' \<Longrightarrow> kept c c''"
  by (auto simp: kept_def intro: same_fragments_trans)

definition present :: "'x vctx \<Rightarrow> string set" where
  "present c = dom (map_of (ctx_fragmentInfos c))"

lemma present_document: "of_document env c \<Longrightarrow> present c = known_fragments env"
proof -
  assume c: "of_document env c"
  have "x \<in> present c \<longleftrightarrow> x \<in> known_fragments env" for x
    using of_document_FragmentInfo(1) [OF c, of x] by (auto simp: present_def FragmentInfo_def split: option.splits if_splits)
  then show ?thesis by blast
qed

lemma markCycleChecked_kept:
  assumes "f \<in> present c"
  shows "kept c (markCycleChecked f c)" "cycle_visited (markCycleChecked f c) = insert f (cycle_visited c)" "ctx_errs (markCycleChecked f c) = ctx_errs c"
    "present (markCycleChecked f c) = present c"
proof -
  obtain i where i: "map_of (ctx_fragmentInfos c) f = Some i" using assms by (auto simp: present_def)
  show "kept c (markCycleChecked f c)"
    using i by (simp add: kept_def same_fragments_def markCycleChecked_def map_of_fragment_update fragment_of_def)
  show "cycle_visited (markCycleChecked f c) = insert f (cycle_visited c)"
    by (auto simp: cycle_visited_def flagged_def markCycleChecked_def map_of_fragment_update)
  show "present (markCycleChecked f c) = present c" using i by (auto simp: present_def markCycleChecked_def map_of_fragment_update)
  show "ctx_errs (markCycleChecked f c) = ctx_errs c" by (simp add: markCycleChecked_def)
qed

lemma markCycleChecked_effect:
  assumes "of_document env c" "f \<in> known_fragments env"
  shows "kept c (markCycleChecked f c)" "cycle_visited (markCycleChecked f c) = insert f (cycle_visited c)" "ctx_errs (markCycleChecked f c) = ctx_errs c"
    "of_document env (markCycleChecked f c)"
  using markCycleChecked_kept [of f c] present_document [OF assms(1)] assms(2) of_document_frame [OF assms(1)] by (auto simp: kept_def)

lemma scan_grows:
  assumes f: "f \<in> present c" "(fst \<circ> snd) ` set stack \<subseteq> present c"
    and scan: "for_each (cycle_spread env path index) spreads (markCycleChecked f c, stack) = (r1, c1, s1)"
  shows "grows c c1" "kept c c1" "(fst \<circ> snd) ` set s1 \<subseteq> present c1"
proof -
  note mark = markCycleChecked_kept [OF f(1)]
  show "grows c c1" using cycle_spreads_grows [OF scan] by (simp add: grows_def mark(3))
  obtain errs new where c1: "c1 = (markCycleChecked f c)\<lparr>ctx_errs := errs\<rparr>" and s1: "s1 = new @ stack"
    and new: "\<forall>(d, g, s) \<in> set new. g \<in> unvisited (markCycleChecked f c)" using cycle_spreads_state [OF scan] by blast
  show "kept c c1" using mark(1) by (simp add: kept_def c1 same_fragments_def)
  have "unvisited (markCycleChecked f c) \<subseteq> present c" using mark(4) by (auto simp: unvisited_def flagged_def present_def)
  then have "(fst \<circ> snd) ` set new \<subseteq> present c" using new by force
  moreover have "present c1 = present c" using mark(4) by (simp add: c1 present_def)
  ultimately show "(fst \<circ> snd) ` set s1 \<subseteq> present c1" using f(2) by (simp add: s1 image_Un)
qed

lemma cycles_loop_grows:
  "cycles_loop env f path index stack c = (r, c') \<Longrightarrow> f \<in> present c \<Longrightarrow> (fst \<circ> snd) ` set stack \<subseteq> present c \<Longrightarrow> grows c c' \<and> kept c c'"
proof (induction env f path index stack c arbitrary: r c' rule: cycles_loop.induct)
  case (1 env f path index stack c)
  let ?scan = "for_each (cycle_spread env path index) (scan_spreads [definition_GetSelectionSet (fragmentInfo_def (fragment_of c f))])
     (markCycleChecked f c, stack)"
  obtain r1 c1 s1 where scan: "?scan = (r1, c1, s1)" by (metis prod.exhaust)
  note g = scan_grows [OF "1.prems"(2,3) scan]
  show ?case
  proof (cases "\<exists>d g' s rest. r1 = Ok () \<and> s1 = (d, g', s) # rest \<and> \<not> length path < d")
    case True
    then obtain d g' s rest where s: "r1 = Ok ()" "s1 = (d, g', s) # rest" "\<not> length path < d" by blast
    have "cycles_loop env g' (take d path @ [s]) ((fold (\<lambda>s m. m(spread_name env s := None)) (drop d path) index)
        (fragmentInfo_Name env (fragment_of c1 g') \<mapsto> length (take d path @ [s]))) rest c1 = (r, c')"
      using "1.prems"(1) scan s by (simp add: cycles_loop.simps [of env f] Let_def)
    moreover have "g' \<in> present c1" "(fst \<circ> snd) ` set rest \<subseteq> present c1" using g(3) s(2) by auto
    ultimately have "grows c1 c' \<and> kept c1 c'" using "1.IH" [OF scan [symmetric] s(1) refl s(2) refl refl s(3) refl refl] by blast
    then show ?thesis using grows_trans [OF g(1)] kept_trans [OF g(2)] by blast
  next
    case False
    then have "c' = c1" using "1.prems"(1) scan by (cases r1) (auto simp: cycles_loop.simps [of env f] split: list.splits if_splits)
    then show ?thesis using g by simp
  qed
qed

lemma cycles_loop_after_scan:
  assumes run: "cycles_loop env f path index stack c = (Ok (), c')" and f: "f \<in> present c" "(fst \<circ> snd) ` set stack \<subseteq> present c"
    and scan: "for_each (cycle_spread env path index) (scan_spreads [definition_GetSelectionSet (fragmentInfo_def (fragment_of c f))])
      (markCycleChecked f c, stack) = (r1, c1, s1)"
  shows "r1 = Ok ()" "grows c1 c'"
proof -
  show r1: "r1 = Ok ()" using run scan by (cases r1) (auto simp: cycles_loop.simps [of env f])
  show "grows c1 c'"
  proof (cases s1)
    case Nil
    then show ?thesis using run scan r1 by (simp add: cycles_loop.simps [of env f])
  next
    case (Cons item rest)
    obtain d g s where item: "item = (d, g, s)" by (cases item)
    have s1: "g \<in> present c1" "(fst \<circ> snd) ` set rest \<subseteq> present c1" using scan_grows(3) [OF f scan] Cons item by auto
    have "cycles_loop env g (take d path @ [s]) ((fold (\<lambda>s m. m(spread_name env s := None)) (drop d path) index)
        (fragmentInfo_Name env (fragment_of c1 g) \<mapsto> length (take d path @ [s]))) rest c1 = (Ok (), c')"
      using run scan r1 Cons item by (simp add: cycles_loop.simps [of env f] Let_def split: if_splits)
    from cycles_loop_grows [OF this s1] show ?thesis by blast
  qed
qed

text \<open>One iteration: the scan finds a cycle, or all fragments on the path are scanned.\<close>

lemma search_iteration:
  assumes p: "search_path env anc path index" and st: "search_stack env anc stack" and K: "search_state env K anc stack c" and f: "f = last anc"
    and scan: "for_each (cycle_spread env path index) (scan_spreads [definition_GetSelectionSet (fragmentInfo_def (fragment_of c f))])
      (markCycleChecked f c, stack) = (r1, c1, s1)"
  shows "if r1 = Ok () \<and> ctx_errs c1 = ctx_errs c
    then c1 = markCycleChecked f c \<and> search_stack env anc s1 \<and> all_scanned env K anc s1 c1 else cyclic env"
proof -
  have f': "f \<in> known_fragments env" "f \<in> set anc" using p f last_in_set [of anc] by (auto simp: search_path_def)
  have c: "of_document env c" using K by (simp add: search_state_def)
  note mark = markCycleChecked_effect [OF c f'(1)]
  have names: "spread_name env ` set (scan_spreads [definition_GetSelectionSet (fragmentInfo_def (fragment_of c f))]) \<inter> known_fragments env =
      successors env (last anc)"
    using of_document_FragmentInfo(2) [OF c f'(1)] by (simp only: scan_spreads_names) (simp add: successors_def f)
  have pos: "positions anc index" using p by (simp add: search_path_def)
  note eff = cycle_spreads_effect [OF mark(4) pos search_path_length [OF p] scan, unfolded names mark(3)]
  show ?thesis
  proof (cases "r1 = Ok () \<and> ctx_errs c1 = ctx_errs c")
    case True
    then obtain new where c1: "c1 = markCycleChecked f c" and none: "successors env (last anc) \<inter> set anc = {}" and s1: "s1 = new @ stack"
      and new: "\<forall>(d, g, s) \<in> set new. d = length path \<and> g = spread_name env s \<and>
          s \<in> set (scan_spreads [definition_GetSelectionSet (fragmentInfo_def (fragment_of c f))]) \<and> g \<in> known_fragments env"
        "successors env (last anc) \<subseteq> cycle_visited (markCycleChecked f c) \<union> (fst \<circ> snd) ` set new"
      using eff by auto
    have new1: "\<forall>(d, g, s) \<in> set new. d = length path \<and> g = spread_name env s \<and> g \<in> successors env (last anc)"
      using new(1) unfolding names [symmetric] by fastforce
    have "successors env (last anc) \<subseteq> cycle_visited c \<union> {last anc} \<union> (fst \<circ> snd) ` set new" using new(2) unfolding mark(2) unfolding f by blast
    note scanned = search_scanned [OF p st K new1 none this]
    have "cycle_visited c1 = K \<union> set anc"
    proof -
      have "set anc = insert f (set (butlast anc))" using f'(2) f by (cases anc rule: rev_cases) auto
      then show ?thesis using K unfolding c1 mark(2) by (auto simp: search_state_def)
    qed
    then have "all_scanned env K anc s1 c1" using K scanned(2) mark(4) by (simp add: all_scanned_def search_state_def c1 s1)
    then show ?thesis using True c1 scanned(1) s1 by simp
  next
    case False
    then have "\<exists>x \<in> successors env (last anc). x \<in> set anc" using eff unfolding if_not_P [OF False] by simp
    then show ?thesis unfolding if_not_P [OF False] using search_path_cyclic [OF p] by blast
  qed
qed

lemma cycles_loop_search:
  "cycles_loop env f path index stack c = (r, c') \<Longrightarrow> search_path env anc path index \<Longrightarrow> search_stack env anc stack \<Longrightarrow>
   search_state env K anc stack c \<Longrightarrow> f = last anc \<Longrightarrow>
   if r = Ok () \<and> ctx_errs c' = ctx_errs c then searched env (cycle_visited c') \<and> insert f (cycle_visited c) \<subseteq> cycle_visited c' \<and> kept c c' else cyclic env"
proof (induction env f path index stack c arbitrary: r c' anc K rule: cycles_loop.induct)
  case (1 env f path index stack c)
  let ?scan = "for_each (cycle_spread env path index) (scan_spreads [definition_GetSelectionSet (fragmentInfo_def (fragment_of c f))])
     (markCycleChecked f c, stack)"
  obtain r1 c1 s1 where scan: "?scan = (r1, c1, s1)" by (metis prod.exhaust)
  note it = search_iteration [OF "1.prems"(2-5) scan]
  have f: "f \<in> known_fragments env" using "1.prems"(2,5) last_in_set [of anc] by (auto simp: search_path_def)
  have c: "of_document env c" using "1.prems"(4) by (simp add: search_state_def)
  note mark = markCycleChecked_effect [OF c f]
  have g1: "grows c c1" using cycle_spreads_grows [OF scan] by (simp add: grows_def mark(3))
  show ?case
  proof (cases "r1 = Ok () \<and> ctx_errs c1 = ctx_errs c")
    case clean: True
    then have c1: "c1 = markCycleChecked f c" and st: "search_stack env anc s1" and all: "all_scanned env K anc s1 c1" using it by auto
    show ?thesis
    proof (cases s1)
      case Nil
      have "r = Ok ()" "c' = c1" using "1.prems"(1) scan clean Nil by (simp_all add: cycles_loop.simps [of env f])
      moreover have "searched env (K \<union> set (drop 0 anc))" using search_absorb [OF "1.prems"(2) all, of 0] Nil by simp
      moreover have "cycle_visited c1 = K \<union> set anc" using all by (simp add: all_scanned_def)
      ultimately show ?thesis using mark clean c1 by auto
    next
      case (Cons item rest)
      obtain d g s where item: "item = (d, g, s)" by (cases item)
      have d: "d < length anc" "g \<in> successors env (anc ! d)" using st Cons item by (auto simp: search_stack_def)
      then have depth: "\<not> length path < d" using search_path_length [OF "1.prems"(2)] by simp
      have g: "fragmentInfo_Name env (fragment_of c1 g) = g"
        using fragmentInfo_Name_of_document [OF mark(4)] d(2) by (simp add: c1 successors_def)
      have "cycles_loop env g (take d path @ [s]) ((fold (\<lambda>s m. m(spread_name env s := None)) (drop d path) index)
          (fragmentInfo_Name env (fragment_of c1 g) \<mapsto> length (take d path @ [s]))) rest c1 = (r, c')"
        using "1.prems"(1) scan clean Cons item depth by (simp add: cycles_loop.simps [of env f] Let_def)
      note next' = "1.IH" [OF scan [symmetric] conjunct1 [OF clean] refl Cons item [symmetric] refl depth refl refl this]
      note push = search_push [OF "1.prems"(2) st [unfolded Cons item] all [unfolded Cons item]]
      have l: "length (take d path @ [s]) = Suc d" using depth by simp
      have "search_path env (take (Suc d) anc @ [g]) (take d path @ [s]) ((fold (\<lambda>s m. m(spread_name env s := None)) (drop d path) index)
          (fragmentInfo_Name env (fragment_of c1 g) \<mapsto> length (take d path @ [s])))" unfolding g l by (rule push(1))
      from next' [OF this push(2,3)]
      have "if r = Ok () \<and> ctx_errs c' = ctx_errs c1 then searched env (cycle_visited c') \<and> insert g (cycle_visited c1) \<subseteq> cycle_visited c' \<and> kept c1 c' else cyclic env"
        by simp
      then show ?thesis using clean mark(2,3) c1 kept_trans [OF mark(1)] by (auto split: if_splits)
    qed
  next
    case False
    have "\<not> (r = Ok () \<and> ctx_errs c' = ctx_errs c)"
    proof
      assume ok: "r = Ok () \<and> ctx_errs c' = ctx_errs c"
      have "f \<in> present c" "(fst \<circ> snd) ` set stack \<subseteq> present c"
        using f "1.prems"(3) present_document [OF c] by (auto simp: search_stack_def successors_def)
      from cycles_loop_after_scan [OF _ this scan, of c'] have "r1 = Ok ()" "grows c1 c'" using "1.prems"(1) ok by simp_all
      then show False using grows_same [OF g1] ok False by blast
    qed
    moreover have "cyclic env" using it unfolding if_not_P [OF False] .
    ultimately show ?thesis by auto
  qed
qed

section \<open>The rule\<close>

lemma NoFragmentCycles_grows:
  assumes c: "of_document env c" and f: "v_name env (fragment_Name f) \<in> known_fragments env"
    and run: "NoFragmentCycles_CheckFragment env (Some (v_name env (fragment_Name f))) f c = (r, c')"
  shows "r = Ok SkipCheckForChildNodes \<or> (\<nexists>a. r = Ok a)" "grows c c' \<and> kept c c'"
proof -
  let ?f = "v_name env (fragment_Name f)"
  obtain r1 c1 where loop: "cycles_loop env ?f [] [?f \<mapsto> 0] [] c = (r1, c1)" by fastforce
  have g: "grows c c1 \<and> kept c c1" using cycles_loop_grows [OF loop] present_document [OF c] f by simp
  show "r = Ok SkipCheckForChildNodes \<or> (\<nexists>a. r = Ok a)" using run loop
    by (auto simp: NoFragmentCycles_CheckFragment_def and_then_skip_def andThen_def split: if_splits outcome.splits)
  show "grows c c' \<and> kept c c'" using run loop g
    by (auto simp: NoFragmentCycles_CheckFragment_def and_then_skip_def andThen_def kept_def split: if_splits outcome.splits)
qed

lemma NoFragmentCycles_check:
  assumes c: "of_document env c" "searched env (cycle_visited c)" and f: "v_name env (fragment_Name f) \<in> known_fragments env"
    and run: "NoFragmentCycles_CheckFragment env (Some (v_name env (fragment_Name f))) f c = (r, c')"
  shows "if r = Ok SkipCheckForChildNodes \<and> ctx_errs c' = ctx_errs c
     then searched env (cycle_visited c') \<and> insert (v_name env (fragment_Name f)) (cycle_visited c) \<subseteq> cycle_visited c' else cyclic env"
proof -
  let ?f = "v_name env (fragment_Name f)"
  have present: "?f \<in> present c" using present_document [OF c(1)] f by simp
  then have checked: "fragmentInfo_CycleChecked (fragment_of c ?f) \<longleftrightarrow> ?f \<in> cycle_visited c"
    by (auto simp: present_def cycle_visited_def flagged_def fragment_of_def)
  show ?thesis
  proof (cases "?f \<in> cycle_visited c")
    case True
    then have "r = Ok SkipCheckForChildNodes" "c' = c" using run checked
      by (simp_all add: NoFragmentCycles_CheckFragment_def and_then_skip_def andThen_def)
    then show ?thesis using True c(2) by simp
  next
    case False
    obtain r1 c1 where loop: "cycles_loop env ?f [] [?f \<mapsto> 0] [] c = (r1, c1)" by fastforce
    have start: "search_path env [?f] [] [?f \<mapsto> 0]" "search_stack env [?f] []" "search_state env (cycle_visited c) [?f] [] c"
      using f c by (auto simp: search_path_def positions_def search_stack_def search_state_def)
    have r: "r = (case r1 of Ok _ \<Rightarrow> Ok SkipCheckForChildNodes | Error e \<Rightarrow> Error e | Panic \<Rightarrow> Panic | OutOfFuel \<Rightarrow> OutOfFuel)" "c' = c1"
      using run checked False loop by (auto simp: NoFragmentCycles_CheckFragment_def and_then_skip_def andThen_def split: outcome.splits)
    then have "r = Ok SkipCheckForChildNodes \<longleftrightarrow> r1 = Ok ()" by (cases r1) simp_all
    then show ?thesis using cycles_loop_search [OF loop start] r(2) by (auto split: if_splits)
  qed
qed

lemma single_cycles: "fragmentRules (single NoFragmentCycles) = [(0, NoFragmentCycles_CheckFragment)]" "indices_0 (single NoFragmentCycles)"
  "silent (single NoFragmentCycles)" "operationRules (single NoFragmentCycles) = []" "variableRules (single NoFragmentCycles) = []"
  "fragmentSpreadRules (single NoFragmentCycles) = []" "variableUsageRules (single NoFragmentCycles) = []"
  "isRule NoFragmentCycles"
  by (simp_all add: single_def add_rule_def emptyRules_def NoFragmentCycles_def no_checks_def indices_0_def silent_def isRule_def)

lemma idle_kept: "idle env n w \<Longrightarrow> kept (w_ctx w) c \<Longrightarrow> idle env n (w\<lparr>w_ctx := c\<rparr>)"
  using of_document_frame [of env "w_ctx w" c] by (simp add: idle_def kept_def)

text \<open>Reports are kept by the walk of the following fragments.\<close>

lemma walkFragments_grows:
  "for_each (walkFragmentDefinition env (single NoFragmentCycles)) fs w = (r, w') \<Longrightarrow> idle env 1 w \<Longrightarrow> set fs \<subseteq> set (fragments env) \<Longrightarrow>
   r = Ok () \<Longrightarrow> grows (w_ctx w) (w_ctx w')"
proof (induction fs arbitrary: w)
  case (Cons f fs)
  let ?f = "v_name env (fragment_Name f)"
  have f: "f \<in> set (fragments env)" "?f \<in> known_fragments env" and fs: "set fs \<subseteq> set (fragments env)" using Cons.prems(3) by (auto simp: known_fragments_names)
  have c: "of_document env (w_ctx w)" "ctx_currentOperation (w_ctx w) = None" using Cons.prems(2) by (simp_all add: idle_def)
  obtain r1 c1 where chk: "NoFragmentCycles_CheckFragment env (Some ?f) f (w_ctx w) = (r1, c1)" by fastforce
  note check = NoFragmentCycles_grows [OF c(1) f(2) chk] and step = walkFragment_skip [OF single_cycles(1,2) Cons.prems(2) f(1) chk]
  obtain r2 w2 where one: "walkFragmentDefinition env (single NoFragmentCycles) f w = (r2, w2)" by fastforce
  have r2: "r2 = Ok ()" using Cons.prems(1,4) one by (cases r2) (auto simp: andThen_def)
  then have "r1 = Ok SkipCheckForChildNodes" using step(2) one check(1) by auto
  from step(1) [OF this] have w2: "w2 = w\<lparr>w_ctx := c1\<rparr>" using check(2) c(2) one by (simp add: kept_def)
  have "for_each (walkFragmentDefinition env (single NoFragmentCycles)) fs w2 = (r, w')" using Cons.prems(1) one r2 by (simp add: andThen_def)
  moreover have "idle env 1 w2" using idle_kept [OF Cons.prems(2)] check(2) w2 by blast
  ultimately have "grows (w_ctx w2) (w_ctx w')" using Cons.IH fs Cons.prems(4) by blast
  then show ?case using grows_trans check(2) w2 by auto
qed simp

lemma walkFragments_cycles:
  "for_each (walkFragmentDefinition env (single NoFragmentCycles)) fs w = (r, w') \<Longrightarrow> idle env 1 w \<Longrightarrow> set fs \<subseteq> set (fragments env) \<Longrightarrow>
   searched env (cycle_visited (w_ctx w)) \<Longrightarrow>
   if r = Ok () \<and> ctx_errs (w_ctx w') = ctx_errs (w_ctx w)
   then searched env (cycle_visited (w_ctx w')) \<and> (\<lambda>f. v_name env (fragment_Name f)) ` set fs \<union> cycle_visited (w_ctx w) \<subseteq> cycle_visited (w_ctx w') else cyclic env"
proof (induction fs arbitrary: w)
  case (Cons f fs)
  let ?f = "v_name env (fragment_Name f)"
  have f: "f \<in> set (fragments env)" "?f \<in> known_fragments env" and fs: "set fs \<subseteq> set (fragments env)" using Cons.prems(3) by (auto simp: known_fragments_names)
  have c: "of_document env (w_ctx w)" "ctx_currentOperation (w_ctx w) = None" using Cons.prems(2) by (simp_all add: idle_def)
  obtain r1 c1 where chk: "NoFragmentCycles_CheckFragment env (Some ?f) f (w_ctx w) = (r1, c1)" by fastforce
  note check = NoFragmentCycles_grows [OF c(1) f(2) chk] NoFragmentCycles_check [OF c(1) Cons.prems(4) f(2) chk] and step = walkFragment_skip [OF single_cycles(1,2) Cons.prems(2) f(1) chk]
  show ?case
  proof (cases "r1 = Ok SkipCheckForChildNodes")
    case True
    have "walkFragmentDefinition env (single NoFragmentCycles) f w = (Ok (), w\<lparr>w_ctx := c1\<rparr>)"
      using step(1) [OF True] check(2) c(2) by (simp add: kept_def)
    then have rest: "for_each (walkFragmentDefinition env (single NoFragmentCycles)) fs (w\<lparr>w_ctx := c1\<rparr>) = (r, w')"
      using Cons.prems(1) by (simp add: andThen_def)
    have idle: "idle env 1 (w\<lparr>w_ctx := c1\<rparr>)" using idle_kept [OF Cons.prems(2)] check(2) by blast
    show ?thesis
    proof (cases "ctx_errs c1 = ctx_errs (w_ctx w)")
      case clean: True
      then show ?thesis using Cons.IH [OF rest idle fs] check(3) True by (auto split: if_splits)
    next
      case False
      have "r = Ok () \<Longrightarrow> grows c1 (w_ctx w')" using walkFragments_grows [OF rest idle fs] by simp
      then have "\<not> (r = Ok () \<and> ctx_errs (w_ctx w') = ctx_errs (w_ctx w))" using grows_same check(2) False by blast
      then show ?thesis using check(3) False by auto
    qed
  next
    case False
    obtain r2 w2 where one: "walkFragmentDefinition env (single NoFragmentCycles) f w = (r2, w2)" by fastforce
    then have "r2 \<noteq> Ok ()" using step(2) check(1) False by auto
    then have "r \<noteq> Ok ()" using Cons.prems(1) one by (cases r2) (auto simp: andThen_def)
    then show ?thesis using check(3) False by auto
  qed
qed simp

text \<open>The rule does nothing in operations.\<close>

interpretation still_walk: operation_walk env "single NoFragmentCycles" 1 "\<lambda>c S U c'. c' = c" "\<lambda>_ _. False"
  for env
  by unfold_locales (auto simp: single_cycles acts_def ends_def fragmentSpreadRules_Run_def variableUsageRules_Run_def run_rules_def)

lemma still_runs: "operation_walk.runs env (\<lambda>c S U c'. c' = c) ops c c' \<Longrightarrow> ctx_errs c' = ctx_errs c \<and> cycle_visited c' = cycle_visited c"
proof (induction ops arbitrary: c)
  case (Cons op ops)
  then have "operation_walk.runs env (\<lambda>c S U c'. c' = c) ops (left_operation (entered env op c)) c'" by (simp add: still_walk.runs.simps)
  from Cons.IH [OF this] show ?case by (simp add: left_operation_def entered_def cycle_visited_def flagged_def)
qed (simp add: still_walk.runs.simps)

lemma visited_new: "cycle_visited (newValidationContext env) = {}"
proof -
  have "map_of (fold (\<lambda>f m. if is_fragment f then AList.update (v_name env (fragment_Name f)) (newFragmentInfo env f) m else m) ds al) n = Some i \<Longrightarrow>
      (\<And>n i. map_of al n = Some i \<Longrightarrow> \<not> fragmentInfo_CycleChecked i) \<Longrightarrow> \<not> fragmentInfo_CycleChecked i" for ds :: "token_ref definition_node list" and al n i
    by (induction ds arbitrary: al) (fastforce simp: update_conv' newFragmentInfo_def split: if_splits)+
  from this [of "document_Definitions (v_document env)" "[]"] show ?thesis
    by (auto simp: cycle_visited_def flagged_def newValidationContext_def fragmentInfoMap_def)
qed

text \<open>
  C12: a document passes \<open>NoFragmentCycles\<close> exactly if no fragment spreads itself, directly or through other fragments. In particular the
  search, which does not look again into fragments that it has visited, misses no cycle and never panics without one.
\<close>

theorem NoFragmentCycles_correct:
  fixes env :: "('v, 'x) validation"
  shows "ValidateWithRules env [NoFragmentCycles] = Ok [] \<longleftrightarrow> (\<nexists>m. (m, m) \<in> (spread_graph env)\<^sup>+)"
proof -
  let ?rs = "single NoFragmentCycles :: ('v, 'x) rule_set"
  obtain r w where ops: "for_each (walkOperationDefinition env ?rs) (operations env) (newWalker env 1) = (r, w)" by fastforce
  note phase = still_walk.walkOperations [OF single_cycles(4,5) idle_new ops]
  then have r: "r = Ok ()" by (auto split: if_splits)
  then have w: "idle env 1 w" "operation_walk.runs env (\<lambda>c S U c'. c' = c) (operations env) (newValidationContext env) (w_ctx w)"
    using phase by (simp_all add: newWalker_def)
  have c: "cycle_visited (w_ctx w) = {}" "ctx_errs (w_ctx w) = []"
    using still_runs [OF w(2)] by (simp_all add: visited_new) (simp add: newValidationContext_def)
  obtain r' w' where fr: "for_each (walkFragmentDefinition env ?rs) (fragments env) w = (r', w')" by fastforce
  have result: "ValidateWithRules env [NoFragmentCycles] = Ok [] \<longleftrightarrow> r' = Ok () \<and> ctx_errs (w_ctx w') = []" using ops fr r
    by (cases r') (auto simp: ValidateWithRules_single [OF single_cycles(8)] validate_with_def walk_def andThen_def operations_def fragments_def)
  have search: "if r' = Ok () \<and> ctx_errs (w_ctx w') = [] then searched env (cycle_visited (w_ctx w')) \<and> known_fragments env \<subseteq> cycle_visited (w_ctx w') else cyclic env"
    using walkFragments_cycles [OF fr w(1) order_refl] by (auto simp: c known_fragments_names split: if_splits)
  show ?thesis
  proof (cases "r' = Ok () \<and> ctx_errs (w_ctx w') = []")
    case True
    have "(m, m) \<notin> (spread_graph env)\<^sup>+" for m
    proof
      assume cycle: "(m, m) \<in> (spread_graph env)\<^sup>+"
      then have "m \<in> known_fragments env" by (auto simp: spread_graph_def elim: converse_tranclE)
      then show False using True search cycle by (auto simp: searched_def)
    qed
    then show ?thesis using True result by blast
  next
    case False
    then show ?thesis using search result unfolding if_not_P [OF False] by (simp add: cyclic_def)
  qed
qed

end
