(* ===== verification/ResultNodeLists.thy ===== *)
theory ResultNodeLists
  imports Prelude "HOL-Library.Word"
begin

text \<open>
  \<open>graphql/executor/result_node_list.go\<close>: the list of result nodes of a list value. Nodes never move, because others point to them: they live in
  chunks of fixed capacity, in a circular doubly linked list, and the index of a node is computed from its address.

  The chunks of one list are records in a store; pointers to chunks are indices and addresses of nodes are 64-bit words. The address that \<open>make\<close>
  returns for the nodes of a chunk is an argument, and the theorems ask that it is the address of memory that no other chunk of the list has.
\<close>

section \<open>Chunks\<close>

record 'n result_chunk =
  chunk_addr :: "64 word"
  chunk_nodes :: "'n list"
  chunk_cap :: nat
  chunk_prev :: nat
  chunk_next :: nat

definition fixedResultNodeListChunkSize :: nat where
  "fixedResultNodeListChunkSize = 16"

text \<open>\<open>unsafe.Sizeof(ResultNode{})\<close> on a 64-bit platform: a pointer, two 16-bit integers with padding and an interface.\<close>

definition sizeOfResultNode :: "64 word" where
  "sizeOfResultNode = 32"

definition chunk_Size :: "'n result_chunk \<Rightarrow> nat" where
  "chunk_Size chunk = length (chunk_nodes chunk)"

text \<open>The first chunk of a list is the chunk 0; \<open>make\<close> panics on a negative capacity.\<close>

definition NewFixedSizeResultNodeList :: "64 word \<Rightarrow> int \<Rightarrow> ('e, 'n result_chunk list) outcome" where
  "NewFixedSizeResultNodeList addr n =
     (if n < 0 then Panic
      else Ok [\<lparr>chunk_addr = addr, chunk_nodes = [], chunk_cap = nat n, chunk_prev = 0, chunk_next = 0\<rparr>])"

definition NewResultNodeList :: "64 word \<Rightarrow> ('e, 'n result_chunk list) outcome" where
  "NewResultNodeList addr = NewFixedSizeResultNodeList addr (int fixedResultNodeListChunkSize)"

definition chunks_Empty :: "'n result_chunk list \<Rightarrow> bool" where
  "chunks_Empty h \<longleftrightarrow> chunk_next (h ! 0) = 0 \<and> chunk_Size (h ! 0) = 0"

definition add_chunk :: "64 word \<Rightarrow> 'n result_chunk list \<Rightarrow> 'n result_chunk list" where
  "add_chunk addr h =
     (let lastChunk = chunk_prev (h ! 0); newChunk = length h;
          chunk = \<lparr>chunk_addr = addr, chunk_nodes = [], chunk_cap = fixedResultNodeListChunkSize, chunk_prev = lastChunk,
                   chunk_next = chunk_next (h ! lastChunk)\<rparr>;
          h = h[lastChunk := (h ! lastChunk)\<lparr>chunk_next := newChunk\<rparr>];
          h = h[0 := (h ! 0)\<lparr>chunk_prev := newChunk\<rparr>]
      in h @ [chunk])"

text \<open>\<open>EmplaceBack\<close>: the address of the new node. \<open>node\<close> is the node with its parent and its flags.\<close>

definition list_EmplaceBack :: "64 word \<Rightarrow> 'n \<Rightarrow> 'n result_chunk list \<Rightarrow> 64 word \<times> 'n result_chunk list" where
  "list_EmplaceBack addr node h =
     (let lastChunk = chunk_prev (h ! 0);
          h = (if chunk_Size (h ! lastChunk) \<ge> chunk_cap (h ! lastChunk) then add_chunk addr h else h);
          lastChunk = chunk_prev (h ! 0);
          size' = chunk_Size (h ! lastChunk)
      in (chunk_addr (h ! lastChunk) + of_nat size' * sizeOfResultNode,
          h[lastChunk := (h ! lastChunk)\<lparr>chunk_nodes := chunk_nodes (h ! lastChunk) @ [node]\<rparr>]))"

text \<open>The loop of \<open>IndexOf\<close>; \<open>chunk.nodes[0]\<close> panics on a chunk without nodes.\<close>

fun IndexOf_loop :: "nat \<Rightarrow> 'n result_chunk list \<Rightarrow> 64 word \<Rightarrow> nat \<Rightarrow> nat \<Rightarrow> ('e, int) outcome" where
  "IndexOf_loop 0 h nodeAddr chunk listIndex = OutOfFuel"
| "IndexOf_loop (Suc fuel) h nodeAddr chunk listIndex =
     (let c = h ! chunk; index = unat ((nodeAddr - chunk_addr c) div sizeOfResultNode) in
      if chunk_Size c = 0 then Panic
      else if chunk_addr c \<le> nodeAddr \<and> index < chunk_Size c then Ok (int (listIndex + index))
      else if chunk = chunk_prev (h ! 0) then Ok (- 1)
      else IndexOf_loop fuel h nodeAddr (chunk_next c) (listIndex + chunk_Size c))"

definition IndexOf :: "'n result_chunk list \<Rightarrow> 64 word \<Rightarrow> ('e, int) outcome" where
  "IndexOf h node = IndexOf_loop (length h) h node 0 0"

section \<open>Invariant\<close>

text \<open>The chunks are linked in the order in which they were added, which is the order of the store.\<close>

definition chunks_linked :: "'n result_chunk list \<Rightarrow> bool" where
  "chunks_linked h \<longleftrightarrow> h \<noteq> [] \<and>
     (\<forall>i < length h. chunk_next (h ! i) = (if Suc i = length h then 0 else Suc i) \<and> chunk_prev (h ! i) = (if i = 0 then length h - 1 else i - 1))"

definition region :: "'n result_chunk \<Rightarrow> nat set" where
  "region c = {unat (chunk_addr c)..<unat (chunk_addr c) + 32 * chunk_cap c}"

definition fresh_region :: "'n result_chunk list \<Rightarrow> 64 word \<Rightarrow> nat \<Rightarrow> bool" where
  "fresh_region h addr n \<longleftrightarrow> unat addr + 32 * n < 2 ^ 64 \<and> (\<forall>c \<in> set h. region c \<inter> {unat addr..<unat addr + 32 * n} = {})"

definition regions_ok :: "'n result_chunk list \<Rightarrow> bool" where
  "regions_ok h \<longleftrightarrow> (\<forall>c \<in> set h. unat (chunk_addr c) + 32 * chunk_cap c < 2 ^ 64 \<and> chunk_Size c \<le> chunk_cap c) \<and>
     (\<forall>i < length h. \<forall>j < length h. i \<noteq> j \<longrightarrow> region (h ! i) \<inter> region (h ! j) = {})"


definition list_ok :: "'n result_chunk list \<Rightarrow> bool" where
  "list_ok h \<longleftrightarrow> chunks_linked h \<and> regions_ok h \<and> (\<forall>i < length h. 0 < i \<longrightarrow> chunk_nodes (h ! i) \<noteq> [])"

definition chunk_addrs :: "'n result_chunk \<Rightarrow> 64 word list" where
  "chunk_addrs c = map (\<lambda>i. chunk_addr c + of_nat i * sizeOfResultNode) [0..<chunk_Size c]"

lemma chunks_linked_last: "chunks_linked h \<Longrightarrow> chunk_prev (h ! 0) = length h - 1"
  by (auto simp: chunks_linked_def)

lemma map_update_same: "f x = f (xs ! i) \<Longrightarrow> i < length xs \<Longrightarrow> map f (xs[i := x]) = map f xs"
  by (simp add: map_update list_update_same_conv)

lemma chunks_linked_add:
  assumes "chunks_linked h"
  shows "chunks_linked (add_chunk addr h)" "length (add_chunk addr h) = Suc (length h)"
    "map chunk_nodes (add_chunk addr h) = map chunk_nodes h @ [[]]"
    "map chunk_addr (add_chunk addr h) = map chunk_addr h @ [addr]"
    "map chunk_cap (add_chunk addr h) = map chunk_cap h @ [fixedResultNodeListChunkSize]"
proof -
  have h: "h \<noteq> []" "length h - 1 < length h"
    using assms by (auto simp: chunks_linked_def)
  show "length (add_chunk addr h) = Suc (length h)"
    by (simp add: add_chunk_def Let_def)
  show "chunks_linked (add_chunk addr h)"
    using assms h by (auto simp: chunks_linked_def add_chunk_def Let_def nth_append nth_list_update le_Suc_eq)
  show "map chunk_nodes (add_chunk addr h) = map chunk_nodes h @ [[]]" "map chunk_addr (add_chunk addr h) = map chunk_addr h @ [addr]"
    "map chunk_cap (add_chunk addr h) = map chunk_cap h @ [fixedResultNodeListChunkSize]"
    using h chunks_linked_last [OF assms] by (simp_all add: add_chunk_def Let_def map_update_same)
qed


lemma map_append_nth:
  assumes "map f xs = map f ys @ zs" "i < length ys"
  shows "f (xs ! i) = f (ys ! i)"
proof -
  have "length xs = length ys + length zs"
    using arg_cong [OF assms(1), of length] by simp
  then show ?thesis
    using arg_cong [OF assms(1), of "\<lambda>l. l ! i"] assms(2) by (simp add: nth_append)
qed

lemma add_chunk_nth:
  assumes "chunks_linked h"
  shows "i < length h \<Longrightarrow> chunk_addr (add_chunk addr h ! i) = chunk_addr (h ! i) \<and> chunk_cap (add_chunk addr h ! i) = chunk_cap (h ! i) \<and>
      chunk_nodes (add_chunk addr h ! i) = chunk_nodes (h ! i)"
    and "chunk_addr (add_chunk addr h ! length h) = addr" "chunk_cap (add_chunk addr h ! length h) = fixedResultNodeListChunkSize"
      "chunk_nodes (add_chunk addr h ! length h) = []"
proof -
  show "chunk_addr (add_chunk addr h ! i) = chunk_addr (h ! i) \<and> chunk_cap (add_chunk addr h ! i) = chunk_cap (h ! i) \<and>
      chunk_nodes (add_chunk addr h ! i) = chunk_nodes (h ! i)" if "i < length h"
    using that chunks_linked_add(3-5) [OF assms, of addr] by (blast intro: map_append_nth)
qed (simp_all add: add_chunk_def Let_def nth_append)

text \<open>The chunk in which \<open>EmplaceBack\<close> puts the node: the last one, which has room.\<close>

lemma regions_ok_add_chunk:
  assumes "chunks_linked h" "regions_ok h" "fresh_region h addr fixedResultNodeListChunkSize"
  shows "regions_ok (add_chunk addr h)"
proof -
  note same = add_chunk_nth(1) [OF assms(1), of _ addr] and new = add_chunk_nth(2-4) [OF assms(1), of addr]
  have reg: "region (add_chunk addr h ! i) = region (h ! i)" if "i < length h" for i
    using same that by (simp add: region_def)
  have newreg: "region (add_chunk addr h ! length h) = {unat addr..<unat addr + 32 * fixedResultNodeListChunkSize}"
    by (simp add: region_def new)
  have "unat (chunk_addr (add_chunk addr h ! i)) + 32 * chunk_cap (add_chunk addr h ! i) < 2 ^ 64 \<and>
      chunk_Size (add_chunk addr h ! i) \<le> chunk_cap (add_chunk addr h ! i)" if "i < Suc (length h)" for i
    using assms(2,3) same [of i] new that by (cases "i = length h") (auto simp: regions_ok_def fresh_region_def chunk_Size_def)
  moreover have "region (add_chunk addr h ! i) \<inter> region (add_chunk addr h ! j) = {}" if "i < Suc (length h)" "j < Suc (length h)" "i \<noteq> j" for i j
    using assms(2,3) reg [of i] reg [of j] newreg that
    by (cases "i = length h"; cases "j = length h") (auto simp: regions_ok_def fresh_region_def Int_commute)
  ultimately show ?thesis
    unfolding regions_ok_def by (metis in_set_conv_nth chunks_linked_add(2) [OF assms(1)])
qed


definition node_addrs :: "'n result_chunk list \<Rightarrow> 64 word list" where
  "node_addrs h = concat (map chunk_addrs h)"

definition nodes_of :: "'n result_chunk list \<Rightarrow> 'n list" where
  "nodes_of h = concat (map chunk_nodes h)"

definition with_room :: "64 word \<Rightarrow> 'n result_chunk list \<Rightarrow> 'n result_chunk list" where
  "with_room addr h =
     (if chunk_Size (h ! chunk_prev (h ! 0)) \<ge> chunk_cap (h ! chunk_prev (h ! 0)) then add_chunk addr h else h)"

lemma with_room_ok:
  assumes ok: "list_ok h" and fresh: "fresh_region h addr fixedResultNodeListChunkSize"
  defines "h' \<equiv> with_room addr h"
  shows "chunks_linked h'" "regions_ok h'" "\<And>i. i < length h' - 1 \<Longrightarrow> 0 < i \<Longrightarrow> chunk_nodes (h' ! i) \<noteq> []"
    "chunk_Size (h' ! (length h' - 1)) < chunk_cap (h' ! (length h' - 1))" "node_addrs h' = node_addrs h" "nodes_of h' = nodes_of h"
    "h' ! 0 = h ! 0 \<or> length h' = Suc (length h)"
proof -
  have l: "chunks_linked h" "regions_ok h" "h \<noteq> []"
    using ok by (auto simp: list_ok_def chunks_linked_def)
  have "map chunk_addrs (add_chunk addr h) = map chunk_addrs h @ [[]]"
    using chunks_linked_add(2) [OF l(1), of addr] add_chunk_nth(1) [OF l(1), of _ addr] add_chunk_nth(2-4) [OF l(1), of addr]
    by (intro nth_equalityI) (auto simp: chunk_addrs_def chunk_Size_def nth_append less_Suc_eq)
  then have add: "node_addrs (add_chunk addr h) = node_addrs h" "nodes_of (add_chunk addr h) = nodes_of h"
    by (simp_all add: node_addrs_def nodes_of_def chunks_linked_add(3) [OF l(1)])
  have room: "chunks_linked h'" "regions_ok h'" "node_addrs h' = node_addrs h" "nodes_of h' = nodes_of h"
    using l add chunks_linked_add(1) regions_ok_add_chunk fresh by (auto simp: h'_def with_room_def)
  then show "chunks_linked h'" "regions_ok h'" "node_addrs h' = node_addrs h" "nodes_of h' = nodes_of h"
    by auto
  show "chunk_nodes (h' ! i) \<noteq> []" if "i < length h' - 1" "0 < i" for i
    using that ok add_chunk_nth(1) [OF l(1), of i addr] chunks_linked_add(2) [OF l(1), of addr]
    by (auto simp: h'_def with_room_def list_ok_def split: if_splits)
  show "chunk_Size (h' ! (length h' - 1)) < chunk_cap (h' ! (length h' - 1))"
    using add_chunk_nth(2-4) [OF l(1), of addr] chunks_linked_add(2) [OF l(1), of addr] chunks_linked_last [OF l(1)]
    by (auto simp: h'_def with_room_def chunk_Size_def fixedResultNodeListChunkSize_def)
  show "h' ! 0 = h ! 0 \<or> length h' = Suc (length h)"
    using chunks_linked_add(2) [OF l(1), of addr] by (auto simp: h'_def with_room_def)
qed


lemma update_last: "h \<noteq> [] \<Longrightarrow> h[length h - 1 := x] = butlast h @ [x]"
  by (cases h rule: rev_cases) simp_all

lemma EmplaceBack_effect:
  assumes ok: "list_ok h" and fresh: "fresh_region h addr fixedResultNodeListChunkSize" and run: "list_EmplaceBack addr node h = (a, h')"
  shows "list_ok h'" "node_addrs h' = node_addrs h @ [a]" "nodes_of h' = nodes_of h @ [node]"
proof -
  define h1 where "h1 = with_room addr h"
  define c where "c = h1 ! (length h1 - 1)"
  note room = with_room_ok [OF ok fresh, folded h1_def]
  have ne: "h1 \<noteq> []" "length h1 - 1 < length h1"
    using room(1) by (auto simp: chunks_linked_def)
  have h': "h' = h1[length h1 - 1 := c\<lparr>chunk_nodes := chunk_nodes c @ [node]\<rparr>]" and a: "a = chunk_addr c + of_nat (chunk_Size c) * sizeOfResultNode"
    using run chunks_linked_last [OF room(1)] by (auto simp: list_EmplaceBack_def with_room_def [symmetric] h1_def [symmetric] c_def Let_def)
  have split: "h' = butlast h1 @ [c\<lparr>chunk_nodes := chunk_nodes c @ [node]\<rparr>]" "h1 = butlast h1 @ [c]"
    unfolding h' update_last [OF ne(1)] using append_butlast_last_id [OF ne(1)] last_conv_nth [OF ne(1)] by (simp_all add: c_def)
  have "node_addrs h' = node_addrs (butlast h1 @ [c]) @ [a]" "nodes_of h' = nodes_of (butlast h1 @ [c]) @ [node]"
    by (simp_all add: split(1) node_addrs_def nodes_of_def chunk_addrs_def chunk_Size_def a)
  then show "node_addrs h' = node_addrs h @ [a]" "nodes_of h' = nodes_of h @ [node]"
    using room(5,6) split(2) by simp_all
  have links: "chunk_next (h' ! i) = chunk_next (h1 ! i) \<and> chunk_prev (h' ! i) = chunk_prev (h1 ! i) \<and> region (h' ! i) = region (h1 ! i)"
      if "i < length h1" for i
    using that by (cases "i = length h1 - 1") (simp_all add: h' c_def region_def)
  have "chunk_Size (h' ! i) \<le> chunk_cap (h' ! i) \<and> unat (chunk_addr (h' ! i)) + 32 * chunk_cap (h' ! i) < 2 ^ 64" if "i < length h1" for i
    using that room(2,4) by (cases "i = length h1 - 1") (auto simp: h' c_def regions_ok_def chunk_Size_def)
  moreover have "length h' = length h1"
    by (simp add: h')
  ultimately have "regions_ok h'"
    using room(2) links unfolding regions_ok_def by (metis in_set_conv_nth)
  moreover have "chunks_linked h'"
    using room(1) links by (simp add: chunks_linked_def h')
  moreover have "chunk_nodes (h' ! i) \<noteq> []" if "i < length h1" "0 < i" for i
    using that room(3) [of i] by (cases "i = length h1 - 1") (auto simp: h')
  ultimately show "list_ok h'"
    by (simp add: list_ok_def h')
qed

section \<open>Index of a node\<close>

lemma nth_concat_split:
  "k < length (concat xss) \<Longrightarrow>
   \<exists>j i. j < length xss \<and> i < length (xss ! j) \<and> k = sum_list (map length (take j xss)) + i \<and> concat xss ! k = xss ! j ! i"
proof (induction xss arbitrary: k)
  case (Cons xs xss)
  show ?case
  proof (cases "k < length xs")
    case True
    then show ?thesis
      by (intro exI [of _ 0] exI [of _ k]) (simp add: nth_append)
  next
    case False
    then have "k - length xs < length (concat xss)"
      using Cons.prems by simp
    then obtain j i where "j < length xss" "i < length (xss ! j)" "k - length xs = sum_list (map length (take j xss)) + i"
        "concat xss ! (k - length xs) = xss ! j ! i"
      using Cons.IH by blast
    then show ?thesis
      using False by (intro exI [of _ "Suc j"] exI [of _ i]) (simp add: nth_append)
  qed
qed simp

text \<open>The address of a node is in the memory of its chunk, and its offset gives its index.\<close>

lemma node_addr_unat:
  assumes "unat (chunk_addr c) + 32 * chunk_cap c < 2 ^ 64" "i < chunk_cap c"
  shows "unat (chunk_addr c + of_nat i * sizeOfResultNode) = unat (chunk_addr c) + 32 * i"
proof -
  have "unat (of_nat i * sizeOfResultNode) = 32 * i"
    using assms by (simp add: unat_word_ariths sizeOfResultNode_def unat_of_nat take_bit_eq_mod)
  then show ?thesis
    using assms by (simp add: unat_word_ariths)
qed

lemma index_in_chunk:
  assumes "chunk_addr c \<le> a"
  shows "unat ((a - chunk_addr c) div sizeOfResultNode) = (unat a - unat (chunk_addr c)) div 32"
proof -
  have "unat (a - chunk_addr c) = unat a - unat (chunk_addr c)"
    using assms by (rule unat_sub)
  then show ?thesis
    by (simp add: unat_div sizeOfResultNode_def)
qed


lemma IndexOf_loop_finds:
  assumes ok: "chunks_linked h" "regions_ok h" "\<And>c. c \<in> set h \<Longrightarrow> chunk_nodes c \<noteq> []"
    and j0: "j0 < length h" "i0 < chunk_Size (h ! j0)" and "j \<le> j0"
  shows "IndexOf_loop (length h - j) h (chunk_addrs (h ! j0) ! i0) j (sum_list (map chunk_Size (take j h))) =
    (Ok (int (sum_list (map chunk_Size (take j0 h)) + i0)) :: ('e, int) outcome)"
proof -
  let ?a = "chunk_addrs (h ! j0) ! i0"
  have reg: "unat (chunk_addr c) + 32 * chunk_cap c < 2 ^ 64" "chunk_Size c \<le> chunk_cap c" if "c \<in> set h" for c
    using ok(2) that by (auto simp: regions_ok_def)
  have a: "unat ?a = unat (chunk_addr (h ! j0)) + 32 * i0"
    using node_addr_unat [of "h ! j0" i0] reg [of "h ! j0"] j0 by (simp add: chunk_addrs_def)
  then have inside: "unat ?a \<in> region (h ! j0)"
    using reg(2) [of "h ! j0"] j0 by (simp add: region_def)
  have sizes: "chunk_Size (h ! j) \<noteq> 0" if "j < length h" for j
    using ok(3) that by (simp add: chunk_Size_def)
  have other: "\<not> (chunk_addr (h ! j) \<le> ?a \<and> unat ((?a - chunk_addr (h ! j)) div sizeOfResultNode) < chunk_Size (h ! j))"
    if j: "j < length h" "j \<noteq> j0" for j
  proof
    assume found: "chunk_addr (h ! j) \<le> ?a \<and> unat ((?a - chunk_addr (h ! j)) div sizeOfResultNode) < chunk_Size (h ! j)"
    then have "(unat ?a - unat (chunk_addr (h ! j))) div 32 < chunk_cap (h ! j)"
      using index_in_chunk [of "h ! j" ?a] reg(2) [of "h ! j"] j(1) by simp
    then have "unat ?a \<in> region (h ! j)"
      using found by (simp add: region_def word_le_nat_alt div_less_iff_less_mult)
    then show False
      using inside ok(2) j j0(1) by (auto simp: regions_ok_def)
  qed
  show ?thesis
    using \<open>j \<le> j0\<close>
  proof (induction "j0 - j" arbitrary: j)
    case 0
    have "chunk_addr (h ! j0) \<le> ?a"
      using a by (simp add: word_le_nat_alt)
    then show ?case
      using 0 j0 a index_in_chunk [of "h ! j0" ?a] sizes [OF j0(1)] by (cases "length h - j0") (simp_all add: Let_def)
  next
    case (Suc x)
    then have j: "j < j0" "j < length h" "Suc j \<noteq> length h" "length h - j = Suc (length h - Suc j)"
      using j0(1) by linarith+
    have prev: "chunk_prev (h ! 0) \<noteq> j"
      using chunks_linked_last [OF ok(1)] j by simp
    have next': "chunk_next (h ! j) = Suc j"
      using ok(1) j by (simp add: chunks_linked_def)
    have "sum_list (map chunk_Size (take j h)) + chunk_Size (h ! j) = sum_list (map chunk_Size (take (Suc j) h))"
      using j(2) by (simp add: take_Suc_conv_app_nth)
    then show ?case
      using Suc.hyps(1) [of "Suc j"] Suc.hyps(2) j other [of j] sizes [OF j(2)] prev
      unfolding j(4) by (auto simp: Let_def next' simp del: sum_list.Cons)
  qed
qed

lemma IndexOf_at:
  assumes "list_ok h" "chunk_nodes (h ! 0) \<noteq> []" "k < length (node_addrs h)"
  shows "IndexOf h (node_addrs h ! k) = (Ok (int k) :: ('e, int) outcome)"
proof -
  have ok: "chunks_linked h" "regions_ok h"
    using assms(1) by (simp_all add: list_ok_def)
  have used: "chunk_nodes c \<noteq> []" if "c \<in> set h" for c
    using assms(1,2) that by (auto simp: list_ok_def in_set_conv_nth)
  obtain j i where "j < length h" "i < length (chunk_addrs (h ! j))" "k = sum_list (map length (take j (map chunk_addrs h))) + i"
      "node_addrs h ! k = chunk_addrs (h ! j) ! i"
    using nth_concat_split [of k "map chunk_addrs h"] assms(3) by (auto simp: node_addrs_def)
  moreover have "map length (take j (map chunk_addrs h)) = map chunk_Size (take j h)"
    by (simp add: take_map chunk_addrs_def)
  ultimately show ?thesis
    using IndexOf_loop_finds [OF ok used, of j i 0] by (simp add: IndexOf_def chunk_addrs_def)
qed


section \<open>Lists that the program builds\<close>

text \<open>
  \<open>node_list n nodes addrs h\<close>: after the creation with the size \<open>n\<close>, \<open>EmplaceBack\<close> has been called for the nodes and has returned the addresses. Each
  call gets an address of memory that is not in use.
\<close>

inductive node_list :: "int \<Rightarrow> 'n list \<Rightarrow> 64 word list \<Rightarrow> 'n result_chunk list \<Rightarrow> bool" for n :: int where
  created: "(NewFixedSizeResultNodeList addr n :: (unit, 'n result_chunk list) outcome) = Ok h \<Longrightarrow> fresh_region ([] :: 'n result_chunk list) addr (nat n) \<Longrightarrow> node_list n [] [] h"
| emplaced: "node_list n nodes addrs h \<Longrightarrow> fresh_region h addr fixedResultNodeListChunkSize \<Longrightarrow> list_EmplaceBack addr node h = (a, h') \<Longrightarrow>
    node_list n (nodes @ [node]) (addrs @ [a]) h'"

definition first_used :: "int \<Rightarrow> 'n result_chunk list \<Rightarrow> bool" where
  "first_used n h \<longleftrightarrow> chunk_cap (h ! 0) = nat n \<and> (length h = 1 \<or> chunk_Size (h ! 0) = nat n)"

lemma EmplaceBack_first:
  assumes ok: "list_ok h" and run: "list_EmplaceBack addr node h = (a, h')" and first: "first_used n h"
  shows "first_used n h'" "0 < n \<Longrightarrow> chunk_nodes (h' ! 0) \<noteq> []"
proof -
  have l: "chunks_linked h" "h \<noteq> []" "chunk_Size (h ! 0) \<le> chunk_cap (h ! 0)"
    using ok by (auto simp: list_ok_def chunks_linked_def regions_ok_def)
  let ?c = "\<lambda>h. h ! (length h - 1)"
  have h': "h' = (with_room addr h)[length (with_room addr h) - 1 := (?c (with_room addr h))\<lparr>chunk_nodes := chunk_nodes (?c (with_room addr h)) @ [node]\<rparr>]"
    using run chunks_linked_last [OF l(1)] chunks_linked_last [OF chunks_linked_add(1) [OF l(1), of addr]]
    by (auto simp: list_EmplaceBack_def with_room_def Let_def split: if_splits)
  have "first_used n h' \<and> (0 < n \<longrightarrow> chunk_nodes (h' ! 0) \<noteq> [])"
  proof (cases "chunk_Size (?c h) \<ge> chunk_cap (?c h)")
    case True
    have "chunk_Size (h ! 0) = nat n" "chunk_cap (h ! 0) = nat n"
      using True first l(3) by (auto simp: first_used_def)
    moreover have "with_room addr h = add_chunk addr h"
      using True chunks_linked_last [OF l(1)] by (simp add: with_room_def)
    ultimately show ?thesis
      using add_chunk_nth(1) [OF l(1), of 0 addr] chunks_linked_add(2) [OF l(1), of addr] l(2)
      by (auto simp: h' first_used_def chunk_Size_def)
  next
    case False
    then have "with_room addr h = h"
      using chunks_linked_last [OF l(1)] by (simp add: with_room_def)
    then show ?thesis
      using first l(2) by (cases "length h = 1") (auto simp: h' first_used_def chunk_Size_def nth_list_update le_Suc_eq)
  qed
  then show "first_used n h'" "0 < n \<Longrightarrow> chunk_nodes (h' ! 0) \<noteq> []"
    by auto
qed

lemma node_list_ok:
  "node_list n nodes addrs h \<Longrightarrow> list_ok h \<and> node_addrs h = addrs \<and> nodes_of h = nodes \<and> first_used n h \<and> (0 < n \<longrightarrow> nodes \<noteq> [] \<longrightarrow> chunk_nodes (h ! 0) \<noteq> [])"
proof (induction rule: node_list.induct)
  case (created addr h)
  then show ?case
    by (auto simp: NewFixedSizeResultNodeList_def list_ok_def chunks_linked_def regions_ok_def fresh_region_def chunk_Size_def node_addrs_def nodes_of_def
        chunk_addrs_def first_used_def split: if_splits)
next
  case (emplaced nodes addrs h addr node a h')
  then show ?case
    using EmplaceBack_effect [of h addr node a h'] EmplaceBack_first [of h addr node a h' n] by simp
qed

lemma length_node_addrs: "length (node_addrs h) = length (nodes_of h)"
  by (induction h) (simp_all add: node_addrs_def nodes_of_def chunk_addrs_def chunk_Size_def)


text \<open>With the size 0 the first chunk stays empty, and \<open>IndexOf\<close> panics when it takes the address of its first node.\<close>

lemma IndexOf_size_zero:
  assumes "node_list 0 nodes addrs h"
  shows "IndexOf h a = Panic"
proof -
  have ok: "h \<noteq> []" "regions_ok h" "chunk_cap (h ! 0) = 0"
    using node_list_ok [OF assms] by (auto simp: list_ok_def chunks_linked_def first_used_def)
  have "h ! 0 \<in> set h"
    using ok(1) by simp
  then have "chunk_Size (h ! 0) = 0"
    using ok(2,3) by (fastforce simp: regions_ok_def)
  then show ?thesis
    using ok(1) by (cases h) (simp_all add: IndexOf_def)
qed


end
