(* ===== verification/ExecutionNodes.thy ===== *)
theory ExecutionNodes
  imports Rules
begin

text \<open>
  \<open>graphql/executor\<close>, before any resolver runs: \<open>prepared_operation.go\<close>, \<open>execution_context.go\<close>, \<open>execution_node.go\<close> and the collection of
  fields in \<open>execute.go\<close>.

  Schema, document and the operations on values are in the record \<open>validation\<close> of the validator. Execution nodes and result nodes are
  objects that the code mutates through pointers: here records in two stores of the state of an execution, and a pointer is an index. Resolvers
  and the operations of the types that run code of the application are in the record \<open>execution\<close>; a resolver reads the state through its
  \<open>ResolveInfo\<close> and changes the world \<open>'w\<close> only.
\<close>

section \<open>Prepared operations\<close>

record prepared_operation =
  po_definition :: "token_ref definition_node"
  po_rootType :: type_ref
  po_fragmentMap :: "string \<rightharpoonup> token_ref definition_node"

text \<open>
  The loop of \<open>Prepare\<close> over the definitions. \<open>definition.Name.Value()\<close> panics on an operation without name.
\<close>

definition multiple_operations :: "'x go_error" where
  "multiple_operations = NewError ''Must provide operation name if query contains multiple operations.'' []"

fun find_operation :: "token list \<Rightarrow> string \<Rightarrow> token_ref definition_node list \<Rightarrow> token_ref definition_node option \<Rightarrow>
    (string \<rightharpoonup> token_ref definition_node) \<Rightarrow> ('x go_error list, token_ref definition_node option \<times> (string \<rightharpoonup> token_ref definition_node)) outcome" where
  "find_operation toks operationName [] operation fragmentMap = Ok (operation, fragmentMap)"
| "find_operation toks operationName (d # ds) operation fragmentMap =
     (if is_fragment d then find_operation toks operationName ds operation (fragmentMap(name_Value toks (fragment_Name d) \<mapsto> d))
      else if operationName = [] then
        if operation \<noteq> None then Error [multiple_operations] else find_operation toks operationName ds (Some d) fragmentMap
      else case operation_Name d of
             None \<Rightarrow> Panic
           | Some n \<Rightarrow> find_operation toks operationName ds (if operationName = name_Value toks n then Some d else operation) fragmentMap)"

definition no_root_type :: "('v, 'x) validation \<Rightarrow> string \<Rightarrow> token_ref definition_node \<Rightarrow> ('x go_error list, type_ref) outcome" where
  "no_root_type env message operation =
     (case ErrorLocationOfASTNode (v_store env) (DefinitionNode operation) of
        Ok l \<Rightarrow> Error [NewError message [ArgLocations (Some [l])]] | OutOfFuel \<Rightarrow> OutOfFuel | _ \<Rightarrow> Panic)"

definition operation_rootType :: "('v, 'x) validation \<Rightarrow> token_ref definition_node \<Rightarrow> ('x go_error list, type_ref) outcome" where
  "operation_rootType env operation =
     (let t = OperationType (v_toks env) operation in
      if t = ''query'' then
        (case schema_query (v_schema env) of
           Some n \<Rightarrow> Ok n | None \<Rightarrow> no_root_type env ''Schema does not define the required query root type.'' operation)
      else if t = ''mutation'' then
        (case schema_mutation (v_schema env) of Some n \<Rightarrow> Ok n | None \<Rightarrow> no_root_type env ''Schema is not configured for mutations.'' operation)
      else if t = ''subscription'' then
        (case schema_subscription (v_schema env) of
           Some n \<Rightarrow> Ok n | None \<Rightarrow> no_root_type env ''Schema is not configured for subscriptions.'' operation)
      else no_root_type env ''Can only have query, mutation and subscription operations.'' operation)"

text \<open>
  \<open>Prepare\<close> after the validation, and \<open>Prepare\<close>. \<open>rules\<close> is \<open>options.ValidationRules\<close>; the set of standard rules that is used when it is nil is
  an argument.
\<close>

definition prepare_validated :: "('v, 'x) validation \<Rightarrow> string \<Rightarrow> ('x go_error list, prepared_operation) outcome" where
  "prepare_validated env operationName =
     bind_outcome (find_operation (v_toks env) operationName (document_Definitions (v_document env)) None Map.empty) (\<lambda>(operation, fragmentMap).
       case operation of
         None \<Rightarrow>
           Error [NewError (if operationName \<noteq> [] then ''Unknown operation named '' @ quoted operationName @ ''.'' else ''Must provide an operation.'') []]
       | Some operation \<Rightarrow>
           bind_outcome (operation_rootType env operation) (\<lambda>rootType.
             Ok \<lparr>po_definition = operation, po_rootType = rootType, po_fragmentMap = fragmentMap\<rparr>))"

definition Validate :: "('v, 'x) validation \<Rightarrow> ('v, 'x) validation_rule list \<Rightarrow> (unit, 'x go_error list) outcome" where
  "Validate env standardRules = bind_outcome (buildRules standardRules) (validate_with env (length standardRules))"

definition Prepare :: "('v, 'x) validation \<Rightarrow> ('v, 'x) validation_rule list \<Rightarrow> ('v, 'x) validation_rule list option \<Rightarrow> string \<Rightarrow>
    ('x go_error list, prepared_operation) outcome" where
  "Prepare env standardRules rules operationName =
     (case (case rules of Some rs \<Rightarrow> ValidateWithRules env rs | None \<Rightarrow> Validate env standardRules) of
        Ok errs \<Rightarrow> if HaveOccurred errs then Error errs else prepare_validated env operationName
      | OutOfFuel \<Rightarrow> OutOfFuel
      | _ \<Rightarrow> Panic)"

section \<open>The state of an execution\<close>

record 'v exec_node =
  node_Parent :: "nat option"
  node_Definitions :: "token_ref selection list"
  node_Field :: "'v goval field_def option"
  node_Args :: "'v vars"
  node_Children :: "(type_ref \<times> nat list) list"

datatype 'v result_value =
    ResultKindNil
  | ResultKindList (list_nodes: "nat list")
  | ResultKindObject (object_ExecutionNodes: "nat list") (object_FieldValues: "nat list")
  | ResultKindLeaf "'v goval"

record 'v result_node =
  result_Parent :: "nat option"
  result_RejectNull :: bool
  result_Value :: "'v result_value"

record ('v, 'x, 'w) exec_state =
  x_nodes :: "'v exec_node list"
  x_results :: "'v result_node list"
  x_errs :: "'x go_error list"
  x_world :: 'w

text \<open>At the start: the root node of \<open>execute\<close>, which has no parent and no definitions.\<close>

definition initial_state :: "'w \<Rightarrow> ('v, 'x, 'w) exec_state" where
  "initial_state w =
     \<lparr>x_nodes = [\<lparr>node_Parent = None, node_Definitions = [], node_Field = None, node_Args = Map.empty, node_Children = []\<rparr>], x_results = [],
      x_errs = [], x_world = w\<rparr>"

text \<open>
  The context of an execution. \<open>e_Iterate\<close> are the items of an \<open>Iterable\<close> and the error of its iterator at the end; \<open>e_AsError\<close> is the type assertion
  to \<open>*graphql.Error\<close> (not nil), \<open>e_AsBool\<close> the one to \<open>bool\<close>. Resolvers do not return futures.
\<close>

record ('v, 'x, 'w) execution =
  e_env :: "('v, 'x) validation"
  e_operation :: prepared_operation
  e_variableValues :: "'v vars"
  e_rootValue :: "'v goval"
  e_BooleanType :: type_ref
  e_AsBool :: "'v goval \<Rightarrow> bool option"
  e_AsError :: "'v goval \<Rightarrow> 'x go_error option"
  e_IsNullish :: "'v goval \<Rightarrow> bool"
  e_Iterate :: "'v goval \<Rightarrow> ('v goval list \<times> 'x go_error option) option"
  e_Resolve :: "nat \<Rightarrow> nat \<Rightarrow> 'v goval \<Rightarrow> (('v, 'x, 'w) exec_state, 'x go_error, 'v goval) action"
  e_TypeResolver :: "type_ref \<Rightarrow> (nat \<Rightarrow> nat \<Rightarrow> 'v goval \<Rightarrow> (('v, 'x, 'w) exec_state, 'x go_error, type_ref option) action) option"
  e_fmt_type :: "gtype \<Rightarrow> string"
  e_CoerceResultValue :: "type_ref \<Rightarrow> 'v goval \<Rightarrow> 'x go_error + 'v goval"

type_synonym ('v, 'x, 'w, 'a) exec_action = "(('v, 'x, 'w) exec_state, 'x go_error, 'a) action"

text \<open>What the application does to the state when it is called: only the world changes.\<close>

definition outside :: "('v, 'x, 'w, 'a) exec_action \<Rightarrow> ('v, 'x, 'w, 'a) exec_action" where
  "outside a = (\<lambda>s. case a s of (r, s') \<Rightarrow> (r, s\<lparr>x_world := x_world s'\<rparr>))"

definition node_IsRoot :: "'v exec_node \<Rightarrow> bool" where
  "node_IsRoot node \<longleftrightarrow> node_Parent node = None"

definition node_ResponseKey :: "token list \<Rightarrow> 'v exec_node \<Rightarrow> string option" where
  "node_ResponseKey toks node = (case node_Definitions node of [] \<Rightarrow> None | d # _ \<Rightarrow> ResponseKey toks d)"

section \<open>Directives, fields and type conditions\<close>

text \<open>The location of a node of the document; nodes that were parsed have one.\<close>

definition e_locate :: "('v, 'x) validation \<Rightarrow> node \<Rightarrow> error_location" where
  "e_locate env node = (case ErrorLocationOfASTNode (v_store env) node of Ok l \<Rightarrow> l | _ \<Rightarrow> \<lparr>loc_Line = 0, loc_Column = 0\<rparr>)"

definition condition_directive :: "type_ref \<Rightarrow> string \<Rightarrow> 'v goval directive_def" where
  "condition_directive boolean name =
     \<lparr>directive_def_Name = name, directive_def_Locations = [''FIELD'', ''FRAGMENT_SPREAD'', ''INLINE_FRAGMENT''],
      directive_def_Args = [\<lparr>input_Name = ''if'', input_Type = NonNullOf (Named boolean), input_Default = None\<rparr>]\<rparr>"

text \<open>\<open>values.DirectiveValues(\<dots>).Get("if")\<close>, as a boolean: \<open>None\<close> when it is nil.\<close>

definition directive_condition :: "('v, 'x, 'w) execution \<Rightarrow> string \<Rightarrow> token_ref selection \<Rightarrow> ('x go_error, bool option) outcome" where
  "directive_condition e name node =
     (let env = e_env e in
      bind_outcome (DirectiveValues (v_ops env) (v_types env) (v_toks env) (\<lambda>a. e_locate env (ArgumentNode a)) (\<lambda>v. e_locate env (ValueNode v))
          (\<lambda>d. e_locate env (DirectiveNode d)) (condition_directive (e_BooleanType e) name) (selection_GetDirectives node) (e_variableValues e)) (\<lambda>vals.
        case vals ''if'' of
          None \<Rightarrow> Ok None
        | Some v \<Rightarrow> if v = GoNil then Ok None else case e_AsBool e v of None \<Rightarrow> Panic | Some b \<Rightarrow> Ok (Some b)))"

definition shouldIncludeNode :: "('v, 'x, 'w) execution \<Rightarrow> token_ref selection \<Rightarrow> ('x go_error, bool) outcome" where
  "shouldIncludeNode e node =
     bind_outcome (directive_condition e ''skip'' node) (\<lambda>shouldSkip.
       if shouldSkip = Some True then Ok False
       else bind_outcome (directive_condition e ''include'' node) (\<lambda>shouldInclude. Ok (shouldInclude \<noteq> Some False)))"

definition findFieldDef :: "('v, 'x) validation \<Rightarrow> type_ref \<Rightarrow> string \<Rightarrow> 'v goval field_def option" where
  "findFieldDef env parentType fieldName =
     (if schema_query (v_schema env) = Some parentType \<and> fieldName = ''__schema'' then Some (SchemaMetaFieldDef env)
      else if schema_query (v_schema env) = Some parentType \<and> fieldName = ''__type'' then Some (TypeMetaFieldDef env)
      else if fieldName = ''__typename'' then Some (TypenameMetaFieldDef env)
      else case fields_of (v_types env ! parentType) of None \<Rightarrow> None | Some flds \<Rightarrow> find_field_def fieldName flds)"

definition doesTypeConditionSatisfy :: "('v, 'x, 'w) execution \<Rightarrow> token_ref name \<Rightarrow> type_ref \<Rightarrow> ('x go_error, bool) outcome" where
  "doesTypeConditionSatisfy e typeCondition t =
     (case TypeFromAST (v_schema (e_env e)) (v_toks (e_env e)) (NamedType typeCondition) of
        Ok None \<Rightarrow> Ok False
      | Ok (Some c) \<Rightarrow>
          Ok (c = Named t \<or>
              (case c of Named n \<Rightarrow> IsAbstractDef (v_types (e_env e) ! n) \<and> t \<in> set (PossibleTypes (v_schema (e_env e)) n) | _ \<Rightarrow> False))
      | OutOfFuel \<Rightarrow> OutOfFuel
      | _ \<Rightarrow> Panic)"

section \<open>Collecting fields\<close>

text \<open>The local variables of \<open>buildChildExecutionNodesForSelectionSet\<close>.\<close>

record collecting =
  c_visited :: "string list"
  c_fields :: "string \<rightharpoonup> nat"
  c_childNodes :: "nat list"

definition update_node :: "nat \<Rightarrow> ('v exec_node \<Rightarrow> 'v exec_node) \<Rightarrow> ('v, 'x, 'w, unit) exec_action" where
  "update_node a f = (\<lambda>s. (Ok (), s\<lparr>x_nodes := (x_nodes s)[a := f (x_nodes s ! a)]\<rparr>))"

definition new_node :: "'v exec_node \<Rightarrow> ('v, 'x, 'w, nat) exec_action" where
  "new_node node = (\<lambda>s. (Ok (length (x_nodes s)), s\<lparr>x_nodes := x_nodes s @ [node]\<rparr>))"

text \<open>One selection: what has been collected, and the selection set that is to be processed next.\<close>

definition collect_field :: "('v, 'x, 'w) execution \<Rightarrow> nat \<Rightarrow> type_ref \<Rightarrow> token_ref selection \<Rightarrow> string \<Rightarrow> token_ref name \<Rightarrow> token_ref argument list \<Rightarrow>
    collecting \<Rightarrow> ('v, 'x, 'w, collecting) exec_action" where
  "collect_field e parentNode runtimeType selection key name args col =
     (case c_fields col key of
        Some a \<Rightarrow> andThen (update_node a (\<lambda>n. n\<lparr>node_Definitions := node_Definitions n @ [selection]\<rparr>)) (\<lambda>_. ret col)
      | None \<Rightarrow>
          (let env = e_env e in
           case findFieldDef env runtimeType (v_name env name) of
             None \<Rightarrow> ret col
           | Some fieldDef \<Rightarrow>
               andThen (lift_outcome (ArgumentValues (v_ops env) (v_types env) (v_toks env) (\<lambda>a. e_locate env (ArgumentNode a)) (\<lambda>v. e_locate env (ValueNode v))
                   (e_locate env (SelectionNode selection)) (field_Args fieldDef) args (e_variableValues e))) (\<lambda>argValues.
               andThen (new_node \<lparr>node_Parent = Some parentNode, node_Definitions = [selection], node_Field = Some fieldDef, node_Args = argValues,
                   node_Children = []\<rparr>) (\<lambda>a.
               ret (col\<lparr>c_childNodes := c_childNodes col @ [a], c_fields := (c_fields col)(key \<mapsto> a)\<rparr>)))))"

definition collect_selection :: "('v, 'x, 'w) execution \<Rightarrow> nat \<Rightarrow> type_ref \<Rightarrow> token_ref selection \<Rightarrow> collecting \<Rightarrow>
    ('v, 'x, 'w, collecting \<times> token_ref selection list option) exec_action" where
  "collect_selection e parentNode runtimeType selection col =
     andThen (lift_outcome (shouldIncludeNode e selection)) (\<lambda>include.
       if \<not> include then ret (col, None)
       else case selection of
         FieldNode alias' name args _ _ \<Rightarrow>
           andThen (collect_field e parentNode runtimeType selection (v_name (e_env e) (case alias' of Some a \<Rightarrow> a | None \<Rightarrow> name)) name args col) (\<lambda>col. ret (col, None))
       | InlineFragment typeCondition _ selectionSet \<Rightarrow>
           (case typeCondition of
              None \<Rightarrow> ret (col, Some selectionSet)
            | Some n \<Rightarrow> andThen (lift_outcome (doesTypeConditionSatisfy e n runtimeType)) (\<lambda>b. ret (col, if b then Some selectionSet else None)))
       | FragmentSpread name _ \<Rightarrow>
           (let fragmentName = v_name (e_env e) name in
            if fragmentName \<in> set (c_visited col) then ret (col, None)
            else let col = col\<lparr>c_visited := fragmentName # c_visited col\<rparr> in
              case po_fragmentMap (e_operation e) fragmentName of
                None \<Rightarrow> ret (col, None)
              | Some f \<Rightarrow>
                  andThen (lift_outcome (doesTypeConditionSatisfy e (fragment_TypeCondition f) runtimeType)) (\<lambda>b.
                    ret (col, if b then Some (definition_GetSelectionSet f) else None))))"

text \<open>
  The loop over the stack of selection sets with the index at which each is resumed; the head of the list is the top of the stack. A set is popped
  when its last selection is taken. The inner loop of the code goes on with the same set until a set is pushed, which is what the outer
  loop finds on top. A set without selections is never popped: the loop does not end then.
\<close>

fun build_loop :: "nat \<Rightarrow> ('v, 'x, 'w) execution \<Rightarrow> nat \<Rightarrow> type_ref \<Rightarrow> (token_ref selection list \<times> nat) list \<Rightarrow> collecting \<Rightarrow>
    ('v, 'x, 'w, collecting) exec_action" where
  "build_loop fuel e parentNode runtimeType [] col = ret col"
| "build_loop 0 e parentNode runtimeType (task # stack) col = out_of_fuel"
| "build_loop (Suc fuel) e parentNode runtimeType ((selectionSet, selectionIndex) # stack) col =
     (if selectionIndex < length selectionSet then
        andThen (collect_selection e parentNode runtimeType (selectionSet ! selectionIndex) col) (\<lambda>(col, push).
          let rest = (if Suc selectionIndex \<ge> length selectionSet then stack else (selectionSet, Suc selectionIndex) # stack) in
          build_loop fuel e parentNode runtimeType (case push of None \<Rightarrow> rest | Some s \<Rightarrow> (s, 0) # rest) col)
      else build_loop fuel e parentNode runtimeType ((selectionSet, selectionIndex) # stack) col)"

text \<open>Enough steps for sets and fragments without empty selection sets.\<close>

definition build_fuel :: "('v, 'x, 'w) execution \<Rightarrow> token_ref selection list list \<Rightarrow> nat" where
  "build_fuel e sets =
     sum_list (map (size_list size) sets) +
     sum_list (map (\<lambda>d. size_list size (definition_GetSelectionSet d)) (filter is_fragment (document_Definitions (v_document (e_env e)))))"

definition initial_sets :: "('v, 'x, 'w) execution \<Rightarrow> 'v exec_node \<Rightarrow> token_ref selection list list" where
  "initial_sets e parent =
     (if node_IsRoot parent then [definition_GetSelectionSet (po_definition (e_operation e))] else map field_selection_set (node_Definitions parent))"

definition nothing_collected :: collecting where
  "nothing_collected = \<lparr>c_visited = [], c_fields = Map.empty, c_childNodes = []\<rparr>"

definition buildChildExecutionNodesForSelectionSet :: "('v, 'x, 'w) execution \<Rightarrow> nat \<Rightarrow> type_ref \<Rightarrow> ('v, 'x, 'w, nat list) exec_action" where
  "buildChildExecutionNodesForSelectionSet e parentNode runtimeType = (\<lambda>s.
     let sets = initial_sets e (x_nodes s ! parentNode) in
     andThen (build_loop (build_fuel e sets) e parentNode runtimeType (map (\<lambda>ss. (ss, 0)) sets) nothing_collected)
       (\<lambda>col. ret (c_childNodes col)) s)"

definition collectFields :: "('v, 'x, 'w) execution \<Rightarrow> nat \<Rightarrow> type_ref \<Rightarrow> ('v, 'x, 'w, nat list) exec_action" where
  "collectFields e node runtimeType = (\<lambda>s.
     andThen (case map_of (node_Children (x_nodes s ! node)) runtimeType of
                Some childNodes \<Rightarrow> ret childNodes
              | None \<Rightarrow> buildChildExecutionNodesForSelectionSet e node runtimeType) (\<lambda>childNodes.
     andThen (update_node node (\<lambda>n. n\<lparr>node_Children := (runtimeType, childNodes) # node_Children n\<rparr>)) (\<lambda>_.
     ret childNodes)) s)"

end
