(* ===== verification/Execution.thy ===== *)
theory Execution
  imports ExecutionNodes
begin

text \<open>
  \<open>graphql/executor\<close>: \<open>execute.go\<close>, \<open>executor.go\<close>, \<open>result_node.go\<close> and \<open>resolve_info.go\<close>: the tasks that run resolvers, the completion of values and the
  propagation of errors through the tree of result nodes.

  Tasks run one after the other: \<open>Dispatch\<close> runs a task before it returns. Futures, which make a task yield, are not
  modelled; nor are the free list of tasks and its reference counts.
\<close>

section \<open>Result nodes\<close>

definition update_result :: "nat \<Rightarrow> ('v result_node \<Rightarrow> 'v result_node) \<Rightarrow> ('v, 'x, 'w, unit) exec_action" where
  "update_result a f = (\<lambda>s. (Ok (), s\<lparr>x_results := (x_results s)[a := f (x_results s ! a)]\<rparr>))"

definition set_value :: "nat \<Rightarrow> 'v result_value \<Rightarrow> ('v, 'x, 'w, unit) exec_action" where
  "set_value a v = update_result a (\<lambda>n. n\<lparr>result_Value := v\<rparr>)"

definition result_IsNil :: "('v, 'x, 'w) exec_state \<Rightarrow> nat \<Rightarrow> bool" where
  "result_IsNil s a \<longleftrightarrow> result_Value (x_results s ! a) = ResultKindNil"

definition new_results :: "nat \<Rightarrow> ('v, 'x, 'w, nat list) exec_action" where
  "new_results n = (\<lambda>s. (Ok [length (x_results s)..<length (x_results s) + n],
     s\<lparr>x_results := x_results s @ replicate n \<lparr>result_Parent = None, result_RejectNull = False, result_Value = ResultKindNil\<rparr>\<rparr>))"

text \<open>\<open>ResultNodeList.EmplaceBack\<close>, on the list of the nodes of the result; the chunks of the list are the subject of a separate theory.\<close>

definition EmplaceBack :: "nat \<Rightarrow> bool \<Rightarrow> ('v, 'x, 'w, nat) exec_action" where
  "EmplaceBack parent nullable = (\<lambda>s.
     (Ok (length (x_results s)),
      s\<lparr>x_results := (x_results s)[parent := (x_results s ! parent)\<lparr>result_Value :=
            (case result_Value (x_results s ! parent) of ResultKindList nodes \<Rightarrow> ResultKindList (nodes @ [length (x_results s)]) | v \<Rightarrow> v)\<rparr>] @
          [\<lparr>result_Parent = Some parent, result_RejectNull = \<not> nullable, result_Value = ResultKindNil\<rparr>]\<rparr>))"

definition position :: "'a \<Rightarrow> 'a list \<Rightarrow> nat option" where
  "position x xs = (if x \<in> set xs then Some (length (takeWhile (\<lambda>y. y \<noteq> x) xs)) else None)"

text \<open>
  The loop of \<open>Path\<close>. The index of a field is computed from the addresses of the nodes; for a node that is not in the slice it is out of
  range. A node that has become nil is passed over and \<open>childNode\<close> is kept.
\<close>

fun path_loop :: "nat \<Rightarrow> token list \<Rightarrow> ('v, 'x, 'w) exec_state \<Rightarrow> nat option \<Rightarrow> nat \<Rightarrow> ('e, response_path) outcome" where
  "path_loop fuel toks s None childNode = Ok []"
| "path_loop 0 toks s (Some node) childNode = OutOfFuel"
| "path_loop (Suc fuel) toks s (Some node) childNode =
     (let n = x_results s ! node in
      case result_Value n of
        ResultKindList nodes \<Rightarrow>
          bind_outcome (path_loop fuel toks s (result_Parent n) node) (\<lambda>path.
            Ok (path @ [Index (case position childNode nodes of Some i \<Rightarrow> int i | None \<Rightarrow> -1)]))
      | ResultKindObject nodes vals \<Rightarrow>
          (case position childNode vals of
             None \<Rightarrow> Panic
           | Some i \<Rightarrow>
               if i < length nodes then
                 (case node_ResponseKey toks (x_nodes s ! (nodes ! i)) of
                    None \<Rightarrow> Panic
                  | Some key \<Rightarrow> bind_outcome (path_loop fuel toks s (result_Parent n) node) (\<lambda>path. Ok (path @ [FieldName key])))
               else Panic)
      | _ \<Rightarrow> path_loop fuel toks s (result_Parent n) childNode)"

definition result_Path :: "token list \<Rightarrow> ('v, 'x, 'w) exec_state \<Rightarrow> nat \<Rightarrow> ('e, response_path) outcome" where
  "result_Path toks s node = path_loop (length (x_results s)) toks s (result_Parent (x_results s ! node)) node"

section \<open>Errors\<close>

text \<open>The loop follows the parents while the node rejects null. A node without parent that rejects null would be a nil dereference.\<close>

fun propagateExecutionError :: "nat \<Rightarrow> nat \<Rightarrow> ('v, 'x, 'w, unit) exec_action" where
  "propagateExecutionError 0 result = out_of_fuel"
| "propagateExecutionError (Suc fuel) result = (\<lambda>s.
     if result_RejectNull (x_results s ! result) then
       (case result_Parent (x_results s ! result) of
          None \<Rightarrow> (Panic, s)
        | Some parent \<Rightarrow> andThen (set_value parent ResultKindNil) (\<lambda>_. propagateExecutionError fuel parent) s)
     else (Ok (), s))"

definition AppendError :: "'x go_error \<Rightarrow> nat \<Rightarrow> ('v, 'x, 'w, unit) exec_action" where
  "AppendError err result = (\<lambda>s.
     case result_Parent (x_results s ! result) of
       None \<Rightarrow> (Panic, s)
     | Some parent \<Rightarrow>
         if result_IsNil s parent then (Ok (), s)
         else propagateExecutionError (length (x_results s)) parent (s\<lparr>x_errs := x_errs s @ [err]\<rparr>))"

definition definition_locations :: "('v, 'x) validation \<Rightarrow> token_ref selection list \<Rightarrow> ('e, error_location list) outcome" where
  "definition_locations env defs =
     foldr (\<lambda>d rest. case ErrorLocationOfASTNode (v_store env) (SelectionNode d) of
         Ok l \<Rightarrow> bind_outcome rest (\<lambda>ls. Ok (l # ls)) | OutOfFuel \<Rightarrow> OutOfFuel | _ \<Rightarrow> Panic) defs (Ok [])"

definition node_error :: "'x go_error \<Rightarrow> error_location list \<Rightarrow> response_path \<Rightarrow> 'x go_error" where
  "node_error err locations path =
     (case err of
        GraphQLError m _ _ x er op k \<Rightarrow> GraphQLError m (Some locations) path x er op k
      | ForeignError text' _ _ _ \<Rightarrow> NewError text' [ArgLocations (Some locations), ArgPath path])"

definition handleNodeError :: "('v, 'x, 'w) execution \<Rightarrow> nat \<Rightarrow> 'x go_error \<Rightarrow> nat \<Rightarrow> ('v, 'x, 'w, unit) exec_action" where
  "handleNodeError e node err result = (\<lambda>s.
     andThen (lift_outcome (definition_locations (e_env e) (node_Definitions (x_nodes s ! node)))) (\<lambda>locations.
     andThen (lift_outcome (result_Path (v_toks (e_env e)) s result)) (\<lambda>path.
     andThen (set_value result ResultKindNil) (\<lambda>_.
     AppendError (node_error err locations path) result))) s)"

text \<open>\<open>parentFieldType\<close> of \<open>resolve_info.go\<close>.\<close>

definition parentFieldType :: "('v, 'x, 'w) execution \<Rightarrow> ('v, 'x, 'w) exec_state \<Rightarrow> nat \<Rightarrow> ('e, type_ref) outcome" where
  "parentFieldType e s node =
     (let env = e_env e in
      case node_Parent (x_nodes s ! node) of
        None \<Rightarrow> Panic
      | Some parent \<Rightarrow>
          (case node_Field (x_nodes s ! parent) of
             Some f \<Rightarrow>
               (let t = NamedTypeOf (field_Type f) in
                if IsObjectDef (v_types env ! t) then Ok t
                else if IsAbstractDef (v_types env ! t) then
                  (case find (\<lambda>(_, nodes). node \<in> set nodes) (node_Children (x_nodes s ! parent)) of Some (t, _) \<Rightarrow> Ok t | None \<Rightarrow> Panic)
                else Panic)
           | None \<Rightarrow>
               (let t = OperationType (v_toks env) (po_definition (e_operation e)) in
                case (if t = ''query'' then schema_query (v_schema env)
                      else if t = ''mutation'' then schema_mutation (v_schema env)
                      else if t = ''subscription'' then schema_subscription (v_schema env) else None) of
                  Some t \<Rightarrow> Ok t | None \<Rightarrow> Panic)))"

text \<open>An error about the field of a node; \<open>f\<close> makes its message of the names of the parent type and of the field.\<close>

definition field_error :: "('v, 'x, 'w) execution \<Rightarrow> nat \<Rightarrow> (string \<Rightarrow> string) \<Rightarrow> 'x error_arg list \<Rightarrow> nat \<Rightarrow> ('v, 'x, 'w, unit) exec_action" where
  "field_error e node f args result = (\<lambda>s.
     andThen (lift_outcome (parentFieldType e s node)) (\<lambda>t.
       case node_Field (x_nodes s ! node) of
         None \<Rightarrow> panic
       | Some fieldDef \<Rightarrow> handleNodeError e node (NewError (f (type_Name (v_types (e_env e)) t @ ''.'' @ field_Name fieldDef)) args) result) s)"

section \<open>Completion of values\<close>

definition catch :: "('s, 'e, 'a) action \<Rightarrow> ('e \<Rightarrow> ('s, 'e, 'a) action) \<Rightarrow> ('s, 'e, 'a) action" where
  "catch a h = (\<lambda>s. case a s of (Error err, s') \<Rightarrow> h err s' | r \<Rightarrow> r)"

definition completeValuePrologue :: "('v, 'x, 'w) execution \<Rightarrow> nat \<Rightarrow> nat \<Rightarrow> 'v goval \<Rightarrow> ('v, 'x, 'w, bool) exec_action" where
  "completeValuePrologue e node result v =
     (case e_AsError e v of
        Some err \<Rightarrow> andThen (handleNodeError e node err result) (\<lambda>_. ret True)
      | None \<Rightarrow> ret False)"

text \<open>The call of \<open>dispatchTasksForObject\<close> is an argument of the functions that complete values.\<close>

type_synonym ('v, 'x, 'w) dispatch = "nat \<Rightarrow> nat list \<Rightarrow> 'v goval \<Rightarrow> ('v, 'x, 'w, unit) exec_action"

definition completeLeafValue :: "('v, 'x, 'w) execution \<Rightarrow> nat \<Rightarrow> type_ref \<Rightarrow> nat \<Rightarrow> 'v goval \<Rightarrow> ('v, 'x, 'w, bool) exec_action" where
  "completeLeafValue e node returnType result v =
     (case e_CoerceResultValue e returnType v of
        Inl err \<Rightarrow>
          (let err' = (case err of
               GraphQLError _ _ _ _ _ _ kind \<Rightarrow> if kind = ErrKindCoercion then err
                 else NewDefaultResultCoercionError (type_Name (v_types (e_env e)) returnType) (op_fmt_value (v_ops (e_env e)) v) err
             | _ \<Rightarrow> NewDefaultResultCoercionError (type_Name (v_types (e_env e)) returnType) (op_fmt_value (v_ops (e_env e)) v) err)
           in andThen (handleNodeError e node err' result) (\<lambda>_. ret False))
      | Inr coercedValue \<Rightarrow> andThen (set_value result (ResultKindLeaf coercedValue)) (\<lambda>_. ret True))"

definition completeObjectValue :: "('v, 'x, 'w) dispatch \<Rightarrow> ('v, 'x, 'w) execution \<Rightarrow> nat \<Rightarrow> type_ref \<Rightarrow> nat \<Rightarrow> 'v goval \<Rightarrow> ('v, 'x, 'w, bool) exec_action" where
  "completeObjectValue dispatch e node returnType result v =
     andThen (catch (andThen (collectFields e node returnType) (\<lambda>childNodes. ret (Some childNodes)))
         (\<lambda>err. andThen (handleNodeError e node err result) (\<lambda>_. ret None))) (\<lambda>childNodes.
       case childNodes of
         None \<Rightarrow> ret False
       | Some childNodes \<Rightarrow> andThen (dispatch result childNodes v) (\<lambda>_. ret True))"

definition completeAbstractValue :: "('v, 'x, 'w) dispatch \<Rightarrow> ('v, 'x, 'w) execution \<Rightarrow> nat \<Rightarrow> type_ref \<Rightarrow> nat \<Rightarrow> 'v goval \<Rightarrow> ('v, 'x, 'w, bool) exec_action" where
  "completeAbstractValue dispatch e node returnType result v =
     (let env = e_env e; name = type_Name (v_types env) returnType in
      case e_TypeResolver e returnType of
        None \<Rightarrow>
          andThen (field_error e node (\<lambda>f. ''Abstract type '' @ name @ '' must provide resolver to resolve to an Object type at runtime for field '' @ f @
              '' with value '' @ op_InspectValue (v_ops env) v) [] result) (\<lambda>_. ret False)
      | Some resolve \<Rightarrow>
          andThen (catch (andThen (outside (resolve node result v)) (\<lambda>t. ret (Some t)))
              (\<lambda>err. andThen (handleNodeError e node err result) (\<lambda>_. ret None))) (\<lambda>t.
            case t of
              None \<Rightarrow> ret False
            | Some None \<Rightarrow>
                andThen (field_error e node (\<lambda>f. ''Abstract type '' @ name @ '' must resolve to an Object type at runtime for field '' @ f @
                    '' with value '' @ op_InspectValue (v_ops env) v @ '', received nil.'') [] result) (\<lambda>_. ret False)
            | Some (Some runtimeType) \<Rightarrow>
                if runtimeType \<in> set (PossibleTypes (v_schema env) returnType) then completeObjectValue dispatch e node runtimeType result v
                else andThen (handleNodeError e node (NewError (''Runtime Object type '' @ quoted (type_Name (v_types env) runtimeType) @
                    '' is not a possible type for '' @ quoted name @ ''.'') []) result) (\<lambda>_. ret False)))"

definition completeNonWrappingValue :: "('v, 'x, 'w) dispatch \<Rightarrow> ('v, 'x, 'w) execution \<Rightarrow> nat \<Rightarrow> type_ref \<Rightarrow> nat \<Rightarrow> 'v goval \<Rightarrow> ('v, 'x, 'w, bool) exec_action" where
  "completeNonWrappingValue dispatch e node returnType result v =
     andThen (completeValuePrologue e node result v) (\<lambda>completed.
       if completed then ret True
       else if e_IsNullish e v then andThen (set_value result ResultKindNil) (\<lambda>_. ret True)
       else let d = v_types (e_env e) ! returnType in
         if IsLeafDef d then completeLeafValue e node returnType result v
         else if IsObjectDef d then completeObjectValue dispatch e node returnType result v
         else if IsAbstractDef d then completeAbstractValue dispatch e node returnType result v
         else andThen (handleNodeError e node (NewError (''Cannot complete value of unexpected type '' @ quoted (e_fmt_type e (Named returnType)) @ ''.'') []) result)
                (\<lambda>_. ret False))"

section \<open>Lists and non-null types\<close>

definition inner_type :: "gtype \<Rightarrow> gtype" where
  "inner_type t = (case t of NonNullOf u \<Rightarrow> u | _ \<Rightarrow> t)"

definition element_type :: "gtype \<Rightarrow> gtype option" where
  "element_type t = (case inner_type t of ListOf u \<Rightarrow> Some u | _ \<Rightarrow> None)"

text \<open>The items of a list value: of its iterator, or by reflection; the error is the one that ends the iteration.\<close>

definition list_items :: "('v, 'x, 'w) execution \<Rightarrow> 'v goval \<Rightarrow> ('v goval list \<times> 'x go_error option) option" where
  "list_items e v = (case e_Iterate e v of Some r \<Rightarrow> Some r | None \<Rightarrow> (case v of GoSlice vs \<Rightarrow> Some (vs, None) | _ \<Rightarrow> None))"

text \<open>
  The elements of a list: with a type that is not wrapping they are completed as they come, until one fails and takes the list with it (\<open>False\<close>);
  with a wrapping type they are put in the queue.
\<close>

fun complete_elements :: "(nat \<Rightarrow> 'v goval \<Rightarrow> ('v, 'x, 'w, bool) exec_action) \<Rightarrow> bool \<Rightarrow> nat \<Rightarrow> 'v goval list \<Rightarrow> ('v, 'x, 'w, bool) exec_action" where
  "complete_elements complete nullable result [] = ret True"
| "complete_elements complete nullable result (v # vs) =
     andThen (EmplaceBack result nullable) (\<lambda>resultNode.
     andThen (complete resultNode v) (\<lambda>ok. \<lambda>s.
       if \<not> ok \<and> result_IsNil s result then (Ok False, s) else complete_elements complete nullable result vs s))"

fun queue_elements :: "bool \<Rightarrow> nat \<Rightarrow> 'v goval list \<Rightarrow> ('v, 'x, 'w, (nat \<times> 'v goval) list) exec_action" where
  "queue_elements nullable result [] = ret []"
| "queue_elements nullable result (v # vs) =
     andThen (EmplaceBack result nullable) (\<lambda>resultNode. andThen (queue_elements nullable result vs) (\<lambda>pushed. ret ((resultNode, v) # pushed)))"

definition iteration_error :: "('v, 'x, 'w) execution \<Rightarrow> nat \<Rightarrow> nat \<Rightarrow> 'x go_error option \<Rightarrow> ('v, 'x, 'w, unit) exec_action" where
  "iteration_error e node result err =
     (case err of
        None \<Rightarrow> ret ()
      | Some err \<Rightarrow> field_error e node (\<lambda>f. ''Error occurred while enumerates values in the list field '' @ f @ ''.'') [ArgError err] result)"

definition completeListValue :: "(type_ref \<Rightarrow> nat \<Rightarrow> 'v goval \<Rightarrow> ('v, 'x, 'w, bool) exec_action) \<Rightarrow> ('v, 'x, 'w) execution \<Rightarrow> nat \<Rightarrow> bool \<Rightarrow> gtype \<Rightarrow> nat \<Rightarrow>
    'v goval \<Rightarrow> ('v, 'x, 'w, (nat \<times> 'v goval) list) exec_action" where
  "completeListValue complete e node isNonNullType elementType result v =
     (case list_items e v of
        None \<Rightarrow>
          andThen (field_error e node (\<lambda>f. ''Expected Iterable, but did not find one for field '' @ f @ ''.'') [] result) (\<lambda>_. ret [])
      | Some (vs, err) \<Rightarrow>
          andThen (set_value result (ResultKindList [])) (\<lambda>_.
            case elementType of
              Named t \<Rightarrow>
                andThen (complete_elements (complete t) (\<not> isNonNullType) result vs) (\<lambda>atEnd.
                andThen (if atEnd then iteration_error e node result err else ret ()) (\<lambda>_. ret []))
            | _ \<Rightarrow>
                andThen (queue_elements (\<not> isNonNullType) result vs) (\<lambda>pushed.
                andThen (iteration_error e node result err) (\<lambda>_. ret pushed))))"

text \<open>One round of the loop of \<open>completeWrappingValue\<close>: the elements that are put in the queue.\<close>

definition completeQueuedValue :: "(type_ref \<Rightarrow> nat \<Rightarrow> 'v goval \<Rightarrow> ('v, 'x, 'w, bool) exec_action) \<Rightarrow> ('v, 'x, 'w) execution \<Rightarrow> nat \<Rightarrow> gtype \<Rightarrow> nat \<Rightarrow>
    'v goval \<Rightarrow> ('v, 'x, 'w, (nat \<times> 'v goval) list) exec_action" where
  "completeQueuedValue complete e node returnType result v = (\<lambda>s.
     case result_Parent (x_results s ! result) of
       None \<Rightarrow> (Panic, s)
     | Some parent \<Rightarrow>
         if result_IsNil s parent then (Ok [], s)
         else if e_IsNullish e v then
           andThen (if IsNonNullType returnType
                    then field_error e node (\<lambda>f. ''Cannot return null for non-nullable field '' @ f @ ''.'') [] result
                    else set_value result ResultKindNil) (\<lambda>_. ret []) s
         else case inner_type returnType of
             ListOf elementType \<Rightarrow> completeListValue complete e node (IsNonNullType returnType) elementType result v s
           | Named t \<Rightarrow> andThen (complete t result v) (\<lambda>_. ret []) s
           | NonNullOf t \<Rightarrow>
               andThen (handleNodeError e node (NewError (''Cannot complete value of unexpected type '' @ quoted (e_fmt_type e (NonNullOf t)) @ ''.'') []) result)
                 (\<lambda>_. ret []) s)"

text \<open>The loop ends because the elements of a list have a smaller type than the list: the sizes of the types in the queue decrease as a multiset.\<close>

definition queue_measure :: "(gtype \<times> nat \<times> 'v goval) list \<Rightarrow> nat multiset" where
  "queue_measure queue = mset (map (\<lambda>(t, r, v). size t) queue)"

lemma element_type_smaller: "element_type t = Some u \<Longrightarrow> size u < size t"
  by (auto simp: element_type_def inner_type_def split: gtype.splits)

lemma queue_measure_step:
  "(queue_measure (queue @ (case element_type t of None \<Rightarrow> [] | Some u \<Rightarrow> map (\<lambda>(r, v). (u, r, v)) pushed)),
    queue_measure ((t, result, v) # queue)) \<in> mult less_than"
proof -
  let ?new = "case element_type t of None \<Rightarrow> [] | Some u \<Rightarrow> map (\<lambda>(r, v). (u, r, v)) pushed"
  have "(queue_measure queue + queue_measure ?new, queue_measure queue + {#size t#}) \<in> mult less_than"
    by (rule one_step_implies_mult, simp, cases "element_type t") (auto simp: queue_measure_def dest: element_type_smaller)
  then show ?thesis
    by (simp add: queue_measure_def)
qed

function wrapping_loop :: "(type_ref \<Rightarrow> nat \<Rightarrow> 'v goval \<Rightarrow> ('v, 'x, 'w, bool) exec_action) \<Rightarrow> ('v, 'x, 'w) execution \<Rightarrow> nat \<Rightarrow> (gtype \<times> nat \<times> 'v goval) list \<Rightarrow>
    ('v, 'x, 'w) exec_state \<Rightarrow> ('x go_error, unit) outcome \<times> ('v, 'x, 'w) exec_state" where
  "wrapping_loop complete e node [] s = (Ok (), s)"
| "wrapping_loop complete e node ((returnType, result, v) # queue) s =
     (case completeQueuedValue complete e node returnType result v s of
        (Ok pushed, s') \<Rightarrow>
          wrapping_loop complete e node
            (queue @ (case element_type returnType of None \<Rightarrow> [] | Some t \<Rightarrow> map (\<lambda>(r, v). (t, r, v)) pushed)) s'
      | (Error err, s') \<Rightarrow> (Error err, s')
      | (Panic, s') \<Rightarrow> (Panic, s')
      | (OutOfFuel, s') \<Rightarrow> (OutOfFuel, s'))"
  by pat_completeness auto
termination
proof (relation "inv_image (mult less_than) (\<lambda>(complete, e, node, queue, s). queue_measure queue)")
  show "wf (inv_image (mult less_than) (\<lambda>(complete, e, node, queue, s). queue_measure queue))"
    by (intro wf_inv_image wf_mult wf_less_than)
qed (simp add: queue_measure_step)

definition completeWrappingValue :: "('v, 'x, 'w) dispatch \<Rightarrow> ('v, 'x, 'w) execution \<Rightarrow> nat \<Rightarrow> gtype \<Rightarrow> nat \<Rightarrow> 'v goval \<Rightarrow> ('v, 'x, 'w, unit) exec_action" where
  "completeWrappingValue dispatch e node returnType result v =
     andThen (completeValuePrologue e node result v) (\<lambda>completed.
       if completed then ret () else wrapping_loop (completeNonWrappingValue dispatch e node) e node [(returnType, result, v)])"

definition completeValue :: "('v, 'x, 'w) dispatch \<Rightarrow> ('v, 'x, 'w) execution \<Rightarrow> nat \<Rightarrow> gtype \<Rightarrow> nat \<Rightarrow> 'v goval \<Rightarrow> ('v, 'x, 'w, unit) exec_action" where
  "completeValue dispatch e node returnType result v =
     (case returnType of
        Named t \<Rightarrow> andThen (completeNonWrappingValue dispatch e node t result v) (\<lambda>_. ret ())
      | _ \<Rightarrow> completeWrappingValue dispatch e node returnType result v)"

section \<open>Tasks\<close>

definition run_task :: "('v, 'x, 'w) dispatch \<Rightarrow> ('v, 'x, 'w) execution \<Rightarrow> nat \<Rightarrow> nat \<Rightarrow> 'v goval \<Rightarrow> ('v, 'x, 'w, unit) exec_action" where
  "run_task dispatch e node result source = (\<lambda>s.
     case node_Field (x_nodes s ! node) of
       None \<Rightarrow> (Panic, s)
     | Some field \<Rightarrow>
         (case outside (e_Resolve e node result source) s of
            (Ok v, s') \<Rightarrow> completeValue dispatch e node (field_Type field) result v s'
          | (Error err, s') \<Rightarrow> handleNodeError e node err result s'
          | (Panic, s') \<Rightarrow> (Panic, s')
          | (OutOfFuel, s') \<Rightarrow> (OutOfFuel, s')))"

text \<open>The loop of \<open>dispatchTasksForObject\<close> over the fields; \<open>Dispatch\<close> runs each task to its end.\<close>

fun dispatch_fields :: "('v, 'x, 'w) dispatch \<Rightarrow> ('v, 'x, 'w) execution \<Rightarrow> nat \<Rightarrow> 'v goval \<Rightarrow> (nat \<times> nat) list \<Rightarrow> ('v, 'x, 'w, unit) exec_action" where
  "dispatch_fields dispatch e result v [] = ret ()"
| "dispatch_fields dispatch e result v ((childNode, nodeResult) # tasks) = (\<lambda>s.
     case node_Field (x_nodes s ! childNode) of
       None \<Rightarrow> (Panic, s)
     | Some field \<Rightarrow>
         andThen (update_result nodeResult (\<lambda>n. n\<lparr>result_Parent := Some result, result_RejectNull := IsNonNullType (field_Type field)\<rparr>)) (\<lambda>_.
         andThen (run_task dispatch e childNode nodeResult v) (\<lambda>_.
         dispatch_fields dispatch e result v tasks)) s)"

text \<open>The objects in the result nest at most as deep as the fields of the operation: \<open>fuel\<close> is a bound on the depth.\<close>

primrec dispatchTasksForObject :: "nat \<Rightarrow> ('v, 'x, 'w) execution \<Rightarrow> nat \<Rightarrow> nat list \<Rightarrow> 'v goval \<Rightarrow> ('v, 'x, 'w, unit) exec_action" where
  "dispatchTasksForObject 0 e = (\<lambda>result childNodes v. out_of_fuel)"
| "dispatchTasksForObject (Suc fuel) e = (\<lambda>result childNodes v.
     andThen (new_results (length childNodes)) (\<lambda>nodeResults.
     andThen (set_value result (ResultKindObject childNodes nodeResults)) (\<lambda>_.
     dispatch_fields (dispatchTasksForObject fuel e) e result v (zip childNodes nodeResults))))"

section \<open>Operations\<close>

text \<open>
  \<open>ExecutionResult\<close>: \<open>Data\<close> is a node of the final state, or nil. The errors of the collection of the fields of the root are asserted to be
  of the type \<open>*graphql.Error\<close>.
\<close>

record 'x execution_result =
  execution_Data :: "nat option"
  execution_Errors :: "'x go_error list"

definition execute :: "nat \<Rightarrow> ('v, 'x, 'w) execution \<Rightarrow> 'w \<Rightarrow> (unit, 'x execution_result) outcome \<times> ('v, 'x, 'w) exec_state" where
  "execute fuel e w =
     (case collectFields e 0 (po_rootType (e_operation e)) (initial_state w) of
        (Error (GraphQLError m ls p ex er op k), s) \<Rightarrow> (Ok \<lparr>execution_Data = None, execution_Errors = [GraphQLError m ls p ex er op k]\<rparr>, s)
      | (Error _, s) \<Rightarrow> (Panic, s)
      | (Panic, s) \<Rightarrow> (Panic, s)
      | (OutOfFuel, s) \<Rightarrow> (OutOfFuel, s)
      | (Ok nodes, s) \<Rightarrow>
          (case andThen (new_results 1) (\<lambda>rs. dispatchTasksForObject fuel e (hd rs) nodes (e_rootValue e)) s of
             (Ok _, s) \<Rightarrow> (Ok \<lparr>execution_Data = Some 0, execution_Errors = x_errs s\<rparr>, s)
           | (OutOfFuel, s) \<Rightarrow> (OutOfFuel, s)
           | (_, s) \<Rightarrow> (Panic, s)))"


text \<open>
  \<open>newExecutionContext\<close> coerces the variables; \<open>Execute\<close> returns their errors without executing anything. The operation and the options are in the
  record \<open>e\<close>.
\<close>

definition newExecutionContext :: "('v, 'x, 'w) execution \<Rightarrow> 'v vars \<Rightarrow> ('x go_error list, ('v, 'x, 'w) execution) outcome" where
  "newExecutionContext e inputValues =
     (let env = e_env e in
      case CoerceVariableValues (v_ops env) (v_types env) (v_schema env) (v_toks env) (\<lambda>d. e_locate env (VariableDefinitionNode d))
          (definition_VariableDefinitions (po_definition (e_operation e))) inputValues of
        Ok (variableValues, errs) \<Rightarrow> if HaveOccurred errs then Error errs else Ok (e\<lparr>e_variableValues := variableValues\<rparr>)
      | OutOfFuel \<Rightarrow> OutOfFuel
      | _ \<Rightarrow> Panic)"

definition Execute :: "nat \<Rightarrow> ('v, 'x, 'w) execution \<Rightarrow> 'v vars \<Rightarrow> 'w \<Rightarrow> (unit, 'x execution_result) outcome \<times> ('v, 'x, 'w) exec_state" where
  "Execute fuel e inputValues w =
     (case newExecutionContext e inputValues of
        Ok e \<Rightarrow> execute fuel e w
      | Error errs \<Rightarrow> (Ok \<lparr>execution_Data = None, execution_Errors = errs\<rparr>, initial_state w)
      | Panic \<Rightarrow> (Panic, initial_state w)
      | OutOfFuel \<Rightarrow> (OutOfFuel, initial_state w))"

end
