(* ===== verification/ValuesSpec.thy ===== *)
theory ValuesSpec
  imports Values
begin

text \<open>
  Coerced values have the type they were coerced to.
\<close>

section \<open>Typed values\<close>

text \<open>
  \<open>typed env scalar_ok t v\<close>: the value \<open>v\<close> is an internal value of the input type \<open>t\<close>, where \<open>scalar_ok\<close> says what the scalars
  accept. An object has only fields of its type and all fields of non-null types.
\<close>

inductive typed :: "'v env \<Rightarrow> (type_ref \<Rightarrow> 'v goval \<Rightarrow> bool) \<Rightarrow> gtype \<Rightarrow> 'v goval \<Rightarrow> bool" for env scalar_ok where
  typed_nil: "\<not> IsNonNullType t \<Longrightarrow> typed env scalar_ok t GoNil"
| typed_non_null: "v \<noteq> GoNil \<Longrightarrow> typed env scalar_ok t v \<Longrightarrow> typed env scalar_ok (NonNullOf t) v"
| typed_scalar: "env ! n = ScalarDef name \<Longrightarrow> scalar_ok n v \<Longrightarrow> typed env scalar_ok (Named n) v"
| typed_alias: "env ! n = ScalarAliasDef name aliased \<Longrightarrow> scalar_ok n v \<Longrightarrow> typed env scalar_ok (Named n) v"
| typed_enum: "env ! n = EnumDef name enumValues \<Longrightarrow> v \<in> snd ` set enumValues \<Longrightarrow> typed env scalar_ok (Named n) v"
| typed_list: "(\<And>x. x \<in> set xs \<Longrightarrow> typed env scalar_ok t x) \<Longrightarrow> typed env scalar_ok (ListOf t) (GoSlice xs)"
| typed_object: "env ! n = InputObjectDef name flds \<Longrightarrow>
    (\<And>k x. (k, x) \<in> set m \<Longrightarrow> \<exists>f \<in> set flds. input_Name f = k \<and> typed env scalar_ok (input_Type f) x) \<Longrightarrow>
    (\<And>f. f \<in> set flds \<Longrightarrow> IsNonNullType (input_Type f) \<Longrightarrow> input_Name f \<in> fst ` set m) \<Longrightarrow>
    typed env scalar_ok (Named n) (GoMap m)"

inductive_cases typed_NonNullE: "typed env scalar_ok (NonNullOf t) v"

definition field_ok :: "'v env \<Rightarrow> (type_ref \<Rightarrow> 'v goval \<Rightarrow> bool) \<Rightarrow> 'v goval input_def \<Rightarrow> bool" where
  "field_ok env scalar_ok f \<longleftrightarrow>
     NamedTypeOf (input_Type f) < length env \<and> (\<forall>d. input_Default f = Some d \<longrightarrow> typed env scalar_ok (input_Type f) d)"

text \<open>
  What the theorems rely on: scalars and enums have no nil values, scalars accept what they coerce to, defaults are typed, and the
  fields of input objects refer to types that exist.
\<close>

definition inputs_ok :: "('v, 'x) value_ops \<Rightarrow> 'v env \<Rightarrow> (type_ref \<Rightarrow> 'v goval \<Rightarrow> bool) \<Rightarrow> bool" where
  "inputs_ok ops env scalar_ok \<longleftrightarrow>
     (\<forall>n v. scalar_ok n v \<longrightarrow> v \<noteq> GoNil) \<and>
     (\<forall>n v x. op_CoerceVariableValue ops n v = Inr x \<longrightarrow> scalar_ok n x) \<and>
     (\<forall>n v x. op_CoerceLiteralValue ops n v = Inr x \<longrightarrow> scalar_ok n x) \<and>
     (\<forall>name enumValues. EnumDef name enumValues \<in> set env \<longrightarrow> GoNil \<notin> snd ` set enumValues) \<and>
     (\<forall>name flds f. InputObjectDef name flds \<in> set env \<longrightarrow> f \<in> set flds \<longrightarrow> field_ok env scalar_ok f)"

definition fields_typed :: "'v env \<Rightarrow> (type_ref \<Rightarrow> 'v goval \<Rightarrow> bool) \<Rightarrow> 'v goval input_def list \<Rightarrow> (string \<times> 'v goval) list \<Rightarrow> bool" where
  "fields_typed env scalar_ok flds m \<longleftrightarrow>
     (\<forall>(k, x) \<in> set m. \<exists>f \<in> set flds. input_Name f = k \<and> typed env scalar_ok (input_Type f) x) \<and>
     (\<forall>f \<in> set flds. IsNonNullType (input_Type f) \<longrightarrow> input_Name f \<in> fst ` set m)"

lemma fields_typed_object: "env ! n = InputObjectDef name flds \<Longrightarrow> fields_typed env scalar_ok flds m \<Longrightarrow> typed env scalar_ok (Named n) (GoMap m)"
  by (rule typed_object) (auto simp: fields_typed_def)

lemma fields_typed_Cons:
  "fields_typed env scalar_ok flds m \<Longrightarrow> typed env scalar_ok (input_Type f) x \<Longrightarrow> fields_typed env scalar_ok (f # flds) ((input_Name f, x) # m)"
  by (auto simp: fields_typed_def)

lemma fields_typed_skip:
  "fields_typed env scalar_ok flds m \<Longrightarrow> \<not> IsNonNullType (input_Type f) \<Longrightarrow> fields_typed env scalar_ok (f # flds) m"
  by (fastforce simp: fields_typed_def)

lemma enum_Lookup_typed:
  assumes "env ! n = EnumDef name enumValues" "enum_Lookup enumValues s = (Inr x :: 'x go_error + 'v goval)"
  shows "typed env scalar_ok (Named n) x \<and> x \<in> snd ` set enumValues"
  using assms by (force simp: enum_Lookup_def intro: typed_enum dest: map_of_SomeD split: option.splits)

section \<open>Literals\<close>

text \<open>Literals without variables.\<close>

fun is_constant :: "'t ast_value \<Rightarrow> bool" where
  "is_constant (Variable _) \<longleftrightarrow> False"
| "is_constant (ListValue vs) \<longleftrightarrow> list_all is_constant vs"
| "is_constant (ObjectValue fs) \<longleftrightarrow> list_all (\<lambda>f. is_constant (objectField_Value f)) fs"
| "is_constant _ \<longleftrightarrow> True"

lemma constant_parts:
  "is_constant v \<Longrightarrow> variable_name toks v = None" "is_constant v \<Longrightarrow> list_literal v = Some vs \<Longrightarrow> list_all is_constant vs"
  "is_constant v \<Longrightarrow> object_literal v = Some fs \<Longrightarrow> list_all (\<lambda>f. is_constant (objectField_Value f)) fs"
  "is_constant v \<Longrightarrow> \<not> isMissingVariable toks v variables"
  by (cases v; simp add: isMissingVariable_def)+

lemma find_field_constant:
  "list_all (\<lambda>f. is_constant (objectField_Value f)) fs \<Longrightarrow> find_field toks fs name = Some f \<Longrightarrow> is_constant (objectField_Value f)"
  by (auto simp: find_field_def find_Some_iff list_all_iff) (metis nth_mem length_rev set_rev)

lemma coerceFromAST_NonNull:
  "coerceFromAST ops env toks variables v (NonNullOf t) =
     (if is_null_literal v then Error (plain_error ''null cannot be assigned to non-null type'')
      else coerceFromAST ops env toks variables v t)"
  by (simp add: coerceFromAST.simps)

lemma coerceFromAST_null: "is_null_literal v \<Longrightarrow> \<not> IsNonNullType t \<Longrightarrow> coerceFromAST ops env toks variables v t = Ok GoNil"
  by (cases t) (simp_all add: coerceFromAST.simps)

lemma coerceFromAST_ListOf:
  assumes "\<not> is_null_literal v" "variable_name toks v = None"
  shows "coerceFromAST ops env toks variables v (ListOf t) =
     (case list_literal v of
        Some vs \<Rightarrow> bind_outcome (coerceElements ops env toks variables vs t) (\<lambda>xs. Ok (GoSlice xs))
      | None \<Rightarrow> bind_outcome (coerceFromAST ops env toks variables v t) (\<lambda>x. Ok (GoSlice [x])))"
  using assms by (simp add: coerceFromAST.simps [of ops env toks variables v "ListOf t"] applyVariable_def)

lemma coerceFromAST_Named:
  assumes "\<not> is_null_literal v" "variable_name toks v = None"
  shows "coerceFromAST ops env toks variables v (Named n) =
     (case env ! n of
        InputObjectDef _ flds \<Rightarrow>
          (case object_literal v of
             None \<Rightarrow> Error (plain_error (''expected an object value, but got: '' @ op_fmt_literal_type ops v))
           | Some fs \<Rightarrow> bind_outcome (coerceFields ops env toks variables fs flds) (\<lambda>m. Ok (GoMap m)))
      | ScalarDef _ \<Rightarrow> sum_outcome (op_CoerceLiteralValue ops n v)
      | ScalarAliasDef _ _ \<Rightarrow> sum_outcome (op_CoerceLiteralValue ops n v)
      | EnumDef _ enumValues \<Rightarrow> sum_outcome (coreceEnumLiteralValue toks enumValues v)
      | _ \<Rightarrow> Error (plain_error (quoted (InspectType env (Named n)) @ '' is not a valid input type'')))"
  using assms by (simp add: coerceFromAST.simps applyVariable_def)

lemma sum_outcome_Ok: "sum_outcome r = Ok x \<Longrightarrow> r = Inr x"
  by (cases r) auto

lemma inputs_okD:
  assumes "inputs_ok ops env scalar_ok"
  shows "scalar_ok n v \<Longrightarrow> v \<noteq> GoNil" "op_CoerceVariableValue ops n v = Inr x \<Longrightarrow> scalar_ok n x"
    "op_CoerceLiteralValue ops n lit = Inr x \<Longrightarrow> scalar_ok n x"
    "env ! n = EnumDef name enumValues \<Longrightarrow> n < length env \<Longrightarrow> x \<in> snd ` set enumValues \<Longrightarrow> x \<noteq> GoNil"
    "env ! n = InputObjectDef name flds \<Longrightarrow> n < length env \<Longrightarrow> f \<in> set flds \<Longrightarrow> field_ok env scalar_ok f"
proof -
  show "env ! n = EnumDef name enumValues \<Longrightarrow> n < length env \<Longrightarrow> x \<in> snd ` set enumValues \<Longrightarrow> x \<noteq> GoNil"
    using assms nth_mem [of n env] unfolding inputs_ok_def by metis
  show "env ! n = InputObjectDef name flds \<Longrightarrow> n < length env \<Longrightarrow> f \<in> set flds \<Longrightarrow> field_ok env scalar_ok f"
    using assms nth_mem [of n env] unfolding inputs_ok_def by metis
qed (use assms in \<open>unfold inputs_ok_def, blast+\<close>)

lemma coerceEnumLiteral_typed:
  assumes "inputs_ok ops env scalar_ok" "env ! n = EnumDef name enumValues" "n < length env" "coreceEnumLiteralValue toks enumValues v = (Inr x :: 'x go_error + 'v goval)"
  shows "typed env scalar_ok (Named n) x \<and> x \<noteq> GoNil"
proof -
  obtain t where "enum_Lookup enumValues (token_Value (toks ! t)) = (Inr x :: 'x go_error + 'v goval)"
    using assms(4) by (auto simp: coreceEnumLiteralValue_def split: ast_value.splits)
  from enum_Lookup_typed [OF assms(2) this] show ?thesis using inputs_okD(4) [OF assms(1,2,3)] by auto
qed

lemma coerceFromAST_typed:
  assumes "inputs_ok ops env scalar_ok"
  shows
    "coerceFromAST ops env toks variables v t = Ok x \<Longrightarrow> is_constant v \<Longrightarrow> NamedTypeOf t < length env \<Longrightarrow>
       typed env scalar_ok t x \<and> (\<not> is_null_literal v \<longrightarrow> x \<noteq> GoNil)"
    "coerceElements ops env toks variables vs t = Ok xs \<Longrightarrow> list_all is_constant vs \<Longrightarrow> NamedTypeOf t < length env \<Longrightarrow>
       \<forall>x \<in> set xs. typed env scalar_ok t x"
    "coerceFields ops env toks variables fs flds = Ok m \<Longrightarrow> list_all (\<lambda>f. is_constant (objectField_Value f)) fs \<Longrightarrow>
       (\<forall>f \<in> set flds. field_ok env scalar_ok f) \<Longrightarrow> fields_typed env scalar_ok flds m"
  using assms
proof (induction ops env toks variables v t and ops env toks variables vs t and ops env toks variables fs flds
    arbitrary: x and xs and m rule: coerceFromAST_coerceElements_coerceFields.induct)
  case (1 ops env toks variables v t)
  note const = constant_parts [OF 1(6)] and inputs = inputs_okD [OF 1(8)]
  have app: "applyVariable toks variables v t = None" using const(1) by (simp add: applyVariable_def)
  show ?case
  proof (cases t)
    case (NonNullOf inner)
    then show ?thesis using 1(5,7) 1(4) [OF NonNullOf _ _ 1(6) _ 1(8)]
      by (auto simp: coerceFromAST_NonNull intro!: typed_non_null split: if_splits)
  next
    case (ListOf elementType)
    show ?thesis
    proof (cases "is_null_literal v")
      case True
      then show ?thesis using 1(5) ListOf by (auto simp: coerceFromAST_null intro: typed_nil)
    next
      case False
      show ?thesis
      proof (cases "list_literal v")
        case None
        then obtain y where "coerceFromAST ops env toks variables v elementType = Ok y" "x = GoSlice [y]"
          using 1(5) ListOf False const(1) by (auto simp: coerceFromAST_ListOf elim!: bind_outcome_OkE)
        then show ?thesis using 1(2) [OF ListOf False app None _ 1(6) _ 1(8)] ListOf 1(7) by (auto intro!: typed_list)
      next
        case (Some vs)
        then obtain ys where "coerceElements ops env toks variables vs elementType = Ok ys" "x = GoSlice ys"
          using 1(5) ListOf False const(1) by (auto simp: coerceFromAST_ListOf elim!: bind_outcome_OkE)
        then show ?thesis using 1(3) [OF ListOf False app Some _ const(2) [OF Some] _ 1(8)] ListOf 1(7) by (auto intro!: typed_list)
      qed
    qed
  next
    case (Named n)
    show ?thesis
    proof (cases "is_null_literal v")
      case True
      then show ?thesis using 1(5) Named by (auto simp: coerceFromAST_null intro: typed_nil)
    next
      case False
      note eq = 1(5) [unfolded Named coerceFromAST_Named [OF False const(1)]]
      show ?thesis
      proof (cases "env ! n")
        case (ScalarDef name)
        then show ?thesis using eq inputs(1) [of n x] inputs(3) [of n v x] Named
          by (cases "op_CoerceLiteralValue ops n v") (auto intro: typed_scalar)
      next
        case (ScalarAliasDef name aliased)
        then show ?thesis using eq inputs(1) [of n x] inputs(3) [of n v x] Named
          by (cases "op_CoerceLiteralValue ops n v") (auto intro: typed_alias)
      next
        case (EnumDef name enumValues)
        note coerced = eq [unfolded EnumDef, simplified, THEN sum_outcome_Ok]
        from coerceEnumLiteral_typed [OF 1(8) EnumDef _ coerced] show ?thesis using Named 1(7) by simp
      next
        case (InputObjectDef name flds)
        then obtain fs m where fs: "object_literal v = Some fs" "coerceFields ops env toks variables fs flds = Ok m" "x = GoMap m"
          using eq by (auto elim!: bind_outcome_OkE split: option.splits)
        have "fields_typed env scalar_ok flds m"
          using 1(1) [OF Named False app InputObjectDef fs(1,2) const(3) [OF fs(1)] _ 1(8)] inputs(5) [OF InputObjectDef] 1(7) Named by simp
        then show ?thesis using fs(3) Named fields_typed_object [OF InputObjectDef] by auto
      qed (use eq in auto)
    qed
  qed
next
  case (2 ops env toks variables t)
  then show ?case by simp
next
  case (3 ops env toks variables v vs t)
  then show ?case by (auto simp: constant_parts elim!: bind_outcome_OkE)
next
  case (4 ops env toks variables fs)
  then show ?case by (simp add: fields_typed_def)
next
  case (5 ops env toks variables fs f flds)
  show ?case
  proof (cases "find_field toks fs (input_Name f)")
    case None
    then show ?thesis using 5
      by (auto simp: field_ok_def elim!: bind_outcome_OkE intro: fields_typed_Cons fields_typed_skip split: option.splits if_splits)
  next
    case (Some g)
    have "is_constant (objectField_Value g)" using find_field_constant Some 5 by blast
    then show ?thesis using 5 Some
      by (auto simp: constant_parts field_ok_def elim!: bind_outcome_OkE intro: fields_typed_Cons fields_typed_skip split: option.splits if_splits)
  qed
qed


section \<open>Values of variables\<close>

lemma HaveOccurred_iff [simp]: "HaveOccurred errs \<longleftrightarrow> errs \<noteq> []"
  by (simp add: HaveOccurred_def)

lemma coerceValueImpl_NonNull:
  "coerceValueImpl ops env blame v (NonNullOf t) path =
     (if v = GoNil then
        (GoNil, [newCoercionError (''Expected non-nullable type '' @ InspectType env (NonNullOf t) @ '' not to be null'') blame path [] None])
      else coerceValueImpl ops env blame v t path)"
  by (simp add: coerceValueImpl.simps)

lemma coerceValueImpl_nil: "\<not> IsNonNullType t \<Longrightarrow> coerceValueImpl ops env blame GoNil t path = (GoNil, [])"
  by (cases t) (simp_all add: coerceValueImpl.simps)

lemma coerceEnumVariable_typed:
  assumes "inputs_ok ops env scalar_ok" "env ! n = EnumDef name enumValues" "n < length env" "coerceEnumVariableValue ops enumValues v = (Inr x :: 'x go_error + 'v goval)"
  shows "typed env scalar_ok (Named n) x \<and> x \<noteq> GoNil"
proof -
  obtain s where "enum_Lookup enumValues s = (Inr x :: 'x go_error + 'v goval)"
    using assms(4) by (auto simp: coerceEnumVariableValue_def split: goval.splits string_view.splits)
  from enum_Lookup_typed [OF assms(2) this] show ?thesis using inputs_okD(4) [OF assms(1,2,3)] by auto
qed

lemma coerceValueImpl_typed:
  assumes "inputs_ok ops env scalar_ok"
  shows
    "coerceValueImpl ops env blame v t path = (x, []) \<Longrightarrow> NamedTypeOf t < length env \<Longrightarrow> typed env scalar_ok t x \<and> (v \<noteq> GoNil \<longrightarrow> x \<noteq> GoNil)"
    "coerceSlice ops env blame vs t path i errs acc = (ys, []) \<Longrightarrow> NamedTypeOf t < length env \<Longrightarrow>
       errs = [] \<and> (\<exists>zs. ys = acc @ zs \<and> (\<forall>z \<in> set zs. typed env scalar_ok t z))"
    "coerceInputFields ops env blame objectValue flds path errs acc' = (m, []) \<Longrightarrow>
       (\<forall>f \<in> set flds. field_ok env scalar_ok f) \<Longrightarrow>
       errs = [] \<and> (\<exists>m'. m = acc' @ m' \<and> fields_typed env scalar_ok flds m')"
  using assms
proof (induction ops env blame v t path and ops env blame vs t path i errs acc and ops env blame objectValue flds path errs acc'
    arbitrary: x and ys and m rule: coerceValueImpl_coerceSlice_coerceInputFields.induct)
  case (1 ops env blame v t path)
  note inputs = inputs_okD [OF 1(9)]
  show ?case
  proof (cases "v = GoNil")
    case True
    then show ?thesis using 1(7) by (cases t) (auto simp: coerceValueImpl_NonNull coerceValueImpl_nil intro!: typed_nil)
  next
    case v: False
    show ?thesis
    proof (cases t)
      case (NonNullOf inner)
      then show ?thesis using v 1(7,8) 1(6) [OF NonNullOf v _ _ 1(9)] by (auto simp: coerceValueImpl_NonNull intro!: typed_non_null)
    next
      case (ListOf elementType)
      note eq = 1(7) [unfolded ListOf coerceValueImpl.simps [of ops env blame v "ListOf elementType" path], simplified v, simplified]
      show ?thesis
      proof (cases "\<exists>xs. v = GoSlice xs")
        case True
        then obtain xs ys where "v = GoSlice xs" "coerceSlice ops env blame xs elementType path 0 [] [] = (ys, [])" "x = GoSlice ys"
          using eq by (auto split: prod.splits if_splits)
        then show ?thesis using 1(4) [OF ListOf v _ _ _ 1(9)] ListOf 1(8) by (fastforce intro!: typed_list)
      next
        case False
        then obtain y where "coerceValueImpl ops env blame v elementType path = (y, [])" "x = GoSlice [y]"
          using eq v by (cases v) (auto split: prod.splits if_splits)
        moreover from this have "typed env scalar_ok elementType y"
          using 1(3) [OF ListOf v _ _ _ 1(9)] 1(5) [OF ListOf v _ _ _ 1(9)] v False ListOf 1(8) by (cases v) auto
        ultimately show ?thesis using ListOf by (auto intro!: typed_list)
      qed
    next
      case (Named n)
      note eq = 1(7) [unfolded Named coerceValueImpl.simps [of ops env blame v "Named n" path], simplified v, simplified]
      show ?thesis
      proof (cases "env ! n")
        case (ScalarDef name)
        then show ?thesis using eq inputs(1) [of n x] inputs(2) [of n v x] Named by (auto simp: coerceScalar_def intro: typed_scalar split: sum.splits)
      next
        case (ScalarAliasDef name aliased)
        then show ?thesis using eq inputs(1) [of n x] inputs(2) [of n v x] Named by (auto simp: coerceScalar_def intro: typed_alias split: sum.splits)
      next
        case (EnumDef name enumValues)
        then have "coerceEnumVariableValue ops enumValues v = Inr x" using eq by (auto split: sum.splits)
        from coerceEnumVariable_typed [OF 1(9) EnumDef _ this] show ?thesis using Named 1(8) by simp
      next
        case (InputObjectDef name flds)
        then obtain kvs m where fs: "v = GoMap kvs" "coerceInputFields ops env blame kvs flds path [] [] = (m, [])" "x = GoMap m"
          using eq by (auto simp: Let_def split: goval.splits prod.splits if_splits)
        then show ?thesis using 1(1) [OF Named v InputObjectDef fs(1) fs(2) _ 1(9)] inputs(5) [OF InputObjectDef]
            fields_typed_object [OF InputObjectDef] Named 1(8) by fastforce
      qed (use eq in auto)
    qed
  qed
next
  case (3 ops env blame x xs t path i errs acc)
  obtain y es where y: "coerceValueImpl ops env blame x t (Index i # path) = (y, es)" by fastforce
  show ?case
  proof (cases "es = []")
    case True
    then have "typed env scalar_ok t y" using 3(1) y 3(5,6) by simp
    then show ?thesis using 3(3) [of y es] 3(4,5,6) y True by (cases "errs = []") auto
  next
    case False
    then show ?thesis using 3(2) [of y es] 3(4,5,6) y by auto
  qed
next
  case (5 ops env blame objectValue f flds path errs acc)
  let ?name = "input_Name f"
  have defaults: "\<forall>g \<in> set flds. field_ok env scalar_ok g" and f: "field_ok env scalar_ok f" using 5(8) by auto
  show ?case
  proof (cases "map_of objectValue ?name")
    case None
    show ?thesis
    proof (cases "input_Default f")
      case (Some d)
      then show ?thesis using 5(3) [OF refl None Some _ defaults 5(9)] 5(7) f None
        by (auto simp: field_ok_def intro: fields_typed_Cons)
    next
      case nodef: None
      show ?thesis
      proof (cases "IsNonNullType (input_Type f)")
        case True
        then show ?thesis using 5(1) [OF refl None nodef True _ defaults 5(9)] 5(7) None nodef by auto
      next
        case False
        then show ?thesis using 5(2) [OF refl None nodef False _ defaults 5(9)] 5(7) None nodef
          by (auto intro: fields_typed_skip)
      qed
    qed
  next
    case (Some x)
    obtain y es where y: "coerceValueImpl ops env blame x (input_Type f) (FieldName ?name # path) = (y, es)" by fastforce
    show ?thesis
    proof (cases "es = []")
      case True
      then have "typed env scalar_ok (input_Type f) y" using 5(4) [OF refl Some] y 5(9) f by (simp add: field_ok_def)
      then show ?thesis using 5(6) [OF refl Some y [symmetric] _ _ defaults 5(9)] 5(7) y True Some
        by (cases "errs = []") (auto intro: fields_typed_Cons)
    next
      case False
      then show ?thesis using 5(5) [OF refl Some y [symmetric] _ _ defaults 5(9)] 5(7) y Some by auto
    qed
  qed
qed (auto simp: fields_typed_def)


lemma TypeFromAST_wrap_ref: "TypeFromAST_wrap path t = Ok t' \<Longrightarrow> NamedTypeOf t' = NamedTypeOf t"
  by (induction path t rule: TypeFromAST_wrap.induct)
     (auto simp: NewNonNullOfType_def split: ast_type.splits option.splits if_splits gtype.splits)

lemma TypeFromAST_ref: "TypeFromAST schema toks t = Ok (Some t') \<Longrightarrow> NamedTypeOf t' \<in> snd ` set (schema_typeMap schema)"
  by (force simp: TypeFromAST_def TypeMap_Lookup_def dest: TypeFromAST_wrap_ref map_of_SomeD elim!: bind_outcome_OkE
      split: prod.splits option.splits if_splits)

lemma coerceVariable_entry:
  assumes "inputs_ok ops env scalar_ok" and "coerceVariable ops env toks locate inputValues d varType = (Some x, errs)"
    and "pred_option is_constant (variableDefinition_DefaultValue d)"
    and "\<And>t. varType = Some t \<Longrightarrow> NamedTypeOf t < length env"
  shows "\<exists>t. varType = Some t \<and> IsInputType env (Some t) \<and> typed env scalar_ok t x"
proof -
  obtain t where t: "varType = Some t" "IsInputType env (Some t)"
    using assms(2) by (auto simp: coerceVariable_def Let_def split: if_splits option.splits)
  have "typed env scalar_ok t x"
    using assms(2,3) t assms(4) coerceFromAST_typed(1) [OF assms(1)] coerceValueImpl_typed(1) [OF assms(1)]
    by (auto simp: coerceVariable_def CoerceFromAST_def CoerceValue_def Let_def intro: typed_nil
        split: if_splits option.splits outcome.splits prod.splits)
  then show ?thesis using t by blast
qed

lemma coerceVariable_none:
  "coerceVariable ops env toks locate inputValues d varType = (None, []) \<Longrightarrow>
     inputValues (name_Value toks (variableDefinition_Variable d)) = None \<and> variableDefinition_DefaultValue d \<noteq> None"
  by (auto simp: coerceVariable_def Let_def split: if_splits option.splits outcome.splits prod.splits)

definition variable_typed ::
  "'v env \<Rightarrow> (type_ref \<Rightarrow> 'v goval \<Rightarrow> bool) \<Rightarrow> 'v goval schema \<Rightarrow> token list \<Rightarrow> token_ref variable_definition \<Rightarrow> string \<Rightarrow> 'v goval \<Rightarrow> bool" where
  "variable_typed env scalar_ok schema toks d name x \<longleftrightarrow>
     name_Value toks (variableDefinition_Variable d) = name \<and>
     (\<exists>t. TypeFromAST schema toks (variableDefinition_Type d) = Ok (Some t) \<and> IsInputType env (Some t) \<and> typed env scalar_ok t x)"

lemma coerceVariables_loop_typed:
  assumes "inputs_ok ops env scalar_ok" and "\<And>n. n \<in> snd ` set (schema_typeMap schema) \<Longrightarrow> n < length env"
  shows "coerceVariables_loop ops env schema toks locate inputValues defs acc errs = Ok (m, []) \<Longrightarrow>
    (\<And>d. d \<in> set defs \<Longrightarrow> pred_option is_constant (variableDefinition_DefaultValue d)) \<Longrightarrow>
    errs = [] \<and> dom acc \<subseteq> dom m \<and>
    (\<forall>name x. m name = Some x \<longrightarrow> acc name = Some x \<or> (\<exists>d \<in> set defs. variable_typed env scalar_ok schema toks d name x)) \<and>
    (\<forall>d \<in> set defs. m (name_Value toks (variableDefinition_Variable d)) = None \<longrightarrow>
       inputValues (name_Value toks (variableDefinition_Variable d)) = None \<and> variableDefinition_DefaultValue d \<noteq> None)"
proof (induction defs arbitrary: acc errs)
  case Nil
  then show ?case by auto
next
  case (Cons d defs)
  let ?name = "name_Value toks (variableDefinition_Variable d)"
  obtain varType entry es where type: "TypeFromAST schema toks (variableDefinition_Type d) = Ok varType"
    and entry: "coerceVariable ops env toks locate inputValues d varType = (entry, es)"
    and rest: "coerceVariables_loop ops env schema toks locate inputValues defs
      (case entry of None \<Rightarrow> acc | Some v \<Rightarrow> acc(?name \<mapsto> v)) (errs @ es) = Ok (m, [])"
    using Cons.prems(1) by (auto elim!: bind_outcome_OkE split: prod.splits)
  note IH = Cons.IH [OF rest Cons.prems(2)]
  have es: "errs = []" "es = []" using IH by auto
  have ref: "NamedTypeOf t < length env" if "varType = Some t" for t using that type TypeFromAST_ref assms(2) by blast
  show ?case
  proof (cases entry)
    case None
    then show ?thesis using IH es coerceVariable_none entry by fastforce
  next
    case (Some v)
    then have "variable_typed env scalar_ok schema toks d ?name v"
      using coerceVariable_entry [OF assms(1) entry [unfolded Some] _ ref] Cons.prems(2) type by (auto simp: variable_typed_def)
    moreover have "insert ?name (dom acc) \<subseteq> dom m" using IH Some by (simp only: option.case dom_fun_upd) simp
    moreover have "acc name = Some x \<or> (\<exists>d' \<in> set (d # defs). variable_typed env scalar_ok schema toks d' name x)" if "m name = Some x" for name x
    proof -
      have "(acc(?name \<mapsto> v)) name = Some x \<or> (\<exists>d' \<in> set defs. variable_typed env scalar_ok schema toks d' name x)"
        using IH that Some by simp
      then show ?thesis using calculation(1) by (cases "name = ?name") auto
    qed
    moreover have "m ?name \<noteq> None" using calculation(2) by blast
    ultimately show ?thesis using IH es by (simp only: list.set ball_simps) blast
  qed
qed

section \<open>Arguments\<close>

lemma coerceFromAST_not_nil:
  assumes "inputs_ok ops env scalar_ok" and "\<not> is_null_literal v" and "variable_name toks v = None"
  shows "coerceFromAST ops env toks variables v t = Ok x \<Longrightarrow> NamedTypeOf t < length env \<Longrightarrow> x \<noteq> GoNil"
proof (induction t)
  case (Named n)
  note eq = Named(1) [unfolded coerceFromAST_Named [OF assms(2,3)]]
  show ?case
  proof (cases "env ! n")
    case (EnumDef name enumValues)
    note coerced = eq [unfolded EnumDef, simplified, THEN sum_outcome_Ok]
    show ?thesis using coerceEnumLiteral_typed [OF assms(1) EnumDef _ coerced] Named(2) by simp
  qed (use eq inputs_okD(1) [OF assms(1) inputs_okD(3) [OF assms(1)]] in \<open>auto dest!: sum_outcome_Ok elim!: bind_outcome_OkE split: option.splits\<close>)
next
  case (ListOf t)
  then show ?case
    using coerceFromAST_ListOf [OF assms(2,3), of ops env variables t] by (cases "list_literal v") (auto elim!: bind_outcome_OkE)
next
  case (NonNullOf t)
  then show ?case using assms(2) by (simp add: coerceFromAST_NonNull)
qed

lemma argumentValue_required:
  assumes "inputs_ok ops env scalar_ok" and "field_ok env scalar_ok a" and "IsNonNullType (input_Type a)"
    and "argumentValue ops env toks locArgument locValue locNode variableValues argNode a = Ok entry"
  shows "\<exists>x. entry = Some x \<and> x \<noteq> GoNil"
proof (cases argNode)
  case None
  obtain t where "input_Type a = NonNullOf t" using assms(3) by (cases "input_Type a") auto
  then have "input_Default a = Some d \<Longrightarrow> d \<noteq> GoNil" for d
    using assms(2) by (auto simp: field_ok_def elim: typed_NonNullE)
  then show ?thesis using None assms(3,4) by (cases "input_Default a") (auto simp: argumentValue_def Let_def split: if_splits)
next
  case (Some arg)
  obtain t where t: "input_Type a = NonNullOf t" using assms(3) by (cases "input_Type a") auto
  then have default: "input_Default a = Some d \<Longrightarrow> d \<noteq> GoNil" for d
    using assms(2) by (auto simp: field_ok_def elim: typed_NonNullE)
  show ?thesis
  proof (cases "variable_name toks (argument_Value arg)")
    case None
    have "coerceFromAST ops env toks variableValues (argument_Value arg) (input_Type a) = Ok x \<Longrightarrow> \<not> is_null_literal (argument_Value arg) \<Longrightarrow> x \<noteq> GoNil" for x
      using coerceFromAST_not_nil [OF assms(1) _ None] assms(2) by (auto simp: field_ok_def)
    then show ?thesis using Some None assms(3,4)
      by (auto simp: argumentValue_def Let_def CoerceFromAST_def split: if_splits outcome.splits)
  next
    case (Some name)
    then show ?thesis using \<open>argNode = Some arg\<close> default assms(3,4)
      by (cases "input_Default a"; cases "variableValues name")
         (auto simp: argumentValue_def Let_def dest: sym [of "Some _"] split: if_splits)
  qed
qed

lemma argumentValues_loop_required:
  assumes "inputs_ok ops env scalar_ok"
  shows "argumentValues_loop ops env toks locArgument locValue locNode variableValues argNodes argDefs acc = Ok m \<Longrightarrow>
    (\<And>a. a \<in> set argDefs \<Longrightarrow> field_ok env scalar_ok a) \<Longrightarrow> distinct (map input_Name argDefs) \<Longrightarrow>
    dom m \<subseteq> dom acc \<union> input_Name ` set argDefs \<and> (\<forall>name. name \<notin> input_Name ` set argDefs \<longrightarrow> m name = acc name) \<and>
    (\<forall>a \<in> set argDefs. IsNonNullType (input_Type a) \<longrightarrow> (\<exists>x. m (input_Name a) = Some x \<and> x \<noteq> GoNil))"
proof (induction argDefs arbitrary: acc)
  case Nil
  then show ?case by simp
next
  case (Cons a argDefs)
  obtain entry where entry: "argumentValue ops env toks locArgument locValue locNode variableValues
      (find_argument toks argNodes (input_Name a)) a = Ok entry"
    and rest: "argumentValues_loop ops env toks locArgument locValue locNode variableValues argNodes argDefs
      (case entry of None \<Rightarrow> acc | Some x \<Rightarrow> acc(input_Name a \<mapsto> x)) = Ok m"
    using Cons.prems(1) by (auto elim!: bind_outcome_OkE)
  note IH = Cons.IH [OF rest Cons.prems(2)]
  have "m (input_Name a) = (case entry of None \<Rightarrow> acc | Some x \<Rightarrow> acc(input_Name a \<mapsto> x)) (input_Name a)"
    using IH Cons.prems(3) by simp
  moreover have "\<exists>x. entry = Some x \<and> x \<noteq> GoNil" if "IsNonNullType (input_Type a)"
    using argumentValue_required [OF assms _ that entry] Cons.prems(2) by simp
  ultimately show ?case using IH Cons.prems(3) by (cases entry) auto
qed

section \<open>Properties\<close>

text \<open>
  C27: coerced literals are typed. A literal without variables that \<open>CoerceFromAST\<close> accepts for a type becomes an internal value of
  that type: never null where the type is non-null, lists of typed elements, and input objects with typed fields,
  defaults filled in and no required field left out.
\<close>

theorem CoerceFromAST_typed:
  assumes "inputs_ok ops env scalar_ok" and "is_constant v" and "NamedTypeOf t < length env"
    and "CoerceFromAST ops env toks variables (Some v) t = Ok x"
  shows "typed env scalar_ok t x"
  using coerceFromAST_typed(1) [OF assms(1), of toks variables v t x] assms(2-4) by (simp add: CoerceFromAST_def)

text \<open>A type environment with a scalar, a list and an input object, for the witnesses; null is not a value of the scalar.\<close>

definition sample_ops :: "(string, string) value_ops" where
  "sample_ops = \<lparr>op_CoerceLiteralValue = \<lambda>n v. Inr (GoLeaf ''literal''),
     op_CoerceVariableValue = \<lambda>n v. (case v of GoLeaf x \<Rightarrow> Inr (GoLeaf x) | _ \<Rightarrow> Inl (plain_error ''bad'')),
     op_string_view = IsString, op_InspectValue = \<lambda>v. ''v'', op_InspectLiteral = \<lambda>v. ''v'', op_fmt_literal_type = \<lambda>v. ''t'',
     op_fmt_value = \<lambda>v. ''v'', op_fmt_type = \<lambda>v. ''t'', op_ToLower = id, op_Sort = id\<rparr>"

definition sample_field :: "string goval input_def" where
  "sample_field = \<lparr>input_Name = ''x'', input_Type = NonNullOf (Named 0), input_Default = Some (GoLeaf ''1'')\<rparr>"

definition sample_inputs :: "string env" where
  "sample_inputs = [ScalarDef ''Int'', InputObjectDef ''In'' [sample_field], EnumDef ''E'' [(''A'', GoLeaf ''A'')]]"

definition sample_scalar_ok :: "type_ref \<Rightarrow> string goval \<Rightarrow> bool" where
  "sample_scalar_ok n v \<longleftrightarrow> v \<noteq> GoNil"

lemma sample_field_ok: "field_ok sample_inputs sample_scalar_ok sample_field"
proof -
  have "typed sample_inputs sample_scalar_ok (NonNullOf (Named 0)) (GoLeaf ''1'')"
    by (rule typed_non_null, simp, rule typed_scalar [where name = "''Int''"]) (simp_all add: sample_inputs_def sample_scalar_ok_def)
  then show ?thesis by (simp add: field_ok_def sample_field_def) (simp add: sample_inputs_def)
qed

lemma sample_inputs_ok: "inputs_ok sample_ops sample_inputs sample_scalar_ok"
  using sample_field_ok unfolding inputs_ok_def
  by (auto simp: sample_ops_def sample_scalar_ok_def sample_inputs_def [THEN arg_cong, of set] split: goval.splits)

theorem CoerceFromAST_typed_witness:
  "typed sample_inputs sample_scalar_ok (ListOf (NonNullOf (Named 1))) (GoSlice [GoMap [(''x'', GoLeaf ''1'')]])"
proof (rule CoerceFromAST_typed [OF sample_inputs_ok, of "EmptyObjectValue 0" _ "[]" Map.empty])
  show "CoerceFromAST sample_ops sample_inputs [] Map.empty (Some (EmptyObjectValue 0)) (ListOf (NonNullOf (Named 1))) =
      Ok (GoSlice [GoMap [(''x'', GoLeaf ''1'')]])"
    by (simp add: CoerceFromAST_def coerceFromAST.simps [of _ _ _ _ "EmptyObjectValue _"] applyVariable_def sample_inputs_def sample_field_def find_field_def)
qed (simp_all add: sample_inputs_def)

text \<open>
  C28: variables are typed. When \<open>CoerceVariableValues\<close> reports no error, every entry of the result is the entry of a variable definition
  whose type is an input type, and is an internal value of that type; and every variable for which a value was given, or which
  has no default, has an entry. The defaults are literals without variables, which the grammar ensures.
\<close>

theorem CoerceVariableValues_typed:
  assumes "inputs_ok ops env scalar_ok" and "\<And>n. n \<in> snd ` set (schema_typeMap schema) \<Longrightarrow> n < length env"
    and "\<And>d. d \<in> set defs \<Longrightarrow> pred_option is_constant (variableDefinition_DefaultValue d)"
    and "CoerceVariableValues ops env schema toks locate defs inputValues = Ok (m, [])"
  shows "(\<forall>name x. m name = Some x \<longrightarrow> (\<exists>d \<in> set defs. variable_typed env scalar_ok schema toks d name x)) \<and>
    (\<forall>d \<in> set defs. inputValues (name_Value toks (variableDefinition_Variable d)) \<noteq> None \<or> variableDefinition_DefaultValue d = None \<longrightarrow>
       m (name_Value toks (variableDefinition_Variable d)) \<noteq> None)"
proof -
  have "coerceVariables_loop ops env schema toks locate inputValues defs Map.empty [] = Ok (m, [])"
    using assms(4) by (auto simp: CoerceVariableValues_def elim!: bind_outcome_OkE split: if_splits)
  then show ?thesis using coerceVariables_loop_typed [OF assms(1,2) _ assms(3)] by fastforce
qed


definition sample_input_schema :: "string goval schema" where
  "sample_input_schema = \<lparr>schema_query = None, schema_mutation = None, schema_subscription = None,
     schema_typeMap = [(''ID'', 0)], schema_directives = [], schema_possibleTypeSets = Map.empty\<rparr>"

definition sample_variable :: "token_ref variable_definition" where
  "sample_variable = VariableDefinition (Name 0) (NonNullType (NamedType (Name 0))) None []"

theorem CoerceVariableValues_typed_witness:
  "\<exists>m. CoerceVariableValues sample_ops sample_inputs sample_input_schema sample_type_tokens (\<lambda>d. undefined) [sample_variable] [''ID'' \<mapsto> GoLeaf ''7''] = Ok (m, []) \<and>
     m ''ID'' = Some (GoLeaf ''7'') \<and>
     variable_typed sample_inputs sample_scalar_ok sample_input_schema sample_type_tokens sample_variable ''ID'' (GoLeaf ''7'')"
proof -
  let ?m = "[''ID'' \<mapsto> GoLeaf ''7''] :: string vars"
  have run: "CoerceVariableValues sample_ops sample_inputs sample_input_schema sample_type_tokens (\<lambda>d. undefined) [sample_variable] ?m = Ok (?m, [])"
    by (simp add: CoerceVariableValues_def coerceVariable_def sample_variable_def TypeFromAST_def name_Value_def sample_type_tokens_def
        sample_input_schema_def TypeMap_Lookup_def NewNonNullOfType_def IsInputType_def sample_inputs_def CoerceValue_def coerceValueImpl.simps
        coerceScalar_def sample_ops_def)
  show ?thesis
    using CoerceVariableValues_typed [OF sample_inputs_ok _ _ run] run by (simp add: sample_input_schema_def sample_inputs_def sample_variable_def)
qed



text \<open>
  A variable whose value is null is accepted at a non-null position inside of a literal: the check of \<open>CoerceFromAST\<close> looks at
  the type that \<open>NonNull\<close> wraps. So coercing \<open>[$name]\<close> to a list of non-null elements gives a list with a nil in it.
\<close>

theorem CoerceFromAST_null_variable:
  assumes "variables (name_Value toks name) = Some GoNil" and "\<not> IsNonNullType t"
  shows "CoerceFromAST ops env toks variables (Some (ListValue [Variable name])) (ListOf (NonNullOf t)) = Ok (GoSlice [GoNil])"
  using assms by (cases t)
    (simp_all add: CoerceFromAST_def coerceFromAST.simps [of _ _ _ _ "ListValue _"] coerceFromAST.simps [of _ _ _ _ "Variable _"]
      applyVariable_def isMissingVariable_def)

theorem CoerceFromAST_null_variable_witness:
  "CoerceFromAST sample_ops sample_inputs sample_type_tokens [''ID'' \<mapsto> GoNil] (Some (ListValue [Variable (Name 0)])) (ListOf (NonNullOf (Named 0)))
     = Ok (GoSlice [GoNil])"
  by (rule CoerceFromAST_null_variable) (simp_all add: name_Value_def sample_type_tokens_def)

end
