(* ===== verification/CollectSpec.thy ===== *)
theory CollectSpec
  imports ExecutionNodes ValuesSpec
begin

text \<open>
  The collection of the fields of a selection set. In the specification of GraphQL, \<open>CollectFields\<close> goes through the selections in order and enters
  the selection set of a fragment before it takes the next selection: the selections of a fragment take its place. The relation \<open>collects\<close> says
  this; it has no stack and no fuel. The loop of the code keeps the sets it has entered on a stack, with the indices at which to resume them.
\<close>

section \<open>The specification\<close>

inductive collects :: "('v, 'x, 'w) execution \<Rightarrow> nat \<Rightarrow> type_ref \<Rightarrow> token_ref selection list \<Rightarrow> collecting \<Rightarrow> ('v, 'x, 'w) exec_state \<Rightarrow>
    ('x go_error, collecting) outcome \<Rightarrow> ('v, 'x, 'w) exec_state \<Rightarrow> bool"
  for e :: "('v, 'x, 'w) execution" and parentNode :: nat and runtimeType :: type_ref where
  collects_end: "collects e parentNode runtimeType [] col s (Ok col) s"
| collects_next:
    "collect_selection e parentNode runtimeType sel col s = (Ok (col', fragment), s') \<Longrightarrow>
     collects e parentNode runtimeType ((case fragment of None \<Rightarrow> [] | Some selectionSet \<Rightarrow> selectionSet) @ sels) col' s' r t \<Longrightarrow>
     collects e parentNode runtimeType (sel # sels) col s r t"
| collects_failed:
    "collect_selection e parentNode runtimeType sel col s = (r, s') \<Longrightarrow> \<nexists>x. r = Ok x \<Longrightarrow>
     collects e parentNode runtimeType (sel # sels) col s (bind_outcome r (\<lambda>_. OutOfFuel)) s'"

inductive_cases collects_NilE: "collects e parentNode runtimeType [] col s r t"
inductive_cases collects_ConsE: "collects e parentNode runtimeType (sel # sels) col s r t"

lemma collects_deterministic:
  "collects e p t sels col s r u \<Longrightarrow> collects e p t sels col s r' u' \<Longrightarrow> r' = r \<and> u' = u"
proof (induction arbitrary: r' u' rule: collects.induct)
  case (collects_end col s)
  then show ?case
    by (auto elim: collects_NilE)
next
  case (collects_next sel col s col' fragment s' sels r t)
  from collects_next.prems show ?case
  proof (cases rule: collects_ConsE [consumes 1])
    case 1
    then show ?thesis
      using collects_next.hyps(1) collects_next.IH [of r' u'] by simp
  qed (use collects_next.hyps(1) in simp)
next
  case (collects_failed sel col s r s' sels)
  from collects_failed.prems show ?case
  proof (cases rule: collects_ConsE [consumes 1])
    case 1
    then show ?thesis
      using collects_failed.hyps by simp
  qed (use collects_failed.hyps(1) in simp)
qed

section \<open>Selection sets that are not empty\<close>

fun inline_nonempty :: "'t selection \<Rightarrow> bool" where
  "inline_nonempty (FieldNode _ _ _ _ _) \<longleftrightarrow> True"
| "inline_nonempty (InlineFragment _ _ ss) \<longleftrightarrow> ss \<noteq> [] \<and> list_all inline_nonempty ss"
| "inline_nonempty (FragmentSpread _ _) \<longleftrightarrow> True"

definition collectable :: "'t selection list \<Rightarrow> bool" where
  "collectable ss \<longleftrightarrow> ss \<noteq> [] \<and> list_all inline_nonempty ss"

definition document_collectable :: "('v, 'x) validation \<Rightarrow> bool" where
  "document_collectable env \<longleftrightarrow>
     list_all (\<lambda>d. is_fragment d \<longrightarrow> collectable (definition_GetSelectionSet d)) (document_Definitions (v_document env))"

text \<open>What the fragment map of a prepared operation holds.\<close>

definition fragments_of :: "('v, 'x) validation \<Rightarrow> (string \<rightharpoonup> token_ref definition_node) \<Rightarrow> bool" where
  "fragments_of env m \<longleftrightarrow>
     (\<forall>n d. m n = Some d \<longrightarrow> d \<in> set (document_Definitions (v_document env)) \<and> is_fragment d \<and> name_Value (v_toks env) (fragment_Name d) = n)"

lemma find_operation_fragments:
  fixes env :: "('v, 'x) validation"
  shows "(find_operation (v_toks env) operationName ds operation m :: ('x go_error list, _) outcome) = Ok (operation', m') \<Longrightarrow> set ds \<subseteq> set (document_Definitions (v_document env)) \<Longrightarrow>
   fragments_of env m \<Longrightarrow> fragments_of env m'"
proof (induction ds arbitrary: operation m)
  case (Cons d ds)
  show ?case
  proof (cases "is_fragment d")
    case True
    have new: "fragments_of env (m(name_Value (v_toks env) (fragment_Name d) \<mapsto> d))"
      using Cons.prems(2,3) True by (simp add: fragments_of_def)
    have "(find_operation (v_toks env) operationName ds operation (m(name_Value (v_toks env) (fragment_Name d) \<mapsto> d)) :: ('x go_error list, _) outcome) =
        Ok (operation', m')"
      using Cons.prems(1) True by (simp only: find_operation.simps if_True)
    then show ?thesis
      using Cons.IH new Cons.prems(2) by (meson set_subset_Cons subset_trans)
  next
    case False
    from Cons.prems(1) False obtain op where "(find_operation (v_toks env) operationName ds op m :: ('x go_error list, _) outcome) = Ok (operation', m')"
      by (auto split: if_splits option.splits)
    then show ?thesis
      using Cons.IH Cons.prems(2,3) by simp
  qed
qed simp

lemma prepare_fragments:
  fixes env :: "('v, 'x) validation"
  assumes "prepare_validated env operationName = Ok po"
  shows "fragments_of env (po_fragmentMap po)"
proof -
  obtain operation m where
      "(find_operation (v_toks env) operationName (document_Definitions (v_document env)) None Map.empty :: ('x go_error list, _) outcome) = Ok (operation, m)"
      "po_fragmentMap po = m"
    using assms by (auto simp: prepare_validated_def bind_outcome_def split: outcome.splits option.splits)
  moreover have "fragments_of env Map.empty"
    by (simp add: fragments_of_def)
  ultimately show ?thesis
    using find_operation_fragments by blast
qed

section \<open>Enough fuel\<close>

definition unvisited_fragments :: "('v, 'x, 'w) execution \<Rightarrow> collecting \<Rightarrow> token_ref definition_node list" where
  "unvisited_fragments e col = filter (\<lambda>d. is_fragment d \<and> v_name (e_env e) (fragment_Name d) \<notin> set (c_visited col)) (document_Definitions (v_document (e_env e)))"

definition fragment_work :: "token_ref definition_node list \<Rightarrow> nat" where
  "fragment_work ds = sum_list (map (\<lambda>d. size_list size (definition_GetSelectionSet d)) ds)"

definition stack_work :: "(token_ref selection list \<times> nat) list \<Rightarrow> nat" where
  "stack_work stack = sum_list (map (\<lambda>(ss, i). size_list size (drop i ss)) stack)"


lemma size_list_drop: "i < length xs \<Longrightarrow> size_list f (drop i xs) = Suc (f (xs ! i)) + size_list f (drop (Suc i) xs)"
  by (simp add: Cons_nth_drop_Suc [symmetric])

lemma fragment_work_filter: "fragment_work (filter (\<lambda>d. P d \<and> Q d) ds) \<le> fragment_work (filter P ds)"
  by (induction ds) (auto simp: fragment_work_def)

lemma fragment_work_unvisited:
  assumes "d \<in> set (document_Definitions (v_document (e_env e)))" "is_fragment d" "v_name (e_env e) (fragment_Name d) = n" "n \<notin> set (c_visited col)"
  shows "size_list size (definition_GetSelectionSet d) + fragment_work (unvisited_fragments e (col\<lparr>c_visited := n # c_visited col\<rparr>)) \<le> fragment_work (unvisited_fragments e col)"
proof -
  have split: "size_list size (definition_GetSelectionSet d) + fragment_work (filter (\<lambda>d. P d \<and> v_name (e_env e) (fragment_Name d) \<noteq> n) ds) \<le>
      fragment_work (filter P ds)" if "d \<in> set ds" "P d" for ds and P
    using that
  proof (induction ds)
    case (Cons x ds)
    then show ?case
      using fragment_work_filter [of P "\<lambda>d. v_name (e_env e) (fragment_Name d) \<noteq> n" ds] assms(3) by (auto simp: fragment_work_def)
  qed simp
  show ?thesis
    using split [OF assms(1), of "\<lambda>d. is_fragment d \<and> v_name (e_env e) (fragment_Name d) \<notin> set (c_visited col)"] assms(2-4)
    by (simp add: unvisited_fragments_def conj_ac)
qed

text \<open>What a selection adds to the work is paid for by the fragment itself.\<close>

lemma collect_field_visited: "collect_field e p t sel key name args col s = (Ok col', s') \<Longrightarrow> c_visited col' = c_visited col"
  by (auto simp: collect_field_def andThen_def update_node_def new_node_def Let_def lift_outcome_def split: option.splits outcome.splits prod.splits)

lemma collect_selection_work:
  assumes "collect_selection e p t sel col s = (Ok (col', fragment), s')" "fragments_of (e_env e) (po_fragmentMap (e_operation e))"
  shows "(case fragment of None \<Rightarrow> 0 | Some ss \<Rightarrow> size_list size ss) + fragment_work (unvisited_fragments e col') \<le> size sel + fragment_work (unvisited_fragments e col)"
proof (cases sel)
  case (FieldNode alias' name args ds ss)
  then show ?thesis
    using assms(1) by (auto simp: collect_selection_def lift_outcome_def unvisited_fragments_def dest!: collect_field_visited split: if_splits elim!: andThen_OkE)
next
  case (InlineFragment tc ds ss)
  then show ?thesis
    using assms(1) by (auto simp: collect_selection_def lift_outcome_def split: if_splits option.splits elim!: andThen_OkE)
next
  case (FragmentSpread name ds)
  let ?n = "v_name (e_env e) name"
  have less: "fragment_work (unvisited_fragments e (col\<lparr>c_visited := ?n # c_visited col\<rparr>)) \<le> fragment_work (unvisited_fragments e col)"
    using fragment_work_filter [of "\<lambda>d. is_fragment d \<and> v_name (e_env e) (fragment_Name d) \<notin> set (c_visited col)" "\<lambda>d. v_name (e_env e) (fragment_Name d) \<noteq> ?n"]
    by (simp add: unvisited_fragments_def conj_ac)
  have found: "size_list size (definition_GetSelectionSet d) + fragment_work (unvisited_fragments e (col\<lparr>c_visited := ?n # c_visited col\<rparr>)) \<le>
      fragment_work (unvisited_fragments e col)" if "po_fragmentMap (e_operation e) ?n = Some d" "?n \<notin> set (c_visited col)" for d
    using fragment_work_unvisited [of d e ?n col] that assms(2) by (auto simp: fragments_of_def v_name_def)
  show ?thesis
    using assms(1) less found FragmentSpread
    by (auto simp: collect_selection_def lift_outcome_def Let_def trans_le_add2 split: if_splits option.splits elim!: andThen_OkE)
qed

lemma collect_selection_collectable:
  assumes "collect_selection e p t sel col s = (Ok (col', Some ss), s')" "fragments_of (e_env e) (po_fragmentMap (e_operation e))"
    and "document_collectable (e_env e)" "inline_nonempty sel"
  shows "collectable ss"
proof (cases sel)
  case (FieldNode alias' name args ds ss')
  then show ?thesis
    using assms(1) by (auto simp: collect_selection_def lift_outcome_def split: if_splits elim!: andThen_OkE)
next
  case (InlineFragment tc ds ss')
  then have "ss = ss'"
    using assms(1) by (auto simp: collect_selection_def lift_outcome_def split: if_splits option.splits elim!: andThen_OkE)
  then show ?thesis
    using assms(4) InlineFragment by (simp add: collectable_def)
next
  case (FragmentSpread name ds)
  then obtain d where "po_fragmentMap (e_operation e) (v_name (e_env e) name) = Some d" "ss = definition_GetSelectionSet d"
    using assms(1) by (auto simp: collect_selection_def lift_outcome_def Let_def split: if_splits option.splits elim!: andThen_OkE)
  then show ?thesis
    using assms(2,3) by (auto simp: fragments_of_def document_collectable_def list_all_iff)
qed

lemma build_loop_collects:
  assumes frags: "fragments_of (e_env e) (po_fragmentMap (e_operation e))" "document_collectable (e_env e)"
  shows "stack_work stack + fragment_work (unvisited_fragments e col) \<le> fuel \<Longrightarrow> list_all (\<lambda>(ss, i). i < length ss \<and> list_all inline_nonempty ss) stack \<Longrightarrow>
    collects e p t (concat (map (\<lambda>(ss, i). drop i ss) stack)) col s (fst (build_loop fuel e p t stack col s)) (snd (build_loop fuel e p t stack col s))"
proof (induction fuel arbitrary: stack col s)
  case 0
  then show ?case
    by (cases stack) (auto simp: stack_work_def size_list_drop intro: collects_end)
next
  case (Suc fuel)
  show ?case
  proof (cases stack)
    case Nil
    then show ?thesis by (simp add: collects_end)
  next
    case (Cons task rest)
    obtain ss i where task: "task = (ss, i)" by (cases task)
    have i: "i < length ss" "list_all inline_nonempty ss" and rest: "list_all (\<lambda>(ss, i). i < length ss \<and> list_all inline_nonempty ss) rest"
      using Suc.prems(2) Cons task by auto
    define rest' where "rest' = (if Suc i \<ge> length ss then rest else (ss, Suc i) # rest)"
    have rest': "concat (map (\<lambda>(ss, i). drop i ss) rest') = drop (Suc i) ss @ concat (map (\<lambda>(ss, i). drop i ss) rest)"
        "stack_work rest' = size_list size (drop (Suc i) ss) + stack_work rest"
        "list_all (\<lambda>(ss, i). i < length ss \<and> list_all inline_nonempty ss) rest'"
      using i rest by (auto simp: rest'_def stack_work_def)
    have sels: "concat (map (\<lambda>(ss, i). drop i ss) stack) = ss ! i # (drop (Suc i) ss @ concat (map (\<lambda>(ss, i). drop i ss) rest))"
      using i(1) by (simp add: Cons task Cons_nth_drop_Suc [symmetric])
    obtain r s' where step: "collect_selection e p t (ss ! i) col s = (r, s')" by fastforce
    show ?thesis
    proof (cases "\<exists>x. r = Ok x")
      case True
      then obtain col' fragment where r: "r = Ok (col', fragment)" by auto
      define stack' where "stack' = (case fragment of None \<Rightarrow> rest' | Some s \<Rightarrow> (s, 0) # rest')"
      have run: "build_loop (Suc fuel) e p t stack col s = build_loop fuel e p t stack' col' s'"
        using i(1) by (cases fragment) (simp_all add: Cons task andThen_def step r Let_def rest'_def stack'_def)
      have "stack_work stack' + fragment_work (unvisited_fragments e col') \<le> fuel"
        using collect_selection_work [OF step [unfolded r] frags(1)] Suc.prems(1) i(1)
        by (auto simp: stack'_def Cons task stack_work_def size_list_drop rest'(2) [unfolded stack_work_def] split: option.splits)
      moreover have "inline_nonempty (ss ! i)"
        using i by (simp add: list_all_length)
      then have "list_all (\<lambda>(ss, i). i < length ss \<and> list_all inline_nonempty ss) stack'"
        using collect_selection_collectable [OF _ frags, of p t "ss ! i" col s col' _ s'] step r i rest'(3)
        by (auto simp: stack'_def collectable_def split: option.splits)
      moreover have "concat (map (\<lambda>(ss, i). drop i ss) stack') =
          (case fragment of None \<Rightarrow> [] | Some ss \<Rightarrow> ss) @ drop (Suc i) ss @ concat (map (\<lambda>(ss, i). drop i ss) rest)"
        by (auto simp: stack'_def rest'(1) split: option.splits)
      ultimately show ?thesis
        unfolding run sels using collects_next [OF step [unfolded r]] Suc.IH [of stack' col' s'] by simp
    next
      case False
      have "build_loop (Suc fuel) e p t stack col s = (bind_outcome r (\<lambda>_. OutOfFuel), s')"
        using i(1) step False by (cases r) (auto simp: Cons task andThen_def)
      then show ?thesis
        unfolding sels using collects_failed [OF step False] by simp
    qed
  qed
qed


section \<open>One node for each response key\<close>

text \<open>
  The nodes that have been collected are those that were added to the store; each holds fields with one response key, and no two have the same key.
\<close>

definition node_of_key :: "token list \<Rightarrow> string \<Rightarrow> 'v exec_node \<Rightarrow> bool" where
  "node_of_key toks k node \<longleftrightarrow> node_Definitions node \<noteq> [] \<and> (\<forall>d \<in> set (node_Definitions node). ResponseKey toks d = Some k)"

definition grouped :: "token list \<Rightarrow> nat \<Rightarrow> 'v exec_node list \<Rightarrow> collecting \<Rightarrow> bool" where
  "grouped toks n nodes col \<longleftrightarrow> n \<le> length nodes \<and> c_childNodes col = [n..<length nodes] \<and>
     (\<forall>a. n \<le> a \<longrightarrow> a < length nodes \<longrightarrow> (\<exists>k. c_fields col k = Some a)) \<and>
     (\<forall>k a. c_fields col k = Some a \<longrightarrow> n \<le> a \<and> a < length nodes \<and> node_of_key toks k (nodes ! a))"

lemma node_of_key_ResponseKey: "node_of_key toks k node \<Longrightarrow> node_ResponseKey toks node = Some k"
  by (auto simp: node_of_key_def node_ResponseKey_def split: list.splits)

lemma grouped_distinct_keys:
  assumes "grouped toks n nodes col"
  shows "distinct (map (\<lambda>a. node_ResponseKey toks (nodes ! a)) (c_childNodes col))"
proof -
  have key: "\<exists>k. c_fields col k = Some a \<and> node_ResponseKey toks (nodes ! a) = Some k" if "n \<le> a" "a < length nodes" for a
    using assms that node_of_key_ResponseKey unfolding grouped_def by meson
  have "a = b" if "n \<le> a" "a < length nodes" "n \<le> b" "b < length nodes" "node_ResponseKey toks (nodes ! a) = node_ResponseKey toks (nodes ! b)" for a b
    using key [OF that(1,2)] key [OF that(3,4)] that(5) by auto
  moreover have "c_childNodes col = [n..<length nodes]"
    using assms by (simp add: grouped_def)
  ultimately show ?thesis
    by (simp add: distinct_map inj_on_def)
qed

lemma grouped_append:
  assumes "grouped toks n nodes col" "ResponseKey toks sel = Some k" "c_fields col k = Some a"
  shows "grouped toks n (nodes[a := (nodes ! a)\<lparr>node_Definitions := node_Definitions (nodes ! a) @ [sel]\<rparr>]) col"
proof -
  have "node_of_key toks k (nodes ! a)"
    using assms(1,3) by (simp add: grouped_def)
  moreover have "k' = k" if "node_of_key toks k' (nodes ! a)" for k'
    using node_of_key_ResponseKey [OF that] node_of_key_ResponseKey [OF \<open>node_of_key toks k (nodes ! a)\<close>] by simp
  ultimately have new: "node_of_key toks k' ((nodes ! a)\<lparr>node_Definitions := node_Definitions (nodes ! a) @ [sel]\<rparr>)"
      if "c_fields col k' = Some a" for k'
    using that assms(1,2) by (auto simp: grouped_def node_of_key_def)
  have "n \<le> b \<and> b < length nodes \<and> node_of_key toks k' (nodes[a := (nodes ! a)\<lparr>node_Definitions := node_Definitions (nodes ! a) @ [sel]\<rparr>] ! b)"
      if "c_fields col k' = Some b" for k' b
    using that assms(1) new [of k'] by (cases "b = a") (auto simp: grouped_def)
  then show ?thesis
    using assms(1) unfolding grouped_def by simp
qed

lemma grouped_new:
  assumes "grouped toks n nodes col" "ResponseKey toks sel = Some k" "c_fields col k = None" "node_Definitions node = [sel]"
  shows "grouped toks n (nodes @ [node]) (col\<lparr>c_childNodes := c_childNodes col @ [length nodes], c_fields := (c_fields col)(k \<mapsto> length nodes)\<rparr>)"
    (is "grouped toks n ?nodes ?col")
proof -
  have node: "node_of_key toks k node"
    using assms(2,4) by (simp add: node_of_key_def)
  have keys: "\<exists>k'. c_fields ?col k' = Some a" if a: "n \<le> a" "a < length ?nodes" for a
  proof (cases "a = length nodes")
    case False
    then obtain k' where "c_fields col k' = Some a"
      using assms(1) a by (auto simp: grouped_def)
    then show ?thesis
      using assms(3) by (intro exI [of _ k']) auto
  qed auto
  moreover have "n \<le> a \<and> a < length ?nodes \<and> node_of_key toks k' (?nodes ! a)" if "c_fields ?col k' = Some a" for k' a
    using that assms(1) node by (fastforce simp: grouped_def nth_append split: if_splits)
  ultimately show ?thesis
    using assms(1) unfolding grouped_def by simp
qed

lemma collect_field_grouped:
  assumes "collect_field e p t sel k name args col s = (Ok col', s')" "ResponseKey (v_toks (e_env e)) sel = Some k"
    and "grouped (v_toks (e_env e)) n (x_nodes s) col"
  shows "grouped (v_toks (e_env e)) n (x_nodes s') col' \<and> take n (x_nodes s') = take n (x_nodes s)"
proof (cases "c_fields col k")
  case (Some a)
  then have "n \<le> a"
    using assms(3) by (auto simp: grouped_def)
  then show ?thesis
    using assms(1) grouped_append [OF assms(3,2) Some] Some by (auto simp: collect_field_def andThen_def update_node_def)
next
  case None
  have n: "n \<le> length (x_nodes s)"
    using assms(3) by (simp add: grouped_def)
  show ?thesis
    using assms(1) None grouped_new [OF assms(3,2) None] assms(3) n
    by (auto simp: collect_field_def Let_def lift_outcome_def new_node_def andThen_def split: option.splits outcome.splits)
qed

lemma collect_selection_grouped:
  assumes "collect_selection e p t sel col s = (Ok (col', fragment), s')" "grouped (v_toks (e_env e)) n (x_nodes s) col"
  shows "grouped (v_toks (e_env e)) n (x_nodes s') col' \<and> take n (x_nodes s') = take n (x_nodes s)"
proof (cases sel)
  case (FieldNode alias' name args ds ss)
  let ?k = "v_name (e_env e) (case alias' of Some a \<Rightarrow> a | None \<Rightarrow> name)"
  have "ResponseKey (v_toks (e_env e)) sel = Some ?k"
    by (simp add: FieldNode v_name_def split: option.splits)
  moreover have "collect_field e p t sel ?k name args col s = (Ok col', s') \<or> col' = col \<and> s' = s"
    using assms(1) by (auto simp: FieldNode collect_selection_def lift_outcome_def split: if_splits elim!: andThen_OkE)
  ultimately show ?thesis
    using collect_field_grouped assms(2) by blast
next
  case (InlineFragment tc ds ss)
  then show ?thesis
    using assms by (auto simp: collect_selection_def lift_outcome_def split: if_splits option.splits elim!: andThen_OkE)
next
  case (FragmentSpread name ds)
  then show ?thesis
    using assms by (auto simp: collect_selection_def lift_outcome_def Let_def grouped_def split: if_splits option.splits elim!: andThen_OkE)
qed

lemma collects_grouped:
  "collects e p t sels col s r s' \<Longrightarrow> r = Ok col' \<Longrightarrow> grouped (v_toks (e_env e)) n (x_nodes s) col \<Longrightarrow>
   grouped (v_toks (e_env e)) n (x_nodes s') col' \<and> take n (x_nodes s') = take n (x_nodes s)"
proof (induction rule: collects.induct)
  case (collects_next sel col s col1 fragment s1 sels r s')
  then show ?case
    using collect_selection_grouped [OF collects_next.hyps(1)] by simp
next
  case (collects_failed sel col s r s' sels)
  then show ?case
    by (cases r) auto
qed simp

section \<open>Correctness of the loop\<close>

lemma unvisited_at_start: "unvisited_fragments e nothing_collected = filter is_fragment (document_Definitions (v_document (e_env e)))"
  by (simp add: unvisited_fragments_def nothing_collected_def)

text \<open>
  A set without selections is never taken from the stack: on the definition of an object field that has no subselections the loop does not end.
  Validation rejects such a field.
\<close>

lemma build_loop_empty_set: "build_loop fuel e p t (([], 0) # stack) col s = (OutOfFuel, s)"
  by (induction fuel) (simp_all add: out_of_fuel_def)

text \<open>
  C16: collecting the fields of an object. On selection sets that are not empty the loop over the stack returns; its result is the one of the
  specification, in which the selections of a fragment take its place; the nodes that are collected are new, hold fields of one response key each,
  and have distinct keys. The existing nodes do not change.
\<close>

theorem buildChildExecutionNodes_correct:
  assumes "prepare_validated (e_env e) operationName = Ok (e_operation e)" "document_collectable (e_env e)"
    and "list_all collectable (initial_sets e (x_nodes s ! parentNode))"
  shows "\<exists>r s'. collects e parentNode runtimeType (concat (initial_sets e (x_nodes s ! parentNode))) nothing_collected s r s' \<and>
    buildChildExecutionNodesForSelectionSet e parentNode runtimeType s = (bind_outcome r (\<lambda>col. Ok (c_childNodes col)), s') \<and>
    (\<forall>col. r = Ok col \<longrightarrow> take (length (x_nodes s)) (x_nodes s') = x_nodes s \<and> grouped (v_toks (e_env e)) (length (x_nodes s)) (x_nodes s') col \<and>
       distinct (map (\<lambda>a. node_ResponseKey (v_toks (e_env e)) (x_nodes s' ! a)) (c_childNodes col)))"
proof -
  let ?sets = "initial_sets e (x_nodes s ! parentNode)"
  let ?stack = "map (\<lambda>ss. (ss, 0::nat)) ?sets"
  have "stack_work ?stack + fragment_work (unvisited_fragments e nothing_collected) \<le> build_fuel e ?sets"
    by (simp add: stack_work_def unvisited_at_start fragment_work_def build_fuel_def comp_def)
  moreover have "list_all (\<lambda>(ss, i). i < length ss \<and> list_all inline_nonempty ss) ?stack"
    using assms(3) by (simp add: list_all_iff collectable_def)
  moreover have "concat (map (\<lambda>(ss, i). drop i ss) ?stack) = concat ?sets"
    by (simp add: comp_def)
  ultimately have run: "collects e parentNode runtimeType (concat ?sets) nothing_collected s
      (fst (build_loop (build_fuel e ?sets) e parentNode runtimeType ?stack nothing_collected s))
      (snd (build_loop (build_fuel e ?sets) e parentNode runtimeType ?stack nothing_collected s))"
    using build_loop_collects [OF prepare_fragments [OF assms(1)] assms(2), of ?stack nothing_collected "build_fuel e ?sets"] by simp
  obtain r s' where loop: "build_loop (build_fuel e ?sets) e parentNode runtimeType ?stack nothing_collected s = (r, s')"
    by fastforce
  have "grouped (v_toks (e_env e)) (length (x_nodes s)) (x_nodes s) nothing_collected"
    by (simp add: grouped_def nothing_collected_def)
  then have "take (length (x_nodes s)) (x_nodes s') = x_nodes s \<and> grouped (v_toks (e_env e)) (length (x_nodes s)) (x_nodes s') col" if "r = Ok col" for col
    using collects_grouped [OF run [unfolded loop, simplified] that] by simp
  moreover have "buildChildExecutionNodesForSelectionSet e parentNode runtimeType s = (bind_outcome r (\<lambda>col. Ok (c_childNodes col)), s')"
    using loop by (cases r) (simp_all add: buildChildExecutionNodesForSelectionSet_def Let_def andThen_def)
  ultimately show ?thesis
    using run loop grouped_distinct_keys by (intro exI [of _ r] exI [of _ s']) auto
qed


text \<open>The operation \<open>{ID}\<close> on a schema whose query type has one field, \<open>ID: ID!\<close>; the resolver fails.\<close>

definition sample_query_store :: token_store where
  "sample_query_store =
     \<lparr>store_tokens = [\<lparr>token_Kind = KindSOF, token_Location = 0, token_Length = 0, token_Value = [], token_Prev = None, token_Next = Some 1\<rparr>,
        \<lparr>token_Kind = KindName, token_Location = 2, token_Length = 2, token_Value = ''ID'', token_Prev = Some 0, token_Next = None\<rparr>],
      store_sof = [(0, \<lparr>source_body = ''{ID}'', source_name = [], source_lineOffset = 0, source_columnOffset = 0\<rparr>)]\<rparr>"

definition sample_query_field :: "string goval field_def" where
  "sample_query_field = \<lparr>field_Name = ''ID'', field_Type = NonNullOf (Named 1), field_Args = []\<rparr>"

definition sample_query_schema :: "string goval schema" where
  "sample_query_schema = \<lparr>schema_query = Some 0, schema_mutation = None, schema_subscription = None,
     schema_typeMap = [(''Query'', 0), (''ID'', 1)], schema_directives = [], schema_possibleTypeSets = Map.empty\<rparr>"

definition sample_query_operation :: "token_ref definition_node" where
  "sample_query_operation = OperationDefinition None None [] [] [FieldNode None (Name (Suc 0)) [] [] []]"

definition sample_query_env :: "(string, string) validation" where
  "sample_query_env = \<lparr>v_schema = sample_query_schema, v_types = [ObjectDef ''Query'' [sample_query_field] [], ScalarDef ''ID''], v_ops = sample_ops,
     v_store = sample_query_store, v_document = Document [sample_query_operation], v_SchemaType = 0, v_TypeType = 0, v_StringType = 1,
     v_fmt_extensions = \<lambda>x. []\<rparr>"

definition sample_execution :: "(string, string, unit) execution" where
  "sample_execution = \<lparr>e_env = sample_query_env,
     e_operation = \<lparr>po_definition = sample_query_operation, po_rootType = 0, po_fragmentMap = Map.empty\<rparr>,
     e_variableValues = Map.empty, e_rootValue = GoNil, e_BooleanType = 1, e_AsBool = \<lambda>v. None, e_AsError = \<lambda>v. None, e_IsNullish = \<lambda>v. v = GoNil,
     e_Iterate = \<lambda>v. None, e_Resolve = \<lambda>node result source. fail (plain_error ''broken''), e_TypeResolver = \<lambda>t. None, e_fmt_type = \<lambda>t. [],
     e_CoerceResultValue = \<lambda>t v. Inr v\<rparr>"

definition sample_start :: "(string, string, unit) exec_state" where
  "sample_start = initial_state ()"

lemma sample_prepared: "prepare_validated (e_env sample_execution) [] = Ok (e_operation sample_execution)"
  by (simp add: sample_execution_def sample_query_env_def prepare_validated_def sample_query_operation_def operation_rootType_def sample_query_schema_def Let_def OperationType_def)

lemma sample_collectable:
  "document_collectable (e_env sample_execution)" "initial_sets sample_execution (x_nodes sample_start ! 0) = [definition_GetSelectionSet sample_query_operation]"
  "list_all collectable [definition_GetSelectionSet sample_query_operation]"
  by (simp_all add: document_collectable_def sample_execution_def sample_query_env_def sample_query_operation_def initial_sets_def sample_start_def initial_state_def
      node_IsRoot_def collectable_def)

theorem buildChildExecutionNodes_correct_witness:
  "\<exists>r s'. collects sample_execution 0 0 [FieldNode None (Name (Suc 0)) [] [] []] nothing_collected sample_start r s' \<and>
     buildChildExecutionNodesForSelectionSet sample_execution 0 0 sample_start = (bind_outcome r (\<lambda>col. Ok (c_childNodes col)), s')"
proof -
  have sets: "list_all collectable (initial_sets sample_execution (x_nodes sample_start ! 0))"
    using sample_collectable(3) unfolding sample_collectable(2) .
  show ?thesis
    using buildChildExecutionNodes_correct [OF sample_prepared sample_collectable(1) sets, where runtimeType = 0] sample_collectable(2)
    by (auto simp: sample_query_operation_def)
qed

lemma sample_children:
  "collectFields sample_execution 0 0 sample_start =
     (Ok [1], sample_start\<lparr>x_nodes :=
        [\<lparr>node_Parent = None, node_Definitions = [], node_Field = None, node_Args = Map.empty, node_Children = [(0, [1])]\<rparr>,
         \<lparr>node_Parent = Some 0, node_Definitions = [FieldNode None (Name (Suc 0)) [] [] []], node_Field = Some sample_query_field, node_Args = Map.empty,
          node_Children = []\<rparr>]\<rparr>)"
proof -
  have sel: "shouldIncludeNode sample_execution (FieldNode None (Name (Suc 0)) [] [] []) = Ok True"
    by (simp add: shouldIncludeNode_def directive_condition_def Let_def DirectiveValues_def)
  have name: "v_name (e_env sample_execution) (Name (Suc 0)) = ''ID''"
    by (simp add: v_name_def v_toks_def name_Value_def sample_execution_def sample_query_env_def sample_query_store_def)
  have field: "findFieldDef (e_env sample_execution) 0 ''ID'' = Some sample_query_field"
    by (simp add: findFieldDef_def sample_execution_def sample_query_env_def sample_query_schema_def sample_query_field_def find_field_def_def fields_of_def)
  have step: "collect_selection sample_execution 0 0 (FieldNode None (Name (Suc 0)) [] [] []) nothing_collected sample_start =
     (Ok (nothing_collected\<lparr>c_childNodes := [1], c_fields := [''ID'' \<mapsto> 1]\<rparr>, None), sample_start\<lparr>x_nodes := x_nodes sample_start @
        [\<lparr>node_Parent = Some 0, node_Definitions = [FieldNode None (Name (Suc 0)) [] [] []], node_Field = Some sample_query_field, node_Args = Map.empty,
          node_Children = []\<rparr>]\<rparr>)"
    by (simp add: collect_selection_def sel lift_outcome_def collect_field_def name field Let_def new_node_def andThen_def nothing_collected_def sample_query_field_def
        ArgumentValues_def sample_start_def initial_state_def)
  obtain n where fuel: "build_fuel sample_execution [definition_GetSelectionSet sample_query_operation] = Suc n"
    by (simp add: build_fuel_def sample_query_operation_def sample_execution_def sample_query_env_def)
  have build: "buildChildExecutionNodesForSelectionSet sample_execution 0 0 sample_start = (Ok [1], sample_start\<lparr>x_nodes := x_nodes sample_start @
        [\<lparr>node_Parent = Some 0, node_Definitions = [FieldNode None (Name (Suc 0)) [] [] []], node_Field = Some sample_query_field, node_Args = Map.empty,
          node_Children = []\<rparr>]\<rparr>)"
    using step fuel by (simp add: buildChildExecutionNodesForSelectionSet_def sample_collectable(2) andThen_def sample_query_operation_def Let_def)
  have "map_of (node_Children (x_nodes sample_start ! 0)) 0 = None"
    by (simp add: sample_start_def initial_state_def)
  then show ?thesis
    by (simp add: collectFields_def build andThen_def update_node_def) (simp add: sample_start_def initial_state_def)
qed

end
