(* ===== verification/ExecutionSpec.thy ===== *)
theory ExecutionSpec
  imports Execution CollectSpec
begin

text \<open>
  The tree of results. Result nodes are allocated before they are filled and are reached through parent pointers and through the values of their
  parents; the invariant \<open>result_tree\<close> says that the pointers form trees, whatever resolvers return and whichever errors occur. It gives the
  effect of an error on the tree.
\<close>

section \<open>The invariant\<close>

definition held :: "'v result_value \<Rightarrow> nat set" where
  "held v = (case v of ResultKindList nodes \<Rightarrow> set nodes | ResultKindObject _ vals \<Rightarrow> set vals | _ \<Rightarrow> {})"

definition parent_ok :: "'v result_node list \<Rightarrow> nat \<Rightarrow> bool" where
  "parent_ok rs a \<longleftrightarrow> (result_Parent (rs ! a) = None \<longrightarrow> \<not> result_RejectNull (rs ! a)) \<and> (\<forall>p. result_Parent (rs ! a) = Some p \<longrightarrow> p < a)"

definition holds_ok :: "'v result_node list \<Rightarrow> nat \<Rightarrow> bool" where
  "holds_ok rs a \<longleftrightarrow>
     (\<forall>c \<in> held (result_Value (rs ! a)). a < c \<and> c < length rs \<and> (result_Parent (rs ! c) = None \<or> result_Parent (rs ! c) = Some a)) \<and>
     (\<forall>nodes vals. result_Value (rs ! a) = ResultKindObject nodes vals \<longrightarrow> length nodes = length vals)"

definition result_tree :: "'v result_node list \<Rightarrow> bool" where
  "result_tree rs \<longleftrightarrow> (\<forall>a < length rs. parent_ok rs a \<and> holds_ok rs a)"

text \<open>What an action may do to the nodes below \<open>n\<close>: it keeps their parents and flags, and no node comes to hold them.\<close>

definition holders :: "'v result_node list \<Rightarrow> nat \<Rightarrow> nat set" where
  "holders rs c = {a. a < length rs \<and> c \<in> held (result_Value (rs ! a))}"

definition keeps_node :: "'v result_node list \<Rightarrow> 'v result_node list \<Rightarrow> nat \<Rightarrow> bool" where
  "keeps_node rs rs' c \<longleftrightarrow> result_Parent (rs' ! c) = result_Parent (rs ! c) \<and> result_RejectNull (rs' ! c) = result_RejectNull (rs ! c) \<and>
     holders rs' c \<subseteq> holders rs c"

definition extends :: "nat \<Rightarrow> 'v result_node list \<Rightarrow> 'v result_node list \<Rightarrow> bool" where
  "extends n rs rs' \<longleftrightarrow> result_tree rs' \<and> length rs \<le> length rs' \<and> (\<forall>c < n. keeps_node rs rs' c)"

lemma keeps_node_trans: "keeps_node rs rs' c \<Longrightarrow> keeps_node rs' rs'' c \<Longrightarrow> keeps_node rs rs'' c"
  by (auto simp: keeps_node_def)

lemma extends_refl: "result_tree rs \<Longrightarrow> extends n rs rs"
  by (simp add: extends_def keeps_node_def)

lemma extends_less: "extends m rs rs' \<Longrightarrow> n \<le> m \<Longrightarrow> extends n rs rs'"
  by (simp add: extends_def)

lemma extends_trans: "extends n rs rs' \<Longrightarrow> extends m rs' rs'' \<Longrightarrow> n \<le> m \<Longrightarrow> extends n rs rs''"
  unfolding extends_def by (metis keeps_node_trans le_trans less_le_trans)

text \<open>Actions on states in which the nodes below \<open>n\<close> are allocated.\<close>

definition grows_tree :: "nat \<Rightarrow> ('v, 'x, 'w, 'a) exec_action \<Rightarrow> bool" where
  "grows_tree n a \<longleftrightarrow> (\<forall>s. result_tree (x_results s) \<longrightarrow> n \<le> length (x_results s) \<longrightarrow> extends n (x_results s) (x_results (snd (a s))))"

lemma grows_treeI:
  assumes "\<And>s. result_tree (x_results s) \<Longrightarrow> n \<le> length (x_results s) \<Longrightarrow> extends n (x_results s) (x_results (snd (a s)))"
  shows "grows_tree n a"
  using assms by (simp add: grows_tree_def)

lemma grows_treeD: "grows_tree n a \<Longrightarrow> result_tree (x_results s) \<Longrightarrow> n \<le> length (x_results s) \<Longrightarrow> extends n (x_results s) (x_results (snd (a s)))"
  by (simp add: grows_tree_def)

lemma grows_andThen_at:
  assumes "extends n (x_results s) (x_results (snd (a s)))" "n \<le> length (x_results s)"
    and "\<And>x s'. a s = (Ok x, s') \<Longrightarrow> \<exists>m \<ge> n. m \<le> length (x_results s') \<and> grows_tree m (k x)"
  shows "extends n (x_results s) (x_results (snd (andThen a k s)))"
proof -
  obtain r s' where a: "a s = (r, s')" by fastforce
  show ?thesis
  proof (cases r)
    case (Ok x)
    then obtain m where m: "n \<le> m" "m \<le> length (x_results s')" "grows_tree m (k x)"
      using assms(3) a by blast
    have "extends n (x_results s) (x_results s')"
      using assms(1) a by simp
    moreover have "extends m (x_results s') (x_results (snd (k x s')))"
      using grows_treeD [OF m(3)] m(2) calculation by (simp add: extends_def)
    ultimately show ?thesis
      using extends_trans m(1) a Ok by (fastforce simp: andThen_def)
  qed (use assms(1) a in \<open>simp_all add: andThen_def\<close>)
qed

named_theorems tree_intros "actions that keep the tree of results"

lemma grows_andThen [tree_intros]:
  assumes "grows_tree n a" "\<And>x. grows_tree n (k x)"
  shows "grows_tree n (andThen a k)"
proof (rule grows_treeI)
  fix s :: "('a, 'b, 'c) exec_state"
  assume s: "result_tree (x_results s)" "n \<le> length (x_results s)"
  have e: "extends n (x_results s) (x_results (snd (a s)))"
    by (rule grows_treeD [OF assms(1) s])
  show "extends n (x_results s) (x_results (snd (andThen a k s)))"
    by (rule grows_andThen_at [where a = a and k = k, OF e s(2)]) (use assms(2) e s(2) in \<open>auto simp: extends_def intro!: exI [of _ n]\<close>)
qed

lemma grows_Pair [tree_intros]: "grows_tree n (Pair r)"
  by (rule grows_treeI) (simp add: extends_refl)

lemma grows_ret [tree_intros]: "grows_tree n (ret x)"
  by (rule grows_treeI) (simp add: extends_refl)

lemma grows_panic [tree_intros]: "grows_tree n panic"
  by (rule grows_treeI) (simp add: extends_refl panic_def)

lemma grows_out_of_fuel [tree_intros]: "grows_tree n out_of_fuel"
  by (rule grows_treeI) (simp add: extends_refl out_of_fuel_def)

lemma grows_lift_outcome [tree_intros]: "grows_tree n (lift_outcome r)"
  by (rule grows_treeI) (simp add: extends_refl lift_outcome_def)

lemma grows_same_results: "(\<And>s. x_results (snd (a s)) = x_results s) \<Longrightarrow> grows_tree n a"
  by (rule grows_treeI) (simp add: extends_refl)

lemma grows_catch [tree_intros]:
  assumes "grows_tree n a" "\<And>err. grows_tree n (h err)"
  shows "grows_tree n (catch a h)"
proof (rule grows_treeI)
  fix s :: "('a, 'b, 'c) exec_state"
  assume s: "result_tree (x_results s)" "n \<le> length (x_results s)"
  obtain r s' where a: "a s = (r, s')" by fastforce
  have e: "extends n (x_results s) (x_results s')"
    using grows_treeD [OF assms(1) s] a by simp
  show "extends n (x_results s) (x_results (snd (catch a h s)))"
  proof (cases r)
    case (Error err)
    have "extends n (x_results s') (x_results (snd (h err s')))"
      by (rule grows_treeD [OF assms(2)]) (use e s(2) in \<open>auto simp: extends_def\<close>)
    then show ?thesis
      using extends_trans [OF e] a Error by (simp add: catch_def)
  qed (use e a in \<open>simp_all add: catch_def\<close>)
qed

section \<open>Changes of the tree\<close>

lemma result_treeD: "result_tree rs \<Longrightarrow> a < length rs \<Longrightarrow> parent_ok rs a \<and> holds_ok rs a"
  by (simp add: result_tree_def)

lemma extends_value:
  assumes tree: "result_tree rs" and a: "a < length rs"
    and held: "\<And>c. c \<in> held v \<Longrightarrow> c \<in> held (result_Value (rs ! a)) \<or>
        n \<le> c \<and> a < c \<and> c < length rs \<and> (result_Parent (rs ! c) = None \<or> result_Parent (rs ! c) = Some a)"
    and fields: "\<And>nodes vals. v = ResultKindObject nodes vals \<Longrightarrow> length nodes = length vals"
  shows "extends n rs (rs[a := (rs ! a)\<lparr>result_Value := v\<rparr>])"
proof -
  let ?rs = "rs[a := (rs ! a)\<lparr>result_Value := v\<rparr>]"
  have same: "result_Parent (?rs ! b) = result_Parent (rs ! b)" "result_RejectNull (?rs ! b) = result_RejectNull (rs ! b)" for b
    using a by (cases "b = a"; simp)+
  have val: "result_Value (?rs ! b) = (if b = a then v else result_Value (rs ! b))" for b
    using a by simp
  have holds: "holds_ok ?rs b" if "b < length rs" for b
    using result_treeD [OF tree that] held fields by (cases "b = a") (auto simp: holds_ok_def same val)
  have "parent_ok ?rs b" if "b < length rs" for b
    using result_treeD [OF tree that] by (simp add: parent_ok_def same)
  with holds have "result_tree ?rs"
    by (simp add: result_tree_def)
  moreover have "holders ?rs c \<subseteq> holders rs c" if "c < n" for c
    using held that by (force simp: holders_def val split: if_splits)
  ultimately show ?thesis
    by (simp add: extends_def keeps_node_def same)
qed

lemma extends_append:
  assumes tree: "result_tree rs" and n: "n \<le> length rs"
    and new: "\<And>r. r \<in> set new \<Longrightarrow> result_Value r = ResultKindNil \<and> (result_Parent r = None \<longrightarrow> \<not> result_RejectNull r) \<and> (\<forall>p. result_Parent r = Some p \<longrightarrow> p < length rs)"
  shows "extends n rs (rs @ new)"
proof -
  have fresh: "held (result_Value ((rs @ new) ! b)) = (if b < length rs then held (result_Value (rs ! b)) else {})" if "b < length (rs @ new)" for b
    using that new [of "new ! (b - length rs)"] by (auto simp: nth_append held_def)
  have "parent_ok (rs @ new) b \<and> holds_ok (rs @ new) b" if b: "b < length (rs @ new)" for b
  proof (cases "b < length rs")
    case True
    then show ?thesis
      using result_treeD [OF tree True] by (auto simp: parent_ok_def holds_ok_def nth_append)
  next
    case False
    then have "result_Value ((rs @ new) ! b) = ResultKindNil \<and> parent_ok (rs @ new) b"
      using b new [of "new ! (b - length rs)"] by (auto simp: parent_ok_def nth_append intro: less_le_trans)
    then show ?thesis
      by (simp add: holds_ok_def held_def)
  qed
  then have "result_tree (rs @ new)"
    by (simp add: result_tree_def)
  moreover have "holders (rs @ new) c \<subseteq> holders rs c" for c
    using fresh by (auto simp: holders_def split: if_splits)
  ultimately show ?thesis
    using n by (auto simp: extends_def keeps_node_def nth_append)
qed

lemma grows_set_value [tree_intros]:
  assumes "held v = {}" "\<And>nodes vals. v = ResultKindObject nodes vals \<Longrightarrow> length nodes = length vals"
  shows "grows_tree n (set_value a v)"
proof (rule grows_treeI)
  fix s :: "('a, 'b, 'c) exec_state"
  assume s: "result_tree (x_results s)"
  show "extends n (x_results s) (x_results (snd (set_value a v s)))"
  proof (cases "a < length (x_results s)")
    case True
    then show ?thesis
      using extends_value [OF s True, of v n] assms by (simp add: set_value_def update_result_def)
  next
    case False
    then show ?thesis
      using s by (simp add: set_value_def update_result_def extends_refl list_update_beyond not_less)
  qed
qed

lemma held_empty [simp]: "held ResultKindNil = {}" "held (ResultKindLeaf v) = {}" "held (ResultKindList []) = {}"
  by (simp_all add: held_def)

lemma grows_set_nil: "grows_tree n (set_value a ResultKindNil)"
  by (rule grows_set_value) simp_all

lemma grows_propagate [tree_intros]: "grows_tree n (propagateExecutionError fuel result)"
proof (induction fuel arbitrary: result)
  case (Suc fuel)
  show ?case
    by (rule grows_treeI) (auto split: option.splits intro!: extends_refl grows_treeD [OF grows_andThen] grows_set_value Suc.IH)
qed (simp add: tree_intros)

lemma grows_AppendError [tree_intros]: "grows_tree n (AppendError err result)"
proof (rule grows_treeI)
  fix s :: "('a, 'b, 'c) exec_state"
  assume s: "result_tree (x_results s)" "n \<le> length (x_results s)"
  have "extends n (x_results (s\<lparr>x_errs := x_errs s @ [err]\<rparr>)) (x_results (snd (propagateExecutionError fuel p (s\<lparr>x_errs := x_errs s @ [err]\<rparr>))))" for fuel p
    by (rule grows_treeD [OF grows_propagate]) (use s in simp_all)
  then show "extends n (x_results s) (x_results (snd (AppendError err result s)))"
    using s(1) by (auto simp: AppendError_def extends_refl split: option.splits)
qed

lemma grows_handleNodeError [tree_intros]: "grows_tree n (handleNodeError e node err result)"
  unfolding handleNodeError_def by (rule grows_treeI) (auto intro!: grows_treeD [OF grows_andThen] tree_intros)

lemma grows_field_error [tree_intros]: "grows_tree n (field_error e node f args result)"
  unfolding field_error_def by (rule grows_treeI) (auto intro!: grows_treeD [OF grows_andThen] tree_intros split: option.split)

lemma grows_prologue [tree_intros]: "grows_tree n (completeValuePrologue e node result v)"
  unfolding completeValuePrologue_def by (auto intro!: tree_intros split: option.split)

lemma grows_outside [tree_intros]: "grows_tree n (outside a)"
  by (rule grows_same_results) (simp add: outside_def split: prod.split)

lemma grows_leaf [tree_intros]: "grows_tree n (completeLeafValue e node t result v)"
  unfolding completeLeafValue_def by (auto simp: Let_def intro!: tree_intros split: sum.split)


lemma grows_update_node [tree_intros]: "grows_tree n (update_node a f)"
  by (rule grows_same_results) (simp add: update_node_def)

lemma grows_new_node [tree_intros]: "grows_tree n (new_node a)"
  by (rule grows_same_results) (simp add: new_node_def)

lemma grows_collect_field [tree_intros]: "grows_tree n (collect_field e p t sel key name args col)"
  unfolding collect_field_def by (auto simp: Let_def intro!: tree_intros split: option.split)

lemma grows_collect_selection [tree_intros]: "grows_tree n (collect_selection e p t sel col)"
  unfolding collect_selection_def by (auto simp: Let_def intro!: tree_intros split: option.split selection.split)

lemma grows_build_loop [tree_intros]: "grows_tree n (build_loop fuel e p t stack col)"
proof (induction fuel arbitrary: stack col)
  case 0
  show ?case by (cases stack) (simp_all add: tree_intros)
next
  case (Suc fuel)
  show ?case
  proof (cases stack)
    case (Cons task rest)
    then show ?thesis by (cases task) (auto simp: Let_def intro!: tree_intros Suc.IH)
  qed (simp add: tree_intros)
qed

lemma grows_buildChild [tree_intros]: "grows_tree n (buildChildExecutionNodesForSelectionSet e node t)"
  unfolding buildChildExecutionNodesForSelectionSet_def
  by (rule grows_treeI) (auto simp: Let_def intro!: grows_treeD [OF grows_andThen] tree_intros)

lemma grows_collectFields [tree_intros]: "grows_tree n (collectFields e node t)"
  unfolding collectFields_def
  by (rule grows_treeI) (auto intro!: grows_treeD [OF grows_andThen] tree_intros split: option.split)

section \<open>New nodes\<close>

text \<open>An action that goes on with a node it has allocated may rely on it.\<close>

lemma EmplaceBack_extends:
  assumes "result_tree (x_results s)" "n \<le> length (x_results s)" "p < n"
  shows "extends n (x_results s) (x_results (snd (EmplaceBack p b s)))"
    "length (x_results (snd (EmplaceBack p b s))) = Suc (length (x_results s))"
proof -
  let ?rs = "x_results s" and ?new = "\<lparr>result_Parent = Some p, result_RejectNull = \<not> b, result_Value = ResultKindNil\<rparr>"
  let ?v = "case result_Value (?rs ! p) of ResultKindList nodes \<Rightarrow> ResultKindList (nodes @ [length ?rs]) | v \<Rightarrow> v"
  have add: "extends n ?rs (?rs @ [?new])"
    by (rule extends_append) (use assms in auto)
  have "extends n (?rs @ [?new]) ((?rs @ [?new])[p := ((?rs @ [?new]) ! p)\<lparr>result_Value := ?v\<rparr>])"
  proof (rule extends_value)
    show tree: "result_tree (?rs @ [?new])"
      using add by (simp add: extends_def)
    show "c \<in> held (result_Value ((?rs @ [?new]) ! p)) \<or> n \<le> c \<and> p < c \<and> c < length (?rs @ [?new]) \<and>
        (result_Parent ((?rs @ [?new]) ! c) = None \<or> result_Parent ((?rs @ [?new]) ! c) = Some p)" if "c \<in> held ?v" for c
      using that assms by (auto simp: held_def nth_append split: result_value.splits)
    show "length nodes = length vals" if "?v = ResultKindObject nodes vals" for nodes vals
      using that result_treeD [OF assms(1), of p] assms by (auto simp: holds_ok_def split: result_value.splits)
  qed (use assms in simp)
  then have "extends n ?rs ((?rs @ [?new])[p := ((?rs @ [?new]) ! p)\<lparr>result_Value := ?v\<rparr>])"
    using add extends_trans by blast
  then show "extends n (x_results s) (x_results (snd (EmplaceBack p b s)))"
    using assms by (simp add: EmplaceBack_def list_update_append1 nth_append)
qed (simp add: EmplaceBack_def)

lemma grows_EmplaceBack:
  assumes "p < n" "\<And>m. n \<le> m \<Longrightarrow> grows_tree (Suc m) (k m)"
  shows "grows_tree n (andThen (EmplaceBack p b) k)"
proof (rule grows_treeI)
  fix s :: "('a, 'b, 'c) exec_state"
  assume s: "result_tree (x_results s)" "n \<le> length (x_results s)"
  note emplace = EmplaceBack_extends [OF s assms(1), of b]
  show "extends n (x_results s) (x_results (snd (andThen (EmplaceBack p b) k s)))"
  proof (rule grows_andThen_at [where a = "EmplaceBack p b" and k = k, OF emplace(1) s(2)])
    fix x s' assume "EmplaceBack p b s = (Ok x, s')"
    then have "x = length (x_results s)" "length (x_results s') = Suc (length (x_results s))"
      using emplace(2) by (auto simp: EmplaceBack_def)
    then show "\<exists>m \<ge> n. m \<le> length (x_results s') \<and> grows_tree m (k x)"
      using assms(2) [of "length (x_results s)"] s(2) by (intro exI [of _ "Suc (length (x_results s))"]) simp
  qed
qed

lemma grows_if_state:
  "grows_tree n a \<Longrightarrow> grows_tree n b \<Longrightarrow> grows_tree n (\<lambda>s. if P s then a s else b s)"
  by (simp add: grows_tree_def)

section \<open>Completion\<close>

definition completes :: "(nat \<Rightarrow> 'v goval \<Rightarrow> ('v, 'x, 'w, 'a) exec_action) \<Rightarrow> bool" where
  "completes complete \<longleftrightarrow> (\<forall>n result v. result < n \<longrightarrow> grows_tree n (complete result v))"

lemma completesD: "completes complete \<Longrightarrow> result < n \<Longrightarrow> grows_tree n (complete result v)"
  by (simp add: completes_def)

lemma grows_complete_elements:
  assumes "completes complete"
  shows "result < n \<Longrightarrow> grows_tree n (complete_elements complete nullable result vs)"
proof (induction vs arbitrary: n)
  case (Cons v vs)
  have "grows_tree (Suc m) (andThen (complete m v) (\<lambda>ok s.
      if \<not> ok \<and> result_IsNil s result then (Ok False, s) else complete_elements complete nullable result vs s))" if "n \<le> m" for m
    using Cons that by (intro grows_andThen completesD [OF assms] grows_if_state tree_intros) auto
  then show ?case
    using Cons.prems by (simp add: grows_EmplaceBack)
qed (simp add: tree_intros)

text \<open>Actions that go on with the elements that were put in the queue.\<close>

definition queues :: "nat \<Rightarrow> ((nat \<times> 'v goval) list \<Rightarrow> ('v, 'x, 'w, 'a) exec_action) \<Rightarrow> bool" where
  "queues n k \<longleftrightarrow> (\<forall>m pushed. n \<le> m \<longrightarrow> (\<forall>(r, v) \<in> set pushed. r < m) \<longrightarrow> grows_tree m (k pushed))"

lemma queuesD: "queues n k \<Longrightarrow> n \<le> m \<Longrightarrow> \<forall>(r, v) \<in> set pushed. r < m \<Longrightarrow> grows_tree m (k pushed)"
  by (simp add: queues_def)

lemma queues_Nil: "queues n k \<Longrightarrow> grows_tree n (k [])"
  by (simp add: queues_def)

lemma grows_queue_elements:
  "result < n \<Longrightarrow> queues n k \<Longrightarrow> grows_tree n (andThen (queue_elements nullable result vs) k)"
proof (induction vs arbitrary: n k)
  case Nil
  then show ?case
    by (simp only: queue_elements.simps andThen_ret queues_Nil)
next
  case (Cons v vs)
  have "grows_tree (Suc m) (andThen (queue_elements nullable result vs) (\<lambda>pushed. k ((m, v) # pushed)))" if "n \<le> m" for m
  proof (rule Cons.IH)
    show "queues (Suc m) (\<lambda>pushed. k ((m, v) # pushed))"
      unfolding queues_def using that by (auto intro!: queuesD [OF Cons.prems(2)])
  qed (use Cons.prems that in simp)
  then show ?case
    unfolding queue_elements.simps andThen_assoc andThen_ret
    by (intro grows_EmplaceBack Cons.prems)
qed

lemma grows_iteration_error [tree_intros]: "grows_tree n (iteration_error e node result err)"
  unfolding iteration_error_def by (auto intro!: tree_intros split: option.split)

lemma queues_after: "(\<And>m. n \<le> m \<Longrightarrow> grows_tree m a) \<Longrightarrow> queues n k \<Longrightarrow> queues n (\<lambda>pushed. andThen a (\<lambda>_. k pushed))"
  unfolding queues_def by (auto intro!: grows_andThen)

lemma grows_completeListValue:
  assumes "\<And>t. completes (complete t)" "result < n" "queues n k"
  shows "grows_tree n (andThen (completeListValue complete e node nonNull elementType result v) k)"
proof (cases "list_items e v")
  case None
  then show ?thesis
    using queues_Nil [OF assms(3)] by (simp add: completeListValue_def andThen_assoc andThen_ret grows_andThen grows_field_error)
next
  case (Some items)
  obtain vs err where items: "items = (vs, err)" by fastforce
  have later: "queues n (\<lambda>pushed. andThen (iteration_error e node result err) (\<lambda>_. k pushed))"
    by (rule queues_after) (simp_all add: assms(3) tree_intros)
  have list: "grows_tree n (set_value result (ResultKindList []))"
    by (rule grows_set_value) simp_all
  show ?thesis
  proof (cases elementType)
    case (Named t)
    then show ?thesis
      using Some items queues_Nil [OF assms(3)] list
      by (auto simp: completeListValue_def andThen_assoc andThen_ret intro!: grows_andThen grows_complete_elements assms tree_intros)
  qed (use Some items list later assms(2) in \<open>auto simp: completeListValue_def andThen_assoc andThen_ret intro!: grows_andThen grows_queue_elements\<close>)
qed


lemma extends_as:
  assumes "grows_tree n (andThen a k)" "run s = a s" "result_tree (x_results s)" "n \<le> length (x_results s)"
  shows "extends n (x_results s) (x_results (snd (andThen run k s)))"
  using grows_treeD [OF assms(1,3,4)] assms(2) by (simp add: andThen_def)

lemma extends_nothing:
  assumes "grows_tree n a" "queues n k" "run s = andThen a (\<lambda>_. ret []) s" "result_tree (x_results s)" "n \<le> length (x_results s)"
  shows "extends n (x_results s) (x_results (snd (andThen run k s)))"
  by (rule extends_as [where a = "andThen a (\<lambda>_. ret [])"]) (simp_all add: assms andThen_assoc grows_andThen queues_Nil)

lemma grows_completeQueuedValue:
  assumes "\<And>t. completes (complete t)" "result < n" "queues n k"
  shows "grows_tree n (andThen (completeQueuedValue complete e node t result v) k)"
proof (rule grows_treeI)
  fix s :: "('a, 'b, 'c) exec_state"
  assume s: "result_tree (x_results s)" "n \<le> length (x_results s)"
  let ?run = "completeQueuedValue complete e node t result v" and ?goal = "\<lambda>a. extends n (x_results s) (x_results (snd (andThen a k s)))"
  show "?goal ?run"
  proof (cases "result_Parent (x_results s ! result)")
    case None
    show ?thesis
      by (rule extends_as [where a = "Pair Panic", OF _ _ s]) (simp_all add: None completeQueuedValue_def andThen_def grows_same_results)
  next
    case (Some parent)
    consider "result_IsNil s parent" | "\<not> result_IsNil s parent" "e_IsNullish e v" | "\<not> result_IsNil s parent" "\<not> e_IsNullish e v" by blast
    then show ?thesis
    proof cases
      case 1
      then show ?thesis
        by (intro extends_nothing [OF _ assms(3) _ s, where a = "ret ()"]) (simp_all add: Some completeQueuedValue_def tree_intros)
    next
      case 2
      then show ?thesis
        by (intro extends_nothing [OF _ assms(3) _ s, where a = "if IsNonNullType t then field_error e node (\<lambda>f. ''Cannot return null for non-nullable field '' @ f @ ''.'') [] result
            else set_value result ResultKindNil"]) (simp_all add: Some completeQueuedValue_def grows_field_error grows_set_nil)
    next
      case 3
      show ?thesis
      proof (cases "inner_type t")
        case (Named t')
        then show ?thesis
          using 3 by (intro extends_nothing [OF _ assms(3) _ s, where a = "complete t' result v"]) (simp_all add: Some completeQueuedValue_def completesD [OF assms(1,2)])
      next
        case (ListOf u)
        then show ?thesis
          using 3 by (intro extends_as [OF grows_completeListValue [OF assms] _ s]) (simp_all add: Some completeQueuedValue_def)
      next
        case (NonNullOf u)
        then show ?thesis
          using 3 by (intro extends_nothing [OF _ assms(3) _ s, where a = "handleNodeError e node (NewError (''Cannot complete value of unexpected type '' @ quoted (e_fmt_type e (NonNullOf u)) @
              ''.'') []) result"]) (simp_all add: Some completeQueuedValue_def grows_handleNodeError)
      qed
    qed
  qed
qed

lemma wrapping_loop_Cons:
  "wrapping_loop complete e node ((t, result, v) # queue) = andThen (completeQueuedValue complete e node t result v) (\<lambda>pushed.
     wrapping_loop complete e node (queue @ (case element_type t of None \<Rightarrow> [] | Some u \<Rightarrow> map (\<lambda>(r, v). (u, r, v)) pushed)))"
  by (rule ext) (auto simp: andThen_def split: prod.split outcome.split)

lemma grows_wrapping_loop:
  assumes "\<And>t. completes (complete t)"
  shows "\<forall>(t, result, v) \<in> set queue. result < n \<Longrightarrow> grows_tree n (wrapping_loop complete e node queue)"
proof (induction queue arbitrary: n rule: wf_induct_rule [OF wf_inv_image [OF wf_mult [OF wf_less_than], of queue_measure]])
  case (1 queue)
  show ?case
  proof (cases queue)
    case Nil
    then show ?thesis
      by (intro grows_same_results) simp
  next
    case (Cons item rest)
    obtain t result v where item: "item = (t, result, v)" by (cases item)
    have "queues n (\<lambda>pushed. wrapping_loop complete e node (rest @ (case element_type t of None \<Rightarrow> [] | Some u \<Rightarrow> map (\<lambda>(r, v). (u, r, v)) pushed)))"
      unfolding queues_def
    proof (intro allI impI "1.IH")
      fix m :: nat and pushed :: "(nat \<times> 'a goval) list"
      assume m: "n \<le> m" "\<forall>(r, v) \<in> set pushed. r < m"
      show "(rest @ (case element_type t of None \<Rightarrow> [] | Some u \<Rightarrow> map (\<lambda>(r, v). (u, r, v)) pushed), queue) \<in> inv_image (mult less_than) queue_measure"
        using queue_measure_step [where queue = rest and t = t and pushed = pushed and result = result and v = v] by (simp add: Cons item)
      show "\<forall>(t, result, v) \<in> set (rest @ (case element_type t of None \<Rightarrow> [] | Some u \<Rightarrow> map (\<lambda>(r, v). (u, r, v)) pushed)). result < m"
        using "1.prems" m by (cases "element_type t") (auto simp: Cons item)
    qed
    then show ?thesis
      unfolding Cons item wrapping_loop_Cons
      using "1.prems" by (intro grows_completeQueuedValue assms) (auto simp: Cons item)
  qed
qed


section \<open>Tasks\<close>

definition dispatches :: "('v, 'x, 'w) dispatch \<Rightarrow> bool" where
  "dispatches dispatch \<longleftrightarrow> (\<forall>n result nodes v. result < n \<longrightarrow> grows_tree n (dispatch result nodes v))"

lemma grows_completeObjectValue:
  "dispatches dispatch \<Longrightarrow> result < n \<Longrightarrow> grows_tree n (completeObjectValue dispatch e node t result v)"
  unfolding completeObjectValue_def dispatches_def by (auto intro!: tree_intros split: option.split)

lemma grows_completeAbstractValue:
  "dispatches dispatch \<Longrightarrow> result < n \<Longrightarrow> grows_tree n (completeAbstractValue dispatch e node t result v)"
  unfolding completeAbstractValue_def by (auto simp: Let_def intro!: tree_intros grows_completeObjectValue split: option.split)

lemma completes_NonWrapping: "dispatches dispatch \<Longrightarrow> completes (completeNonWrappingValue dispatch e node t)"
  unfolding completes_def completeNonWrappingValue_def
  by (auto simp: Let_def intro!: tree_intros grows_completeObjectValue grows_completeAbstractValue grows_set_nil)

lemma completes_Value: "dispatches dispatch \<Longrightarrow> completes (completeValue dispatch e node t)"
  unfolding completes_def completeValue_def completeWrappingValue_def
  using completesD [OF completes_NonWrapping]
  by (auto intro!: tree_intros grows_wrapping_loop completes_NonWrapping split: gtype.split)

lemma completes_run_task:
  assumes "dispatches dispatch"
  shows "completes (\<lambda>result. run_task dispatch e node result)"
  unfolding completes_def
proof (intro allI impI grows_treeI)
  fix n result v and s :: "('a, 'b, 'c) exec_state"
  assume result: "result < n" and s: "result_tree (x_results s)" "n \<le> length (x_results s)"
  obtain r s' where res: "outside (e_Resolve e node result v) s = (r, s')" by fastforce
  have same: "x_results s' = x_results s"
    using res by (auto simp: outside_def split: prod.splits)
  then have s': "result_tree (x_results s')" "n \<le> length (x_results s')"
    using s by simp_all
  show "extends n (x_results s) (x_results (snd (run_task dispatch e node result v s)))"
    using res grows_treeD [OF completesD [OF completes_Value [OF assms] result] s'] grows_treeD [OF grows_handleNodeError s'] same
    by (auto simp: run_task_def extends_refl s(1) split: option.split outcome.split)
qed

text \<open>The nodes that \<open>dispatchTasksForObject\<close> has allocated: only the object holds them, and their parent is not set or is the object.\<close>

definition awaits :: "nat \<Rightarrow> 'v result_node list \<Rightarrow> nat \<Rightarrow> bool" where
  "awaits result rs c \<longleftrightarrow> result < c \<and> c < length rs \<and> holders rs c \<subseteq> {result} \<and> (result_Parent (rs ! c) = None \<or> result_Parent (rs ! c) = Some result)"

lemma awaits_extends: "extends n rs rs' \<Longrightarrow> c < n \<Longrightarrow> awaits result rs c \<Longrightarrow> awaits result rs' c"
  by (auto simp: extends_def keeps_node_def awaits_def)

lemma extends_parent:
  assumes tree: "result_tree rs" and c: "awaits result rs c" "n \<le> c"
  shows "extends n rs (rs[c := (rs ! c)\<lparr>result_Parent := Some result, result_RejectNull := b\<rparr>])"
    "awaits result rs d \<Longrightarrow> awaits result (rs[c := (rs ! c)\<lparr>result_Parent := Some result, result_RejectNull := b\<rparr>]) d"
proof -
  let ?rs = "rs[c := (rs ! c)\<lparr>result_Parent := Some result, result_RejectNull := b\<rparr>]"
  have val: "result_Value (?rs ! a) = result_Value (rs ! a)" for a
    using c by (cases "a = c") (auto simp: awaits_def)
  have par: "result_Parent (?rs ! a) = (if a = c then Some result else result_Parent (rs ! a))"
      "a \<noteq> c \<Longrightarrow> result_RejectNull (?rs ! a) = result_RejectNull (rs ! a)" for a
    using c by (auto simp: awaits_def)
  have holders: "holders ?rs a = holders rs a" for a
    by (simp add: holders_def val)
  have "parent_ok ?rs a \<and> holds_ok ?rs a" if a: "a < length rs" for a
  proof -
    have "a = result" if "c \<in> held (result_Value (rs ! a))"
      using that a c by (auto simp: awaits_def holders_def)
    then show ?thesis
      using result_treeD [OF tree a] c par by (auto simp: parent_ok_def holds_ok_def val awaits_def)
  qed
  then show "extends n rs ?rs"
    using c(2) by (simp add: extends_def result_tree_def keeps_node_def holders par)
  show "awaits result ?rs d" if "awaits result rs d"
    using that by (simp add: awaits_def holders par)
qed


lemma dispatch_fields_extends:
  assumes "dispatches dispatch"
  shows "result_tree (x_results s) \<Longrightarrow> n \<le> length (x_results s) \<Longrightarrow> \<forall>(node, c) \<in> set tasks. awaits result (x_results s) c \<and> n \<le> c \<Longrightarrow>
    extends n (x_results s) (x_results (snd (dispatch_fields dispatch e result v tasks s)))"
proof (induction tasks arbitrary: s)
  case (Cons task tasks)
  obtain node c where task: "task = (node, c)" by fastforce
  show ?case
  proof (cases "node_Field (x_nodes s ! node)")
    case None
    then show ?thesis
      using Cons.prems(1) by (simp add: task extends_refl)
  next
    case (Some fld)
    let ?f = "\<lambda>n. n\<lparr>result_Parent := Some result, result_RejectNull := IsNonNullType (field_Type fld)\<rparr>"
    let ?s = "s\<lparr>x_results := (x_results s)[c := ?f (x_results s ! c)]\<rparr>"
    have c: "awaits result (x_results s) c" "n \<le> c"
      using Cons.prems(3) task by auto
    note parent = extends_parent [where b = "IsNonNullType (field_Type fld)", OF Cons.prems(1) c]
    obtain r s' where run: "run_task dispatch e node c v ?s = (r, s')" by fastforce
    have "extends (length (x_results ?s)) (x_results ?s) (x_results (snd (run_task dispatch e node c v ?s)))"
      by (rule grows_treeD [OF completesD [OF completes_run_task [OF assms]]]) (use parent(1) c in \<open>simp_all add: extends_def awaits_def\<close>)
    then have task_extends: "extends (length (x_results ?s)) (x_results ?s) (x_results s')"
      using run by simp
    have so_far: "extends n (x_results s) (x_results s')"
      using extends_trans [OF parent(1), of "length (x_results ?s)"] task_extends Cons.prems(2) by simp
    have later: "\<forall>(node, d) \<in> set tasks. awaits result (x_results s') d \<and> n \<le> d"
    proof clarify
      fix node d assume "(node, d) \<in> set tasks"
      then have d: "awaits result (x_results s) d" "n \<le> d"
        using Cons.prems(3) by auto
      have "awaits result (x_results ?s) d"
        using parent(2) [OF d(1)] by simp
      then show "awaits result (x_results s') d \<and> n \<le> d"
        using awaits_extends [OF task_extends, of d result] d(2) by (simp add: awaits_def)
    qed
    have "extends n (x_results s') (x_results (snd (dispatch_fields dispatch e result v tasks s')))"
      by (rule Cons.IH [OF _ _ later]) (use so_far Cons.prems(2) in \<open>simp_all add: extends_def\<close>)
    then show ?thesis
      using extends_trans [OF so_far] run so_far Some
      by (cases r) (simp_all add: task update_result_def andThen_def)
  qed
qed (simp add: extends_refl)

lemma dispatches_dispatchTasksForObject: "dispatches (dispatchTasksForObject fuel e)"
proof (induction fuel)
  case 0
  show ?case
    by (simp add: dispatches_def grows_same_results)
next
  case (Suc fuel)
  show ?case
    unfolding dispatches_def
  proof (intro allI impI grows_treeI)
    fix n result and nodes :: "nat list" and v and s :: "('a, 'b, 'c) exec_state"
    assume result: "result < n" and s: "result_tree (x_results s)" "n \<le> length (x_results s)"
    let ?k = "length nodes" and ?rs = "x_results s"
    let ?blank = "\<lparr>result_Parent = None, result_RejectNull = False, result_Value = ResultKindNil\<rparr>"
    let ?new = "[length ?rs..<length ?rs + ?k]"
    let ?rs1 = "?rs @ replicate ?k ?blank"
    let ?rs2 = "?rs1[result := (?rs1 ! result)\<lparr>result_Value := ResultKindObject nodes ?new\<rparr>]"
    have e1: "extends n ?rs ?rs1"
      by (rule extends_append) (use s in auto)
    have e2: "extends n ?rs1 ?rs2"
      by (rule extends_value) (use e1 s result in \<open>auto simp: extends_def held_def nth_append\<close>)
    have fresh: "holders ?rs1 c = {}" if "length ?rs \<le> c" for c
    proof -
      have "c \<notin> held (result_Value (?rs1 ! a))" if a: "a < length ?rs1" for a
        using result_treeD [OF s(1), of a] \<open>length ?rs \<le> c\<close> a by (cases "a < length ?rs") (auto simp: nth_append holds_ok_def)
      then show ?thesis
        by (auto simp: holders_def)
    qed
    have aw: "awaits result ?rs2 c" if "c \<in> set ?new" for c
      using that fresh [of c] result s(2) by (auto simp: awaits_def holders_def nth_append nth_list_update split: if_splits)
    have "extends n ?rs2 (x_results (snd (dispatch_fields (dispatchTasksForObject fuel e) e result v (zip nodes ?new) (s\<lparr>x_results := ?rs2\<rparr>))))"
      using dispatch_fields_extends [OF Suc.IH, of "s\<lparr>x_results := ?rs2\<rparr>" n "zip nodes ?new" result e v] e2 s(2) aw
      by (force simp: extends_def dest: set_zip_rightD)
    then show "extends n ?rs (x_results (snd (dispatchTasksForObject (Suc fuel) e result nodes v s)))"
      using extends_trans [OF extends_trans [OF e1 e2]] by (simp add: new_results_def set_value_def update_result_def andThen_def)
  qed
qed

lemma execute_states:
  "result_tree (x_results (snd (execute fuel e w)))"
  "execute fuel e w = (Ok \<lparr>execution_Data = Some a, execution_Errors = errs\<rparr>, s') \<Longrightarrow> a < length (x_results s')"
proof -
  obtain r s where fields: "collectFields e 0 (po_rootType (e_operation e)) (initial_state w) = (r, s)" by fastforce
  have tree: "result_tree (x_results s)"
    using grows_treeD [OF grows_collectFields, of "initial_state w" 0 e 0 "po_rootType (e_operation e)"] fields
    by (simp add: initial_state_def result_tree_def [of "[]"] extends_def)
  let ?s = "s\<lparr>x_results := x_results s @ [\<lparr>result_Parent = None, result_RejectNull = False, result_Value = ResultKindNil\<rparr>]\<rparr>"
  have "result_tree (x_results ?s)"
    using extends_append [OF tree, of 0 "[\<lparr>result_Parent = None, result_RejectNull = False, result_Value = ResultKindNil\<rparr>]"] by (simp add: extends_def)
  then have dispatch: "extends (length (x_results ?s)) (x_results ?s) (x_results (snd (dispatchTasksForObject fuel e (length (x_results s)) nodes v ?s)))" for nodes v
    using dispatches_dispatchTasksForObject [of fuel e] grows_treeD [of "length (x_results ?s)" "dispatchTasksForObject fuel e (length (x_results s)) nodes v" ?s]
    by (simp add: dispatches_def)
  have after: "result_tree (x_results (snd (dispatchTasksForObject fuel e (length (x_results s)) nodes v ?s)))"
      "0 < length (x_results (snd (dispatchTasksForObject fuel e (length (x_results s)) nodes v ?s)))" for nodes v
    using dispatch [of nodes v] by (auto simp: extends_def)
  show "result_tree (x_results (snd (execute fuel e w)))"
    using tree after(1) by (auto simp: execute_def fields new_results_def andThen_def split: outcome.splits go_error.splits prod.splits) (metis snd_conv)+
  show "a < length (x_results s')" if "execute fuel e w = (Ok \<lparr>execution_Data = Some a, execution_Errors = errs\<rparr>, s')"
    using that after(2) by (auto simp: execute_def fields new_results_def andThen_def split: outcome.splits go_error.splits prod.splits) (metis snd_conv length_greater_0_conv)+
qed

text \<open>
  C17: in every state that an execution ends in, whatever the resolvers return and whether it succeeds, fails or panics, the result nodes form trees:
  a parent is allocated before its children, a node without parent accepts null, and an object or a list holds later nodes whose parent, once they
  are dispatched, is that node, one for each execution node.
\<close>

theorem execute_result_tree: "result_tree (x_results (snd (execute fuel e w)))"
  by (rule execute_states)

end
