(* ===== verification/ResultKeys.thy ===== *)
theory ResultKeys
  imports ExecutionSpec
begin

text \<open>
  The fields of the objects in a result: every execution node that an object of the result tree names was collected from a field of the document and has
  a response key, in every state of an execution.
\<close>

definition keyed :: "token list \<Rightarrow> 'v exec_node list \<Rightarrow> nat \<Rightarrow> bool" where
  "keyed toks nodes n \<longleftrightarrow> n < length nodes \<and> node_ResponseKey toks (nodes ! n) \<noteq> None"

definition child_nodes :: "'v exec_node \<Rightarrow> nat set" where
  "child_nodes m = (\<Union>(t, nodes) \<in> set (node_Children m). set nodes)"

definition nodes_keyed :: "token list \<Rightarrow> ('v, 'x, 'w) exec_state \<Rightarrow> bool" where
  "nodes_keyed toks s \<longleftrightarrow>
     (\<forall>r \<in> set (x_results s). \<forall>nodes vals. result_Value r = ResultKindObject nodes vals \<longrightarrow> (\<forall>n \<in> set nodes. keyed toks (x_nodes s) n)) \<and>
     (\<forall>m \<in> set (x_nodes s). \<forall>n \<in> child_nodes m. keyed toks (x_nodes s) n)"

definition keeps_keys :: "token list \<Rightarrow> ('v, 'x, 'w) exec_state \<Rightarrow> ('v, 'x, 'w) exec_state \<Rightarrow> bool" where
  "keeps_keys toks s s' \<longleftrightarrow> nodes_keyed toks s' \<and> (\<forall>n. keyed toks (x_nodes s) n \<longrightarrow> keyed toks (x_nodes s') n)"

text \<open>\<open>yields toks A f a\<close>: when the nodes in \<open>A\<close> have keys, the action keeps all keys, and the nodes that \<open>f\<close> takes from its result have keys.\<close>

definition yields :: "token list \<Rightarrow> nat set \<Rightarrow> ('a \<Rightarrow> nat set) \<Rightarrow> ('v, 'x, 'w, 'a) exec_action \<Rightarrow> bool" where
  "yields toks A f a \<longleftrightarrow> (\<forall>s. nodes_keyed toks s \<longrightarrow> (\<forall>n \<in> A. keyed toks (x_nodes s) n) \<longrightarrow>
     keeps_keys toks s (snd (a s)) \<and> (\<forall>r. fst (a s) = Ok r \<longrightarrow> (\<forall>n \<in> f r. keyed toks (x_nodes (snd (a s))) n)))"

lemma keeps_keys_refl: "nodes_keyed toks s \<Longrightarrow> keeps_keys toks s s"
  by (simp add: keeps_keys_def)

lemma keeps_keys_trans: "keeps_keys toks s s' \<Longrightarrow> keeps_keys toks s' s'' \<Longrightarrow> keeps_keys toks s s''"
  by (simp add: keeps_keys_def)

lemma yieldsI:
  assumes "\<And>s. nodes_keyed toks s \<Longrightarrow> \<forall>n \<in> A. keyed toks (x_nodes s) n \<Longrightarrow>
    keeps_keys toks s (snd (a s)) \<and> (\<forall>r. fst (a s) = Ok r \<longrightarrow> (\<forall>n \<in> f r. keyed toks (x_nodes (snd (a s))) n))"
  shows "yields toks A f a"
  using assms by (simp add: yields_def)

lemma yieldsD:
  "yields toks A f a \<Longrightarrow> nodes_keyed toks s \<Longrightarrow> \<forall>n \<in> A. keyed toks (x_nodes s) n \<Longrightarrow>
   keeps_keys toks s (snd (a s)) \<and> (\<forall>r. fst (a s) = Ok r \<longrightarrow> (\<forall>n \<in> f r. keyed toks (x_nodes (snd (a s))) n))"
  by (simp add: yields_def)

lemma yields_weaken: "yields toks A f a \<Longrightarrow> A \<subseteq> B \<Longrightarrow> yields toks B f a"
  unfolding yields_def by blast

named_theorems key_intros "actions that keep the keys of execution nodes"

lemma yields_andThen:
  assumes "yields toks A f a" "\<And>r. yields toks (A \<union> f r) g (k r)"
  shows "yields toks A g (andThen a k)"
proof (rule yieldsI)
  fix s :: "('b, 'c, 'd) exec_state"
  assume s: "nodes_keyed toks s" "\<forall>n \<in> A. keyed toks (x_nodes s) n"
  note a = yieldsD [OF assms(1) s]
  obtain r s' where run: "a s = (r, s')" by fastforce
  show "keeps_keys toks s (snd (andThen a k s)) \<and> (\<forall>r. fst (andThen a k s) = Ok r \<longrightarrow> (\<forall>n \<in> g r. keyed toks (x_nodes (snd (andThen a k s))) n))"
  proof (cases r)
    case (Ok x)
    have "nodes_keyed toks s'" "\<forall>n \<in> A \<union> f x. keyed toks (x_nodes s') n"
      using a run Ok s(2) by (auto simp: keeps_keys_def)
    note k = yieldsD [OF assms(2) this]
    show ?thesis
      using k keeps_keys_trans [of toks s s'] a run Ok by (auto simp: andThen_def)
  qed (use a run in \<open>simp_all add: andThen_def\<close>)
qed

lemma yields_then [key_intros]: "yields toks A (\<lambda>_. {}) a \<Longrightarrow> (\<And>r. yields toks A f (k r)) \<Longrightarrow> yields toks A f (andThen a k)"
  by (rule yields_andThen [where f = "\<lambda>_. {}"]) simp_all

lemma yields_pure:
  assumes "\<And>s. snd (a s) = s" "\<And>s r. fst (a s) = Ok r \<Longrightarrow> f r \<subseteq> A"
  shows "yields toks A f a"
  using assms by (fastforce simp: yields_def keeps_keys_def)

lemma yields_ret: "f x \<subseteq> A \<Longrightarrow> yields toks A f (ret x)"
  by (rule yields_pure) auto

lemma yields_simple [key_intros]:
  "yields toks A (\<lambda>_. {}) (ret x)" "yields toks A (\<lambda>_. {}) (Pair y)" "yields toks A f panic" "yields toks A f out_of_fuel"
  "yields toks A (\<lambda>_. {}) (lift_outcome z)"
  by (rule yields_pure; simp add: panic_def out_of_fuel_def lift_outcome_def)+

lemma yields_catch:
  assumes "yields toks A f a" "\<And>err. yields toks A f (h err)"
  shows "yields toks A f (catch a h)"
proof (rule yieldsI)
  fix s :: "('b, 'c, 'd) exec_state"
  assume s: "nodes_keyed toks s" "\<forall>n \<in> A. keyed toks (x_nodes s) n"
  note a = yieldsD [OF assms(1) s]
  obtain r s' where run: "a s = (r, s')" by fastforce
  show "keeps_keys toks s (snd (catch a h s)) \<and> (\<forall>r. fst (catch a h s) = Ok r \<longrightarrow> (\<forall>n \<in> f r. keyed toks (x_nodes (snd (catch a h s))) n))"
  proof (cases r)
    case (Error err)
    have "nodes_keyed toks s'" "\<forall>n \<in> A. keyed toks (x_nodes s') n"
      using a run s(2) by (auto simp: keeps_keys_def)
    then show ?thesis
      using yieldsD [OF assms(2) [of err]] keeps_keys_trans [of toks s s'] a run Error by (auto simp: catch_def)
  qed (use a run in \<open>simp_all add: catch_def\<close>)
qed


section \<open>Actions on results\<close>

lemma yields_results:
  assumes "\<And>s. x_nodes (snd (a s)) = x_nodes s"
    and "\<And>s r nodes vals. r \<in> set (x_results (snd (a s))) \<Longrightarrow> result_Value r = ResultKindObject nodes vals \<Longrightarrow>
      (\<exists>r' \<in> set (x_results s). result_Value r' = ResultKindObject nodes vals) \<or> set nodes \<subseteq> A"
  shows "yields toks A (\<lambda>_. {}) a"
proof (rule yieldsI)
  fix s :: "('a, 'b, 'c) exec_state"
  assume s: "nodes_keyed toks s" "\<forall>n \<in> A. keyed toks (x_nodes s) n"
  have "keyed toks (x_nodes s) n" if "r \<in> set (x_results (snd (a s)))" "result_Value r = ResultKindObject nodes vals" "n \<in> set nodes" for r nodes vals n
    using assms(2) [OF that(1,2)] s that(3) by (auto simp: nodes_keyed_def)
  then show "keeps_keys toks s (snd (a s)) \<and> (\<forall>r. fst (a s) = Ok r \<longrightarrow> (\<forall>n \<in> {}. keyed toks (x_nodes (snd (a s))) n))"
    using s(1) by (simp add: keeps_keys_def nodes_keyed_def assms(1))
qed

lemma in_set_update: "r \<in> set (xs[a := x]) \<Longrightarrow> r = x \<and> a < length xs \<or> r \<in> set xs"
  using subsetD [OF set_update_subset_insert, of r xs a x] by (cases "a < length xs") (auto simp: list_update_beyond not_less)

lemma yields_set_value:
  assumes "\<And>nodes vals. v = ResultKindObject nodes vals \<Longrightarrow> set nodes \<subseteq> A"
  shows "yields toks A (\<lambda>_. {}) (set_value a v)"
  using assms by (intro yields_results) (auto simp: set_value_def update_result_def dest!: in_set_update)

lemma yields_set_simple [key_intros]:
  "yields toks A (\<lambda>_. {}) (set_value a ResultKindNil)" "yields toks A (\<lambda>_. {}) (set_value a (ResultKindLeaf v))"
  "yields toks A (\<lambda>_. {}) (set_value a (ResultKindList nodes))"
  by (rule yields_set_value; simp)+

lemma yields_new_results [key_intros]: "yields toks A (\<lambda>_. {}) (new_results n)"
  by (rule yields_results) (auto simp: new_results_def)

lemma yields_EmplaceBack [key_intros]: "yields toks A (\<lambda>_. {}) (EmplaceBack p b)"
proof (rule yields_results)
  fix s :: "('a, 'b, 'c) exec_state" and r nodes vals
  assume "r \<in> set (x_results (snd (EmplaceBack p b s)))" "result_Value r = ResultKindObject nodes vals"
  then show "(\<exists>r' \<in> set (x_results s). result_Value r' = ResultKindObject nodes vals) \<or> set nodes \<subseteq> A"
    by (auto simp: EmplaceBack_def dest!: in_set_update split: result_value.splits)
qed (simp add: EmplaceBack_def)

lemma yields_parent [key_intros]:
  "yields toks A (\<lambda>_. {}) (update_result a (\<lambda>n. n\<lparr>result_Parent := p, result_RejectNull := b\<rparr>))"
  by (rule yields_results) (auto simp: update_result_def dest!: in_set_update)

lemma yields_propagate [key_intros]: "yields toks A (\<lambda>_. {}) (propagateExecutionError fuel result)"
proof (induction fuel arbitrary: result)
  case (Suc fuel)
  show ?case
  proof (rule yieldsI)
    fix s :: "('a, 'b, 'c) exec_state"
    assume s: "nodes_keyed toks s" "\<forall>n \<in> A. keyed toks (x_nodes s) n"
    show "keeps_keys toks s (snd (propagateExecutionError (Suc fuel) result s)) \<and>
        (\<forall>r. fst (propagateExecutionError (Suc fuel) result s) = Ok r \<longrightarrow> (\<forall>n \<in> {}. keyed toks (x_nodes (snd (propagateExecutionError (Suc fuel) result s))) n))"
      using s keeps_keys_refl [OF s(1)] yieldsD [OF yields_then [OF yields_set_simple(1) Suc.IH] s]
      by (auto split: option.splits)
  qed
qed (simp add: key_intros)


text \<open>An action that looks at the state first.\<close>

lemma yields_read:
  assumes "\<And>s. yields toks A f (b s)" "\<And>s. a s = b s s"
  shows "yields toks A f a"
  using assms(1) by (simp add: yields_def assms(2))

lemma yields_AppendError [key_intros]: "yields toks A (\<lambda>_. {}) (AppendError err result)"
proof (rule yieldsI)
  fix s :: "('a, 'b, 'c) exec_state"
  assume s: "nodes_keyed toks s" "\<forall>n \<in> A. keyed toks (x_nodes s) n"
  let ?s = "s\<lparr>x_errs := x_errs s @ [err]\<rparr>"
  have "nodes_keyed toks ?s" "\<forall>n \<in> A. keyed toks (x_nodes ?s) n"
    using s by (simp_all add: nodes_keyed_def)
  then have "keeps_keys toks ?s (snd (propagateExecutionError fuel p ?s))" for fuel p
    using yieldsD [OF yields_propagate] by blast
  then show "keeps_keys toks s (snd (AppendError err result s)) \<and>
      (\<forall>r. fst (AppendError err result s) = Ok r \<longrightarrow> (\<forall>n \<in> {}. keyed toks (x_nodes (snd (AppendError err result s))) n))"
    using keeps_keys_refl [OF s(1)] by (auto simp: AppendError_def keeps_keys_def split: option.splits)
qed

lemma yields_handleNodeError [key_intros]: "yields toks A (\<lambda>_. {}) (handleNodeError e node err result)"
  by (rule yields_read [where b = "\<lambda>s. andThen (lift_outcome (definition_locations (e_env e) (node_Definitions (x_nodes s ! node)))) (\<lambda>locations.
     andThen (lift_outcome (result_Path (v_toks (e_env e)) s result)) (\<lambda>path.
     andThen (set_value result ResultKindNil) (\<lambda>_.
     AppendError (node_error err locations path) result)))"])
    (intro key_intros, simp add: handleNodeError_def)

lemma yields_field_error [key_intros]: "yields toks A (\<lambda>_. {}) (field_error e node f args result)"
  by (rule yields_read [where b = "\<lambda>s. andThen (lift_outcome (parentFieldType e s node)) (\<lambda>t.
       case node_Field (x_nodes s ! node) of
         None \<Rightarrow> panic
       | Some fieldDef \<Rightarrow> handleNodeError e node (NewError (f (type_Name (v_types (e_env e)) t @ ''.'' @ field_Name fieldDef)) args) result)"])
    (auto simp: field_error_def intro!: key_intros split: option.split)

lemma yields_prologue [key_intros]: "yields toks A (\<lambda>_. {}) (completeValuePrologue e node result v)"
  unfolding completeValuePrologue_def by (auto intro!: key_intros split: option.split)

lemma yields_outside [key_intros]: "yields toks A (\<lambda>_. {}) (outside a)"
  by (rule yields_results) (auto simp: outside_def split: prod.splits)

lemma yields_leaf [key_intros]: "yields toks A (\<lambda>_. {}) (completeLeafValue e node t result v)"
  unfolding completeLeafValue_def by (auto simp: Let_def intro!: key_intros split: sum.split)

section \<open>Collected nodes\<close>

lemma keeps_keys_nodes:
  assumes "nodes_keyed toks s" "\<And>n. keyed toks (x_nodes s) n \<Longrightarrow> keyed toks nodes n"
    and "\<And>m n. m \<in> set nodes \<Longrightarrow> n \<in> child_nodes m \<Longrightarrow> keyed toks (x_nodes s) n"
  shows "keeps_keys toks s (s\<lparr>x_nodes := nodes\<rparr>)"
  using assms unfolding keeps_keys_def nodes_keyed_def by simp

lemma yields_new_node:
  assumes "node_Children node = []" "node_ResponseKey toks node \<noteq> None"
  shows "yields toks A (\<lambda>n. {n}) (new_node node)"
proof (rule yieldsI)
  fix s :: "('a, 'b, 'c) exec_state"
  assume s: "nodes_keyed toks s" "\<forall>n \<in> A. keyed toks (x_nodes s) n"
  have "keeps_keys toks s (s\<lparr>x_nodes := x_nodes s @ [node]\<rparr>)"
    by (rule keeps_keys_nodes [OF s(1)]) (use s(1) assms in \<open>auto simp: keyed_def nth_append child_nodes_def nodes_keyed_def\<close>)
  then show "keeps_keys toks s (snd (new_node node s)) \<and> (\<forall>r. fst (new_node node s) = Ok r \<longrightarrow> (\<forall>n \<in> {r}. keyed toks (x_nodes (snd (new_node node s))) n))"
    using assms(2) by (simp add: new_node_def keyed_def)
qed

lemma yields_update_node:
  assumes key: "\<And>n. node_ResponseKey toks n \<noteq> None \<Longrightarrow> node_ResponseKey toks (f n) \<noteq> None" and children: "\<And>n. child_nodes (f n) \<subseteq> child_nodes n \<union> A"
  shows "yields toks A (\<lambda>_. {}) (update_node a f)"
proof (rule yieldsI)
  fix s :: "('a, 'b, 'c) exec_state"
  assume s: "nodes_keyed toks s" "\<forall>n \<in> A. keyed toks (x_nodes s) n"
  have "keeps_keys toks s (s\<lparr>x_nodes := (x_nodes s)[a := f (x_nodes s ! a)]\<rparr>)"
  proof (rule keeps_keys_nodes [OF s(1)])
    show "keyed toks ((x_nodes s)[a := f (x_nodes s ! a)]) n" if "keyed toks (x_nodes s) n" for n
      using that key [of "x_nodes s ! a"] by (cases "n = a") (simp_all add: keyed_def)
    show "keyed toks (x_nodes s) n" if m: "m \<in> set ((x_nodes s)[a := f (x_nodes s ! a)])" "n \<in> child_nodes m" for m n
    proof -
      consider "m \<in> set (x_nodes s)" | "m = f (x_nodes s ! a)" "x_nodes s ! a \<in> set (x_nodes s)"
        using in_set_update [OF m(1)] by auto
      then show ?thesis
      proof cases
        case 2
        then have "n \<in> child_nodes (x_nodes s ! a) \<or> n \<in> A"
          using children m(2) by blast
        then show ?thesis
          using s 2(2) by (auto simp: nodes_keyed_def)
      qed (use s(1) m(2) in \<open>auto simp: nodes_keyed_def\<close>)
    qed
  qed
  then show "keeps_keys toks s (snd (update_node a f s)) \<and> (\<forall>r. fst (update_node a f s) = Ok r \<longrightarrow> (\<forall>n \<in> {}. keyed toks (x_nodes (snd (update_node a f s))) n))"
    by (simp add: update_node_def)
qed

lemma yields_collect_field:
  assumes "ResponseKey toks sel \<noteq> None"
  shows "yields toks (set (c_childNodes col)) (\<lambda>col. set (c_childNodes col)) (collect_field e p t sel k name args col)"
proof (cases "c_fields col k")
  case (Some a)
  have "yields toks (set (c_childNodes col)) (\<lambda>_. {}) (update_node a (\<lambda>n. n\<lparr>node_Definitions := node_Definitions n @ [sel]\<rparr>))"
    by (rule yields_update_node) (auto simp: node_ResponseKey_def child_nodes_def split: list.splits)
  then show ?thesis
    by (auto simp: collect_field_def Some intro!: yields_then yields_ret)
next
  case None
  have new: "yields toks A (\<lambda>n. {n}) (new_node \<lparr>node_Parent = Some p, node_Definitions = [sel], node_Field = Some f, node_Args = as, node_Children = []\<rparr>)"
    for A f as
    by (rule yields_new_node) (use assms in \<open>simp_all add: node_ResponseKey_def\<close>)
  show ?thesis
    by (auto simp: collect_field_def None Let_def intro!: yields_ret yields_then yields_andThen [OF new] key_intros split: option.split)
qed


lemma yields_collect_selection:
  "yields toks (set (c_childNodes col)) (\<lambda>(col, push). set (c_childNodes col)) (collect_selection e p t sel col)"
proof (cases sel)
  case (FieldNode alias' name args ds ss)
  have "ResponseKey toks sel \<noteq> None"
    by (cases alias') (simp_all add: FieldNode)
  note field = yields_collect_field [OF this, unfolded FieldNode]
  show ?thesis
    by (auto simp: collect_selection_def FieldNode intro!: yields_ret yields_then yields_andThen [OF field] key_intros)
qed (auto simp: collect_selection_def Let_def intro!: yields_ret yields_then key_intros split: option.split)

lemma yields_build_loop:
  "yields toks (set (c_childNodes col)) (\<lambda>col. set (c_childNodes col)) (build_loop fuel e p t stack col)"
proof (induction fuel arbitrary: stack col)
  case 0
  show ?case
    by (cases stack) (auto intro!: yields_pure)
next
  case (Suc fuel)
  show ?case
  proof (cases stack)
    case (Cons task rest)
    obtain ss i where task: "task = (ss, i)" by fastforce
    show ?thesis
      unfolding Cons task build_loop.simps
      by (auto simp: Let_def intro!: yields_andThen [OF yields_collect_selection] yields_weaken [OF Suc.IH] split: prod.split)
  qed (auto intro!: yields_pure)
qed

lemma yields_buildChild: "yields toks A set (buildChildExecutionNodesForSelectionSet e node t)"
proof (rule yields_read [where b = "\<lambda>s. let sets = initial_sets e (x_nodes s ! node) in
     andThen (build_loop (build_fuel e sets) e node t (map (\<lambda>ss. (ss, 0)) sets) nothing_collected) (\<lambda>col. ret (c_childNodes col))"])
  fix s :: "('a, 'b, 'c) exec_state"
  have "yields toks A (\<lambda>col. set (c_childNodes col)) (build_loop fuel e node t stack nothing_collected)" for fuel stack
    using yields_weaken [OF yields_build_loop [of toks nothing_collected fuel e node t stack], of A] by (simp add: nothing_collected_def)
  then show "yields toks A set (let sets = initial_sets e (x_nodes s ! node) in
     andThen (build_loop (build_fuel e sets) e node t (map (\<lambda>ss. (ss, 0)) sets) nothing_collected) (\<lambda>col. ret (c_childNodes col)))"
    by (auto simp: Let_def intro!: yields_andThen yields_ret)
qed (simp add: buildChildExecutionNodesForSelectionSet_def Let_def)

lemma yields_store_children:
  "set nodes \<subseteq> A \<Longrightarrow> yields toks A set (andThen (update_node node (\<lambda>n. n\<lparr>node_Children := (t, nodes) # node_Children n\<rparr>)) (\<lambda>_. ret nodes))"
  by (intro yields_then yields_update_node yields_ret) (auto simp: node_ResponseKey_def child_nodes_def)

lemma collectFields_keys:
  assumes s: "nodes_keyed toks s" and node: "node < length (x_nodes s)"
  shows "keeps_keys toks s (snd (collectFields e node t s)) \<and>
    (\<forall>r. fst (collectFields e node t s) = Ok r \<longrightarrow> (\<forall>n \<in> set r. keyed toks (x_nodes (snd (collectFields e node t s))) n))"
proof (cases "map_of (node_Children (x_nodes s ! node)) t")
  case None
  have "yields toks {} set (andThen (buildChildExecutionNodesForSelectionSet e node t) (\<lambda>nodes.
      andThen (update_node node (\<lambda>n. n\<lparr>node_Children := (t, nodes) # node_Children n\<rparr>)) (\<lambda>_. ret nodes)))"
    by (intro yields_andThen [OF yields_buildChild] yields_store_children) simp
  then show ?thesis
    using yieldsD [OF _ s, where A = "{}"] None by (auto simp: collectFields_def)
next
  case (Some nodes)
  have "keyed toks (x_nodes s) n" if "n \<in> set nodes" for n
    using s node map_of_SomeD [OF Some] that nth_mem [OF node] by (force simp: nodes_keyed_def child_nodes_def)
  then show ?thesis
    using yieldsD [OF yields_store_children [OF subset_refl] s, of nodes node t] Some by (simp add: collectFields_def)
qed

lemma yields_collectFields: "node \<in> A \<Longrightarrow> yields toks A set (collectFields e node t)"
  by (rule yieldsI) (rule collectFields_keys, auto simp: keyed_def)

section \<open>Completion\<close>

definition dispatch_keeps :: "token list \<Rightarrow> ('v, 'x, 'w) dispatch \<Rightarrow> bool" where
  "dispatch_keeps toks dispatch \<longleftrightarrow> (\<forall>A result nodes v. set nodes \<subseteq> A \<longrightarrow> yields toks A (\<lambda>_. {}) (dispatch result nodes v))"

lemma yields_object:
  assumes "dispatch_keeps toks dispatch" "node \<in> A"
  shows "yields toks A (\<lambda>_. {}) (completeObjectValue dispatch e node t result v)"
proof -
  have "yields toks A (\<lambda>r. case r of None \<Rightarrow> {} | Some ns \<Rightarrow> set ns) (catch (andThen (collectFields e node t) (\<lambda>ns. ret (Some ns)))
      (\<lambda>err. andThen (handleNodeError e node err result) (\<lambda>_. ret None)))"
    by (intro yields_catch yields_andThen [OF yields_collectFields] yields_then yields_handleNodeError yields_ret) (use assms(2) in auto)
  then show ?thesis
    unfolding completeObjectValue_def
    by (rule yields_andThen) (use assms in \<open>auto simp: dispatch_keeps_def intro!: key_intros split: option.split\<close>)
qed

lemma yields_abstract:
  "dispatch_keeps toks dispatch \<Longrightarrow> node \<in> A \<Longrightarrow> yields toks A (\<lambda>_. {}) (completeAbstractValue dispatch e node t result v)"
  unfolding completeAbstractValue_def
  by (auto simp: Let_def intro!: key_intros yields_catch yields_object split: option.split)

lemma yields_NonWrapping:
  "dispatch_keeps toks dispatch \<Longrightarrow> node \<in> A \<Longrightarrow> yields toks A (\<lambda>_. {}) (completeNonWrappingValue dispatch e node t result v)"
  unfolding completeNonWrappingValue_def
  by (auto simp: Let_def intro!: key_intros yields_object yields_abstract)


lemma yields_if_state: "yields toks A f a \<Longrightarrow> yields toks A f b \<Longrightarrow> yields toks A f (\<lambda>s. if P s then a s else b s)"
  by (simp add: yields_def)

lemma yields_complete_elements:
  assumes "\<And>r v. yields toks A (\<lambda>_. {}) (complete r v)"
  shows "yields toks A (\<lambda>_. {}) (complete_elements complete nullable result vs)"
  by (induction vs) (auto intro!: key_intros assms yields_if_state)

lemma yields_queue_elements: "yields toks A (\<lambda>_. {}) (queue_elements nullable result vs)"
  by (induction vs) (auto intro!: key_intros)

lemma yields_iteration_error [key_intros]: "yields toks A (\<lambda>_. {}) (iteration_error e node result err)"
  unfolding iteration_error_def by (auto intro!: key_intros split: option.split)

lemma yields_completeListValue:
  assumes "\<And>t r v. yields toks A (\<lambda>_. {}) (complete t r v)"
  shows "yields toks A (\<lambda>_. {}) (completeListValue complete e node nonNull elementType result v)"
  unfolding completeListValue_def
  by (auto intro!: key_intros yields_complete_elements yields_queue_elements assms split: option.split gtype.split)

lemma yields_completeQueuedValue:
  assumes "\<And>t r v. yields toks A (\<lambda>_. {}) (complete t r v)"
  shows "yields toks A (\<lambda>_. {}) (completeQueuedValue complete e node t result v)"
proof (rule yields_read [where b = "\<lambda>s.
     case result_Parent (x_results s ! result) of
       None \<Rightarrow> panic
     | Some parent \<Rightarrow>
         if result_IsNil s parent then ret []
         else if e_IsNullish e v then
           andThen (if IsNonNullType t
                    then field_error e node (\<lambda>f. ''Cannot return null for non-nullable field '' @ f @ ''.'') [] result
                    else set_value result ResultKindNil) (\<lambda>_. ret [])
         else case inner_type t of
             ListOf elementType \<Rightarrow> completeListValue complete e node (IsNonNullType t) elementType result v
           | Named t \<Rightarrow> andThen (complete t result v) (\<lambda>_. ret [])
           | NonNullOf t \<Rightarrow>
               andThen (handleNodeError e node (NewError (''Cannot complete value of unexpected type '' @ quoted (e_fmt_type e (NonNullOf t)) @ ''.'') []) result)
                 (\<lambda>_. ret [])"], goal_cases)
  case (1 s)
  show ?case
    by (auto intro!: key_intros yields_completeListValue assms split: option.split gtype.split)
next
  case (2 s)
  show ?case
    by (simp add: completeQueuedValue_def panic_def split: option.split gtype.split)
qed

lemma yields_wrapping_loop:
  assumes "\<And>t r v. yields toks A (\<lambda>_. {}) (complete t r v)"
  shows "yields toks A (\<lambda>_. {}) (wrapping_loop complete e node queue)"
proof (induction queue rule: wf_induct_rule [OF wf_inv_image [OF wf_mult [OF wf_less_than], of queue_measure]])
  case (1 queue)
  show ?case
  proof (cases queue)
    case Nil
    then show ?thesis
      by (auto intro!: yields_pure)
  next
    case (Cons item rest)
    obtain t result v where item: "item = (t, result, v)" by (cases item)
    have "yields toks A (\<lambda>_. {}) (wrapping_loop complete e node (rest @ (case element_type t of None \<Rightarrow> [] | Some u \<Rightarrow> map (\<lambda>(r, v). (u, r, v)) pushed)))" for pushed
      by (rule "1.IH") (use queue_measure_step [where queue = rest and t = t and result = result and v = v] in \<open>simp add: Cons item\<close>)
    then show ?thesis
      unfolding Cons item wrapping_loop_Cons by (intro yields_then yields_completeQueuedValue assms)
  qed
qed

lemma yields_Value:
  assumes "dispatch_keeps toks dispatch" "node \<in> A"
  shows "yields toks A (\<lambda>_. {}) (completeValue dispatch e node t result v)"
  unfolding completeValue_def completeWrappingValue_def
  by (auto intro!: key_intros yields_wrapping_loop yields_NonWrapping assms split: gtype.split)

lemma yields_run_task:
  assumes "dispatch_keeps toks dispatch" "node \<in> A"
  shows "yields toks A (\<lambda>_. {}) (run_task dispatch e node result v)"
proof (rule yieldsI)
  fix s :: "('a, 'b, 'c) exec_state"
  assume s: "nodes_keyed toks s" "\<forall>n \<in> A. keyed toks (x_nodes s) n"
  obtain r s' where res: "outside (e_Resolve e node result v) s = (r, s')" by fastforce
  have k: "keeps_keys toks s s'"
    using yieldsD [OF yields_outside s, of "e_Resolve e node result v"] res by simp
  then have s': "nodes_keyed toks s'" "\<forall>n \<in> A. keyed toks (x_nodes s') n"
    using s by (auto simp: keeps_keys_def)
  show "keeps_keys toks s (snd (run_task dispatch e node result v s)) \<and>
      (\<forall>r. fst (run_task dispatch e node result v s) = Ok r \<longrightarrow> (\<forall>n \<in> {}. keyed toks (x_nodes (snd (run_task dispatch e node result v s))) n))"
    using res k keeps_keys_refl [OF s(1)] keeps_keys_trans [OF k] yieldsD [OF yields_Value [OF assms] s'] yieldsD [OF yields_handleNodeError s']
    by (auto simp: run_task_def split: option.split outcome.split)
qed

lemma yields_dispatch_fields:
  assumes "dispatch_keeps toks dispatch"
  shows "fst ` set tasks \<subseteq> A \<Longrightarrow> yields toks A (\<lambda>_. {}) (dispatch_fields dispatch e result v tasks)"
proof (induction tasks)
  case (Cons task tasks)
  obtain node c where task: "task = (node, c)" by fastforce
  show ?case
  proof (rule yields_read [where b = "\<lambda>s. case node_Field (x_nodes s ! node) of None \<Rightarrow> panic | Some field \<Rightarrow>
         andThen (update_result c (\<lambda>n. n\<lparr>result_Parent := Some result, result_RejectNull := IsNonNullType (field_Type field)\<rparr>)) (\<lambda>_.
         andThen (run_task dispatch e node c v) (\<lambda>_. dispatch_fields dispatch e result v tasks))"], goal_cases)
    case (1 s)
    show ?case
      using Cons by (auto simp: task intro!: key_intros yields_run_task assms split: option.split)
  qed (simp add: task panic_def split: option.split)
qed (auto intro!: yields_pure)

lemma dispatch_keeps_dispatchTasksForObject: "dispatch_keeps toks (dispatchTasksForObject fuel e)"
proof (induction fuel)
  case (Suc fuel)
  show ?case
    unfolding dispatch_keeps_def dispatchTasksForObject.simps
    by (auto intro!: key_intros yields_set_value yields_dispatch_fields Suc.IH dest: set_zip_leftD)
qed (auto simp: dispatch_keeps_def intro!: yields_pure)

lemma execute_keys: "nodes_keyed toks (snd (execute fuel e w))"
proof -
  obtain r s where fields: "collectFields e 0 (po_rootType (e_operation e)) (initial_state w) = (r, s)" by fastforce
  have "nodes_keyed toks (initial_state w)"
    by (simp add: nodes_keyed_def initial_state_def child_nodes_def)
  then have s: "nodes_keyed toks s" "r = Ok nodes \<Longrightarrow> \<forall>n \<in> set nodes. keyed toks (x_nodes s) n" for nodes
    using collectFields_keys [of toks "initial_state w" 0 e "po_rootType (e_operation e)"] fields by (auto simp: initial_state_def keeps_keys_def)
  have "yields toks (set nodes) (\<lambda>_. {}) (andThen (new_results 1) (\<lambda>rs. dispatchTasksForObject fuel e (hd rs) nodes (e_rootValue e)))" for nodes
    using dispatch_keeps_dispatchTasksForObject [of toks fuel e] by (auto simp: dispatch_keeps_def intro!: key_intros)
  then have "nodes_keyed toks (snd (andThen (new_results 1) (\<lambda>rs. dispatchTasksForObject fuel e (hd rs) nodes (e_rootValue e)) s))" if "r = Ok nodes" for nodes
    using yieldsD [OF _ s(1) s(2) [OF that]] by (fastforce simp: keeps_keys_def)
  then show ?thesis
    using s(1) by (auto simp: execute_def fields split: outcome.splits go_error.splits prod.splits)
qed

end
