(* ===== verification/ExecutionErrors.thy ===== *)
theory ExecutionErrors
  imports ExecutionSpec
begin

text \<open>
  What an error does to the tree of results. \<open>AppendError\<close> starts at the parent of the node that failed and clears the ancestors as long as the node
  below rejects null. It never looks at the node itself: a non-null field that fails in a nullable object leaves the object with a null at
  a non-null position, where the specification of GraphQL requires the object to be null.
\<close>

section \<open>The ancestors that are cleared\<close>

inductive cleared :: "'v result_node list \<Rightarrow> nat \<Rightarrow> nat \<Rightarrow> bool" for rs :: "'v result_node list" where
  cleared_parent: "result_RejectNull (rs ! p) \<Longrightarrow> result_Parent (rs ! p) = Some q \<Longrightarrow> cleared rs p q"
| cleared_above: "result_RejectNull (rs ! p) \<Longrightarrow> result_Parent (rs ! p) = Some q \<Longrightarrow> cleared rs q a \<Longrightarrow> cleared rs p a"

inductive_cases clearedE: "cleared rs p a"

lemma cleared_iff: "cleared rs p a \<longleftrightarrow> result_RejectNull (rs ! p) \<and> (\<exists>q. result_Parent (rs ! p) = Some q \<and> (a = q \<or> cleared rs q a))"
  by (auto elim: clearedE intro: cleared.intros)

lemma cleared_cong:
  assumes "\<And>a. result_RejectNull (rs' ! a) = result_RejectNull (rs ! a)" "\<And>a. result_Parent (rs' ! a) = result_Parent (rs ! a)"
  shows "cleared rs' p a \<Longrightarrow> cleared rs p a"
  by (induction rule: cleared.induct) (use assms in \<open>auto intro: cleared.intros\<close>)

definition clear :: "(nat \<Rightarrow> bool) \<Rightarrow> 'v result_node list \<Rightarrow> 'v result_node list" where
  "clear P rs = map (\<lambda>a. if P a then (rs ! a)\<lparr>result_Value := ResultKindNil\<rparr> else rs ! a) [0..<length rs]"

lemma clear_nothing: "(\<And>a. \<not> P a) \<Longrightarrow> clear P rs = rs"
  by (simp add: clear_def map_nth)

lemma clear_update:
  "clear P (rs[q := (rs ! q)\<lparr>result_Value := ResultKindNil\<rparr>]) = clear (\<lambda>a. a = q \<or> P a) rs"
proof (rule nth_equalityI)
  fix i assume "i < length (clear P (rs[q := (rs ! q)\<lparr>result_Value := ResultKindNil\<rparr>]))"
  then show "clear P (rs[q := (rs ! q)\<lparr>result_Value := ResultKindNil\<rparr>]) ! i = clear (\<lambda>a. a = q \<or> P a) rs ! i"
    by (cases "i = q") (simp_all add: clear_def)
qed (simp add: clear_def)

lemma propagateExecutionError_effect:
  "result_tree (x_results s) \<Longrightarrow> p < length (x_results s) \<Longrightarrow> p < fuel \<Longrightarrow>
   propagateExecutionError fuel p s = (Ok (), s\<lparr>x_results := clear (cleared (x_results s) p) (x_results s)\<rparr>)"
proof (induction fuel arbitrary: p s)
  case (Suc fuel)
  show ?case
  proof (cases "result_RejectNull (x_results s ! p)")
    case False
    then have "clear (cleared (x_results s) p) (x_results s) = x_results s"
      by (intro clear_nothing) (simp add: cleared_iff [of _ p])
    then show ?thesis
      using False by simp
  next
    case True
    then obtain q where q: "result_Parent (x_results s ! p) = Some q" "q < p"
      using result_treeD [OF Suc.prems(1,2)] by (auto simp: parent_ok_def)
    let ?rs = "(x_results s)[q := (x_results s ! q)\<lparr>result_Value := ResultKindNil\<rparr>]"
    have "extends 0 (x_results s) ?rs"
      by (rule extends_value) (use Suc.prems q in auto)
    then have tree: "result_tree ?rs"
      by (simp add: extends_def)
    have same: "result_RejectNull (?rs ! a) = result_RejectNull (x_results s ! a)" "result_Parent (?rs ! a) = result_Parent (x_results s ! a)" for a
      using q Suc.prems by (cases "a = q"; simp)+
    have "cleared ?rs q = cleared (x_results s) q"
      by (intro ext iffI; rule cleared_cong) (simp_all add: same)
    moreover have "cleared (x_results s) p = (\<lambda>a. a = q \<or> cleared (x_results s) q a)"
      using True q(1) by (auto simp: cleared_iff [of _ p])
    ultimately show ?thesis
      using Suc.IH [of "s\<lparr>x_results := ?rs\<rparr>" q] tree True q Suc.prems
      by (simp add: andThen_def set_value_def update_result_def clear_update)
  qed
qed simp

text \<open>
  C18: an error at a node below \<open>p\<close>. If \<open>p\<close> is nil already, the error is dropped; otherwise it is added to the errors, and exactly those
  ancestors become nil that are reached from \<open>p\<close> upwards through nodes that reject null. The loop ends, and does not dereference a nil parent. The node
  that failed is not looked at.
\<close>

theorem AppendError_effect:
  assumes "result_tree (x_results s)" "result < length (x_results s)" "result_Parent (x_results s ! result) = Some p"
  shows "AppendError err result s =
    (Ok (), if result_IsNil s p then s
            else s\<lparr>x_errs := x_errs s @ [err], x_results := clear (cleared (x_results s) p) (x_results s)\<rparr>)"
proof -
  have "p < length (x_results s)"
    using result_treeD [OF assms(1,2)] assms(2,3) by (simp add: parent_ok_def)
  then show ?thesis
    using propagateExecutionError_effect [of "s\<lparr>x_errs := x_errs s @ [err]\<rparr>" p "length (x_results s)"] assms
    by (simp add: AppendError_def)
qed


text \<open>
  The path of a node whose parent has been cleared: the loop passes over the parent and looks for the node among the fields of the grandparent, where
  it is not.
\<close>

lemma Path_below_nil:
  assumes tree: "result_tree (x_results s)" and node: "node < length (x_results s)" "result_Parent (x_results s ! node) = Some p"
    and p: "result_Value (x_results s ! p) = ResultKindNil" "result_Parent (x_results s ! p) = Some g"
    and g: "result_Value (x_results s ! g) = ResultKindObject nodes vals"
  shows "result_Path toks s node = Panic"
proof -
  have less: "p < node" "g < p"
    using result_treeD [OF tree, of node] result_treeD [OF tree, of p] node p by (auto simp: parent_ok_def)
  then have "node \<notin> set vals"
    using result_treeD [OF tree, of g] node g by (auto simp: holds_ok_def held_def)
  moreover obtain n where "length (x_results s) = Suc (Suc n)"
    using less node(1) by (metis Suc_lessE less_Suc_eq not_less_zero old.nat.exhaust)
  ultimately show ?thesis
    using node p g by (simp add: result_Path_def position_def)
qed

text \<open>A non-null object below a nullable one: when a field of the inner object fails, the outer object is cleared.\<close>

definition sample_nested :: "string result_node list" where
  "sample_nested =
     [\<lparr>result_Parent = None, result_RejectNull = False, result_Value = ResultKindObject [1] [1]\<rparr>,
      \<lparr>result_Parent = Some 0, result_RejectNull = True, result_Value = ResultKindObject [2] [2]\<rparr>,
      \<lparr>result_Parent = Some 1, result_RejectNull = False, result_Value = ResultKindNil\<rparr>]"

lemma sample_nested_tree: "result_tree sample_nested"
  by (auto simp: result_tree_def parent_ok_def holds_ok_def held_def sample_nested_def nth_Cons')

lemma sample_nested_cleared: "cleared sample_nested 1 a \<longleftrightarrow> a = 0"
  by (simp add: cleared_iff [of _ "Suc 0"] cleared_iff [of _ 0] sample_nested_def)

theorem AppendError_effect_witness:
  "AppendError (plain_error ''broken'') 2 (sample_start\<lparr>x_results := sample_nested\<rparr>) =
     (Ok (), sample_start\<lparr>x_errs := [plain_error ''broken''],
        x_results := sample_nested[0 := \<lparr>result_Parent = None, result_RejectNull = False, result_Value = ResultKindNil\<rparr>]\<rparr>)"
proof -
  have "AppendError (plain_error ''broken'') 2 (sample_start\<lparr>x_results := sample_nested\<rparr>) =
    (Ok (), if result_IsNil (sample_start\<lparr>x_results := sample_nested\<rparr>) 1 then sample_start\<lparr>x_results := sample_nested\<rparr>
            else (sample_start\<lparr>x_results := sample_nested\<rparr>)\<lparr>x_errs := x_errs (sample_start\<lparr>x_results := sample_nested\<rparr>) @ [plain_error ''broken''],
              x_results := clear (cleared sample_nested 1) sample_nested\<rparr>)"
    using AppendError_effect [of "sample_start\<lparr>x_results := sample_nested\<rparr>" 2 1 "plain_error ''broken''"] sample_nested_tree
    by (simp add: sample_nested_def)
  moreover have "clear (cleared sample_nested 1) sample_nested =
      sample_nested[0 := \<lparr>result_Parent = None, result_RejectNull = False, result_Value = ResultKindNil\<rparr>]"
    unfolding sample_nested_cleared by (simp add: clear_def sample_nested_def)
  moreover have "\<not> result_IsNil (sample_start\<lparr>x_results := sample_nested\<rparr>) 1"
    by (simp add: result_IsNil_def sample_nested_def)
  ultimately show ?thesis
    by (simp add: sample_start_def initial_state_def)
qed

section \<open>A null at a non-null position\<close>

lemma sample_location:
  "\<exists>l. ErrorLocationOfASTNode (v_store (e_env sample_execution)) (SelectionNode (FieldNode None (Name (Suc 0)) [] [] [])) = Ok l"
proof -
  have "token_first (store_tokens sample_query_store) (Suc 0) = Some 0"
    by (simp add: token_first.simps sample_query_store_def)
  then have "\<exists>info. token_LocationInfo sample_query_store (Suc 0) = Some info"
    by (simp add: token_LocationInfo_def token_Source_def) (simp add: sample_query_store_def)
  then show ?thesis
    by (auto simp: ErrorLocationOfASTNode_def node_TokenRange_def range_of_def sample_execution_def sample_query_env_def)
qed

text \<open>The state in which the resolver of the sample fails: the root object, and the node of its non-null field.\<close>

definition sample_failing :: "(string, string, unit) exec_state" where
  "sample_failing = sample_start\<lparr>
     x_nodes :=
        [\<lparr>node_Parent = None, node_Definitions = [], node_Field = None, node_Args = Map.empty, node_Children = [(0, [1])]\<rparr>,
         \<lparr>node_Parent = Some 0, node_Definitions = [FieldNode None (Name (Suc 0)) [] [] []], node_Field = Some sample_query_field, node_Args = Map.empty,
          node_Children = []\<rparr>],
     x_results :=
        [\<lparr>result_Parent = None, result_RejectNull = False, result_Value = ResultKindObject [1] [1]\<rparr>,
         \<lparr>result_Parent = Some 0, result_RejectNull = True, result_Value = ResultKindNil\<rparr>]\<rparr>"

lemma sample_failure:
  "\<exists>err. handleNodeError sample_execution 1 (plain_error ''broken'') 1 sample_failing = (Ok (), sample_failing\<lparr>x_errs := [err]\<rparr>)"
proof -
  have append: "AppendError err 1 sample_failing = (Ok (), sample_failing\<lparr>x_errs := [err]\<rparr>)" for err
    by (simp add: AppendError_def sample_failing_def result_IsNil_def sample_start_def initial_state_def)
  have set: "set_value 1 ResultKindNil sample_failing = (Ok (), sample_failing)"
    by (simp add: set_value_def update_result_def sample_failing_def)
  obtain ls where locs: "definition_locations (e_env sample_execution) (node_Definitions (x_nodes sample_failing ! 1)) = (Ok ls :: (string go_error, _) outcome)"
    using sample_location by (auto simp: definition_locations_def sample_failing_def)
  have path: "result_Path (v_toks (e_env sample_execution)) sample_failing 1 = (Ok [FieldName ''ID''] :: (string go_error, _) outcome)"
    by (simp add: result_Path_def sample_failing_def position_def node_ResponseKey_def name_Value_def v_toks_def sample_execution_def sample_query_env_def
        sample_query_store_def)
  show ?thesis
    using append set locs path by (simp add: handleNodeError_def lift_outcome_def andThen_def) (rule exI, rule refl)
qed

lemma sample_execute:
  "\<exists>err. execute 1 sample_execution () = (Ok \<lparr>execution_Data = Some 0, execution_Errors = [err]\<rparr>, sample_failing\<lparr>x_errs := [err]\<rparr>)"
proof -
  obtain err where failure: "handleNodeError sample_execution 1 (plain_error ''broken'') 1 sample_failing = (Ok (), sample_failing\<lparr>x_errs := [err]\<rparr>)"
    using sample_failure by blast
  have resolver: "outside (e_Resolve sample_execution 1 1 GoNil) sample_failing = (Error (plain_error ''broken''), sample_failing)"
    by (simp add: sample_execution_def outside_def fail_def)
  have field: "node_Field (x_nodes sample_failing ! 1) = Some sample_query_field"
    by (simp add: sample_failing_def)
  have run: "run_task d sample_execution 1 1 GoNil sample_failing = (Ok (), sample_failing\<lparr>x_errs := [err]\<rparr>)" for d
    using failure by (simp add: run_task_def resolver [simplified] field [simplified])
  let ?s = "sample_failing\<lparr>x_results :=
      [\<lparr>result_Parent = None, result_RejectNull = False, result_Value = ResultKindObject [1] [1]\<rparr>,
       \<lparr>result_Parent = None, result_RejectNull = False, result_Value = ResultKindNil\<rparr>]\<rparr>"
  have parent: "update_result 1 (\<lambda>n. n\<lparr>result_Parent := Some 0, result_RejectNull := IsNonNullType (field_Type sample_query_field)\<rparr>) ?s = (Ok (), sample_failing)"
    by (simp add: update_result_def sample_failing_def sample_query_field_def)
  have tasks: "dispatch_fields d sample_execution 0 GoNil [(1, 1)] ?s = (Ok (), sample_failing\<lparr>x_errs := [err]\<rparr>)" for d
    using field run parent by (simp add: andThen_def)
  have "dispatchTasksForObject 1 sample_execution 0 [1] GoNil (sample_failing\<lparr>x_results :=
      [\<lparr>result_Parent = None, result_RejectNull = False, result_Value = ResultKindNil\<rparr>]\<rparr>) = (Ok (), sample_failing\<lparr>x_errs := [err]\<rparr>)"
    using tasks by (simp add: new_results_def set_value_def update_result_def andThen_def del: dispatch_fields.simps)
  moreover obtain s where s: "collectFields sample_execution 0 0 sample_start = (Ok [1], s)" "x_results s = []"
      "s\<lparr>x_results := rs\<rparr> = sample_failing\<lparr>x_results := rs\<rparr>" for rs
    using sample_children by (simp add: sample_failing_def sample_start_def initial_state_def)
  ultimately have "andThen (new_results 1) (\<lambda>rs. dispatchTasksForObject 1 sample_execution (hd rs) [1] GoNil) s = (Ok (), sample_failing\<lparr>x_errs := [err]\<rparr>)"
    by (simp add: new_results_def andThen_def del: dispatchTasksForObject.simps)
  then show ?thesis
    using s(1) unfolding execute_def
    by (simp add: sample_start_def del: dispatchTasksForObject.simps) (simp add: sample_execution_def)
qed



end
