(* ===== verification/ResultMarshaler.thy ===== *)
theory ResultMarshaler
  imports ResultKeys ExecutionErrors JsonWriter
begin

text \<open>
  \<open>graphql/executor/result_marshaler.go\<close>: the JSON of a tree of results, and \<open>Marshal\<close> of \<open>jsonwriter/value_marshaler.go\<close>. The marshaler walks over the tree
  with a stack of tasks. For the trees that executions produce it returns, and writes what the recursive description \<open>json_tree\<close> says.

  \<open>WriteInterface\<close>, which inspects a leaf value by reflection, is an argument.
\<close>

section \<open>The marshaler\<close>

datatype marshal_task = ObjectEndTask | ArrayEndTask | MoreTask | FieldTask nat | NodeTask nat

text \<open>The head of the list is the top of the stack. The \<open>moreTask\<close> before the first element is popped.\<close>

definition list_tasks :: "nat list \<Rightarrow> marshal_task list" where
  "list_tasks nodes = tl (concat (map (\<lambda>r. [MoreTask, NodeTask r]) nodes))"

definition object_tasks :: "nat list \<Rightarrow> nat list \<Rightarrow> marshal_task list" where
  "object_tasks nodes vals = tl (concat (map (\<lambda>(n, r). [MoreTask, FieldTask n, NodeTask r]) (zip nodes vals)))"

definition malformed_object :: "'x go_error" where
  "malformed_object = NewError ''malformed object result value: mismatch length of field values with the execution nodes'' []"

type_synonym ('x, 'b) result_stream = "('b, 'x go_error) stream"

fun marshal_loop :: "nat \<Rightarrow> ('b, 'x go_error) writer \<Rightarrow> ('v goval \<Rightarrow> ('x, 'b) result_stream \<Rightarrow> ('x, 'b) result_stream) \<Rightarrow> token list \<Rightarrow> ('v, 'x, 'w) exec_state \<Rightarrow>
    marshal_task list \<Rightarrow> ('x, 'b) result_stream \<Rightarrow> ('x go_error, unit) outcome \<times> ('x, 'b) result_stream" where
  "marshal_loop fuel Write WriteInterface toks s [] stream = (Ok (), stream)"
| "marshal_loop 0 Write WriteInterface toks s (task # stack) stream = (OutOfFuel, stream)"
| "marshal_loop (Suc fuel) Write WriteInterface toks s (task # stack) stream =
     (case task of
        ObjectEndTask \<Rightarrow> marshal_loop fuel Write WriteInterface toks s stack (WriteObjectEnd stream)
      | ArrayEndTask \<Rightarrow> marshal_loop fuel Write WriteInterface toks s stack (WriteArrayEnd stream)
      | MoreTask \<Rightarrow> marshal_loop fuel Write WriteInterface toks s stack (WriteMore stream)
      | FieldTask node \<Rightarrow>
          (case node_ResponseKey toks (x_nodes s ! node) of
             None \<Rightarrow> (Panic, stream)
           | Some key \<Rightarrow> marshal_loop fuel Write WriteInterface toks s stack (WriteObjectField Write key stream))
      | NodeTask result \<Rightarrow>
          (case result_Value (x_results s ! result) of
             ResultKindNil \<Rightarrow> marshal_loop fuel Write WriteInterface toks s stack (WriteNil stream)
           | ResultKindList nodes \<Rightarrow>
               if nodes = [] then marshal_loop fuel Write WriteInterface toks s stack (WriteEmptyArray stream)
               else marshal_loop fuel Write WriteInterface toks s (list_tasks nodes @ ArrayEndTask # stack) (WriteArrayStart stream)
           | ResultKindObject nodes vals \<Rightarrow>
               if vals = [] then marshal_loop fuel Write WriteInterface toks s stack (WriteEmptyObject stream)
               else if length nodes \<noteq> length vals then (Error malformed_object, WriteObjectStart stream)
               else marshal_loop fuel Write WriteInterface toks s (object_tasks nodes vals @ ObjectEndTask # stack) (WriteObjectStart stream)
           | ResultKindLeaf v \<Rightarrow> marshal_loop fuel Write WriteInterface toks s stack (WriteInterface v stream)))"

definition buffer_Write :: "(string, 'e) writer" where
  "buffer_Write w b = (None, w @ b)"

definition Marshal :: "((string, 'e) stream \<Rightarrow> ('e, unit) outcome \<times> (string, 'e) stream) \<Rightarrow> ('e, string) outcome" where
  "Marshal MarshalJSONTo =
     (case MarshalJSONTo (NewStream []) of
        (Ok _, stream) \<Rightarrow> (case Flush buffer_Write stream of (None, stream) \<Rightarrow> Ok (stream_w stream) | (Some err, _) \<Rightarrow> Error err)
      | (Error err, _) \<Rightarrow> Error err
      | (Panic, _) \<Rightarrow> Panic
      | (OutOfFuel, _) \<Rightarrow> OutOfFuel)"

definition result_MarshalJSON :: "nat \<Rightarrow> ('v goval \<Rightarrow> ('x, string) result_stream \<Rightarrow> ('x, string) result_stream) \<Rightarrow> token list \<Rightarrow> ('v, 'x, 'w) exec_state \<Rightarrow> nat \<Rightarrow>
    ('x go_error, string) outcome" where
  "result_MarshalJSON fuel WriteInterface toks s result = Marshal (marshal_loop fuel buffer_Write WriteInterface toks s [NodeTask result])"

interpretation bw: appending_writer buffer_Write append
  by unfold_locales (simp_all add: buffer_Write_def)

section \<open>The JSON of a tree\<close>

fun join_json :: "string list \<Rightarrow> string" where
  "join_json [] = []"
| "join_json [t] = t"
| "join_json (t # u # ts) = t @ '','' @ join_json (u # ts)"

inductive json_tree :: "('v goval \<Rightarrow> string) \<Rightarrow> token list \<Rightarrow> ('v, 'x, 'w) exec_state \<Rightarrow> nat \<Rightarrow> string \<Rightarrow> bool"
  for leaf :: "'v goval \<Rightarrow> string" and toks :: "token list" and s :: "('v, 'x, 'w) exec_state" where
  json_null: "result_Value (x_results s ! a) = ResultKindNil \<Longrightarrow> json_tree leaf toks s a ''null''"
| json_leaf: "result_Value (x_results s ! a) = ResultKindLeaf v \<Longrightarrow> json_tree leaf toks s a (leaf v)"
| json_list: "result_Value (x_results s ! a) = ResultKindList nodes \<Longrightarrow> list_all2 (json_tree leaf toks s) nodes texts \<Longrightarrow>
    json_tree leaf toks s a (''['' @ join_json texts @ '']'')"
| json_object: "result_Value (x_results s ! a) = ResultKindObject nodes vals \<Longrightarrow> map (\<lambda>n. node_ResponseKey toks (x_nodes s ! n)) nodes = map Some keys \<Longrightarrow>
    list_all2 (json_tree leaf toks s) vals texts \<Longrightarrow>
    json_tree leaf toks s a (''{'' @ join_json (map (\<lambda>(k, t). json_string k @ '':'' @ t) (zip keys texts)) @ ''}'')"

section \<open>Correctness\<close>

text \<open>\<open>writes\<close>: the loop works off the tasks, writes the text and goes on with the rest of the stack.\<close>

definition writes :: "('v goval \<Rightarrow> ('x, string) result_stream \<Rightarrow> ('x, string) result_stream) \<Rightarrow> token list \<Rightarrow> ('v, 'x, 'w) exec_state \<Rightarrow> marshal_task list \<Rightarrow> string \<Rightarrow> bool" where
  "writes WriteInterface toks s tasks text' \<longleftrightarrow> (\<exists>n. \<forall>fuel rest stream. stream_err stream = None \<longrightarrow>
     (\<exists>stream'. stream_err stream' = None \<and> bw.contents stream' = bw.contents stream @ text' \<and>
        marshal_loop (n + fuel) buffer_Write WriteInterface toks s (tasks @ rest) stream = marshal_loop fuel buffer_Write WriteInterface toks s rest stream'))"

lemma writes_append:
  fixes s :: "('v, 'x, 'w) exec_state"
  assumes "writes wi toks s ts t" "writes wi toks s us u"
  shows "writes wi toks s (ts @ us) (t @ u)"
proof -
  obtain n m where n: "\<forall>fuel rest stream. stream_err stream = None \<longrightarrow> (\<exists>stream'. stream_err stream' = None \<and> bw.contents stream' = bw.contents stream @ t \<and>
        marshal_loop (n + fuel) buffer_Write wi toks s (ts @ rest) stream = marshal_loop fuel buffer_Write wi toks s rest stream')"
    and m: "\<forall>fuel rest stream. stream_err stream = None \<longrightarrow> (\<exists>stream'. stream_err stream' = None \<and> bw.contents stream' = bw.contents stream @ u \<and>
        marshal_loop (m + fuel) buffer_Write wi toks s (us @ rest) stream = marshal_loop fuel buffer_Write wi toks s rest stream')"
    using assms unfolding writes_def by blast
  show ?thesis
    unfolding writes_def
  proof (intro exI [of _ "n + m"] allI impI)
    fix fuel rest and stream :: "('x, string) result_stream"
    assume "stream_err stream = None"
    then obtain stream1 where s1: "stream_err stream1 = None" "bw.contents stream1 = bw.contents stream @ t"
        "marshal_loop (n + (m + fuel)) buffer_Write wi toks s (ts @ (us @ rest)) stream = marshal_loop (m + fuel) buffer_Write wi toks s (us @ rest) stream1"
      using n by blast
    obtain stream2 where "stream_err stream2 = None" "bw.contents stream2 = bw.contents stream1 @ u"
        "marshal_loop (m + fuel) buffer_Write wi toks s (us @ rest) stream1 = marshal_loop fuel buffer_Write wi toks s rest stream2"
      using m s1(1) by blast
    then show "\<exists>stream'. stream_err stream' = None \<and> bw.contents stream' = bw.contents stream @ t @ u \<and>
        marshal_loop (n + m + fuel) buffer_Write wi toks s ((ts @ us) @ rest) stream = marshal_loop fuel buffer_Write wi toks s rest stream'"
      using s1 by (intro exI [of _ stream2]) (simp add: add.assoc)
  qed
qed

text \<open>A task that calls a function of the stream, and perhaps leaves other tasks.\<close>

lemma writes_task:
  fixes s :: "('v, 'x, 'w) exec_state"
  assumes "\<And>fuel rest stream. marshal_loop (Suc fuel) buffer_Write wi toks s (task # rest) stream = marshal_loop fuel buffer_Write wi toks s (ts @ rest) (f stream)"
    and f: "bw.emits f t" and ts: "writes wi toks s ts u"
  shows "writes wi toks s [task] (t @ u)"
proof -
  obtain n where n: "\<forall>fuel rest stream. stream_err stream = None \<longrightarrow> (\<exists>stream'. stream_err stream' = None \<and> bw.contents stream' = bw.contents stream @ u \<and>
        marshal_loop (n + fuel) buffer_Write wi toks s (ts @ rest) stream = marshal_loop fuel buffer_Write wi toks s rest stream')"
    using ts unfolding writes_def by blast
  show ?thesis
    unfolding writes_def
  proof (intro exI [of _ "Suc n"] allI impI)
    fix fuel rest and stream :: "('x, string) result_stream"
    assume "stream_err stream = None"
    then have f': "stream_err (f stream) = None" "bw.contents (f stream) = bw.contents stream @ t"
      using bw.emitsD [OF f] by auto
    then obtain stream' where "stream_err stream' = None" "bw.contents stream' = bw.contents (f stream) @ u"
        "marshal_loop (n + fuel) buffer_Write wi toks s (ts @ rest) (f stream) = marshal_loop fuel buffer_Write wi toks s rest stream'"
      using n by blast
    then show "\<exists>stream'. stream_err stream' = None \<and> bw.contents stream' = bw.contents stream @ t @ u \<and>
        marshal_loop (Suc n + fuel) buffer_Write wi toks s ([task] @ rest) stream = marshal_loop fuel buffer_Write wi toks s rest stream'"
      using f' assms(1) by (intro exI [of _ stream']) simp
  qed
qed

lemma writes_Nil: "writes wi toks s [] []"
  unfolding writes_def by (intro exI [of _ 0]) auto

lemmas writes_single = writes_task [where ts = "[]" and u = "[]", OF _ _ writes_Nil, simplified]

lemma writes_punctuation:
  "writes wi toks s [ObjectEndTask] ''}''" "writes wi toks s [ArrayEndTask] '']''" "writes wi toks s [MoreTask] '',''"
  by (rule writes_single [where f = WriteObjectEnd], simp_all add: bw.emits_punctuation)
    (rule writes_single [where f = WriteArrayEnd], simp_all add: bw.emits_punctuation,
     rule writes_single [where f = WriteMore], simp_all add: bw.emits_punctuation)

lemma writes_list_tasks:
  "list_all2 (\<lambda>r. writes wi toks s [NodeTask r]) nodes texts \<Longrightarrow> writes wi toks s (list_tasks nodes) (join_json texts)"
proof (induction texts arbitrary: nodes rule: join_json.induct)
  case (3 t u ts)
  then obtain r q rs where nodes: "nodes = r # q # rs"
    by (auto simp: list_all2_Cons2)
  have "writes wi toks s (([NodeTask r] @ [MoreTask]) @ list_tasks (q # rs)) ((t @ '','') @ join_json (u # ts))"
    using "3.prems" nodes by (intro writes_append writes_punctuation(3) "3.IH") simp_all
  then show ?case
    by (simp add: nodes list_tasks_def)
qed (auto simp: list_all2_Cons2 list_tasks_def intro: writes_Nil)

lemma writes_object_tasks:
  "list_all2 (\<lambda>r. writes wi toks s [NodeTask r]) vals texts \<Longrightarrow> map (\<lambda>n. node_ResponseKey toks (x_nodes s ! n)) nodes = map Some keys \<Longrightarrow>
   length nodes = length vals \<Longrightarrow>
   writes wi toks s (object_tasks nodes vals) (join_json (map (\<lambda>(k, t). json_string k @ '':'' @ t) (zip keys texts)))"
proof (induction vals texts arbitrary: nodes keys rule: list_all2_induct)
  case Nil
  then show ?case
    by (simp add: object_tasks_def writes_Nil)
next
  case (Cons r rs t ts)
  obtain n ns k ks where nk: "nodes = n # ns" "keys = k # ks" "node_ResponseKey toks (x_nodes s ! n) = Some k"
      "map (\<lambda>n. node_ResponseKey toks (x_nodes s ! n)) ns = map Some ks" "length ns = length rs"
    using Cons.prems by (cases nodes; cases keys) auto
  have "writes wi toks s [FieldTask n] (json_string k @ '':'')"
    by (rule writes_single [where f = "WriteObjectField buffer_Write k"]) (simp_all add: nk(3) bw.emits_WriteObjectField)
  then have first: "writes wi toks s ([FieldTask n] @ [NodeTask r]) ((json_string k @ '':'') @ t)"
    using Cons.hyps(1) by (rule writes_append)
  note later = Cons.IH [OF nk(4,5)] and same = list_all2_lengthD [OF Cons.hyps(2)]
  show ?case
  proof (cases "rs = []")
    case True
    then show ?thesis
      using first same nk by (simp add: object_tasks_def)
  next
    case False
    then obtain r' rs' t' ts' n' ns' k' ks' where rest: "rs = r' # rs'" "ts = t' # ts'" "ns = n' # ns'" "ks = k' # ks'"
      using same nk(5) map_eq_imp_length_eq [OF nk(4)] by (cases rs; cases ts; cases ns; cases ks) auto
    have "writes wi toks s ((([FieldTask n] @ [NodeTask r]) @ [MoreTask]) @ object_tasks ns rs)
        ((((json_string k @ '':'') @ t) @ '','') @ join_json (map (\<lambda>(k, t). json_string k @ '':'' @ t) (zip ks ts)))"
      by (intro writes_append first writes_punctuation(3) later)
    then show ?thesis
      by (simp add: nk(1,2) rest object_tasks_def)
  qed
qed

lemma list_all2_choice: "(\<And>c. c \<in> set xs \<Longrightarrow> \<exists>t. P c t) \<Longrightarrow> \<exists>ts. list_all2 P xs ts"
  by (induction xs) (auto simp: list_all2_Cons1)

lemma marshal_node:
  assumes tree: "result_tree (x_results s)" and keys: "nodes_keyed toks s" and leaf: "\<And>v. bw.emits (wi v) (leaf v)"
  shows "a < length (x_results s) \<Longrightarrow> \<exists>t. json_tree leaf toks s a t \<and> writes wi toks s [NodeTask a] t"
proof (induction "length (x_results s) - a" arbitrary: a rule: less_induct)
  case less
  let ?P = "\<lambda>c t. json_tree leaf toks s c t \<and> writes wi toks s [NodeTask c] t"
  have children: "\<exists>ts. list_all2 (json_tree leaf toks s) cs ts \<and> list_all2 (\<lambda>r. writes wi toks s [NodeTask r]) cs ts"
    if "set cs = held (result_Value (x_results s ! a))" for cs
  proof -
    have "\<exists>t. ?P c t" if "c \<in> set cs" for c
    proof -
      have "a < c" "c < length (x_results s)"
        using result_treeD [OF tree less.prems] that \<open>set cs = held (result_Value (x_results s ! a))\<close> by (auto simp: holds_ok_def)
      then show ?thesis
        using less.hyps [of c] by simp
    qed
    then obtain ts where "list_all2 ?P cs ts"
      using list_all2_choice [of cs ?P] by blast
    then show ?thesis
      by (auto elim: list_all2_mono)
  qed
  show ?case
  proof (cases "result_Value (x_results s ! a)")
    case ResultKindNil
    have "writes wi toks s [NodeTask a] ''null''"
      by (rule writes_single [where f = WriteNil]) (simp_all add: ResultKindNil bw.emits_punctuation)
    then show ?thesis
      using json_null ResultKindNil by blast
  next
    case (ResultKindLeaf v)
    have "writes wi toks s [NodeTask a] (leaf v)"
      by (rule writes_single [where f = "wi v"]) (simp_all add: ResultKindLeaf leaf)
    then show ?thesis
      using json_leaf ResultKindLeaf by blast
  next
    case (ResultKindList nodes)
    then obtain ts where ts: "list_all2 (json_tree leaf toks s) nodes ts" "list_all2 (\<lambda>r. writes wi toks s [NodeTask r]) nodes ts"
      using children [of nodes] by (auto simp: held_def)
    have "writes wi toks s [NodeTask a] (''['' @ join_json ts @ '']'')"
    proof (cases "nodes = []")
      case True
      have "writes wi toks s [NodeTask a] ''[]''"
        by (rule writes_single [where f = WriteEmptyArray]) (simp_all add: ResultKindList True bw.emits_punctuation)
      then show ?thesis
        using ts(1) True by simp
    next
      case False
      show ?thesis
        by (rule writes_task [where f = WriteArrayStart and ts = "list_tasks nodes @ [ArrayEndTask]"])
          (simp_all add: ResultKindList False bw.emits_punctuation writes_append writes_list_tasks ts(2) writes_punctuation)
    qed
    then show ?thesis
      using json_list [OF ResultKindList ts(1)] by blast
  next
    case (ResultKindObject nodes vals)
    then obtain ts where ts: "list_all2 (json_tree leaf toks s) vals ts" "list_all2 (\<lambda>r. writes wi toks s [NodeTask r]) vals ts"
      using children [of vals] by (auto simp: held_def)
    have len: "length nodes = length vals"
      using result_treeD [OF tree less.prems] ResultKindObject by (simp add: holds_ok_def)
    have "\<forall>n \<in> set nodes. node_ResponseKey toks (x_nodes s ! n) \<noteq> None"
      using keys nth_mem [OF less.prems] ResultKindObject by (auto simp: nodes_keyed_def keyed_def)
    then have "map (\<lambda>n. node_ResponseKey toks (x_nodes s ! n)) nodes = map Some (map (\<lambda>n. the (node_ResponseKey toks (x_nodes s ! n))) nodes)"
      by simp
    then obtain ks where ks: "map (\<lambda>n. node_ResponseKey toks (x_nodes s ! n)) nodes = map Some ks"
      by blast
    let ?text = "join_json (map (\<lambda>(k, t). json_string k @ '':'' @ t) (zip ks ts))"
    have "writes wi toks s [NodeTask a] (''{'' @ ?text @ ''}'')"
    proof (cases "vals = []")
      case True
      have "writes wi toks s [NodeTask a] ''{}''"
        by (rule writes_single [where f = WriteEmptyObject]) (simp_all add: ResultKindObject True bw.emits_punctuation)
      then show ?thesis
        using ts(1) True by simp
    next
      case False
      have rest: "writes wi toks s (object_tasks nodes vals @ [ObjectEndTask]) (?text @ ''}'')"
        by (rule writes_append [OF writes_object_tasks [OF ts(2) ks len] writes_punctuation(1)])
      show ?thesis
        by (rule writes_task [where f = WriteObjectStart, OF _ bw.emits_punctuation(5) rest]) (simp add: ResultKindObject False len)
    qed
    then show ?thesis
      using json_object [OF ResultKindObject ks ts(1)] by blast
  qed
qed



end
